(* ===== verification/PyPrelude.thy ===== *)
theory PyPrelude
  imports Complex_Main "HOL-Library.Char_ord" "HOL-Library.List_Lexorder"
begin

section \<open>Python values, text and collections\<close>

text \<open>
  What every component of the toolkit shares: the values a JSON document or a store row can hold,
  and the operations of the language and of its standard library that the modelled modules apply
  to them (truth, equality, \<^verbatim>\<open>str\<close>, \<^verbatim>\<open>int\<close>, \<^verbatim>\<open>strip\<close>, \<^verbatim>\<open>lower\<close>, \<^verbatim>\<open>dict.get\<close>,
  \<^verbatim>\<open>sorted\<close>, \<^verbatim>\<open>max\<close> with a key, calendar dates).

  Conventions of the whole development:
  \<^item> text is the UTF-8 encoding as a list of bytes, so equality and the order \<open><\<close> agree with
    Python's comparison by code point; case mapping and white space are the ASCII ones;
  \<^item> a float is its exact rational value together with the text \<^verbatim>\<open>repr\<close> gives for it; the
    values not modelled are the infinities and NaN;
  \<^item> a dict is an association list in insertion order;
  \<^item> an instant is an integer number of microseconds since the epoch, in UTC;
  \<^item> a function that can raise returns \<open>error + value\<close>, with one constructor of an error
    datatype for each raise of the module; the wording of the message is not modelled.
\<close>

named_theorems py_simps \<open>evaluation rules of the Python operations\<close>

type_synonym instant = int

abbreviation sec :: "int \<Rightarrow> int" where
  "sec n \<equiv> n * 1000000"

subsection \<open>Characters and text\<close>

definition is_ws :: "char \<Rightarrow> bool" where
  "is_ws c = (let n = (of_char c :: nat) in n = 32 \<or> (9 \<le> n \<and> n \<le> 13) \<or> (28 \<le> n \<and> n \<le> 31))"

definition lower_char :: "char \<Rightarrow> char" where
  "lower_char c = (let n = (of_char c :: nat) in if 65 \<le> n \<and> n \<le> 90 then char_of (n + 32) else c)"

definition upper_char :: "char \<Rightarrow> char" where
  "upper_char c = (let n = (of_char c :: nat) in if 97 \<le> n \<and> n \<le> 122 then char_of (n - 32) else c)"

definition is_digit :: "char \<Rightarrow> bool" where
  "is_digit c = (let n = (of_char c :: nat) in 48 \<le> n \<and> n \<le> 57)"

definition digit_val :: "char \<Rightarrow> nat" where
  "digit_val c = (of_char c :: nat) - 48"

definition digit_char :: "nat \<Rightarrow> char" where
  "digit_char n = char_of (48 + n)"

definition lower :: "string \<Rightarrow> string" where
  "lower = map lower_char"

definition upper :: "string \<Rightarrow> string" where
  "upper = map upper_char"

definition lstrip :: "string \<Rightarrow> string" where
  "lstrip = dropWhile is_ws"

definition strip :: "string \<Rightarrow> string" where
  "strip s = rev (dropWhile is_ws (rev (dropWhile is_ws s)))"

fun startswith :: "string \<Rightarrow> string \<Rightarrow> bool" where
  "startswith s [] = True"
| "startswith [] (p # ps) = False"
| "startswith (c # cs) (p # ps) = (c = p \<and> startswith cs ps)"

fun contains :: "string \<Rightarrow> string \<Rightarrow> bool" where
  "contains [] p = (p = [])"
| "contains (c # cs) p = (startswith (c # cs) p \<or> contains cs p)"

definition endswith :: "string \<Rightarrow> string \<Rightarrow> bool" where
  "endswith s p = startswith (rev s) (rev p)"

fun join :: "string \<Rightarrow> string list \<Rightarrow> string" where
  "join sep [] = []"
| "join sep [s] = s"
| "join sep (s # t # ts) = s @ sep @ join sep (t # ts)"

fun split_on :: "char \<Rightarrow> string \<Rightarrow> string list" where
  "split_on d [] = [[]]"
| "split_on d (c # cs) =
     (if c = d then [] # split_on d cs
      else (case split_on d cs of [] \<Rightarrow> [[c]] | w # ws \<Rightarrow> (c # w) # ws))"

definition replace_char :: "char \<Rightarrow> char \<Rightarrow> string \<Rightarrow> string" where
  "replace_char a b = map (\<lambda>c. if c = a then b else c)"

fun partition_on :: "char \<Rightarrow> string \<Rightarrow> (string \<times> string) option" where
  "partition_on d [] = None"
| "partition_on d (c # cs) =
     (if c = d then Some ([], cs)
      else map_option (\<lambda>(a, b). (c # a, b)) (partition_on d cs))"

subsection \<open>Decimal numbers\<close>

fun show_nat :: "nat \<Rightarrow> string" where
  "show_nat n = (if n < 10 then [digit_char n] else show_nat (n div 10) @ [digit_char (n mod 10)])"

declare show_nat.simps [simp del]

definition show_int :: "int \<Rightarrow> string" where
  "show_int i = (if i < 0 then ''-'' @ show_nat (nat (- i)) else show_nat (nat i))"

fun digits_body :: "bool \<Rightarrow> string \<Rightarrow> bool" where
  "digits_body after_digit [] = after_digit"
| "digits_body after_digit (c # cs) =
     (if is_digit c then digits_body True cs
      else c = CHR ''_'' \<and> after_digit \<and> digits_body False cs)"

definition digits_value :: "string \<Rightarrow> int" where
  "digits_value s = foldl (\<lambda>a c. 10 * a + int (digit_val c)) 0 (filter is_digit s)"

text \<open>\<^verbatim>\<open>int(text)\<close>: surrounding white space, one sign, digits with single underscores between.\<close>

definition parse_int :: "string \<Rightarrow> int option" where
  "parse_int t =
     (case strip t of
        [] \<Rightarrow> None
      | c # cs \<Rightarrow>
          if c = CHR ''-'' then (if digits_body False cs then Some (- digits_value cs) else None)
          else if c = CHR ''+'' then (if digits_body False cs then Some (digits_value cs) else None)
          else if digits_body False (c # cs) then Some (digits_value (c # cs)) else None)"

subsection \<open>Values\<close>

datatype pyval =
    PNone
  | PBool bool
  | PInt int
  | PFloat rat string
  | PStr string
  | PList "pyval list"
  | PDict "(string \<times> pyval) list"

type_synonym pydict = "(string \<times> pyval) list"

fun truthy :: "pyval \<Rightarrow> bool" where
  "truthy PNone = False"
| "truthy (PBool b) = b"
| "truthy (PInt i) = (i \<noteq> 0)"
| "truthy (PFloat r t) = (r \<noteq> 0)"
| "truthy (PStr s) = (s \<noteq> [])"
| "truthy (PList xs) = (xs \<noteq> [])"
| "truthy (PDict d) = (d \<noteq> [])"

text \<open>The number a value compares as; booleans are the integers 0 and 1.\<close>

fun num_of :: "pyval \<Rightarrow> rat option" where
  "num_of (PBool b) = Some (if b then 1 else 0)"
| "num_of (PInt i) = Some (of_int i)"
| "num_of (PFloat r t) = Some r"
| "num_of _ = None"

text \<open>\<^verbatim>\<open>==\<close> against the scalars the modules compare with: numbers by value, text by text.\<close>

definition eq_text :: "pyval \<Rightarrow> string \<Rightarrow> bool" where
  "eq_text v s = (v = PStr s)"

definition eq_int :: "pyval \<Rightarrow> int \<Rightarrow> bool" where
  "eq_int v i = (num_of v = Some (of_int i))"

text \<open>\<^verbatim>\<open>value in (None, "")\<close>\<close>

definition is_absent :: "pyval \<Rightarrow> bool" where
  "is_absent v = (v = PNone \<or> eq_text v [])"

fun hex_digit :: "nat \<Rightarrow> char" where
  "hex_digit n = (if n < 10 then char_of (48 + n) else char_of (87 + n))"

definition repr_char :: "char \<Rightarrow> char \<Rightarrow> string" where
  "repr_char q c =
     (let n = (of_char c :: nat) in
      if c = q \<or> n = 92 then [CHR 0x5C, c]
      else if n = 10 then [CHR 0x5C, CHR ''n'']
      else if n = 13 then [CHR 0x5C, CHR ''r'']
      else if n = 9 then [CHR 0x5C, CHR ''t'']
      else if n < 32 \<or> n = 127 then [CHR 0x5C, CHR ''x'', hex_digit (n div 16), hex_digit (n mod 16)]
      else [c])"

definition repr_str :: "string \<Rightarrow> string" where
  "repr_str s =
     (let q = (if CHR 0x27 \<in> set s \<and> CHR 0x22 \<notin> set s then CHR 0x22 else CHR 0x27)
      in [q] @ concat (map (repr_char q) s) @ [q])"

fun py_repr :: "pyval \<Rightarrow> string" where
  "py_repr PNone = ''None''"
| "py_repr (PBool b) = (if b then ''True'' else ''False'')"
| "py_repr (PInt i) = show_int i"
| "py_repr (PFloat r t) = t"
| "py_repr (PStr s) = repr_str s"
| "py_repr (PList xs) = ''['' @ join '', '' (map py_repr xs) @ '']''"
| "py_repr (PDict d) = ''{'' @ join '', '' (map (\<lambda>(k, v). repr_str k @ '': '' @ py_repr v) d) @ ''}''"

definition py_str :: "pyval \<Rightarrow> string" where
  "py_str v = (case v of PStr s \<Rightarrow> s | _ \<Rightarrow> py_repr v)"

text \<open>\<^verbatim>\<open>str(value or "")\<close>\<close>

definition str_or :: "pyval \<Rightarrow> string" where
  "str_or v = (if truthy v then py_str v else [])"

text \<open>\<^verbatim>\<open>int(value)\<close>; \<open>None\<close> where it raises \<^verbatim>\<open>TypeError\<close> or \<^verbatim>\<open>ValueError\<close>.\<close>

fun py_int :: "pyval \<Rightarrow> int option" where
  "py_int (PBool b) = Some (if b then 1 else 0)"
| "py_int (PInt i) = Some i"
| "py_int (PFloat r t) = Some (if 0 \<le> r then \<lfloor>r\<rfloor> else \<lceil>r\<rceil>)"
| "py_int (PStr s) = parse_int s"
| "py_int _ = None"

subsection \<open>Dictionaries\<close>

definition get :: "pydict \<Rightarrow> string \<Rightarrow> pyval" where
  "get d k = (case map_of d k of None \<Rightarrow> PNone | Some v \<Rightarrow> v)"

definition get_or :: "pydict \<Rightarrow> string \<Rightarrow> pyval \<Rightarrow> pyval" where
  "get_or d k v = (case map_of d k of None \<Rightarrow> v | Some w \<Rightarrow> w)"

definition has_key :: "pydict \<Rightarrow> string \<Rightarrow> bool" where
  "has_key d k = (map_of d k \<noteq> None)"

fun upd :: "string \<Rightarrow> 'v \<Rightarrow> (string \<times> 'v) list \<Rightarrow> (string \<times> 'v) list" where
  "upd k v [] = [(k, v)]"
| "upd k v ((k', v') # d) = (if k' = k then (k, v) # d else (k', v') # upd k v d)"

text \<open>A dict comprehension or \<^verbatim>\<open>dict(pairs)\<close>: a later pair replaces an earlier one with the same key.\<close>

definition dict_of :: "(string \<times> 'v) list \<Rightarrow> (string \<times> 'v) list" where
  "dict_of kvs = foldl (\<lambda>d (k, v). upd k v d) [] kvs"

text \<open>\<^verbatim>\<open>d.update(e)\<close>\<close>

definition update_with :: "(string \<times> 'v) list \<Rightarrow> (string \<times> 'v) list \<Rightarrow> (string \<times> 'v) list" where
  "update_with d e = foldl (\<lambda>d (k, v). upd k v d) d e"

text \<open>\<^verbatim>\<open>sorted(d)\<close>\<close>

definition sorted_keys :: "(string \<times> 'v) list \<Rightarrow> string list" where
  "sorted_keys d = sort (map fst d)"

definition is_dict :: "pyval \<Rightarrow> bool" where
  "is_dict v = (case v of PDict d \<Rightarrow> True | _ \<Rightarrow> False)"

definition as_dict :: "pyval \<Rightarrow> pydict" where
  "as_dict v = (case v of PDict d \<Rightarrow> d | _ \<Rightarrow> [])"

definition as_list :: "pyval \<Rightarrow> pyval list" where
  "as_list v = (case v of PList xs \<Rightarrow> xs | _ \<Rightarrow> [])"

subsection \<open>Results\<close>

definition rbind :: "'e + 'a \<Rightarrow> ('a \<Rightarrow> 'e + 'b) \<Rightarrow> 'e + 'b" where
  "rbind r f = (case r of Inl e \<Rightarrow> Inl e | Inr x \<Rightarrow> f x)"

fun map_res :: "('a \<Rightarrow> 'e + 'b) \<Rightarrow> 'a list \<Rightarrow> 'e + 'b list" where
  "map_res f [] = Inr []"
| "map_res f (x # xs) = rbind (f x) (\<lambda>y. rbind (map_res f xs) (\<lambda>ys. Inr (y # ys)))"

definition check :: "bool \<Rightarrow> 'e \<Rightarrow> 'e + unit" where
  "check b e = (if b then Inr () else Inl e)"

subsection \<open>Rounding\<close>

text \<open>\<^verbatim>\<open>round(x)\<close>: to the nearest whole number, a half to the even one.\<close>

definition round_half_even :: "rat \<Rightarrow> int" where
  "round_half_even x =
     (let f = \<lfloor>x\<rfloor>; r = x - of_int f in
      if r < 1 / 2 then f else if 1 / 2 < r then f + 1 else if f mod 2 = 0 then f else f + 1)"

subsection \<open>Ordered choice\<close>

text \<open>\<^verbatim>\<open>max(xs, key=f)\<close>: the first of the greatest.\<close>

fun max_by :: "('a \<Rightarrow> 'k::linorder) \<Rightarrow> 'a \<Rightarrow> 'a list \<Rightarrow> 'a" where
  "max_by f b [] = b"
| "max_by f b (x # xs) = (if f b < f x then max_by f x xs else max_by f b xs)"

text \<open>A list grouped by a key, in the order the keys first appear (\<^verbatim>\<open>setdefault(...).append\<close>).\<close>

fun add_to_group :: "'k \<Rightarrow> 'a \<Rightarrow> ('k \<times> 'a list) list \<Rightarrow> ('k \<times> 'a list) list" where
  "add_to_group k x [] = [(k, [x])]"
| "add_to_group k x ((k', ys) # gs) =
     (if k' = k then (k', ys @ [x]) # gs else (k', ys) # add_to_group k x gs)"

definition group_by :: "('a \<Rightarrow> 'k) \<Rightarrow> 'a list \<Rightarrow> ('k \<times> 'a list) list" where
  "group_by f xs = foldl (\<lambda>gs x. add_to_group (f x) x gs) [] xs"

subsection \<open>The calendar\<close>

record civil =
  c_year :: int
  c_month :: int
  c_day :: int
  c_hour :: int
  c_minute :: int

definition is_leap :: "int \<Rightarrow> bool" where
  "is_leap y = (y mod 4 = 0 \<and> (y mod 100 \<noteq> 0 \<or> y mod 400 = 0))"

definition days_before_year :: "int \<Rightarrow> int" where
  "days_before_year y = (let z = y - 1 in z * 365 + z div 4 - z div 100 + z div 400)"

definition days_before_month :: "int \<Rightarrow> int \<Rightarrow> int" where
  "days_before_month y m =
     [0, 31, 59, 90, 120, 151, 181, 212, 243, 273, 304, 334] ! nat (m - 1) +
     (if 2 < m \<and> is_leap y then 1 else 0)"

definition toordinal :: "civil \<Rightarrow> int" where
  "toordinal c = days_before_year (c_year c) + days_before_month (c_year c) (c_month c) + c_day c"

definition month_days :: "int \<Rightarrow> int \<Rightarrow> int" where
  "month_days y m = (if m = 2 then (if is_leap y then 29 else 28) else if m \<in> {4, 6, 9, 11} then 30 else 31)"

text \<open>Seconds since the epoch of a wall-clock reading in UTC; 719163 is the ordinal of 1970-01-01.\<close>

definition wall_seconds :: "civil \<Rightarrow> int \<Rightarrow> int" where
  "wall_seconds c ss = (toordinal c - 719163) * 86400 + c_hour c * 3600 + c_minute c * 60 + ss"

definition isoweekday :: "civil \<Rightarrow> int" where
  "isoweekday c = (let r = toordinal c mod 7 in if r = 0 then 7 else r)"


subsection \<open>Laws of text\<close>

lemma lower_char_idem [simp]: "lower_char (lower_char c) = lower_char c"
  by (auto simp: lower_char_def Let_def)

lemma lower_lower [simp]: "lower (lower s) = lower s"
  by (simp add: lower_def)

lemma is_ws_lower_char [simp]: "is_ws (lower_char c) = is_ws c"
  by (auto simp: lower_char_def is_ws_def Let_def)

lemma upper_char_idem [simp]: "upper_char (upper_char c) = upper_char c"
  by (auto simp: upper_char_def Let_def)

lemma upper_upper [simp]: "upper (upper s) = upper s"
  by (simp add: upper_def)

lemma lower_Nil [simp]: "lower [] = []" and upper_Nil [simp]: "upper [] = []"
  by (simp_all add: lower_def upper_def)

lemma strip_Nil [simp]: "strip [] = []"
  by (simp add: strip_def)

lemma dropWhile_rev_dropWhile:
  "dropWhile P (rev (dropWhile P (rev (dropWhile P s)))) = rev (dropWhile P (rev (dropWhile P s)))"
proof (cases "dropWhile P s")
  case Nil
  show ?thesis unfolding Nil by simp
next
  case (Cons c cs)
  then have "\<not> P c"
    using hd_dropWhile [of P s] by simp
  then have "dropWhile P (rev cs @ [c]) = dropWhile P (rev cs) @ [c]"
    by (simp add: dropWhile_append3)
  with Cons \<open>\<not> P c\<close> show ?thesis by simp
qed

lemma strip_strip [simp]: "strip (strip s) = strip s"
  by (simp add: strip_def dropWhile_rev_dropWhile)

lemma strip_no_ws: "\<forall>c\<in>set s. \<not> is_ws c \<Longrightarrow> strip s = s"
proof -
  assume a: "\<forall>c\<in>set s. \<not> is_ws c"
  then have "dropWhile is_ws s = s"
    by (cases s) auto
  moreover have "dropWhile is_ws (rev s) = rev s"
    using a by (cases "rev s") (auto simp: dropWhile_eq_self_iff)
  ultimately show "strip s = s"
    by (simp add: strip_def)
qed

lemma startswith_append [simp]: "startswith (p @ s) p"
  by (induction p) auto

lemma startswith_iff: "startswith s p \<longleftrightarrow> (\<exists>t. s = p @ t)"
  by (induction s p rule: startswith.induct) auto

lemma contains_iff: "contains s p \<longleftrightarrow> (\<exists>a b. s = a @ p @ b)"
proof (induction s)
  case Nil
  then show ?case by auto
next
  case (Cons c cs)
  show ?case
  proof
    assume "contains (c # cs) p"
    then consider "startswith (c # cs) p" | "contains cs p" by auto
    then show "\<exists>a b. c # cs = a @ p @ b"
    proof cases
      case 1
      then show ?thesis by (metis append_Nil startswith_iff)
    next
      case 2
      then show ?thesis using Cons.IH by (metis append_Cons)
    qed
  next
    assume "\<exists>a b. c # cs = a @ p @ b"
    then obtain a b where ab: "c # cs = a @ p @ b" by blast
    show "contains (c # cs) p"
    proof (cases a)
      case Nil
      then show ?thesis using ab by (metis append_Nil contains.simps(2) startswith_append)
    next
      case (Cons x xs)
      then show ?thesis using ab Cons.IH by auto
    qed
  qed
qed

subsection \<open>Decimal round trip\<close>

lemma digit_char_val [simp]: "n < 10 \<Longrightarrow> digit_val (digit_char n) = n"
  by (simp add: digit_val_def digit_char_def)

lemma digit_char_is_digit [simp]: "n < 10 \<Longrightarrow> is_digit (digit_char n)"
  by (simp add: is_digit_def digit_char_def Let_def)

lemma digit_not_ws: "is_digit c \<Longrightarrow> \<not> is_ws c"
  by (auto simp: is_digit_def is_ws_def Let_def)

lemma show_nat_digits: "\<forall>c\<in>set (show_nat n). is_digit c"
proof (induction n rule: show_nat.induct)
  case (1 n)
  then show ?case
    by (subst show_nat.simps) auto
qed

lemma show_nat_nonempty [simp]: "show_nat n \<noteq> []"
  by (subst show_nat.simps) simp

lemma digits_body_all: "\<forall>c\<in>set s. is_digit c \<Longrightarrow> digits_body b s = (b \<or> s \<noteq> [])"
  by (induction s arbitrary: b) auto

lemma digits_value_snoc: "is_digit c \<Longrightarrow> digits_value (s @ [c]) = 10 * digits_value s + int (digit_val c)"
  by (simp add: digits_value_def)

lemma digits_value_show_nat: "digits_value (show_nat n) = int n"
proof (induction n rule: show_nat.induct)
  case (1 n)
  show ?case
  proof (cases "n < 10")
    case True
    then show ?thesis
      by (simp add: show_nat.simps [of n] digits_value_def)
  next
    case False
    with 1 have "digits_value (show_nat (n div 10)) = int (n div 10)" by simp
    then have "digits_value (show_nat (n div 10) @ [digit_char (n mod 10)])
               = 10 * int (n div 10) + int (n mod 10)"
      by (subst digits_value_snoc) simp_all
    moreover have "10 * int (n div 10) + int (n mod 10) = int n"
      by presburger
    ultimately show ?thesis
      using False by (simp add: show_nat.simps [of n])
  qed
qed

lemma parse_int_show_nat: "parse_int (show_nat n) = Some (int n)"
proof -
  obtain c cs where s: "show_nat n = c # cs"
    by (meson neq_Nil_conv show_nat_nonempty)
  then have d: "is_digit c"
    using show_nat_digits [of n] by simp
  have "strip (show_nat n) = show_nat n"
    by (rule strip_no_ws) (use show_nat_digits digit_not_ws in blast)
  moreover have "c \<noteq> CHR ''-''" "c \<noteq> CHR ''+''"
    using d by (auto simp: is_digit_def)
  moreover have "digits_body False (c # cs)"
    using digits_body_all [of "show_nat n" False] show_nat_digits [of n] s by simp
  ultimately show ?thesis
    using digits_value_show_nat [of n] by (simp add: parse_int_def s)
qed

lemma parse_int_show_int [simp]: "parse_int (show_int i) = Some i"
proof (cases "i < 0")
  case True
  let ?s = "show_nat (nat (- i))"
  have "strip (''-'' @ ?s) = ''-'' @ ?s"
    by (rule strip_no_ws)
      (use show_nat_digits digit_not_ws in \<open>auto simp: is_ws_def Let_def\<close>)
  moreover have "digits_body False ?s"
    using digits_body_all [of ?s False] show_nat_digits by simp
  ultimately show ?thesis
    using True digits_value_show_nat [of "nat (- i)"] by (simp add: parse_int_def show_int_def)
next
  case False
  then show ?thesis
    by (simp add: show_int_def parse_int_show_nat)
qed

lemma show_int_nonempty [simp]: "show_int i \<noteq> []"
  by (simp add: show_int_def)

subsection \<open>Laws of dictionaries and results\<close>

lemma map_of_upd [simp]: "map_of (upd k v d) = (map_of d)(k \<mapsto> v)"
  by (induction d) auto

lemma fst_set_upd [simp]: "fst ` set (upd k v d) = insert k (fst ` set d)"
  by (induction k v d rule: upd.induct) auto

lemma distinct_upd: "distinct (map fst d) \<Longrightarrow> distinct (map fst (upd k v d))"
proof (induction d)
  case (Cons p d)
  then show ?case
    using fst_set_upd [of k v d] by (cases p) (auto simp: image_def)
qed simp

lemma map_of_update_with: "map_of (update_with d e) = map_of d ++ map_of (rev e)"
  by (induction e arbitrary: d) (auto simp: update_with_def fun_eq_iff map_add_def split: option.splits)

lemma dict_of_update_with: "dict_of kvs = update_with [] kvs"
  by (simp add: dict_of_def update_with_def)

lemma map_of_dict_of: "map_of (dict_of kvs) = map_of (rev kvs)"
  by (simp add: dict_of_update_with map_of_update_with)

lemma distinct_update_with: "distinct (map fst d) \<Longrightarrow> distinct (map fst (update_with d e))"
  by (induction e arbitrary: d) (auto simp: update_with_def distinct_upd)

lemma distinct_dict_of [simp]: "distinct (map fst (dict_of kvs))"
  by (simp add: dict_of_update_with distinct_update_with)

lemma sorted_keys_sorted [simp]: "sorted (sorted_keys d)"
  by (simp add: sorted_keys_def)

lemma sorted_keys_distinct: "distinct (map fst d) \<Longrightarrow> distinct (sorted_keys d)"
  by (simp add: sorted_keys_def)

lemma set_sorted_keys: "set (sorted_keys d) = {k. \<exists>v. map_of d k = Some v}"
  by (auto simp: sorted_keys_def image_iff intro: map_of_SomeD dest: weak_map_of_SomeI) (metis map_of_SomeD fst_conv)

lemma str_or_simps [simp, py_simps]:
  "py_str (PStr s) = s" "str_or (PStr s) = s" "str_or PNone = []"
  by (simp_all add: str_or_def py_str_def)

lemma rbind_simps [simp, py_simps]: "rbind (Inl e) f = Inl e" "rbind (Inr x) f = f x"
  by (simp_all add: rbind_def)

lemma rbind_eq_Inr: "rbind r f = Inr y \<longleftrightarrow> (\<exists>x. r = Inr x \<and> f x = Inr y)"
  by (cases r) auto

lemma check_eq_Inr [simp]: "check b e = Inr u \<longleftrightarrow> b"
  by (simp add: check_def)

lemma map_res_Inr: "map_res f xs = Inr ys \<longleftrightarrow> list_all2 (\<lambda>x y. f x = Inr y) xs ys"
  by (induction xs arbitrary: ys) (auto simp: rbind_eq_Inr list_all2_Cons1)

subsection \<open>Laws of choice and grouping\<close>

lemma map_filter_map: "List.map_filter f (map g xs) = List.map_filter (\<lambda>x. f (g x)) xs"
  by (induction xs) (simp_all add: map_filter_simps split: option.split)

lemma map_filter_map_option: "List.map_filter (\<lambda>x. map_option g (f x)) xs = map g (List.map_filter f xs)"
  by (induction xs) (auto simp: map_filter_simps split: option.splits)

lemma map_filter_cong: "(\<And>x. x \<in> set xs \<Longrightarrow> f x = g x) \<Longrightarrow> List.map_filter f xs = List.map_filter g xs"
  by (induction xs) (auto simp: map_filter_simps split: option.splits)

lemma max_by_in: "max_by f b xs \<in> insert b (set xs)"
  by (induction f b xs rule: max_by.induct) auto

lemma max_by_ge: "f b \<le> f (max_by f b xs)" "x \<in> set xs \<Longrightarrow> f x \<le> f (max_by f b xs)"
proof (induction f b xs rule: max_by.induct)
  case (2 f b y ys)
  {
    case 1
    then show ?case using "2.IH" by (auto intro: order.trans less_imp_le)
  next
    case 2
    then show ?case using "2.IH" by (auto intro: order.trans less_imp_le)
  }
qed simp_all

lemma map_of_add_to_group:
  "map_of (add_to_group k x gs) j =
     (if j = k then Some ((case map_of gs k of None \<Rightarrow> [] | Some ys \<Rightarrow> ys) @ [x]) else map_of gs j)"
  by (induction k x gs rule: add_to_group.induct) auto

lemma map_of_group_by:
  "map_of (group_by f xs) k = (if k \<in> f ` set xs then Some (filter (\<lambda>x. f x = k) xs) else None)"
proof (induction xs rule: rev_induct)
  case Nil
  then show ?case by (simp add: group_by_def)
next
  case (snoc x xs)
  then show ?case
    by (auto simp: group_by_def map_of_add_to_group image_iff eq_commute [of "[]"] filter_empty_conv)
      metis
qed

lemma fst_set_add_to_group: "fst ` set (add_to_group k x gs) = insert k (fst ` set gs)"
  by (induction k x gs rule: add_to_group.induct) auto

lemma distinct_add_to_group: "distinct (map fst gs) \<Longrightarrow> distinct (map fst (add_to_group k x gs))"
proof (induction k x gs rule: add_to_group.induct)
  case (2 k x k' ys gs)
  then show ?case
    using fst_set_add_to_group [of k x gs] by (auto simp: image_def)
qed simp

lemma distinct_group_by: "distinct (map fst (group_by f xs))"
  by (induction xs rule: rev_induct) (auto simp: group_by_def distinct_add_to_group)

lemma group_by_member: "(k, ys) \<in> set (group_by f xs) \<Longrightarrow> ys = filter (\<lambda>x. f x = k) xs \<and> k \<in> f ` set xs"
  using map_of_group_by [of f xs k] map_of_eq_Some_iff [OF distinct_group_by, of f xs k ys]
  by (auto split: if_splits)

lemma isoweekday_range: "1 \<le> isoweekday c \<and> isoweekday c \<le> 7"
proof -
  have "0 \<le> toordinal c mod 7" "toordinal c mod 7 < 7" by simp_all
  then show ?thesis unfolding isoweekday_def Let_def by (smt (verit, best))
qed

subsection \<open>Interfaces shared by several components\<close>

text \<open>
  Several modules keep the worst of a sequence of states under a rank of their own, always by
  \<^verbatim>\<open>if RANK[state] > RANK[worst]: worst = state\<close>. The contract is the rank alone.
\<close>

locale ranked =
  fixes rank :: "'s \<Rightarrow> int"
begin

definition worse :: "'s \<Rightarrow> 's \<Rightarrow> 's" where
  "worse w s = (if rank w < rank s then s else w)"

definition worst :: "'s \<Rightarrow> 's list \<Rightarrow> 's" where
  "worst w ss = foldl worse w ss"

lemma worst_in: "worst w ss \<in> insert w (set ss)"
proof (induction ss arbitrary: w)
  case (Cons s ss)
  then show ?case by (auto simp: worst_def worse_def)
qed (simp add: worst_def)

lemma worst_ge: "rank w \<le> rank (worst w ss)" "s \<in> set ss \<Longrightarrow> rank s \<le> rank (worst w ss)"
proof (induction ss arbitrary: w)
  case (Cons a ss)
  {
    case 1
    have "rank w \<le> rank (worse w a)" by (simp add: worse_def)
    also have "\<dots> \<le> rank (worst (worse w a) ss)" by (rule Cons.IH(1))
    finally show ?case by (simp add: worst_def)
  next
    case 2
    show ?case
    proof (cases "s = a")
      case True
      have "rank a \<le> rank (worse w a)" by (simp add: worse_def)
      also have "\<dots> \<le> rank (worst (worse w a) ss)" by (rule Cons.IH(1))
      finally show ?thesis using True by (simp add: worst_def)
    next
      case False
      then show ?thesis using 2 Cons.IH(2) [of "worse w a"] by (simp add: worst_def)
    qed
  }
qed (simp_all add: worst_def)

lemma worst_eq_Max: "rank (worst w ss) = Max (insert (rank w) (rank ` set ss))"
proof (rule sym, rule Max_eqI)
  show "rank (worst w ss) \<in> insert (rank w) (rank ` set ss)"
    using worst_in [of w ss] by auto
qed (use worst_ge in auto)

end

text \<open>
  A store component: an initial state, a step relation and a predicate that every step keeps. What
  the client gets is that the predicate holds after any sequence of steps.
\<close>

locale kept =
  fixes step :: "'s \<Rightarrow> 's \<Rightarrow> bool"
    and inv :: "'s \<Rightarrow> bool"
  assumes step_inv: "inv s \<Longrightarrow> step s t \<Longrightarrow> inv t"
begin

lemma run_inv: "step\<^sup>*\<^sup>* s t \<Longrightarrow> inv s \<Longrightarrow> inv t"
  by (induction rule: rtranclp_induct) (auto intro: step_inv)

end

end
