(* ===== verification/Coerce.thy ===== *)
theory Coerce
  imports PyPrelude
begin

section \<open>Reading a value that may not be the type it means\<close>

text \<open>
  Models \<^verbatim>\<open>dbabrain/lib/coerce.py\<close> (the readers of hand-edited configuration and of store
  rows) and the kinds of \<^verbatim>\<open>dbabrain/lib/errors.py\<close>. The ISO parser of the standard library,
  \<^verbatim>\<open>datetime.fromisoformat\<close>, is the argument \<open>fromiso\<close>: for a text it answers the wall-clock
  microseconds and, when the text carries one, the offset from UTC in microseconds. What is proved
  holds for every such parser.
\<close>

subsection \<open>errors.py\<close>

datatype error_class =
    DbaBrainError | RequestError | ConfigError | NotConfigured | Refused | Unreachable
  | OperationFailed | InvalidConfig | InvalidRequest
  | ConnectionError | TimeoutError | OtherError

datatype error_kind =
    KIND_REQUEST | KIND_NOT_CONFIGURED | KIND_REFUSED | KIND_UNREACHABLE | KIND_FAILED
  | KIND_CONFIG | KIND_INTERNAL

fun class_kind :: "error_class \<Rightarrow> error_kind" where
  "class_kind RequestError = KIND_REQUEST"
| "class_kind ConfigError = KIND_CONFIG"
| "class_kind NotConfigured = KIND_NOT_CONFIGURED"
| "class_kind Refused = KIND_REFUSED"
| "class_kind Unreachable = KIND_UNREACHABLE"
| "class_kind OperationFailed = KIND_FAILED"
| "class_kind InvalidConfig = KIND_CONFIG"
| "class_kind InvalidRequest = KIND_REQUEST"
| "class_kind _ = KIND_INTERNAL"

fun is_dbabrain :: "error_class \<Rightarrow> bool" where
  "is_dbabrain ConnectionError = False"
| "is_dbabrain TimeoutError = False"
| "is_dbabrain OtherError = False"
| "is_dbabrain _ = True"

definition kind_of :: "error_class \<Rightarrow> error_kind" where
  "kind_of c =
     (if is_dbabrain c then class_kind c
      else if c = ConnectionError \<or> c = TimeoutError then KIND_UNREACHABLE
      else KIND_INTERNAL)"

subsection \<open>coerce.py\<close>

definition TRUE_WORDS :: "string list" where
  "TRUE_WORDS = [''1'', ''true'', ''yes'', ''y'', ''on'']"

definition as_bool :: "pyval \<Rightarrow> bool \<Rightarrow> bool" where
  "as_bool v dflt =
     (if is_absent v then dflt
      else case v of PBool b \<Rightarrow> b | _ \<Rightarrow> lower (strip (py_str v)) \<in> set TRUE_WORDS)"

definition as_int :: "pyval \<Rightarrow> int \<Rightarrow> int" where
  "as_int v dflt =
     (if is_absent v then dflt else case py_int v of None \<Rightarrow> dflt | Some i \<Rightarrow> i)"

definition as_optional_int :: "pyval \<Rightarrow> int option" where
  "as_optional_int v = (if is_absent v then None else py_int v)"

type_synonym iso_parser = "string \<Rightarrow> (int \<times> int option) option"

fun replace_Z :: "string \<Rightarrow> string" where
  "replace_Z [] = []"
| "replace_Z (c # cs) = (if c = CHR ''Z'' then ''+00:00'' @ replace_Z cs else c # replace_Z cs)"

definition as_utc_datetime :: "iso_parser \<Rightarrow> pyval \<Rightarrow> instant option" where
  "as_utc_datetime fromiso v =
     (let text = strip (str_or v) in
      if text = [] then None
      else case fromiso (replace_Z text) of
             None \<Rightarrow> None
           | Some (wall, None) \<Rightarrow> Some wall
           | Some (wall, Some off) \<Rightarrow> Some (wall - off))"

text \<open>
  \<^verbatim>\<open>float(value)\<close>. The decimal parser of the language is the argument \<open>fl\<close>: for a text it answers
  the number the text denotes, or nothing where \<^verbatim>\<open>float\<close> raises \<^verbatim>\<open>ValueError\<close>.
\<close>

type_synonym float_parser = "string \<Rightarrow> rat option"

definition as_float :: "float_parser \<Rightarrow> pyval \<Rightarrow> rat option \<Rightarrow> rat option" where
  "as_float fl v dflt =
     (case v of
        PStr s \<Rightarrow> (case fl s of None \<Rightarrow> dflt | Some r \<Rightarrow> Some r)
      | _ \<Rightarrow> (case num_of v of None \<Rightarrow> dflt | Some r \<Rightarrow> Some r))"

lemma as_float_unreadable_is_unknown [simp]: "as_float fl PNone d = d" "as_float fl (PInt i) d = Some (of_int i)"
  by (simp_all add: as_float_def)

lemma as_optional_int_show: "as_optional_int (PStr (show_int i)) = Some i"
  by (simp add: as_optional_int_def is_absent_def eq_text_def)

lemma as_int_as_optional: "as_int v d = (case as_optional_int v of None \<Rightarrow> d | Some i \<Rightarrow> i)"
  by (simp add: as_int_def as_optional_int_def)

lemma as_utc_datetime_absent [simp]: "as_utc_datetime fromiso PNone = None"
  by (simp add: as_utc_datetime_def)

end
