(* ===== verification/TimeWindow.thy ===== *)
theory TimeWindow
  imports Coerce
begin

section \<open>When a unit of work may run, and whether it is due\<close>

text \<open>
  Models \<^verbatim>\<open>dbabrain/lib/time_window.py\<close>, the scheduling rule shared by the daemon, the SQL
  tasks, the metrics collector and the reports. \<open>time_window\<close> is the dataclass of the fourteen
  fields; \<open>parse_time_window_config\<close> reads one from a configuration record;
  \<open>time_window_closed_reason\<close> is the wall-clock check on a calendar moment;
  \<open>explain_due\<close> is the rule over the previous run's start; \<open>due_from_row\<close> joins the two on a
  store row. Intervals are whole seconds, instants microseconds, so the five-percent grace of
  \<open>due_grace_seconds\<close> is exact.
\<close>

subsection \<open>The data\<close>

record time_window =
  from_year :: "int option"
  to_year :: "int option"
  from_month :: "int option"
  to_month :: "int option"
  from_day :: "int option"
  to_day :: "int option"
  from_hour :: "int option"
  to_hour :: "int option"
  from_minute :: "int option"
  to_minute :: "int option"
  repeat_interval :: "int option"
  retry_interval :: "int option"
  timeout :: "int option"
  weekdays :: "int list option"

definition default_time_window :: time_window where
  "default_time_window = \<lparr>from_year = None, to_year = None, from_month = None, to_month = None,
     from_day = None, to_day = None, from_hour = None, to_hour = None, from_minute = None,
     to_minute = None, repeat_interval = None, retry_interval = None, timeout = None,
     weekdays = None\<rparr>"

datatype tw_error =
    NotAnObject
  | NotAnInteger string
  | NotAWeekdayArray
  | NotAWholeNumber
  | NotAnIsoWeekday int
  | WeekdayTwice int
  | MustNotBeNegative string int
  | BadRepeatInterval int

definition RUN_ONCE :: int where
  "RUN_ONCE = 0"

definition MANUAL_ONLY :: int where
  "MANUAL_ONLY = -1"

definition ERROR_STATUSES :: "string list" where
  "ERROR_STATUSES = [''error'', ''timeout'', ''fail'', ''failed'', ''failure'']"

definition INT_FIELDS :: "string list" where
  "INT_FIELDS = [''from_year'', ''to_year'', ''from_month'', ''to_month'', ''from_day'', ''to_day'',
     ''from_hour'', ''to_hour'', ''from_minute'', ''to_minute'', ''repeat_interval'',
     ''retry_interval'', ''timeout'']"

definition WEEKDAYS_FIELD :: string where
  "WEEKDAYS_FIELD = ''weekdays''"

definition LEGACY_TIME_WINDOW_FIELDS :: "(string \<times> string) list" where
  "LEGACY_TIME_WINDOW_FIELDS =
     [(''day_from'', ''from_day''), (''day_to'', ''to_day''),
      (''hour_from'', ''from_hour''), (''hour_to'', ''to_hour'')]"

definition LEGACY_TOP_LEVEL_FIELDS :: "(string \<times> string) list" where
  "LEGACY_TOP_LEVEL_FIELDS =
     [(''interval_second'', ''repeat_interval''), (''interval_seconds'', ''repeat_interval''),
      (''repeat_interval_seconds'', ''repeat_interval''), (''timeout_seconds'', ''timeout''),
      (''default_timeout'', ''timeout''), (''check_error_interval_seconds'', ''timeout''),
      (''allowed_from_day'', ''from_day''), (''allowed_to_day'', ''to_day''),
      (''allowed_from_hour'', ''from_hour''), (''allowed_to_hour'', ''to_hour'')]"

subsection \<open>Parsing\<close>

type_synonym int_values = "(string \<times> int option) list"

definition optional_int :: "pyval \<Rightarrow> string \<Rightarrow> tw_error + int option" where
  "optional_int v name =
     (if is_absent v then Inr None
      else case py_int v of Some i \<Rightarrow> Inr (Some i) | None \<Rightarrow> Inl (NotAnInteger name))"

definition weekday_item :: "pyval \<Rightarrow> tw_error + int" where
  "weekday_item item =
     (case item of
        PInt i \<Rightarrow> Inr i
      | _ \<Rightarrow> (case parse_int (strip (py_str item)) of
               None \<Rightarrow> Inl NotAWholeNumber | Some i \<Rightarrow> Inr i))"

fun weekday_loop :: "int list \<Rightarrow> pyval list \<Rightarrow> tw_error + int list" where
  "weekday_loop parsed [] = Inr parsed"
| "weekday_loop parsed (item # rest) =
     rbind (weekday_item item) (\<lambda>i.
       if \<not> (1 \<le> i \<and> i \<le> 7) then Inl (NotAnIsoWeekday i)
       else if i \<in> set parsed then Inl (WeekdayTwice i)
       else weekday_loop (parsed @ [i]) rest)"

definition parse_weekdays :: "pyval \<Rightarrow> tw_error + int list option" where
  "parse_weekdays v =
     (if is_absent v then Inr None
      else case v of
             PList items \<Rightarrow> rbind (weekday_loop [] items) (\<lambda>p. Inr (Some p))
           | _ \<Rightarrow> Inl NotAWeekdayArray)"

text \<open>
  The three reading loops have one shape: for each pair of a source name and a field, when the
  document has the source name, read it into the field. \<open>warn\<close> is the deprecation warning.
\<close>

fun read_fields ::
  "string \<Rightarrow> (string \<Rightarrow> string \<Rightarrow> string list) \<Rightarrow> pydict \<Rightarrow> (string \<times> string) list
   \<Rightarrow> int_values \<times> string list \<Rightarrow> tw_error + int_values \<times> string list" where
  "read_fields prefix warn doc [] acc = Inr acc"
| "read_fields prefix warn doc ((old, new) # rest) (values, warnings) =
     (if has_key doc old then
        rbind (optional_int (get doc old) (prefix @ old)) (\<lambda>i.
          read_fields prefix warn doc rest (upd new i values, warnings @ warn old new))
      else read_fields prefix warn doc rest (values, warnings))"

fun read_defaults :: "string \<Rightarrow> pydict \<Rightarrow> string list \<Rightarrow> tw_error + int_values" where
  "read_defaults context defaults [] = Inr []"
| "read_defaults context defaults (field # rest) =
     rbind (if has_key defaults field
            then optional_int (get defaults field) (context @ ''.time_window.'' @ field @ ''.default'')
            else Inr None) (\<lambda>i.
     rbind (read_defaults context defaults rest) (\<lambda>vs. Inr ((field, i) # vs)))"

definition int_value :: "int_values \<Rightarrow> string \<Rightarrow> int option" where
  "int_value values name = (case map_of values name of None \<Rightarrow> None | Some i \<Rightarrow> i)"

definition validate_non_negative_scalar :: "int_values \<Rightarrow> string \<Rightarrow> tw_error + unit" where
  "validate_non_negative_scalar values name =
     (case int_value values name of
        Some i \<Rightarrow> check (0 \<le> i) (MustNotBeNegative name i) | None \<Rightarrow> Inr ())"

definition validate_non_negative :: "int_values \<Rightarrow> string \<Rightarrow> tw_error + unit" where
  "validate_non_negative values name =
     rbind (validate_non_negative_scalar values (''from_'' @ name)) (\<lambda>_.
       validate_non_negative_scalar values (''to_'' @ name))"

definition validate_repeat_interval :: "int_values \<Rightarrow> tw_error + unit" where
  "validate_repeat_interval values =
     (case int_value values ''repeat_interval'' of
        Some i \<Rightarrow> check (0 \<le> i \<or> i = MANUAL_ONLY) (BadRepeatInterval i) | None \<Rightarrow> Inr ())"

definition window_of_values :: "int_values \<Rightarrow> int list option \<Rightarrow> time_window" where
  "window_of_values values days = \<lparr>
     from_year = int_value values ''from_year'', to_year = int_value values ''to_year'',
     from_month = int_value values ''from_month'', to_month = int_value values ''to_month'',
     from_day = int_value values ''from_day'', to_day = int_value values ''to_day'',
     from_hour = int_value values ''from_hour'', to_hour = int_value values ''to_hour'',
     from_minute = int_value values ''from_minute'', to_minute = int_value values ''to_minute'',
     repeat_interval = int_value values ''repeat_interval'',
     retry_interval = int_value values ''retry_interval'',
     timeout = int_value values ''timeout'', weekdays = days\<rparr>"

definition validate_values :: "int_values \<Rightarrow> tw_error + unit" where
  "validate_values values =
     rbind (validate_non_negative values ''year'') (\<lambda>_.
     rbind (validate_non_negative values ''month'') (\<lambda>_.
     rbind (validate_non_negative values ''day'') (\<lambda>_.
     rbind (validate_non_negative values ''hour'') (\<lambda>_.
     rbind (validate_non_negative values ''minute'') (\<lambda>_.
     rbind (validate_repeat_interval values) (\<lambda>_.
     rbind (validate_non_negative_scalar values ''retry_interval'') (\<lambda>_.
     validate_non_negative_scalar values ''timeout'')))))))"

definition parse_time_window_config ::
  "pydict \<Rightarrow> string \<Rightarrow> pydict \<Rightarrow> tw_error + time_window \<times> string list" where
  "parse_time_window_config item context defaults =
     (let got = get item ''time_window'';
          given = (if truthy got then got else PDict []);
          raw_value = (if is_absent given then PDict [] else given) in
      if \<not> is_dict raw_value then Inl NotAnObject else
      let raw = as_dict raw_value;
          tw = context @ ''.time_window.'' in
      rbind (read_defaults context defaults INT_FIELDS) (\<lambda>values0.
      rbind (if has_key defaults WEEKDAYS_FIELD then parse_weekdays (get defaults WEEKDAYS_FIELD)
             else Inr None) (\<lambda>days0.
      rbind (read_fields (context @ ''.'')
               (\<lambda>old new. [context @ '': deprecated field '' @ old @ '' used; use time_window.'' @ new @ ''.''])
               item LEGACY_TOP_LEVEL_FIELDS (values0, [])) (\<lambda>acc1.
      rbind (read_fields tw
               (\<lambda>old new. [context @ '': deprecated field time_window.'' @ old @ '' used; use time_window.'' @ new @ ''.''])
               raw LEGACY_TIME_WINDOW_FIELDS acc1) (\<lambda>acc2.
      rbind (read_fields tw (\<lambda>_ _. []) raw (map (\<lambda>f. (f, f)) INT_FIELDS) acc2) (\<lambda>(values, warnings).
      rbind (if has_key raw WEEKDAYS_FIELD then parse_weekdays (get raw WEEKDAYS_FIELD)
             else Inr days0) (\<lambda>days.
      rbind (validate_values values) (\<lambda>_.
      Inr (window_of_values values days, warnings)))))))))"

definition window_of :: "pyval \<Rightarrow> string \<Rightarrow> time_window option" where
  "window_of record_value context =
     (case record_value of
        PDict item \<Rightarrow>
          (case parse_time_window_config item context [] of Inl e \<Rightarrow> None | Inr (w, _) \<Rightarrow> Some w)
      | _ \<Rightarrow> None)"

definition opt_val :: "int option \<Rightarrow> pyval" where
  "opt_val i = (case i of None \<Rightarrow> PNone | Some n \<Rightarrow> PInt n)"

definition to_dict :: "time_window \<Rightarrow> pydict" where
  "to_dict w =
     [(''from_year'', opt_val (from_year w)), (''to_year'', opt_val (to_year w)),
      (''from_month'', opt_val (from_month w)), (''to_month'', opt_val (to_month w)),
      (''from_day'', opt_val (from_day w)), (''to_day'', opt_val (to_day w)),
      (''from_hour'', opt_val (from_hour w)), (''to_hour'', opt_val (to_hour w)),
      (''from_minute'', opt_val (from_minute w)), (''to_minute'', opt_val (to_minute w)),
      (''repeat_interval'', opt_val (repeat_interval w)),
      (''retry_interval'', opt_val (retry_interval w)), (''timeout'', opt_val (timeout w)),
      (''weekdays'', case weekdays w of None \<Rightarrow> PNone | Some ds \<Rightarrow> PList (map PInt ds))]"

definition WEEKDAY_NAMES :: "(int \<times> string) list" where
  "WEEKDAY_NAMES = [(1, ''Monday''), (2, ''Tuesday''), (3, ''Wednesday''), (4, ''Thursday''),
     (5, ''Friday''), (6, ''Saturday''), (7, ''Sunday'')]"

text \<open>\<open>weekdays_text\<close> over a parsed set: a day that is no ISO weekday is dropped.\<close>

definition weekdays_text :: "int list option \<Rightarrow> string" where
  "weekdays_text ws =
     (let days = sort (filter (\<lambda>d. map_of WEEKDAY_NAMES d \<noteq> None) (case ws of None \<Rightarrow> [] | Some l \<Rightarrow> l));
          text = join '','' (map (\<lambda>d. take 3 (the (map_of WEEKDAY_NAMES d))) days)
      in if text = [] then ''no day'' else text)"

subsection \<open>The wall-clock window\<close>

definition outside :: "string \<Rightarrow> int \<Rightarrow> string" where
  "outside name v = ''outside allowed '' @ name @ '' window: '' @ show_int v"

definition dim_open :: "int option \<Rightarrow> int option \<Rightarrow> int \<Rightarrow> bool" where
  "dim_open from_value to_value v =
     (case (from_value, to_value) of
        (Some f, Some t) \<Rightarrow> if f > t then v \<ge> f \<or> v \<le> t else \<not> v < f \<and> \<not> v > t
      | (Some f, None) \<Rightarrow> \<not> v < f
      | (None, Some t) \<Rightarrow> \<not> v > t
      | (None, None) \<Rightarrow> True)"

definition dims :: "time_window \<Rightarrow> civil \<Rightarrow> (string \<times> int option \<times> int option \<times> int) list" where
  "dims w current =
     [(''year'', from_year w, to_year w, c_year current),
      (''month'', from_month w, to_month w, c_month current),
      (''day'', from_day w, to_day w, c_day current),
      (''hour'', from_hour w, to_hour w, c_hour current),
      (''minute'', from_minute w, to_minute w, c_minute current)]"

fun first_closed :: "(string \<times> int option \<times> int option \<times> int) list \<Rightarrow> string" where
  "first_closed [] = []"
| "first_closed ((name, f, t, v) # rest) =
     (if dim_open f t v then first_closed rest else outside name v)"

definition time_window_closed_reason :: "time_window option \<Rightarrow> civil \<Rightarrow> string" where
  "time_window_closed_reason tw current =
     (case tw of
        None \<Rightarrow> []
      | Some w \<Rightarrow>
          (case weekdays w of
             None \<Rightarrow> first_closed (dims w current)
           | Some ds \<Rightarrow>
               if ds = [] then ''no weekday is allowed''
               else if isoweekday current \<notin> set ds then outside ''weekday'' (isoweekday current)
               else first_closed (dims w current)))"

definition is_time_window_open :: "time_window option \<Rightarrow> civil \<Rightarrow> bool" where
  "is_time_window_open tw current = (time_window_closed_reason tw current = [])"

subsection \<open>The due rule\<close>

text \<open>\<open>due_grace_seconds\<close> in microseconds: five percent of the interval, at most thirty seconds.\<close>

definition due_grace_seconds :: "int \<Rightarrow> int" where
  "due_grace_seconds interval =
     (if interval \<le> 0 then 0 else min (min (interval * 50000) (sec 30)) (sec interval))"

definition repeat_due :: "instant option \<Rightarrow> int option \<Rightarrow> instant \<Rightarrow> int option \<Rightarrow> bool" where
  "repeat_due last_run repeat now dflt =
     (if repeat = Some MANUAL_ONLY then False
      else case last_run of
             None \<Rightarrow> True
           | Some started \<Rightarrow>
               if repeat = Some RUN_ONCE then False
               else (case (case repeat of Some i \<Rightarrow> Some i | None \<Rightarrow> dflt) of
                       None \<Rightarrow> False
                     | Some interval \<Rightarrow> started + (sec interval - due_grace_seconds interval) \<le> now))"

record due_verdict =
  due :: bool
  reason :: string
  last_run :: "instant option"
  next_due_at :: "instant option"

definition whole_seconds :: "int \<Rightarrow> int" where
  "whole_seconds us = (if 0 \<le> us then us div 1000000 else - (- us div 1000000))"

definition ratio_text :: "string \<Rightarrow> int \<Rightarrow> int \<Rightarrow> string" where
  "ratio_text label elapsed allowed =
     label @ '': '' @ show_int elapsed @ ''s/'' @ show_int allowed @ ''s''"

definition elapsed_verdict :: "instant \<Rightarrow> int \<Rightarrow> int \<Rightarrow> instant \<Rightarrow> string \<Rightarrow> due_verdict" where
  "elapsed_verdict started elapsed allowed now label =
     (let next_at = started + sec allowed in
      if next_at \<le> now then \<lparr>due = True, reason = [], last_run = Some started, next_due_at = None\<rparr>
      else \<lparr>due = False, reason = ratio_text label elapsed allowed, last_run = Some started,
            next_due_at = Some next_at\<rparr>)"

record due_args =
  a_last_run :: "instant option"
  a_last_status :: string
  a_repeat :: "int option"
  a_retry :: "int option"
  a_timeout :: "int option"
  a_timeout_disabled :: bool
  a_default_repeat :: "int option"
  a_running_blocks :: bool

definition explain_due :: "due_args \<Rightarrow> instant \<Rightarrow> due_verdict" where
  "explain_due a now =
     (if a_repeat a = Some MANUAL_ONLY then
        \<lparr>due = False, reason = ''manual only: never scheduled'', last_run = a_last_run a,
         next_due_at = None\<rparr>
      else case a_last_run a of
        None \<Rightarrow> \<lparr>due = True, reason = [], last_run = None, next_due_at = None\<rparr>
      | Some started \<Rightarrow>
          let status = lower (strip (a_last_status a));
              retry = (case a_retry a of Some r \<Rightarrow> r | None \<Rightarrow> 60);
              stale_grace = (if a_timeout_disabled a then retry
                             else case a_timeout a of Some t \<Rightarrow> t | None \<Rightarrow> 300);
              elapsed = whole_seconds (now - started) in
          if a_repeat a = Some RUN_ONCE then
            (if status \<in> set ERROR_STATUSES then
               elapsed_verdict started elapsed retry now ''retry not elapsed''
             else if status = ''running'' then
               elapsed_verdict started elapsed stale_grace now ''running within timeout''
             else \<lparr>due = False, reason = ''run-once: already ran'', last_run = Some started,
                   next_due_at = None\<rparr>)
          else if status = ''running'' \<and> a_running_blocks a then
            elapsed_verdict started elapsed stale_grace now ''running within timeout''
          else if repeat_due (Some started) (a_repeat a) now (a_default_repeat a) then
            \<lparr>due = True, reason = [], last_run = Some started, next_due_at = None\<rparr>
          else if status \<in> set ERROR_STATUSES then
            elapsed_verdict started elapsed retry now ''retry not elapsed''
          else (case (case a_repeat a of Some i \<Rightarrow> Some i | None \<Rightarrow> a_default_repeat a) of
                  None \<Rightarrow> \<lparr>due = False,
                           reason = ''no repeat_interval and no default: never due again'',
                           last_run = Some started, next_due_at = None\<rparr>
                | Some interval \<Rightarrow>
                    \<lparr>due = False, reason = ratio_text ''interval not elapsed'' elapsed interval,
                     last_run = Some started,
                     next_due_at = Some (started + (sec interval - due_grace_seconds interval))\<rparr>))"

definition job_due :: "due_args \<Rightarrow> instant \<Rightarrow> bool" where
  "job_due a now = due (explain_due (a\<lparr>a_running_blocks := True\<rparr>) now)"

definition RUN_ANCHOR_COLUMNS :: "string list" where
  "RUN_ANCHOR_COLUMNS = [''started_at'', ''created_at'', ''finished_at'']"

fun first_anchor :: "iso_parser \<Rightarrow> pydict \<Rightarrow> string list \<Rightarrow> instant option" where
  "first_anchor fromiso row [] = None"
| "first_anchor fromiso row (column # rest) =
     (case map_of row column of
        None \<Rightarrow> first_anchor fromiso row rest
      | Some v \<Rightarrow> (case as_utc_datetime fromiso v of
                    Some t \<Rightarrow> Some t
                  | None \<Rightarrow> first_anchor fromiso row rest))"

definition run_anchor :: "iso_parser \<Rightarrow> pydict option \<Rightarrow> instant option" where
  "run_anchor fromiso row = (case row of None \<Rightarrow> None | Some r \<Rightarrow> first_anchor fromiso r RUN_ANCHOR_COLUMNS)"

definition row_status :: "pydict option \<Rightarrow> string" where
  "row_status row =
     (case row of
        None \<Rightarrow> []
      | Some r \<Rightarrow> (case map_of r ''status'' of None \<Rightarrow> [] | Some v \<Rightarrow> lower (strip (str_or v))))"

definition due_from_row ::
  "iso_parser \<Rightarrow> time_window option \<Rightarrow> pydict option \<Rightarrow> instant \<Rightarrow> civil option \<Rightarrow> int option
   \<Rightarrow> int option \<Rightarrow> int option \<Rightarrow> bool \<Rightarrow> due_verdict" where
  "due_from_row fromiso tw row now local_now retry_default timeout_default default_repeat running_blocks =
     (let closed = (case local_now of None \<Rightarrow> [] | Some c \<Rightarrow> time_window_closed_reason tw c) in
      if closed \<noteq> [] then
        \<lparr>due = False, reason = closed, last_run = run_anchor fromiso row, next_due_at = None\<rparr>
      else
        let window = (case tw of None \<Rightarrow> default_time_window | Some w \<Rightarrow> w);
            retry = (case retry_interval window of Some r \<Rightarrow> Some r | None \<Rightarrow> retry_default);
            tmo = (case timeout window of Some t \<Rightarrow> Some t | None \<Rightarrow> timeout_default) in
        explain_due
          \<lparr>a_last_run = run_anchor fromiso row, a_last_status = row_status row,
           a_repeat = repeat_interval window, a_retry = retry, a_timeout = tmo,
           a_timeout_disabled = (timeout window = Some 0), a_default_repeat = default_repeat,
           a_running_blocks = running_blocks\<rparr> now)"


subsection \<open>Well-formed windows\<close>

definition nonneg :: "int option \<Rightarrow> bool" where
  "nonneg x = (case x of None \<Rightarrow> True | Some i \<Rightarrow> 0 \<le> i)"

definition wf_window :: "time_window \<Rightarrow> bool" where
  "wf_window w =
     (nonneg (from_year w) \<and> nonneg (to_year w) \<and> nonneg (from_month w) \<and> nonneg (to_month w) \<and>
      nonneg (from_day w) \<and> nonneg (to_day w) \<and> nonneg (from_hour w) \<and> nonneg (to_hour w) \<and>
      nonneg (from_minute w) \<and> nonneg (to_minute w) \<and>
      (repeat_interval w = Some MANUAL_ONLY \<or> nonneg (repeat_interval w)) \<and>
      nonneg (retry_interval w) \<and> nonneg (timeout w) \<and>
      (case weekdays w of None \<Rightarrow> True | Some ds \<Rightarrow> distinct ds \<and> set ds \<subseteq> {1..7}))"

lemma validate_scalar_iff: "validate_non_negative_scalar vs n = Inr u \<longleftrightarrow> nonneg (int_value vs n)"
  by (simp add: validate_non_negative_scalar_def nonneg_def split: option.splits)

lemma validate_pair_iff:
  "validate_non_negative vs n = Inr u \<longleftrightarrow>
     nonneg (int_value vs (''from_'' @ n)) \<and> nonneg (int_value vs (''to_'' @ n))"
  by (simp add: validate_non_negative_def rbind_eq_Inr validate_scalar_iff)

lemma validate_repeat_iff:
  "validate_repeat_interval vs = Inr u \<longleftrightarrow>
     int_value vs ''repeat_interval'' = Some MANUAL_ONLY \<or> nonneg (int_value vs ''repeat_interval'')"
  by (auto simp: validate_repeat_interval_def nonneg_def split: option.splits)

lemmas validate_iffs = validate_scalar_iff validate_pair_iff validate_repeat_iff

lemma validate_values_iff:
  "validate_values vs = Inr u \<longleftrightarrow> wf_window (window_of_values vs None)"
  by (auto simp: validate_values_def rbind_eq_Inr validate_iffs wf_window_def window_of_values_def)

lemma weekday_loop_wf:
  "weekday_loop p items = Inr ds \<Longrightarrow> distinct p \<Longrightarrow> set p \<subseteq> {1..7} \<Longrightarrow> distinct ds \<and> set ds \<subseteq> {1..7}"
proof (induction p items rule: weekday_loop.induct)
  case (2 parsed item rest)
  from "2.prems"(1) obtain i where i: "weekday_item item = Inr i"
    and r: "1 \<le> i" "i \<le> 7" "i \<notin> set parsed" "weekday_loop (parsed @ [i]) rest = Inr ds"
    by (auto simp: rbind_eq_Inr split: if_splits)
  with "2.IH" [of i] "2.prems"(2,3) show ?case by auto
qed simp

lemma parse_weekdays_wf:
  "parse_weekdays v = Inr (Some ds) \<Longrightarrow> distinct ds \<and> set ds \<subseteq> {1..7}"
  using weekday_loop_wf [of "[]"]
  by (auto simp: parse_weekdays_def rbind_eq_Inr split: if_splits pyval.splits)

lemma wf_window_days:
  "wf_window (window_of_values vs None) \<Longrightarrow> (\<And>ds. days = Some ds \<Longrightarrow> distinct ds \<and> set ds \<subseteq> {1..7})
   \<Longrightarrow> wf_window (window_of_values vs days)"
  by (auto simp: wf_window_def window_of_values_def split: option.splits)

lemma parse_result_wf:
  assumes "parse_time_window_config item context dfl = Inr (w, ws)"
  shows "wf_window w"
proof -
  from assms obtain vs days days0 raw u where w: "w = window_of_values vs days"
    and v: "validate_values vs = Inr u"
    and d: "(if has_key raw WEEKDAYS_FIELD then parse_weekdays (get raw WEEKDAYS_FIELD) else Inr days0)
            = Inr days"
    and d0: "(if has_key dfl WEEKDAYS_FIELD then parse_weekdays (get dfl WEEKDAYS_FIELD) else Inr None)
            = Inr days0"
    unfolding parse_time_window_config_def Let_def
    by (fastforce simp: rbind_eq_Inr split: if_splits prod.splits)
  show ?thesis
    unfolding w
    by (rule wf_window_days)
      (use v d d0 parse_weekdays_wf in \<open>auto simp: validate_values_iff split: if_splits\<close>)
qed

subsection \<open>The round trip through a configuration document\<close>

lemma optional_int_opt_val [simp]: "optional_int (opt_val i) n = Inr i"
  by (cases i) (simp_all add: optional_int_def opt_val_def is_absent_def eq_text_def)

lemma weekday_loop_ints:
  "distinct (p @ ds) \<Longrightarrow> set ds \<subseteq> {1..7} \<Longrightarrow> weekday_loop p (map PInt ds) = Inr (p @ ds)"
  by (induction ds arbitrary: p) (auto simp: weekday_item_def)

lemma parse_weekdays_list:
  "distinct ds \<Longrightarrow> set ds \<subseteq> {1..7} \<Longrightarrow> parse_weekdays (PList (map PInt ds)) = Inr (Some ds)"
  using weekday_loop_ints [of "[]" ds] by (simp add: parse_weekdays_def is_absent_def eq_text_def)

lemma parse_weekdays_None [simp]: "parse_weekdays PNone = Inr None"
  by (simp add: parse_weekdays_def is_absent_def)

lemma parse_weekdays_dict:
  "wf_window w \<Longrightarrow>
   parse_weekdays (case weekdays w of None \<Rightarrow> PNone | Some ds \<Rightarrow> PList (map PInt ds)) = Inr (weekdays w)"
  by (auto simp: wf_window_def parse_weekdays_list split: option.splits)

lemma read_fields_to_dict:
  "read_fields p (\<lambda>_ _. []) (to_dict w) (map (\<lambda>f. (f, f)) INT_FIELDS) (vs, ws) =
     Inr (upd ''timeout'' (timeout w) (upd ''retry_interval'' (retry_interval w)
         (upd ''repeat_interval'' (repeat_interval w) (upd ''to_minute'' (to_minute w)
         (upd ''from_minute'' (from_minute w) (upd ''to_hour'' (to_hour w)
         (upd ''from_hour'' (from_hour w) (upd ''to_day'' (to_day w)
         (upd ''from_day'' (from_day w) (upd ''to_month'' (to_month w)
         (upd ''from_month'' (from_month w) (upd ''to_year'' (to_year w)
         (upd ''from_year'' (from_year w) vs)))))))))))), ws)"
  by (simp add: INT_FIELDS_def to_dict_def has_key_def get_def)

lemma read_fields_none:
  "\<forall>(old, new)\<in>set fs. \<not> has_key doc old \<Longrightarrow> read_fields p warn doc fs acc = Inr acc"
  by (induction p warn doc fs acc rule: read_fields.induct) auto

lemma to_dict_keys:
  "\<forall>(old, new)\<in>set LEGACY_TIME_WINDOW_FIELDS. \<not> has_key (to_dict w) old"
  "\<forall>(old, new)\<in>set LEGACY_TOP_LEVEL_FIELDS. \<not> has_key [(''time_window'', v)] old"
  by (simp_all add: LEGACY_TIME_WINDOW_FIELDS_def LEGACY_TOP_LEVEL_FIELDS_def to_dict_def has_key_def)

lemma window_of_all_fields:
  "window_of_values (upd ''timeout'' (timeout w) (upd ''retry_interval'' (retry_interval w)
         (upd ''repeat_interval'' (repeat_interval w) (upd ''to_minute'' (to_minute w)
         (upd ''from_minute'' (from_minute w) (upd ''to_hour'' (to_hour w)
         (upd ''from_hour'' (from_hour w) (upd ''to_day'' (to_day w)
         (upd ''from_day'' (from_day w) (upd ''to_month'' (to_month w)
         (upd ''from_month'' (from_month w) (upd ''to_year'' (to_year w)
         (upd ''from_year'' (from_year w) vs))))))))))))) days
   = w\<lparr>weekdays := days\<rparr>"
  by (simp add: window_of_values_def int_value_def)

lemma wf_window_no_days: "wf_window w \<Longrightarrow> wf_window (w\<lparr>weekdays := None\<rparr>)"
  by (simp add: wf_window_def)

subsection \<open>The open window as arcs of a dial\<close>

text \<open>
  The specification of a pair of bounds on a dial of \<open>n\<close> positions: starting at \<open>f\<close> and turning
  forward, the hand is at most as far as \<open>t\<close> is. A missing bound does not restrict its side.
\<close>

definition on_arc :: "int \<Rightarrow> int option \<Rightarrow> int option \<Rightarrow> int \<Rightarrow> bool" where
  "on_arc n f t v =
     (case (f, t) of
        (Some a, Some b) \<Rightarrow> (v - a) mod n \<le> (b - a) mod n
      | (Some a, None) \<Rightarrow> a \<le> v
      | (None, Some b) \<Rightarrow> v \<le> b
      | (None, None) \<Rightarrow> True)"

definition on_dial :: "int \<Rightarrow> int \<Rightarrow> int option \<Rightarrow> bool" where
  "on_dial lo n x = (case x of None \<Rightarrow> True | Some i \<Rightarrow> lo \<le> i \<and> i < lo + n)"

lemma mod_dial:
  assumes "- n < (d :: int)" "d < n"
  shows "d mod n = (if d < 0 then d + n else d)"
proof (cases "d < 0")
  case True
  have "d mod n = (d + n) mod n" by simp
  also have "\<dots> = d + n" using True assms by (intro mod_pos_pos_trivial) auto
  finally show ?thesis using True by simp
qed (use assms in simp)

lemma dim_open_arc:
  assumes "on_dial lo n f" "on_dial lo n t" "lo \<le> v" "v < lo + n"
  shows "dim_open f t v = on_arc n f t v"
proof (cases "f = None \<or> t = None")
  case True
  then show ?thesis by (auto simp: dim_open_def on_arc_def split: option.splits)
next
  case False
  then obtain a b where ab: "f = Some a" "t = Some b" by auto
  with assms have "lo \<le> a" "a < lo + n" "lo \<le> b" "b < lo + n" by (auto simp: on_dial_def)
  then show ?thesis
    using assms(3,4) by (auto simp: ab dim_open_def on_arc_def mod_dial)
qed

lemma first_closed_open: "first_closed ds = [] \<longleftrightarrow> (\<forall>(n, f, t, v)\<in>set ds. dim_open f t v)"
  by (induction ds rule: first_closed.induct) (auto simp: outside_def)

lemma is_open_iff:
  "is_time_window_open (Some w) c \<longleftrightarrow>
     (case weekdays w of None \<Rightarrow> True | Some ds \<Rightarrow> isoweekday c \<in> set ds) \<and>
     (\<forall>(n, f, t, v)\<in>set (dims w c). dim_open f t v)"
  by (auto simp: is_time_window_open_def time_window_closed_reason_def first_closed_open outside_def
      split: option.splits)

subsection \<open>The due rule\<close>

lemma elapsed_verdict_due [simp]: "due (elapsed_verdict s e al now l) \<longleftrightarrow> s + sec al \<le> now"
  by (simp add: elapsed_verdict_def Let_def)

lemma elapsed_verdict_next:
  "next_due_at (elapsed_verdict s e al now l) =
     (if s + sec al \<le> now then None else Some (s + sec al))"
  by (simp add: elapsed_verdict_def Let_def)

lemma repeat_due_mono: "repeat_due l r now d \<Longrightarrow> now \<le> now' \<Longrightarrow> repeat_due l r now' d"
  by (auto simp: repeat_due_def split: option.splits if_splits)

lemma explain_due_mono: "due (explain_due a now) \<Longrightarrow> now \<le> now' \<Longrightarrow> due (explain_due a now')"
  using repeat_due_mono [of _ _ now _ now']
  by (auto simp: explain_due_def Let_def split: option.splits if_splits)

lemma explain_due_next:
  assumes "\<not> due (explain_due a now)" "next_due_at (explain_due a now) = Some t"
  shows "now < t \<and> due (explain_due a t)"
  using assms repeat_due_mono [of _ _ now _ t]
  by (auto simp: explain_due_def Let_def elapsed_verdict_next repeat_due_def
      split: option.splits if_splits)

lemma due_grace_bounds:
  "0 \<le> due_grace_seconds i" "due_grace_seconds i \<le> sec 30" "0 < i \<Longrightarrow> 20 * due_grace_seconds i \<le> sec i"
  by (auto simp: due_grace_seconds_def)


subsection \<open>Properties\<close>

text \<open>Whatever record and caller defaults it is given, a window the parser accepts is
  well-formed: every bound, retry interval and timeout is non-negative, the repeat interval is
  non-negative or the manual value -1, and the weekdays are distinct ISO days 1 to 7.\<close>

theorem parse_time_window_wf:
  assumes "parse_time_window_config item context dfl = Inr (w, ws)"
  shows "wf_window w"
  using assms by (rule parse_result_wf)

theorem parse_time_window_wf_witness:
  "wf_window (default_time_window\<lparr>from_hour := Some 22, to_hour := Some 6, weekdays := Some [7]\<rparr>)"
proof (rule parse_time_window_wf)
  show "parse_time_window_config
          [(''allowed_from_hour'', PStr ''22''),
           (''time_window'', PDict [(''hour_to'', PInt 6), (''weekdays'', PList [PStr ''7''])])] ''job'' []
        = Inr (default_time_window\<lparr>from_hour := Some 22, to_hour := Some 6, weekdays := Some [7]\<rparr>,
               [''job: deprecated field allowed_from_hour used; use time_window.from_hour.'',
                ''job: deprecated field time_window.hour_to used; use time_window.to_hour.''])"
    by code_simp
qed

text \<open>The dictionary a window prints reads back as the same window with no warning, under any
  caller defaults that parse on their own - the explicit nulls override every default.\<close>

theorem to_dict_parse:
  assumes "wf_window w"
    and "parse_time_window_config [] context dfl = Inr d"
  shows "parse_time_window_config [(''time_window'', PDict (to_dict w))] context dfl = Inr (w, [])"
proof -
  from assms(2) obtain vs days where vs: "read_defaults context dfl INT_FIELDS = Inr vs"
    and days: "(if has_key dfl WEEKDAYS_FIELD then parse_weekdays (get dfl WEEKDAYS_FIELD) else Inr None) = Inr days"
    by (auto simp: parse_time_window_config_def Let_def rbind_eq_Inr get_def is_absent_def is_dict_def
        eq_text_def)
  have raw: "get [(''time_window'', PDict (to_dict w))] ''time_window'' = PDict (to_dict w)"
    "truthy (PDict (to_dict w))" "has_key (to_dict w) WEEKDAYS_FIELD"
    "get (to_dict w) WEEKDAYS_FIELD = (case weekdays w of None \<Rightarrow> PNone | Some ds \<Rightarrow> PList (map PInt ds))"
    by (simp_all add: get_def to_dict_def has_key_def WEEKDAYS_FIELD_def)
  let ?vs = "upd ''timeout'' (timeout w) (upd ''retry_interval'' (retry_interval w)
         (upd ''repeat_interval'' (repeat_interval w) (upd ''to_minute'' (to_minute w)
         (upd ''from_minute'' (from_minute w) (upd ''to_hour'' (to_hour w)
         (upd ''from_hour'' (from_hour w) (upd ''to_day'' (to_day w)
         (upd ''from_day'' (from_day w) (upd ''to_month'' (to_month w)
         (upd ''from_month'' (from_month w) (upd ''to_year'' (to_year w)
         (upd ''from_year'' (from_year w) vs))))))))))))"
  have valid: "validate_values ?vs = Inr ()"
    unfolding validate_values_iff window_of_all_fields by (rule wf_window_no_days [OF assms(1)])
  show ?thesis
    unfolding parse_time_window_config_def Let_def raw(1)
    by (simp only: raw if_True if_False is_absent_def eq_text_def is_dict_def as_dict_def vs days
        pyval.distinct pyval.simps rbind_simps not_True_eq_False simp_thms
        read_fields_none [OF to_dict_keys(1)] read_fields_none [OF to_dict_keys(2)]
        read_fields_to_dict parse_weekdays_dict [OF assms(1)] valid window_of_all_fields prod.case)
      simp
qed

theorem to_dict_parse_witness:
  "parse_time_window_config
     [(''time_window'', PDict (to_dict (default_time_window\<lparr>to_hour := Some 5, weekdays := Some []\<rparr>)))]
     ''report'' [(''from_hour'', PInt 0), (''repeat_interval'', PInt 3600)]
   = Inr (default_time_window\<lparr>to_hour := Some 5, weekdays := Some []\<rparr>, [])"
  by (rule to_dict_parse [where d = "(default_time_window\<lparr>from_hour := Some 0, repeat_interval := Some 3600\<rparr>, [])"])
    code_simp+

text \<open>C35: on bounds within their dials the window is open exactly when the day is one of the allowed
  weekdays, the year passes its bounds, and month, day, hour and minute each lie on the arc that
  runs forward from the lower bound to the upper one - wrapping past midnight or the year's end.\<close>

theorem window_open_is_arc:
  assumes "on_dial 1 12 (from_month w)" "on_dial 1 12 (to_month w)"
    and "on_dial 1 31 (from_day w)" "on_dial 1 31 (to_day w)"
    and "on_dial 0 24 (from_hour w)" "on_dial 0 24 (to_hour w)"
    and "on_dial 0 60 (from_minute w)" "on_dial 0 60 (to_minute w)"
    and "1 \<le> c_month c" "c_month c \<le> 12" "1 \<le> c_day c" "c_day c \<le> 31"
    and "0 \<le> c_hour c" "c_hour c \<le> 23" "0 \<le> c_minute c" "c_minute c \<le> 59"
  shows "is_time_window_open (Some w) c \<longleftrightarrow>
    (case weekdays w of None \<Rightarrow> True | Some ds \<Rightarrow> isoweekday c \<in> set ds) \<and>
    dim_open (from_year w) (to_year w) (c_year c) \<and>
    on_arc 12 (from_month w) (to_month w) (c_month c) \<and>
    on_arc 31 (from_day w) (to_day w) (c_day c) \<and>
    on_arc 24 (from_hour w) (to_hour w) (c_hour c) \<and>
    on_arc 60 (from_minute w) (to_minute w) (c_minute c)"
  using assms
  by (simp add: is_open_iff dims_def dim_open_arc [of 1 12] dim_open_arc [of 1 31]
      dim_open_arc [of 0 24] dim_open_arc [of 0 60])

theorem window_open_is_arc_witness:
  "\<not> is_time_window_open (Some (default_time_window\<lparr>from_hour := Some 22, to_hour := Some 6\<rparr>))
      \<lparr>c_year = 2026, c_month = 9, c_day = 7, c_hour = 14, c_minute = 30\<rparr> \<and>
   is_time_window_open (Some (default_time_window\<lparr>from_hour := Some 22, to_hour := Some 6\<rparr>))
      \<lparr>c_year = 2026, c_month = 9, c_day = 7, c_hour = 3, c_minute = 30\<rparr>"
  by (simp add: window_open_is_arc default_time_window_def on_dial_def on_arc_def dim_open_def)

text \<open>No second copy of a running job. While a row is running and its window's timeout has not
  passed since the run started, the shared entry point never answers due, whatever the repeat and
  retry intervals, the caller's defaults and the wall clock.\<close>

theorem running_within_timeout_not_due:
  assumes "row_status row = ''running''"
    and "run_anchor fromiso row = Some started"
    and "timeout w = Some limit" "limit \<noteq> 0"
    and "now < started + sec limit"
  shows "\<not> due (due_from_row fromiso (Some w) row now local_now rd td dr True)"
proof -
  have "lower (strip ''running'') = ''running''"
    by (simp add: strip_no_ws is_ws_def lower_def lower_char_def)
  then show ?thesis
    using assms by (simp add: due_from_row_def explain_due_def Let_def ERROR_STATUSES_def split: option.splits)
qed

theorem running_within_timeout_not_due_witness:
  "\<not> due (due_from_row (\<lambda>s. Some (0, Some 0)) (Some (default_time_window\<lparr>timeout := Some 600, repeat_interval := Some 60\<rparr>))
      (Some [(''started_at'', PStr ''1970-01-01T00:00:00Z''), (''status'', PStr ''RUNNING'')])
      (sec 599) None None None None True)"
  by (rule running_within_timeout_not_due [where started = 0 and limit = 600])
    (simp_all, code_simp+)

text \<open>A verdict that names the next attempt is right about it: that instant is still ahead, and
  from it on the job is due, as long as the row does not change.\<close>

theorem next_due_at_is_due:
  assumes "\<not> due (explain_due a now)"
    and "next_due_at (explain_due a now) = Some t"
  shows "now < t \<and> (\<forall>later. t \<le> later \<longrightarrow> due (explain_due a later))"
  using explain_due_next [OF assms] explain_due_mono [of a t] by blast

definition failed_job :: due_args where
  "failed_job = \<lparr>a_last_run = Some 0, a_last_status = ''error'', a_repeat = Some 300,
     a_retry = Some 600, a_timeout = None, a_timeout_disabled = False, a_default_repeat = None,
     a_running_blocks = True\<rparr>"

theorem next_due_at_is_due_witness:
  "sec 100 < sec 600 \<and> due (explain_due failed_job (sec 700))"
proof -
  have "\<not> due (explain_due failed_job (sec 100))"
    and "next_due_at (explain_due failed_job (sec 100)) = Some (sec 600)" by code_simp+
  from next_due_at_is_due [OF this] show ?thesis by simp
qed

text \<open>When a repeating job has failed, it is due again at the earlier of its retry interval and
  its repeat interval less the grace. A retry interval longer than the repeat interval does not
  back the job off, and the next attempt a verdict announces for it is then too late.\<close>

theorem failed_job_due:
  assumes "a_last_run a = Some started" "a_repeat a = Some interval"
    and "interval \<noteq> RUN_ONCE" "interval \<noteq> MANUAL_ONLY"
    and "lower (strip (a_last_status a)) \<in> set ERROR_STATUSES"
    and "a_retry a = Some retry"
  shows "due (explain_due a now) \<longleftrightarrow>
    started + min (sec retry) (sec interval - due_grace_seconds interval) \<le> now"
proof -
  have "''running'' \<notin> set ERROR_STATUSES" by (simp add: ERROR_STATUSES_def)
  with assms(5) have "lower (strip (a_last_status a)) \<noteq> ''running''" by auto
  then show ?thesis
    using assms by (auto simp: explain_due_def Let_def repeat_due_def)
qed

theorem failed_job_due_witness:
  "next_due_at (explain_due failed_job (sec 100)) = Some (sec 600) \<and>
   due (explain_due failed_job (sec 285))"
proof
  show "next_due_at (explain_due failed_job (sec 100)) = Some (sec 600)" by code_simp
  show "due (explain_due failed_job (sec 285))"
    by (subst failed_job_due [where started = 0 and interval = 300 and retry = 600]) code_simp+
qed

text \<open>The grace never shortens an interval by more than five percent or thirty seconds: a
  repeating job that did not fail is due only once 95 percent of its interval, and all but thirty
  seconds of it, have passed since its last start.\<close>

theorem repeat_due_not_early:
  assumes "0 < interval"
    and "repeat_due (Some started) (Some interval) now dflt"
  shows "95 * sec interval \<le> 100 * (now - started) \<and> sec interval - sec 30 \<le> now - started"
  using assms due_grace_bounds [of interval]
  by (auto simp: repeat_due_def MANUAL_ONLY_def RUN_ONCE_def)

theorem repeat_due_not_early_witness:
  "95 * sec 300 \<le> 100 * (sec 285 - 0) \<and> sec 300 - sec 30 \<le> sec 285 - (0::int)"
  by (rule repeat_due_not_early [where dflt = None]) (simp, code_simp)

end
