(* ===== verification/RunClaim.thy ===== *)
theory RunClaim
  imports Coerce
begin

section \<open>Who owns a run that is still running, and how many may run\<close>

text \<open>
  Models \<^verbatim>\<open>dbabrain/lib/run_claim.py\<close> (the claim written into a run row and the verdicts that
  may take it away) and \<^verbatim>\<open>dbabrain/lib/run_mode.py\<close> (how many processes of one app command the
  daemon may hold at once). Elapsed times and timeouts are the seconds as exact rationals. The JSON
  reader of the standard library is the argument \<open>loads\<close> of \<open>row_metadata\<close>.
\<close>

subsection \<open>run\_claim.py\<close>

definition FOREIGN_HOST_GRACE_SECONDS :: int where
  "FOREIGN_HOST_GRACE_SECONDS = 3600"

record reap_verdict =
  reap :: bool
  reap_reason :: string
  timed_out :: bool

definition claim_fields :: "int \<Rightarrow> string \<Rightarrow> string \<Rightarrow> string \<Rightarrow> pydict" where
  "claim_fields pid host node started =
     [(''claim_pid'', PInt pid), (''claim_host'', PStr host)]
     @ (if strip node \<noteq> [] then [(''claim_node'', PStr (strip node))] else [])
     @ (if strip started \<noteq> [] then [(''claim_started'', PStr (strip started))] else [])"

definition claim_started :: "pydict \<Rightarrow> string" where
  "claim_started metadata = strip (str_or (get metadata ''claim_started''))"

definition claim_node :: "pydict \<Rightarrow> string" where
  "claim_node metadata = strip (str_or (get metadata ''claim_node''))"

definition left_by_an_earlier_host_of_this_node :: "pydict \<Rightarrow> string \<Rightarrow> string \<Rightarrow> string \<Rightarrow> bool" where
  "left_by_an_earlier_host_of_this_node metadata host this_host this_node =
     (let node = claim_node metadata in
      node \<noteq> [] \<and> this_node \<noteq> [] \<and> node = this_node \<and> host \<noteq> [] \<and> host \<noteq> this_host)"

definition row_metadata :: "(string \<Rightarrow> pyval option) \<Rightarrow> pydict \<Rightarrow> pydict" where
  "row_metadata loads row =
     (case map_of row ''metadata_json'' of
        None \<Rightarrow> []
      | Some (PDict d) \<Rightarrow> d
      | Some raw \<Rightarrow>
          (case (if truthy raw then raw else PStr ''{}'') of
             PStr text \<Rightarrow> (case loads text of Some (PDict d) \<Rightarrow> d | _ \<Rightarrow> [])
           | _ \<Rightarrow> []))"

definition row_host :: "pydict \<Rightarrow> string" where
  "row_host row = (case map_of row ''host_name'' of None \<Rightarrow> [] | Some v \<Rightarrow> strip (str_or v))"

text \<open>One step of the loop of \<open>claim_owner\<close>: the pid under a field, when there is one that reads.\<close>

definition pid_under :: "pydict \<Rightarrow> string \<Rightarrow> int option" where
  "pid_under metadata f = (case get metadata f of PNone \<Rightarrow> None | v \<Rightarrow> py_int v)"

definition claim_owner :: "pydict \<Rightarrow> string \<Rightarrow> int option \<times> string" where
  "claim_owner metadata host_fallback =
     (case pid_under metadata ''claim_pid'' of
        Some p \<Rightarrow> (Some p, str_or (get metadata ''claim_host''))
      | None \<Rightarrow>
          (case pid_under metadata ''pid'' of
             Some p \<Rightarrow> (Some p, if truthy (get metadata ''host_name'') then py_str (get metadata ''host_name'')
                               else host_fallback)
           | None \<Rightarrow> (None, str_or (get metadata ''claim_host''))))"

definition trunc_rat :: "rat \<Rightarrow> int" where
  "trunc_rat r = (if 0 \<le> r then \<lfloor>r\<rfloor> else \<lceil>r\<rceil>)"

definition verdict :: "bool \<Rightarrow> string \<Rightarrow> reap_verdict" where
  "verdict b r = \<lparr>reap = b, reap_reason = r, timed_out = False\<rparr>"

definition owner_verdict ::
  "pydict \<Rightarrow> string \<Rightarrow> rat \<Rightarrow> rat \<Rightarrow> bool option \<Rightarrow> int \<Rightarrow> string \<Rightarrow> string \<Rightarrow> reap_verdict" where
  "owner_verdict metadata this_host elapsed limit pid_alive grace this_node host_fallback =
     (let owner = claim_owner metadata host_fallback; host = snd owner in
      case fst owner of
        Some pid \<Rightarrow>
          if host \<noteq> [] \<and> host = this_host then
            (if pid_alive = Some True
             then verdict False (''pid '' @ show_int pid @ '' is alive on '' @ host @ '': the run is still going'')
             else verdict True (''pid '' @ show_int pid @ '' is gone on '' @ host))
          else if left_by_an_earlier_host_of_this_node metadata host this_host this_node then
            verdict True (''claimed by pid '' @ show_int pid @ '' on '' @ host @ '', a host name this node (''
              @ this_host @ '') no longer has: its processes ended with that host'')
          else if host \<noteq> [] \<and> host \<noteq> this_host then
            (if limit = 0 then
               verdict False (''claimed by pid '' @ show_int pid @ '' on '' @ host
                 @ '': another host's service, closed only by its own host'')
             else if max limit 0 + of_int grace \<le> elapsed then
               verdict True (''claimed by pid '' @ show_int pid @ '' on '' @ host
                 @ '', which cannot be checked from '' @ this_host @ ''; '' @ show_int (trunc_rat elapsed)
                 @ ''s is past its timeout plus '' @ show_int grace @ ''s of grace'')
             else
               verdict False (''claimed by pid '' @ show_int pid @ '' on '' @ host
                 @ '': another host's run is left alone until its timeout plus '' @ show_int grace
                 @ ''s of grace''))
          else if limit \<noteq> 0 \<and> limit \<le> elapsed then
            verdict True (''no claim recorded and '' @ show_int (trunc_rat elapsed) @ ''s is past ''
              @ show_int (trunc_rat limit) @ ''s'')
          else verdict False ''no claim recorded and still within its timeout''
      | None \<Rightarrow>
          if limit \<noteq> 0 \<and> limit \<le> elapsed then
            verdict True (''no claim recorded and '' @ show_int (trunc_rat elapsed) @ ''s is past ''
              @ show_int (trunc_rat limit) @ ''s'')
          else verdict False ''no claim recorded and still within its timeout'')"

definition reap_verdict ::
  "pydict \<Rightarrow> string \<Rightarrow> rat \<Rightarrow> rat \<Rightarrow> bool option \<Rightarrow> int \<Rightarrow> string \<Rightarrow> bool \<Rightarrow> string \<Rightarrow> reap_verdict" where
  "reap_verdict metadata this_host elapsed limit pid_alive grace this_node at_timeout host_fallback =
     (let v = owner_verdict metadata this_host elapsed limit pid_alive grace this_node host_fallback in
      if reap v \<or> \<not> at_timeout then v
      else if limit \<noteq> 0 \<and> limit \<le> elapsed then
        \<lparr>reap = True,
         reap_reason = show_int (trunc_rat elapsed) @ ''s is past its timeout of ''
           @ show_int (trunc_rat limit) @ ''s'',
         timed_out = True\<rparr>
      else v)"

definition startup_verdict ::
  "pydict \<Rightarrow> string \<Rightarrow> rat \<Rightarrow> rat \<Rightarrow> bool option \<Rightarrow> int \<Rightarrow> string \<Rightarrow> string \<Rightarrow> reap_verdict" where
  "startup_verdict metadata this_host elapsed limit pid_alive grace this_node host_fallback =
     (let owner = claim_owner metadata host_fallback; host = snd owner in
      case fst owner of
        Some pid \<Rightarrow>
          if host \<noteq> [] \<and> host \<noteq> this_host then
            reap_verdict metadata this_host elapsed limit None grace this_node False host_fallback
          else if pid_alive = Some True then
            verdict False (''pid '' @ show_int pid @ '' outlived its daemon and is still working'')
          else verdict True (''pid '' @ show_int pid @ '' is gone'')
      | None \<Rightarrow> verdict True
          ''left open by a daemon that is no longer running, and this one owns no children yet'')"

subsection \<open>run\_mode.py\<close>

datatype mode = SYNC | ASYNC

record run_mode =
  rm_mode :: mode
  max_parallel :: int

datatype run_mode_error = BadMode | ParallelOnSync | ParallelNotANumber | ParallelTooSmall int | ParallelTooBig int

definition DEFAULT_MAX_PARALLEL :: int where
  "DEFAULT_MAX_PARALLEL = 4"

definition MAX_PARALLEL_LIMIT :: int where
  "MAX_PARALLEL_LIMIT = 32"

definition parse_run_mode :: "pydict \<Rightarrow> run_mode_error + run_mode" where
  "parse_run_mode data =
     (let raw_mode = get data ''run_mode'';
          name = lower (strip (if truthy raw_mode then py_str raw_mode else ''sync''));
          raw_parallel = get data ''max_parallel'' in
      if name \<noteq> ''sync'' \<and> name \<noteq> ''async'' then Inl BadMode
      else if name = ''sync'' then
        (if is_absent raw_parallel \<or> eq_int raw_parallel 1 \<or> eq_text raw_parallel ''1''
         then Inr \<lparr>rm_mode = SYNC, max_parallel = 1\<rparr> else Inl ParallelOnSync)
      else if is_absent raw_parallel then Inr \<lparr>rm_mode = ASYNC, max_parallel = DEFAULT_MAX_PARALLEL\<rparr>
      else case py_int raw_parallel of
             None \<Rightarrow> Inl ParallelNotANumber
           | Some parallel \<Rightarrow>
               if parallel < 1 then Inl (ParallelTooSmall parallel)
               else if parallel > MAX_PARALLEL_LIMIT then Inl (ParallelTooBig parallel)
               else Inr \<lparr>rm_mode = ASYNC, max_parallel = parallel\<rparr>)"

definition may_start :: "run_mode \<Rightarrow> int \<Rightarrow> bool" where
  "may_start m in_flight =
     (if rm_mode m = ASYNC then in_flight < max_parallel m else in_flight = 0)"

subsection \<open>Lemmas on claims\<close>

lemma claim_fields_get:
  "get (claim_fields pid host node started) ''claim_pid'' = PInt pid"
  "get (claim_fields pid host node started) ''claim_host'' = PStr host"
  "get (claim_fields pid host node started) ''claim_node'' = (if strip node = [] then PNone else PStr (strip node))"
  "get (claim_fields pid host node started) ''claim_started'' = (if strip started = [] then PNone else PStr (strip started))"
  by (simp_all add: claim_fields_def get_def)

lemma reap_of_verdict [simp]:
  "reap (verdict b r) = b" "timed_out (verdict b r) = False"
  by (simp_all add: verdict_def)

text \<open>The two decisions about a row whose owner names both a process and a host.\<close>

lemma owner_verdict_here:
  "claim_owner md fb = (Some pid, h) \<Longrightarrow> h \<noteq> [] \<Longrightarrow>
   reap (owner_verdict md h el lmt alive g nd fb) = (alive \<noteq> Some True)"
  by (simp add: owner_verdict_def Let_def)

lemma owner_verdict_foreign:
  "claim_owner md fb = (Some pid, h) \<Longrightarrow> h \<noteq> [] \<Longrightarrow> h \<noteq> here \<Longrightarrow>
   reap (owner_verdict md here el lmt alive g nd fb) =
     (left_by_an_earlier_host_of_this_node md h here nd \<or> lmt \<noteq> 0 \<and> max lmt 0 + of_int g \<le> el)"
  by (simp add: owner_verdict_def Let_def)

lemma owner_verdict_unowned:
  "fst (claim_owner md fb) = None \<or> snd (claim_owner md fb) = [] \<Longrightarrow>
   reap (owner_verdict md here el lmt alive g nd fb) = (lmt \<noteq> 0 \<and> lmt \<le> el)"
  by (auto simp: owner_verdict_def Let_def left_by_an_earlier_host_of_this_node_def split: option.splits)

lemma owner_verdict_not_timed_out [simp]:
  "timed_out (owner_verdict md here el lmt alive g nd fb) = False"
  by (simp add: owner_verdict_def Let_def split: option.splits)

lemma reap_verdict_reap:
  "reap (reap_verdict md here el lmt alive g nd att fb) =
     (reap (owner_verdict md here el lmt alive g nd fb) \<or> att \<and> lmt \<noteq> 0 \<and> lmt \<le> el)"
  by (auto simp: reap_verdict_def Let_def)

lemma reap_verdict_timed_out:
  "timed_out (reap_verdict md here el lmt alive g nd att fb) =
     (\<not> reap (owner_verdict md here el lmt alive g nd fb) \<and> att \<and> lmt \<noteq> 0 \<and> lmt \<le> el)"
  by (auto simp: reap_verdict_def Let_def)

subsection \<open>Lemmas on run modes\<close>

lemma parse_run_mode_wf:
  "parse_run_mode data = Inr m \<Longrightarrow>
   1 \<le> max_parallel m \<and> max_parallel m \<le> MAX_PARALLEL_LIMIT \<and> (rm_mode m = SYNC \<longrightarrow> max_parallel m = 1)"
  by (auto simp: parse_run_mode_def Let_def DEFAULT_MAX_PARALLEL_def MAX_PARALLEL_LIMIT_def
      split: if_splits option.splits)

text \<open>The daemon's processes of one command: one starts when \<open>may_start\<close> allows it, or one ends.\<close>

inductive flight_step :: "run_mode \<Rightarrow> int \<Rightarrow> int \<Rightarrow> bool" for m :: run_mode where
  start: "may_start m n \<Longrightarrow> flight_step m n (n + 1)"
| finish: "0 < n \<Longrightarrow> flight_step m n (n - 1)"

inductive_cases flight_stepE: "flight_step m n n'"

definition flight_inv :: "run_mode \<Rightarrow> int \<Rightarrow> bool" where
  "flight_inv m n = (0 \<le> n \<and> n \<le> max 1 (max_parallel m))"

interpretation flight: kept "flight_step m" "flight_inv m" for m
  by unfold_locales (auto simp: flight_inv_def may_start_def elim!: flight_stepE split: if_splits)

subsection \<open>Properties\<close>

text \<open>The reaper and the daemon's start-up never take a claim from a live process of this host,
  whatever the run's age: only the SQL-task rule (at timeout) closes it, marked timed out.\<close>

theorem live_owner_keeps_its_claim:
  assumes "claim_owner md fb = (Some pid, here)" "here \<noteq> []"
  shows "\<not> reap (reap_verdict md here el lmt (Some True) g nd False fb)
    \<and> \<not> reap (startup_verdict md here el lmt (Some True) g nd fb)
    \<and> (reap (reap_verdict md here el lmt (Some True) g nd True fb) \<longleftrightarrow>
        timed_out (reap_verdict md here el lmt (Some True) g nd True fb))"
  using assms
  by (simp add: reap_verdict_reap reap_verdict_timed_out owner_verdict_here startup_verdict_def Let_def)

theorem live_owner_keeps_its_claim_witness:
  "\<not> reap (reap_verdict (claim_fields 42 ''db01'' '''' '''') ''db01'' 90000 60 (Some True) 3600 '''' False '''')"
  using live_owner_keeps_its_claim [of "claim_fields 42 ''db01'' '''' ''''" "''''" 42 "''db01''" 90000 60 3600 "''''"]
  by (simp add: claim_owner_def pid_under_def claim_fields_get)

text \<open>Another host's run is closed only when this node was that host under an earlier name, or
  after its timeout plus the grace; a service without a timeout is then never closed on age, and
  the start-up of this daemon decides the same way.\<close>

theorem foreign_claim_rule:
  assumes "claim_owner md fb = (Some pid, h)" "h \<noteq> []" "h \<noteq> here"
  shows "(reap (reap_verdict md here el lmt alive g nd False fb) \<longleftrightarrow>
      (claim_node md \<noteq> [] \<and> claim_node md = nd) \<or> (lmt \<noteq> 0 \<and> max lmt 0 + of_int g \<le> el))
    \<and> startup_verdict md here el lmt alive g nd fb = reap_verdict md here el lmt None g nd False fb"
  using assms
  by (auto simp: reap_verdict_reap owner_verdict_foreign left_by_an_earlier_host_of_this_node_def
      startup_verdict_def Let_def)

theorem foreign_claim_rule_witness:
  "\<not> reap (reap_verdict (claim_fields 7 ''old'' '''' '''') ''new'' 900000 0 None 3600 ''n1'' False '''')
   \<and> reap (reap_verdict (claim_fields 7 ''old'' ''n1'' '''') ''new'' 1 0 None 3600 ''n1'' False '''')"
proof -
  have o: "claim_owner (claim_fields 7 ''old'' nd '''') '''' = (Some 7, ''old'')" for nd
    by (simp add: claim_owner_def pid_under_def claim_fields_get)
  have n: "claim_node (claim_fields 7 ''old'' nd '''') = strip nd" "strip ''n1'' = ''n1''" for nd
    by (simp_all add: claim_node_def claim_fields_get strip_no_ws is_ws_def)
  show ?thesis
    using foreign_claim_rule [OF o [of "''''"], of "''new''" 900000 0 None 3600 "''n1''"]
      foreign_claim_rule [OF o [of "''n1''"], of "''new''" 1 0 None 3600 "''n1''"]
    by (simp add: n)
qed

text \<open>What a run writes when it claims its key is what every reader finds there: the process
  and the host, the node and the start marker.\<close>

theorem claim_roundtrip:
  "claim_owner (claim_fields pid host node started) fb = (Some pid, host)
   \<and> claim_node (claim_fields pid host node started) = strip node
   \<and> claim_started (claim_fields pid host node started) = strip started"
  by (simp add: claim_owner_def pid_under_def claim_fields_get claim_node_def claim_started_def)

text \<open>From an idle command, no sequence of starts the daemon is allowed and of exits ever has
  more processes in flight than the record's cap, at most 32, and never two of a sync command.\<close>

theorem in_flight_bounded:
  assumes "parse_run_mode data = Inr m"
    and "(flight_step m)\<^sup>*\<^sup>* 0 n"
  shows "n \<le> max_parallel m \<and> n \<le> 32 \<and> (rm_mode m = SYNC \<longrightarrow> n \<le> 1)"
  using flight.run_inv [OF assms(2)] parse_run_mode_wf [OF assms(1)]
  by (auto simp: flight_inv_def MAX_PARALLEL_LIMIT_def)

theorem in_flight_bounded_witness:
  "parse_run_mode [(''run_mode'', PStr ''async''), (''max_parallel'', PStr ''2'')]
     = Inr \<lparr>rm_mode = ASYNC, max_parallel = 2\<rparr> \<and> (1::int) \<le> 2 \<and> (1::int) \<le> 32"
proof -
  have p: "parse_run_mode [(''run_mode'', PStr ''async''), (''max_parallel'', PStr ''2'')]
     = Inr \<lparr>rm_mode = ASYNC, max_parallel = 2\<rparr>" by code_simp
  have "flight_step \<lparr>rm_mode = ASYNC, max_parallel = 2\<rparr> 0 (0 + 1)"
    by (rule flight_step.start) (simp add: may_start_def)
  then have "(flight_step \<lparr>rm_mode = ASYNC, max_parallel = 2\<rparr>)\<^sup>*\<^sup>* 0 1" by simp
  with in_flight_bounded [OF p this] p show ?thesis by simp
qed

end
