(* ===== verification/Integrity.thy ===== *)
theory Integrity
  imports Coerce
begin

section \<open>What a backup file is, and what a restore must prove about it\<close>

text \<open>
  Models \<^verbatim>\<open>dbabrain/lib/integrity.py\<close>: the vocabulary of the backup catalog, the
  \<^verbatim>\<open>integrity\<close> and \<^verbatim>\<open>action\<close> fields of a restore entry and the upgrade step that states
  them, the classification of a backup file from its place in the layout, and the two
  chain-completeness checks (LSNs of SQL Server, WAL segments of PostgreSQL).
\<close>

subsection \<open>The vocabulary\<close>

definition SHA256 :: string where
  "SHA256 = ''sha256''"

definition PROVEN_VERDICTS :: "string list" where
  "PROVEN_VERDICTS = [''match'', ''copied'', ''recopied'']"

definition RUN_FILE_VERDICTS :: "string list" where
  "RUN_FILE_VERDICTS = [''copying'', ''match'', ''copied'', ''recopied'', ''source_mismatch'',
     ''source_missing'', ''uncatalogued_refused'', ''copy_failed_after_retries'']"

definition MAX_COPY_MAX_RETRY :: int where
  "MAX_COPY_MAX_RETRY = 10"

definition UNCATALOGUED_CHOICES :: "string list" where
  "UNCATALOGUED_CHOICES = [''compare_copy'', ''refuse'']"

definition RESTORE_ACTIONS :: "string list" where
  "RESTORE_ACTIONS = [''restore'', ''copy_only'']"

definition LEVEL_OF_FILE_TYPE :: "(string \<times> string) list" where
  "LEVEL_OF_FILE_TYPE =
     [(''FULL'', ''full''), (''FULL_BASE'', ''full''), (''RMAN_L0'', ''full''),
      (''DIFF'', ''diff''), (''INCR_BASE'', ''diff''), (''RMAN_L1'', ''diff''),
      (''LOG'', ''log''), (''WAL'', ''log''), (''ARCHIVELOG'', ''log'')]"

subsection \<open>The integrity block of a restore entry\<close>

datatype integrity_error =
    NotAnObject
  | UnknownFields "string list"
  | CopyMaxRetryRequired
  | BadAlgorithm
  | BadUncatalogued
  | NotABool string
  | NotAWhole string
  | OutOfRange string int
  | NoIntegrityStated
  | BadAction
  | NoActionStated
  | BadScrub

record restore_integrity =
  algorithm :: string
  copy_max_retry :: int
  copy_retry_interval_seconds :: int
  verify_source_before_copy :: bool
  uncatalogued :: string
  engine_verify_before_restore :: bool

definition default_integrity :: restore_integrity where
  "default_integrity = \<lparr>algorithm = SHA256, copy_max_retry = 3, copy_retry_interval_seconds = 30,
     verify_source_before_copy = True, uncatalogued = ''compare_copy'',
     engine_verify_before_restore = False\<rparr>"

definition INTEGRITY_FIELDS :: "string list" where
  "INTEGRITY_FIELDS = [''algorithm'', ''copy_max_retry'', ''copy_retry_interval_seconds'',
     ''verify_source_before_copy'', ''uncatalogued'', ''engine_verify_before_restore'']"

definition integrity_as_record :: "restore_integrity \<Rightarrow> pydict" where
  "integrity_as_record r =
     [(''algorithm'', PStr (algorithm r)), (''copy_max_retry'', PInt (copy_max_retry r)),
      (''copy_retry_interval_seconds'', PInt (copy_retry_interval_seconds r)),
      (''verify_source_before_copy'', PBool (verify_source_before_copy r)),
      (''uncatalogued'', PStr (uncatalogued r)),
      (''engine_verify_before_restore'', PBool (engine_verify_before_restore r))]"

definition stated_restore_integrity :: pydict where
  "stated_restore_integrity = integrity_as_record default_integrity"

definition new_restore_integrity :: pydict where
  "new_restore_integrity = integrity_as_record (default_integrity\<lparr>uncatalogued := ''refuse''\<rparr>)"

definition bool_field :: "pydict \<Rightarrow> string \<Rightarrow> bool \<Rightarrow> integrity_error + bool" where
  "bool_field raw name dflt =
     (case get_or raw name (PBool dflt) of PBool b \<Rightarrow> Inr b | _ \<Rightarrow> Inl (NotABool name))"

definition int_field :: "pydict \<Rightarrow> string \<Rightarrow> int \<Rightarrow> int \<Rightarrow> int \<Rightarrow> integrity_error + int" where
  "int_field raw name dflt low high =
     (case get_or raw name (PInt dflt) of
        PInt i \<Rightarrow> (if low \<le> i \<and> i \<le> high then Inr i else Inl (OutOfRange name i))
      | _ \<Rightarrow> Inl (NotAWhole name))"

definition parse_integrity_block :: "pydict \<Rightarrow> integrity_error + restore_integrity" where
  "parse_integrity_block raw =
     (let unknown = sort (filter (\<lambda>n. n \<notin> set INTEGRITY_FIELDS \<and> \<not> startswith n ''_'') (map fst raw));
          algo = lower (strip (if truthy (get raw ''algorithm'') then py_str (get raw ''algorithm'') else SHA256));
          unc = lower (strip (if truthy (get raw ''uncatalogued'') then py_str (get raw ''uncatalogued'')
                              else ''compare_copy'')) in
      if unknown \<noteq> [] then Inl (UnknownFields unknown)
      else if \<not> has_key raw ''copy_max_retry'' then Inl CopyMaxRetryRequired
      else if algo \<noteq> SHA256 then Inl BadAlgorithm
      else if unc \<notin> set UNCATALOGUED_CHOICES then Inl BadUncatalogued
      else
        rbind (int_field raw ''copy_max_retry'' 3 0 MAX_COPY_MAX_RETRY) (\<lambda>retry.
        rbind (int_field raw ''copy_retry_interval_seconds'' 30 0 3600) (\<lambda>interval.
        rbind (bool_field raw ''verify_source_before_copy'' True) (\<lambda>verify.
        rbind (bool_field raw ''engine_verify_before_restore'' False) (\<lambda>engine_verify.
        Inr \<lparr>algorithm = algo, copy_max_retry = retry, copy_retry_interval_seconds = interval,
             verify_source_before_copy = verify, uncatalogued = unc,
             engine_verify_before_restore = engine_verify\<rparr>)))))"

definition parse_restore_integrity :: "pydict \<Rightarrow> integrity_error + restore_integrity option" where
  "parse_restore_integrity entry =
     (case get entry ''integrity'' of
        PNone \<Rightarrow> Inr None
      | PDict raw \<Rightarrow> rbind (parse_integrity_block raw) (\<lambda>r. Inr (Some r))
      | _ \<Rightarrow> Inl NotAnObject)"

definition require_restore_integrity :: "pydict \<Rightarrow> integrity_error + restore_integrity" where
  "require_restore_integrity entry =
     rbind (parse_restore_integrity entry) (\<lambda>p.
       case p of None \<Rightarrow> Inl NoIntegrityStated | Some r \<Rightarrow> Inr r)"

definition parse_restore_action :: "pydict \<Rightarrow> integrity_error + string option" where
  "parse_restore_action entry =
     (case get entry ''action'' of
        PNone \<Rightarrow> Inr None
      | PStr raw \<Rightarrow>
          (if lower (strip raw) \<in> set RESTORE_ACTIONS then Inr (Some (lower (strip raw))) else Inl BadAction)
      | _ \<Rightarrow> Inl BadAction)"

definition require_restore_action :: "string option \<Rightarrow> integrity_error + string" where
  "require_restore_action action = (case action of None \<Rightarrow> Inl NoActionStated | Some a \<Rightarrow> Inr a)"

definition scrub_files_per_run :: "pydict \<Rightarrow> integrity_error + int" where
  "scrub_files_per_run entry =
     (case get_or entry ''scrub_files_per_run'' (PInt 20) of
        PInt i \<Rightarrow> (if 0 \<le> i \<and> i \<le> 1000 then Inr i else Inl BadScrub)
      | _ \<Rightarrow> Inl BadScrub)"

text \<open>\<open>state_restore_integrity\<close>: the entry as the upgrade leaves it, and the fields it wrote.\<close>

definition state_entry :: "pydict \<Rightarrow> pydict \<times> string list" where
  "state_entry entry =
     (let with_action = (if has_key entry ''action'' then entry else upd ''action'' (PStr ''restore'') entry);
          wrote_action = (if has_key entry ''action'' then [] else [''action'']) in
      if has_key with_action ''integrity'' then (with_action, wrote_action)
      else (upd ''integrity'' (PDict stated_restore_integrity) with_action, wrote_action @ [''integrity'']))"

definition state_restore :: "pyval \<Rightarrow> pyval" where
  "state_restore v = (case v of PDict entry \<Rightarrow> PDict (fst (state_entry entry)) | _ \<Rightarrow> v)"

definition state_restore_integrity :: "pyval \<Rightarrow> pyval" where
  "state_restore_integrity document =
     (case document of
        PDict doc \<Rightarrow>
          (case get doc ''backup_restore'' of
             PDict section \<Rightarrow>
               (case get section ''restores'' of
                  PList restores \<Rightarrow>
                    PDict (upd ''backup_restore''
                      (PDict (upd ''restores'' (PList (map state_restore restores)) section)) doc)
                | _ \<Rightarrow> document)
           | _ \<Rightarrow> document)
      | _ \<Rightarrow> document)"

subsection \<open>One file\<close>

text \<open>The reason of \<open>size_anomaly\<close> is the size, the median and the length of the history.\<close>

definition size_anomaly :: "int option \<Rightarrow> int list \<Rightarrow> (int \<times> int \<times> nat) option" where
  "size_anomaly size_of history =
     (let sizes = sort (filter (\<lambda>s. s \<noteq> 0) history) in
      case size_of of
        None \<Rightarrow> None
      | Some s \<Rightarrow>
          if length sizes < 5 then None
          else let median = sizes ! (length sizes div 2) in
               if median \<noteq> 0 \<and> (s > 3 * median \<or> s * 3 < median) then Some (s, median, length sizes)
               else None)"

definition path_parts :: "string \<Rightarrow> string list" where
  "path_parts p = filter (\<lambda>s. s \<noteq> []) (split_on (CHR ''/'') (replace_char (CHR 0x5C) (CHR ''/'') p))"

definition sqlserver_file_type :: "string \<Rightarrow> string" where
  "sqlserver_file_type relative_path =
     (let parts = map upper (path_parts relative_path);
          name = (if parts = [] then [] else last parts) in
      if endswith name ''.CER'' \<or> endswith name ''.PVK'' \<or> ''_CERT'' \<in> set parts then ''CERT''
      else if endswith name ''.TRN'' \<or> ''LOG'' \<in> set (butlast parts) then ''LOG''
      else if ''DIFF'' \<in> set (butlast parts) then ''DIFF''
      else ''FULL'')"

definition rstrip_char :: "(char \<Rightarrow> bool) \<Rightarrow> string \<Rightarrow> string" where
  "rstrip_char P s = rev (dropWhile P (rev s))"

definition base_name :: "string \<Rightarrow> string" where
  "base_name path = last (split_on (CHR ''/'') (rstrip_char (\<lambda>c. c = CHR ''/'') path))"

fun first_marker :: "string \<Rightarrow> (string \<times> string) list \<Rightarrow> string option" where
  "first_marker name [] = None"
| "first_marker name ((marker, kind) # rest) =
     (if contains name marker then Some kind else first_marker name rest)"

definition script_file_type :: "string \<Rightarrow> string \<Rightarrow> string" where
  "script_file_type db_type relative =
     (let path = replace_char (CHR 0x5C) (CHR ''/'') relative;
          name = upper (base_name path);
          engine = lower db_type in
      if engine = ''postgresql'' then
        (if startswith path ''wal/'' \<or> contains path ''/wal/'' then ''WAL''
         else if name = ''BACKUP_MANIFEST'' then ''MANIFEST''
         else if contains (upper path) ''_INCR'' then ''INCR_BASE'' else ''FULL_BASE'')
      else if engine = ''oracle'' then
        (if startswith name ''C-'' \<or> startswith name ''AUTOBACKUP_'' then ''CONTROLFILE''
         else case first_marker name
                [(''CONTROLFILE'', ''CONTROLFILE''), (''CTL_'', ''CONTROLFILE''), (''SPFILE'', ''SPFILE''),
                 (''ARCH'', ''ARCHIVELOG''), (''L1'', ''RMAN_L1''), (''INCR'', ''RMAN_L1'')] of
                Some kind \<Rightarrow> kind | None \<Rightarrow> ''RMAN_L0'')
      else sqlserver_file_type path)"

definition HASHED_MEMBER :: "(string \<times> string) list" where
  "HASHED_MEMBER = [(''FULL_BASE'', ''backup_manifest''), (''INCR_BASE'', ''backup_manifest'')]"

definition hashed_path :: "string \<Rightarrow> string \<Rightarrow> string" where
  "hashed_path file_type path =
     (case map_of HASHED_MEMBER (upper file_type) of
        None \<Rightarrow> path
      | Some member \<Rightarrow>
          if path = [] then path
          else rstrip_char (\<lambda>c. c = CHR ''/'' \<or> c = CHR 0x5C) path
               @ (if CHR 0x5C \<in> set path \<and> CHR ''/'' \<notin> set path then [CHR 0x5C] else ''/'') @ member)"

definition production_target_refused :: "string option \<Rightarrow> bool \<Rightarrow> bool" where
  "production_target_refused environment allowed =
     (\<not> allowed \<and>
      lower (strip (case environment of None \<Rightarrow> [] | Some e \<Rightarrow> e)) \<in> {''prod'', ''production''})"

definition file_verdict :: "string option \<Rightarrow> int option \<Rightarrow> string \<Rightarrow> string" where
  "file_verdict sha256 size_bytes engine_verify =
     (if sha256 = None \<or> sha256 = Some [] then ''hash_failed''
      else if size_bytes = None then ''size_failed''
      else if engine_verify = ''failed'' then ''verify_failed''
      else ''ok'')"

subsection \<open>The SQL Server chain\<close>

datatype chain_break =
    ChainHolds
  | WrongBase int int
  | LogsStartLate int int
  | LogMissing int int

definition lsn :: "pydict \<Rightarrow> string \<Rightarrow> int" where
  "lsn item key =
     (let v = get item key in if truthy v then (case py_int v of None \<Rightarrow> 0 | Some i \<Rightarrow> i) else 0)"

fun log_walk :: "int \<Rightarrow> bool \<Rightarrow> pydict list \<Rightarrow> chain_break" where
  "log_walk previous_end started [] = ChainHolds"
| "log_walk previous_end started (item # rest) =
     (let first = lsn item ''first_lsn''; final = lsn item ''last_lsn'' in
      if first = 0 \<or> final = 0 \<or> previous_end = 0 then ChainHolds
      else if \<not> started then
        (if final \<le> previous_end then log_walk previous_end started rest
         else if first > previous_end then LogsStartLate first previous_end
         else log_walk final True rest)
      else if first \<noteq> previous_end then LogMissing first previous_end
      else log_walk final started rest)"

definition sqlserver_chain_break :: "pydict \<Rightarrow> pydict option \<Rightarrow> pydict list \<Rightarrow> chain_break" where
  "sqlserver_chain_break full diff logs =
     (let has_diff = (diff \<noteq> None \<and> diff \<noteq> Some []);
          d = (case diff of None \<Rightarrow> [] | Some x \<Rightarrow> x);
          base = lsn d ''differential_base_lsn''; checkpoint = lsn full ''checkpoint_lsn'' in
      if has_diff \<and> base \<noteq> 0 \<and> checkpoint \<noteq> 0 \<and> base \<noteq> checkpoint then WrongBase base checkpoint
      else log_walk (lsn (if has_diff then d else full) ''last_lsn'') False logs)"

subsection \<open>The PostgreSQL WAL\<close>

datatype wal_break =
    WalHolds
  | StartNotArchived string
  | SegmentMissing string int

definition hex_val :: "char \<Rightarrow> int" where
  "hex_val c = (if is_digit c then int (digit_val c) else int (of_char c :: nat) - 55)"

definition hex_int :: "string \<Rightarrow> int" where
  "hex_int s = foldl (\<lambda>a c. 16 * a + hex_val c) 0 s"

definition is_wal_segment_name :: "string \<Rightarrow> bool" where
  "is_wal_segment_name s =
     (length s = 24 \<and> (\<forall>c\<in>set s. is_digit c \<or> c \<in> {CHR ''A'', CHR ''B'', CHR ''C'', CHR ''D'', CHR ''E'', CHR ''F''}))"

definition wal_number :: "string \<Rightarrow> int option" where
  "wal_number name =
     (let log = hex_int (take 8 (drop 8 name)); seg = hex_int (take 8 (drop 16 name)) in
      if seg > 255 then None else Some (log * 256 + seg))"

fun wal_walk :: "string \<Rightarrow> int option \<Rightarrow> string list \<Rightarrow> wal_break" where
  "wal_walk timeline previous [] = WalHolds"
| "wal_walk timeline previous (name # rest) =
     (case (previous, wal_number name) of
        (Some p, Some c) \<Rightarrow> if c \<noteq> p + 1 then SegmentMissing timeline (p + 1)
                            else wal_walk timeline (Some c) rest
      | _ \<Rightarrow> WalHolds)"

definition postgresql_wal_break :: "string \<Rightarrow> string list \<Rightarrow> bool \<Rightarrow> wal_break" where
  "postgresql_wal_break start_wal segments to_latest =
     (let start = upper (strip start_wal);
          names = sort (remdups (filter is_wal_segment_name (map (\<lambda>n. upper (strip n)) segments)));
          timeline = take 8 start;
          after = filter (\<lambda>n. start \<le> n) names in
      if \<not> is_wal_segment_name start \<or> names = [] then WalHolds
      else if \<exists>n\<in>set after. take 8 n \<noteq> timeline then WalHolds
      else if start \<notin> set after then StartNotArchived start
      else if \<not> to_latest then WalHolds
      else wal_walk timeline (wal_number start) (tl after))"


subsection \<open>Lemmas on the stated fields\<close>

definition wf_integrity :: "restore_integrity \<Rightarrow> bool" where
  "wf_integrity r =
     (algorithm r = SHA256 \<and> 0 \<le> copy_max_retry r \<and> copy_max_retry r \<le> MAX_COPY_MAX_RETRY \<and>
      0 \<le> copy_retry_interval_seconds r \<and> copy_retry_interval_seconds r \<le> 3600 \<and>
      uncatalogued r \<in> set UNCATALOGUED_CHOICES)"

lemma int_field_Inr: "int_field raw name dflt low high = Inr i \<Longrightarrow> low \<le> i \<and> i \<le> high"
  by (auto simp: int_field_def split: pyval.splits if_splits)

lemma parse_integrity_block_wf: "parse_integrity_block raw = Inr r \<Longrightarrow> wf_integrity r"
  by (auto simp: parse_integrity_block_def Let_def rbind_eq_Inr wf_integrity_def
      dest!: int_field_Inr split: if_splits)

lemma parse_restore_integrity_wf: "parse_restore_integrity entry = Inr (Some r) \<Longrightarrow> wf_integrity r"
  by (auto simp: parse_restore_integrity_def rbind_eq_Inr dest: parse_integrity_block_wf
      split: pyval.splits)

lemma words_clean:
  "lower (strip SHA256) = SHA256" "u \<in> set UNCATALOGUED_CHOICES \<Longrightarrow> lower (strip u) = u \<and> u \<noteq> []"
  "SHA256 \<noteq> []"
  by (auto simp: SHA256_def UNCATALOGUED_CHOICES_def strip_no_ws is_ws_def lower_def lower_char_def)

lemma record_lookup:
  "get (integrity_as_record r) ''algorithm'' = PStr (algorithm r)"
  "get (integrity_as_record r) ''uncatalogued'' = PStr (uncatalogued r)"
  "has_key (integrity_as_record r) ''copy_max_retry''"
  "get_or (integrity_as_record r) ''copy_max_retry'' v = PInt (copy_max_retry r)"
  "get_or (integrity_as_record r) ''copy_retry_interval_seconds'' v = PInt (copy_retry_interval_seconds r)"
  "get_or (integrity_as_record r) ''verify_source_before_copy'' v = PBool (verify_source_before_copy r)"
  "get_or (integrity_as_record r) ''engine_verify_before_restore'' v = PBool (engine_verify_before_restore r)"
  "filter (\<lambda>n. n \<notin> set INTEGRITY_FIELDS \<and> \<not> startswith n ''_'') (map fst (integrity_as_record r)) = []"
  by (simp_all add: integrity_as_record_def get_def get_or_def has_key_def INTEGRITY_FIELDS_def)

lemma parse_as_record:
  "wf_integrity r \<Longrightarrow> parse_restore_integrity [(''integrity'', PDict (integrity_as_record r))] = Inr (Some r)"
  by (simp add: parse_restore_integrity_def parse_integrity_block_def get_def [of "[_]"] record_lookup
      words_clean wf_integrity_def Let_def int_field_def bool_field_def)

lemma has_key_upd [simp]: "has_key (upd k v d) j \<longleftrightarrow> j = k \<or> has_key d j"
  by (auto simp: has_key_def)

lemma get_upd [simp]: "get (upd k v d) j = (if j = k then v else get d j)"
  by (auto simp: get_def)

lemma state_entry_keeps: "has_key e k \<Longrightarrow> get (fst (state_entry e)) k = get e k"
  by (auto simp: state_entry_def Let_def)

lemma state_entry_states: "has_key (fst (state_entry e)) ''action''" "has_key (fst (state_entry e)) ''integrity''"
  by (auto simp: state_entry_def Let_def)

lemma state_entry_fixed: "has_key e ''action'' \<Longrightarrow> has_key e ''integrity'' \<Longrightarrow> state_entry e = (e, [])"
  by (simp add: state_entry_def)

lemma state_restore_idem: "state_restore (state_restore v) = state_restore v"
  by (auto simp: state_restore_def state_entry_fixed state_entry_states split: pyval.splits)

lemma state_restore_comp: "state_restore \<circ> state_restore = state_restore"
  by (simp add: fun_eq_iff state_restore_idem)

lemma upd_idem [simp]: "upd k v (upd k v' d) = upd k v d"
  by (induction d) auto

subsection \<open>Lemmas on the chains\<close>

lemma log_walk_covers:
  assumes "log_walk pe started logs = ChainHolds"
    and "pe \<noteq> 0" "\<forall>l\<in>set logs. lsn l ''first_lsn'' \<noteq> 0 \<and> lsn l ''last_lsn'' \<noteq> 0"
    and "logs \<noteq> []" "pe \<le> x" "x < lsn (last logs) ''last_lsn''"
  shows "\<exists>l\<in>set logs. lsn l ''first_lsn'' \<le> x \<and> x < lsn l ''last_lsn''"
  using assms
proof (induction pe started logs rule: log_walk.induct)
  case (2 pe started item rest)
  let ?f = "lsn item ''first_lsn''" and ?e = "lsn item ''last_lsn''"
  show ?case
  proof (cases "?f \<le> x \<and> x < ?e")
    case False
    show ?thesis
    proof (cases "\<not> started \<and> ?e \<le> pe")
      case True
      with "2.prems" False have "rest \<noteq> []" by auto
      moreover from True "2.prems" have "log_walk pe started rest = ChainHolds" by (auto simp: Let_def)
      ultimately show ?thesis using "2.IH"(1) [OF refl refl] True "2.prems" by auto
    next
      case step: False
      then have first: "?f \<le> pe" and walk: "log_walk ?e True rest = ChainHolds"
        using "2.prems"(1-3) by (auto simp: Let_def split: if_splits)
      with False "2.prems" have ge: "?e \<le> x" by auto
      with "2.prems" have "rest \<noteq> []" by auto
      with walk ge step show ?thesis
        using "2.IH"(2) [OF refl refl] "2.IH"(3) [OF refl refl] first "2.prems"
        by (cases started) (auto simp: Let_def split: if_splits)
    qed
  qed auto
qed simp

lemma wal_walk_covers:
  assumes "wal_walk tln (Some p) ns = WalHolds" "\<forall>n\<in>set ns. wal_number n \<noteq> None"
    and "n \<in> set ns" "wal_number n = Some c" "p < k" "k \<le> c"
  shows "\<exists>m\<in>set ns. wal_number m = Some k"
  using assms
proof (induction ns arbitrary: p)
  case (Cons a ns)
  then obtain d where d: "wal_number a = Some d" by auto
  with Cons.prems(1) have p: "d = p + 1" and walk: "wal_walk tln (Some d) ns = WalHolds"
    by (auto split: if_splits)
  show ?case
  proof (cases "k = d")
    case True
    with d show ?thesis by auto
  next
    case False
    with p Cons.prems d have "d < k" "n \<in> set ns" by auto
    then show ?thesis using Cons.IH [OF walk] Cons.prems by auto
  qed
qed simp

lemma sorted_from_start:
  fixes start :: "'a::linorder"
  assumes "start \<in> set xs" "distinct xs" "sorted xs"
  shows "\<exists>rest. filter (\<lambda>n. start \<le> n) xs = start # rest"
proof -
  let ?ys = "filter (\<lambda>n. start \<le> n) xs"
  have s: "sorted ?ys" "start \<in> set ?ys" using assms by (auto simp: sorted_wrt_filter)
  then obtain y ys where y: "?ys = y # ys" by (cases ?ys) auto
  with s have "y \<le> start" by auto
  moreover have "y \<in> set ?ys" unfolding y by simp
  then have "start \<le> y" by simp
  ultimately show ?thesis using y by auto
qed

subsection \<open>Properties\<close>

text \<open>An integrity block the parser accepts holds a retry count of 0 to 10, a pause of at most an
  hour and a known rule for uncatalogued files; and the block the upgrade or the registrar writes
  reads back as the very settings it was made from.\<close>

theorem integrity_parse_roundtrip:
  "(\<forall>entry r. parse_restore_integrity entry = Inr (Some r) \<longrightarrow>
      0 \<le> copy_max_retry r \<and> copy_max_retry r \<le> 10 \<and> 0 \<le> copy_retry_interval_seconds r \<and>
      copy_retry_interval_seconds r \<le> 3600 \<and> uncatalogued r \<in> {''compare_copy'', ''refuse''} \<and>
      parse_restore_integrity [(''integrity'', PDict (integrity_as_record r))] = Inr (Some r))"
proof (intro allI impI)
  fix entry r
  assume "parse_restore_integrity entry = Inr (Some r)"
  then have "wf_integrity r" by (rule parse_restore_integrity_wf)
  then show "0 \<le> copy_max_retry r \<and> copy_max_retry r \<le> 10 \<and> 0 \<le> copy_retry_interval_seconds r \<and>
      copy_retry_interval_seconds r \<le> 3600 \<and> uncatalogued r \<in> {''compare_copy'', ''refuse''} \<and>
      parse_restore_integrity [(''integrity'', PDict (integrity_as_record r))] = Inr (Some r)"
    using parse_as_record [of r] by (auto simp: wf_integrity_def MAX_COPY_MAX_RETRY_def UNCATALOGUED_CHOICES_def)
qed

theorem integrity_parse_roundtrip_witness:
  "parse_restore_integrity [(''integrity'', PDict new_restore_integrity)]
     = Inr (Some (default_integrity\<lparr>uncatalogued := ''refuse''\<rparr>))"
proof -
  have "parse_restore_integrity [(''integrity'', PDict [(''copy_max_retry'', PInt 3), (''uncatalogued'', PStr '' Refuse'')])]
      = Inr (Some (default_integrity\<lparr>uncatalogued := ''refuse''\<rparr>))"
    by code_simp
  with integrity_parse_roundtrip show ?thesis
    unfolding new_restore_integrity_def by blast
qed

text \<open>The upgrade step states what an entry lacks and overrides nothing: every field stated before
  keeps its value, afterwards both fields are there, the settings it writes are accepted by the
  copy gate's reader, and running it again changes nothing.\<close>

theorem upgrade_states_integrity:
  "(has_key e k \<longrightarrow> get (fst (state_entry e)) k = get e k)
   \<and> has_key (fst (state_entry e)) ''action'' \<and> has_key (fst (state_entry e)) ''integrity''
   \<and> (\<not> has_key e ''integrity'' \<longrightarrow> require_restore_integrity (fst (state_entry e)) = Inr default_integrity)
   \<and> state_restore_integrity (state_restore_integrity doc) = state_restore_integrity doc"
proof -
  have block: "parse_integrity_block stated_restore_integrity = Inr default_integrity"
    by code_simp
  have "get (fst (state_entry e)) ''integrity'' = PDict stated_restore_integrity" if "\<not> has_key e ''integrity''"
    using that by (simp add: state_entry_def Let_def)
  then have "\<not> has_key e ''integrity'' \<longrightarrow> require_restore_integrity (fst (state_entry e)) = Inr default_integrity"
    by (simp add: require_restore_integrity_def parse_restore_integrity_def block)
  then show ?thesis
    using state_entry_keeps [of e k] state_entry_states [of e]
    by (auto simp: state_restore_integrity_def state_restore_comp split: pyval.splits)
qed

theorem upgrade_states_integrity_witness:
  "get (fst (state_entry [(''restore_id'', PStr ''R1''), (''action'', PStr ''copy_only'')])) ''action''
   = PStr ''copy_only''"
proof -
  have "has_key [(''restore_id'', PStr ''R1''), (''action'', PStr ''copy_only'')] ''action''"
    "get [(''restore_id'', PStr ''R1''), (''action'', PStr ''copy_only'')] ''action'' = PStr ''copy_only''"
    by (simp_all add: has_key_def get_def)
  with upgrade_states_integrity [of "[(''restore_id'', PStr ''R1''), (''action'', PStr ''copy_only'')]" "''action''"]
  show ?thesis by simp
qed



text \<open>When the WAL check to the latest state finds no hole, every segment number from the base
  backup's start segment to any archived segment after it is itself archived.\<close>

theorem wal_check_leaves_no_hole:
  assumes "postgresql_wal_break start segs True = WalHolds"
    and "is_wal_segment_name (upper (strip start))"
    and "archived = {n \<in> (\<lambda>n. upper (strip n)) ` set segs. is_wal_segment_name n \<and> upper (strip start) \<le> n}"
    and "\<forall>n\<in>archived. take 8 n = take 8 (upper (strip start)) \<and> wal_number n \<noteq> None"
    and "n \<in> archived" "wal_number (upper (strip start)) = Some s" "wal_number n = Some c" "s \<le> k" "k \<le> c"
  shows "\<exists>m\<in>archived. wal_number m = Some k"
proof -
  let ?start = "upper (strip start)"
  let ?names = "sort (remdups (filter is_wal_segment_name (map (\<lambda>n. upper (strip n)) segs)))"
  let ?after = "filter (\<lambda>n. ?start \<le> n) ?names"
  have set_after: "set ?after = archived" using assms(3) by auto
  have "?names \<noteq> []"
  proof
    assume "?names = []"
    then have "set ?after = {}" by simp
    with set_after assms(5) show False by simp
  qed
  have tl_ok: "\<not> (\<exists>n\<in>set ?after. take 8 n \<noteq> take 8 ?start)"
    using assms(4) unfolding set_after by blast
  have walk: "?start \<in> set ?after \<and> wal_walk (take 8 ?start) (wal_number ?start) (tl ?after) = WalHolds"
    using assms(1,2) \<open>?names \<noteq> []\<close> tl_ok
    by (auto simp: postgresql_wal_break_def Let_def split: if_splits)
  then obtain rest where rest: "?after = ?start # rest"
    using sorted_from_start [of ?start ?names] by auto
  have walk_rest: "wal_walk (take 8 ?start) (Some s) rest = WalHolds"
    using walk assms(6) rest by simp
  show ?thesis
  proof (cases "k = s")
    case True
    then show ?thesis using walk assms(6) set_after by blast
  next
    case False
    then have "n \<in> set rest" using rest set_after assms(5-9) by (metis antisym_conv option.inject order_trans set_ConsD)
    moreover have "\<forall>m\<in>set rest. wal_number m \<noteq> None"
      using assms(4) set_after rest by (metis list.set_intros(2))
    ultimately have "\<exists>m\<in>set rest. wal_number m = Some k"
      using wal_walk_covers [OF walk_rest] assms(7-9) False by auto
    then show ?thesis using set_after rest by (metis list.set_intros(2))
  qed
qed

theorem wal_check_leaves_no_hole_witness:
  "\<exists>m\<in>{''000000010000000A000000FE'', ''000000010000000A000000FF'', ''000000010000000B00000000''}.
     wal_number m = Some 2815"
proof (rule wal_check_leaves_no_hole [where start = "''000000010000000A000000FE''" and s = 2814 and c = 2816 and k = 2815
      and segs = "[''000000010000000b00000000'', ''000000010000000A000000FE'', ''000000010000000A000000FF'']"
      and n = "''000000010000000B00000000''"])
  have u: "upper (strip ''000000010000000A000000FE'') = ''000000010000000A000000FE''"
    "upper (strip ''000000010000000b00000000'') = ''000000010000000B00000000''"
    "upper (strip ''000000010000000A000000FF'') = ''000000010000000A000000FF''"
    by code_simp+
  show "postgresql_wal_break ''000000010000000A000000FE''
      [''000000010000000b00000000'', ''000000010000000A000000FE'', ''000000010000000A000000FF''] True = WalHolds"
    by code_simp
  show "is_wal_segment_name (upper (strip ''000000010000000A000000FE''))" by code_simp
  have seg: "is_wal_segment_name ''000000010000000A000000FE''" "is_wal_segment_name ''000000010000000A000000FF''"
    "is_wal_segment_name ''000000010000000B00000000''" by code_simp+
  have le: "''000000010000000A000000FE'' \<le> ''000000010000000A000000FF''"
    "''000000010000000A000000FE'' \<le> ''000000010000000B00000000''" by code_simp+
  show "{''000000010000000A000000FE'', ''000000010000000A000000FF'', ''000000010000000B00000000''} =
      {n \<in> (\<lambda>n. upper (strip n)) ` set [''000000010000000b00000000'', ''000000010000000A000000FE'', ''000000010000000A000000FF''].
         is_wal_segment_name n \<and> upper (strip ''000000010000000A000000FE'') \<le> n}"
    using seg le by (auto simp: u)
  show "\<forall>n\<in>{''000000010000000A000000FE'', ''000000010000000A000000FF'', ''000000010000000B00000000''}.
      take 8 n = take 8 (upper (strip ''000000010000000A000000FE'')) \<and> wal_number n \<noteq> None"
    unfolding u by code_simp
  show "wal_number (upper (strip ''000000010000000A000000FE'')) = Some 2814" by code_simp
  show "wal_number ''000000010000000B00000000'' = Some 2816" by code_simp
qed simp_all

end
