(* ===== verification/Effects.thy ===== *)
theory Effects
  imports PyPrelude
begin

section \<open>Actions on a world, with exceptions\<close>

text \<open>
  Code that calls a transport, a store or a clock is a function of a world: it answers a value or
  an exception, and the world it leaves behind. A loop with local variables is \<open>loop\<close>, which stops
  at the first exception; \<open>attempted\<close> is \<^verbatim>\<open>try: ... except Exception\<close>, which turns the exception into
  a value. \<open>loop_inv\<close> is the rule the components use for their loops.
\<close>

type_synonym ('w, 'e, 'a) act = "'w \<Rightarrow> ('e + 'a) \<times> 'w"

definition ret :: "'a \<Rightarrow> ('w, 'e, 'a) act" where
  "ret a w = (Inr a, w)"

definition fail :: "'e \<Rightarrow> ('w, 'e, 'a) act" where
  "fail e w = (Inl e, w)"

definition bnd :: "('w, 'e, 'a) act \<Rightarrow> ('a \<Rightarrow> ('w, 'e, 'b) act) \<Rightarrow> ('w, 'e, 'b) act" where
  "bnd m f w = (case m w of (Inl e, w') \<Rightarrow> (Inl e, w') | (Inr a, w') \<Rightarrow> f a w')"

definition reading :: "('w \<Rightarrow> 'a) \<Rightarrow> ('a \<Rightarrow> ('w, 'e, 'b) act) \<Rightarrow> ('w, 'e, 'b) act" where
  "reading g f w = f (g w) w"

definition attempted :: "('w, 'e, 'a) act \<Rightarrow> ('w, 'x, 'e + 'a) act" where
  "attempted m w = (case m w of (r, w') \<Rightarrow> (Inr r, w'))"

fun loop :: "('s \<Rightarrow> 'x \<Rightarrow> ('w, 'e, 's) act) \<Rightarrow> 's \<Rightarrow> 'x list \<Rightarrow> ('w, 'e, 's) act" where
  "loop body s [] = ret s"
| "loop body s (x # xs) = bnd (body s x) (\<lambda>s'. loop body s' xs)"

named_theorems returns \<open>when an action answers a value\<close>

lemma ret_returns [returns]: "ret a w = (Inr b, w') \<longleftrightarrow> b = a \<and> w' = w"
  by (auto simp: ret_def)

lemma fail_returns [returns]: "fail e w = (Inr b, w') \<longleftrightarrow> False"
  by (simp add: fail_def)

lemma bnd_returns [returns]:
  "bnd m f w = (Inr b, w') \<longleftrightarrow> (\<exists>a v. m w = (Inr a, v) \<and> f a v = (Inr b, w'))"
  by (auto simp: bnd_def split: prod.splits sum.splits)

lemma reading_returns [returns]: "reading g f w = (Inr b, w') \<longleftrightarrow> f (g w) w = (Inr b, w')"
  by (simp add: reading_def)

lemma attempted_returns [returns]: "attempted m w = (Inr r, w') \<longleftrightarrow> m w = (r, w')"
  by (auto simp: attempted_def split: prod.splits)

lemma loop_inv:
  assumes "loop body s xs w = (Inr t, w')" and "I [] s w"
    and "\<And>before x after s w s' w'. xs = before @ x # after \<Longrightarrow> I before s w \<Longrightarrow>
           body s x w = (Inr s', w') \<Longrightarrow> I (before @ [x]) s' w'"
  shows "I xs t w'"
proof -
  have "loop body s after w = (Inr t, w') \<Longrightarrow> xs = before @ after \<Longrightarrow> I before s w \<Longrightarrow> I xs t w'"
    for before after s w
  proof (induction after arbitrary: before s w)
    case (Cons x after)
    then obtain s1 w1 where "body s x w = (Inr s1, w1)" "loop body s1 after w1 = (Inr t, w')"
      by (auto simp: returns)
    with Cons.prems assms(3) Cons.IH [of s1 w1 "before @ [x]"] show ?case by simp
  qed (auto simp: returns)
  from this [of s xs w "[]"] assms(1,2) show ?thesis by simp
qed

text \<open>What every pass of a loop keeps of the world, the loop keeps, however it ends.\<close>

lemma loop_keeps:
  assumes "\<And>s x w. x \<in> set xs \<Longrightarrow> P w \<Longrightarrow> P (snd (body s x w))" and "P w"
  shows "P (snd (loop body s xs w))"
  using assms
proof (induction xs arbitrary: s w)
  case (Cons x xs)
  have step: "P (snd (body s x w))" using Cons.prems by simp
  have rest: "P (snd (loop body s' xs w'))" if "P w'" for s' w'
    using Cons.IH [of w' s'] Cons.prems(1) that by simp
  show ?case
    using step rest by (cases "body s x w") (auto simp: bnd_def split: sum.splits)
qed (simp add: ret_def)

text \<open>Actions that answer a value in every world.\<close>

definition answers :: "('w, 'e, 'a) act \<Rightarrow> bool" where
  "answers m = (\<forall>w. \<exists>a w'. m w = (Inr a, w'))"

named_theorems answering \<open>when an action answers in every world\<close>

lemma ret_answers [answering]: "answers (ret a)"
  by (simp add: answers_def ret_def)

lemma bnd_answers [answering]: "answers m \<Longrightarrow> (\<And>a. answers (f a)) \<Longrightarrow> answers (bnd m f)"
  unfolding answers_def bnd_def by (metis (mono_tags, lifting) old.prod.case sum.case(2))

lemma reading_answers [answering]: "(\<And>x. answers (f x)) \<Longrightarrow> answers (reading g f)"
  by (simp add: answers_def reading_def)

lemma attempted_answers [answering]: "answers (attempted m)"
  by (simp add: answers_def attempted_def split: prod.splits)

lemma loop_answers [answering]:
  "(\<And>s x. x \<in> set xs \<Longrightarrow> answers (body s x)) \<Longrightarrow> answers (loop body s xs)"
  by (induction xs arbitrary: s) (auto intro!: answering)

lemma answersE: "answers m \<Longrightarrow> (\<And>a w'. m w = (Inr a, w') \<Longrightarrow> P) \<Longrightarrow> P"
  unfolding answers_def by blast

end
