(* ===== verification/CopyGate.thy ===== *)
theory CopyGate
  imports Integrity Effects
begin

section \<open>The copy gate\<close>

text \<open>
  Models \<^verbatim>\<open>dbabrain/backup_restore/copy_gate.py\<close>: proving every file of a restore run onto its
  target by checksum and size before the restore may use it. The three injected callables, the
  clock and the catalog are fields of \<open>gate_env\<close>, actions on a world; an exception of a hasher or
  of the catalog ends the batch, an exception of the copy is an attempt spent.
\<close>

subsection \<open>Files, attempts and outcomes\<close>

record file_to_copy =
  source_server_id :: string
  target_server_id :: string
  file_name :: string
  file_type :: string
  source_path :: string
  target_path :: string
  database_name :: string
  engine :: string
  checksum_after_backup :: "string option"
  size_after_backup :: "int option"
  source_host_path :: string
  target_host_path :: string
  file_id :: "int option"
  chain_position :: "int option"
  backup_taken_at :: "string option"

record attempt =
  attempt_no :: int
  result :: string
  at_checksum :: "string option"
  at_size :: "int option"
  bytes_copied :: "int option"
  error_text :: string

record file_outcome =
  verdict :: string
  checksum_source_before_copy :: "string option"
  checksum_target_before_copy :: "string option"
  checksum_target_after_copy :: "string option"
  attempts :: "attempt list"
  run_file_id :: "int option"
  reason :: string

type_synonym answer = "string \<times> int option"

definition new_outcome :: file_outcome where
  "new_outcome = \<lparr>verdict = ''copying'', checksum_source_before_copy = None,
     checksum_target_before_copy = None, checksum_target_after_copy = None, attempts = [],
     run_file_id = None, reason = []\<rparr>"

definition proven :: "file_outcome \<Rightarrow> bool" where
  "proven out = (verdict out \<in> set PROVEN_VERDICTS)"

definition same_bytes :: "answer option \<Rightarrow> string option \<Rightarrow> int option \<Rightarrow> bool" where
  "same_bytes found sha256 bytes =
     (case found of None \<Rightarrow> False
      | Some (sha, n) \<Rightarrow>
          (case sha256 of None \<Rightarrow> False
           | Some expected \<Rightarrow>
               expected \<noteq> [] \<and> sha \<noteq> [] \<and> lower sha = lower expected \<and>
               (n = None \<or> bytes = None \<or> n = bytes)))"

definition size_note :: "answer option \<Rightarrow> int option \<Rightarrow> string" where
  "size_note found bytes =
     (case found of Some (sha, Some n) \<Rightarrow>
         (case bytes of None \<Rightarrow> []
          | Some m \<Rightarrow> if n = m then [] else show_int n @ '' bytes on the target, '' @ show_int m @ '' at the source'')
      | _ \<Rightarrow> [])"

subsection \<open>The transport, the clock and the catalog\<close>

datatype gate_error = NoIntegrity | Raised string | NoAttempt

record 'w run_catalog =
  add_run_file :: "pydict \<Rightarrow> ('w, gate_error, int option) act"
  set_run_file :: "int option \<Rightarrow> pydict \<Rightarrow> ('w, gate_error, unit) act"
  record_copy_attempt :: "pydict \<Rightarrow> ('w, gate_error, unit) act"

definition no_record :: "'w run_catalog" where
  "no_record = \<lparr>add_run_file = (\<lambda>_. ret None), set_run_file = (\<lambda>_ _. ret ()),
     record_copy_attempt = (\<lambda>_. ret ())\<rparr>"

record 'w gate_env =
  hash_sources :: "string list \<Rightarrow> ('w, gate_error, string \<rightharpoonup> answer) act"
  hash_targets :: "string list \<Rightarrow> ('w, gate_error, string \<rightharpoonup> answer) act"
  copy_file :: "file_to_copy \<Rightarrow> ('w, string, int option) act"
  sleep :: "int \<Rightarrow> 'w \<Rightarrow> 'w"
  utc_now_text :: "'w \<Rightarrow> string"
  catalog :: "'w run_catalog option"
  restore_run_id :: "int option"
  copy_engine :: string

definition recorder :: "'w gate_env \<Rightarrow> 'w run_catalog" where
  "recorder env = (case catalog env of None \<Rightarrow> no_record
     | Some c \<Rightarrow> if restore_run_id env = None then no_record else c)"

definition opt_int :: "int option \<Rightarrow> pyval" where
  "opt_int v = (case v of None \<Rightarrow> PNone | Some i \<Rightarrow> PInt i)"

definition opt_str :: "string option \<Rightarrow> pyval" where
  "opt_str v = (case v of None \<Rightarrow> PNone | Some s \<Rightarrow> PStr s)"

definition flag :: "bool \<Rightarrow> pyval" where
  "flag b = PInt (if b then 1 else 0)"

definition run_file_base :: "'w gate_env \<Rightarrow> restore_integrity \<Rightarrow> file_to_copy \<Rightarrow> pydict" where
  "run_file_base env ig item =
     [(''restore_run_id'', opt_int (restore_run_id env)), (''file_id'', opt_int (file_id item)),
      (''source_server_id'', PStr (source_server_id item)), (''target_server_id'', PStr (target_server_id item)),
      (''database_name'', PStr (database_name item)), (''engine'', PStr (engine item)),
      (''file_name'', PStr (file_name item)), (''file_type'', PStr (file_type item)),
      (''source_path'', PStr (source_path item)), (''target_path'', PStr (target_path item)),
      (''source_host_path'', PStr (source_host_path item)), (''target_host_path'', PStr (target_host_path item)),
      (''backup_taken_at'', opt_str (backup_taken_at item)), (''chain_position'', opt_int (chain_position item)),
      (''checksum_algo'', PStr (algorithm ig)), (''checksum_after_backup'', opt_str (checksum_after_backup item)),
      (''copy_max_retry'', PInt (copy_max_retry ig))]"

subsection \<open>Stage 1: the sources\<close>

text \<open>The local variables of the batch; a dict keyed by index is a map.\<close>

record batch =
  outcomes :: "file_outcome list"
  stored :: "nat \<rightharpoonup> string"
  sha_of :: "nat \<rightharpoonup> string"
  size_of :: "nat \<rightharpoonup> int option"
  side :: "nat \<rightharpoonup> pydict"
  candidates :: "nat list"

definition new_batch :: "file_to_copy list \<Rightarrow> batch" where
  "new_batch items = \<lparr>outcomes = map (\<lambda>_. new_outcome) items, stored = Map.empty, sha_of = Map.empty,
     size_of = Map.empty, side = Map.empty, candidates = []\<rparr>"

definition set_outcome :: "nat \<Rightarrow> (file_outcome \<Rightarrow> file_outcome) \<Rightarrow> batch \<Rightarrow> batch" where
  "set_outcome index f b = b\<lparr>outcomes := (outcomes b)[index := f (outcomes b ! index)]\<rparr>"

definition refused_file ::
  "'w gate_env \<Rightarrow> nat \<Rightarrow> string \<Rightarrow> string \<Rightarrow> pydict \<Rightarrow> batch \<Rightarrow> ('w, gate_error, batch) act" where
  "refused_file env index vd why row b =
     bnd (add_run_file (recorder env) row) (\<lambda>rid.
       ret (set_outcome index (\<lambda>out. out\<lparr>verdict := vd, reason := why, run_file_id := rid\<rparr>) b))"

definition classify_source ::
  "'w gate_env \<Rightarrow> restore_integrity \<Rightarrow> (string \<rightharpoonup> answer) \<Rightarrow> batch \<Rightarrow> nat \<times> file_to_copy
   \<Rightarrow> ('w, gate_error, batch) act" where
  "classify_source env ig sources b entry =
     (let (index, item) = entry; base = run_file_base env ig item in
      reading (utc_now_text env) (\<lambda>now.
      case sources (source_path item) of
        None \<Rightarrow>
          refused_file env index ''source_missing'' (source_path item @ '' is not on '' @ source_server_id item)
            (base @ [(''verdict'', PStr ''source_missing''), (''source_on_disk'', flag False),
                     (''source_checked_at'', PStr now)]) b
      | Some (source_sha, source_size) \<Rightarrow>
          let recorded = checksum_after_backup item;
              held = (case recorded of None \<Rightarrow> source_sha | Some c \<Rightarrow> if c = [] then source_sha else c);
              row = [(''source_on_disk'', flag True), (''source_checksum_matches'', flag (source_sha = held)),
                     (''source_checked_at'', PStr now), (''size_source_bytes'', opt_int source_size),
                     (''checksum_source_before_copy'', PStr source_sha)];
              b' = (set_outcome index (\<lambda>out. out\<lparr>checksum_source_before_copy := Some source_sha\<rparr>) b)
                     \<lparr>stored := (stored b)(index \<mapsto> held), sha_of := (sha_of b)(index \<mapsto> source_sha),
                      size_of := (size_of b)(index \<mapsto> source_size), side := (side b)(index \<mapsto> row)\<rparr> in
          if recorded = None \<and> uncatalogued ig = ''refuse'' then
            refused_file env index ''uncatalogued_refused''
              ''no backup recorded this file, and the entry refuses one''
              (base @ [(''verdict'', PStr ''uncatalogued_refused'')] @ row) b'
          else if verify_source_before_copy ig \<and> recorded \<noteq> None \<and> Some source_sha \<noteq> recorded then
            refused_file env index ''source_mismatch''
              (source_path item @ '' on '' @ source_server_id item @ '' hashes '' @ take 12 source_sha @
               ''... but its backup recorded '' @ take 12 (the recorded) @
               ''... - the backup changed after it was written'')
              (base @ [(''verdict'', PStr ''source_mismatch'')] @ row) b'
          else ret (b'\<lparr>candidates := candidates b' @ [index]\<rparr>)))"

subsection \<open>Stage 2: the target before the copy\<close>

definition check_target ::
  "'w gate_env \<Rightarrow> restore_integrity \<Rightarrow> file_to_copy list \<Rightarrow> (string \<rightharpoonup> answer) \<Rightarrow> batch \<times> nat list \<Rightarrow> nat
   \<Rightarrow> ('w, gate_error, batch \<times> nat list) act" where
  "check_target env ig items before st index =
     (let (b, pending) = st; item = items ! index; found = before (target_path item);
          before_sha = map_option fst found in
      bnd (add_run_file (recorder env)
             (run_file_base env ig item @ [(''checksum_target_before_copy'', opt_str before_sha),
                (''verdict'', PStr ''copying'')] @ the (side b index))) (\<lambda>rid.
      let b' = set_outcome index (\<lambda>out. out\<lparr>checksum_target_before_copy := before_sha, run_file_id := rid\<rparr>) b in
      if same_bytes found (sha_of b index) (the (size_of b index)) then
        reading (utc_now_text env) (\<lambda>now.
        bnd (set_run_file (recorder env) rid
               [(''checksum_target_after_copy'', opt_str before_sha),
                (''size_target_bytes'', opt_int (snd (the found))), (''verdict'', PStr ''match''),
                (''target_on_disk'', flag True), (''target_checksum_matches'', flag (before_sha = stored b index)),
                (''target_checked_at'', PStr now)]) (\<lambda>_.
        ret (set_outcome index (\<lambda>out. out\<lparr>verdict := ''match'', checksum_target_after_copy := before_sha\<rparr>) b',
             pending)))
      else ret (b', pending @ [index])))"

subsection \<open>Stage 3: the rounds of copies\<close>

record copy_round =
  r_attempts :: "nat \<rightharpoonup> attempt"
  r_started :: "nat \<rightharpoonup> string"
  r_copied :: "nat list"

definition copy_one ::
  "'w gate_env \<Rightarrow> file_to_copy list \<Rightarrow> int \<Rightarrow> copy_round \<Rightarrow> nat \<Rightarrow> ('w, gate_error, copy_round) act" where
  "copy_one env items no r index =
     reading (utc_now_text env) (\<lambda>now.
     bnd (attempted (copy_file env (items ! index))) (\<lambda>done.
     let att = \<lparr>attempt_no = no, result = ''copy_error'', at_checksum = None, at_size = None,
                bytes_copied = None, error_text = []\<rparr>;
         r' = r\<lparr>r_started := (r_started r)(index \<mapsto> now)\<rparr> in
     ret (case done of
            Inr n \<Rightarrow> r'\<lparr>r_attempts := (r_attempts r)(index \<mapsto> att\<lparr>bytes_copied := n\<rparr>),
                       r_copied := r_copied r @ [index]\<rparr>
          | Inl text \<Rightarrow> r'\<lparr>r_attempts := (r_attempts r)(index \<mapsto> att\<lparr>error_text := take 2000 text\<rparr>)\<rparr>)))"

definition judge_attempt :: "file_to_copy \<Rightarrow> answer option \<Rightarrow> string option \<Rightarrow> int option \<Rightarrow> attempt \<Rightarrow> attempt" where
  "judge_attempt item found sha bytes att =
     (case found of
        None \<Rightarrow> att\<lparr>error_text := target_path item @ '' is not on '' @ target_server_id item @ '' after the copy''\<rparr>
      | Some (s, n) \<Rightarrow>
          let res = (if same_bytes found sha bytes then ''match'' else ''mismatch'') in
          att\<lparr>at_checksum := Some s, at_size := n, result := res,
              error_text := (if res = ''mismatch'' \<and> Some s = sha then size_note found bytes
                             else error_text att)\<rparr>)"

definition attempt_row ::
  "'w gate_env \<Rightarrow> file_to_copy \<Rightarrow> int option \<Rightarrow> string \<Rightarrow> string \<Rightarrow> string option \<Rightarrow> attempt \<Rightarrow> pydict" where
  "attempt_row env item rid started ended sha att =
     [(''run_file_id'', opt_int rid), (''attempt_no'', PInt (attempt_no att)),
      (''source_server_id'', PStr (source_server_id item)), (''target_server_id'', PStr (target_server_id item)),
      (''file_name'', PStr (file_name item)), (''file_type'', PStr (file_type item)),
      (''source_path'', PStr (source_path item)), (''target_path'', PStr (target_path item)),
      (''source_host_path'', PStr (source_host_path item)), (''target_host_path'', PStr (target_host_path item)),
      (''started_at'', PStr started), (''ended_at'', PStr ended), (''bytes_copied'', opt_int (bytes_copied att)),
      (''copy_engine'', PStr (copy_engine env)), (''checksum_source_before_copy'', opt_str sha),
      (''checksum_target_after_copy'', opt_str (at_checksum att)),
      (''size_target_after_copy'', opt_int (at_size att)), (''result'', PStr (result att)),
      (''error_text'', PStr (error_text att))]"

definition settle_attempt :: "attempt \<Rightarrow> file_outcome \<Rightarrow> file_outcome" where
  "settle_attempt att out =
     (let o1 = out\<lparr>attempts := attempts out @ [att]\<rparr>;
          o2 = (if at_checksum att \<noteq> None then o1\<lparr>checksum_target_after_copy := at_checksum att\<rparr> else o1) in
      if result att = ''match'' then o2\<lparr>verdict := (if attempt_no att = 1 then ''copied'' else ''recopied'')\<rparr>
      else o2)"

definition judge_one ::
  "'w gate_env \<Rightarrow> file_to_copy list \<Rightarrow> copy_round \<Rightarrow> (string \<rightharpoonup> answer) \<Rightarrow> batch \<times> nat list \<Rightarrow> nat
   \<Rightarrow> ('w, gate_error, batch \<times> nat list) act" where
  "judge_one env items r after st index =
     (let (b, still) = st; item = items ! index; sha = sha_of b index;
          att0 = the (r_attempts r index);
          att = (if index \<in> set (r_copied r)
                 then judge_attempt item (after (target_path item)) sha (the (size_of b index)) att0
                 else att0);
          out = outcomes b ! index in
      reading (utc_now_text env) (\<lambda>now.
      bnd (record_copy_attempt (recorder env)
             (attempt_row env item (run_file_id out) (the (r_started r index)) now sha att)) (\<lambda>_.
      ret (set_outcome index (settle_attempt att) b,
           if result att = ''match'' then still else still @ [index]))))"

definition hash_some :: "'w gate_env \<Rightarrow> file_to_copy list \<Rightarrow> nat list \<Rightarrow> ('w, gate_error, string \<rightharpoonup> answer) act" where
  "hash_some env items indexes =
     (if indexes = [] then ret Map.empty
      else hash_targets env (map (\<lambda>index. target_path (items ! index)) indexes))"

definition pause :: "'w gate_env \<Rightarrow> restore_integrity \<Rightarrow> int \<Rightarrow> nat list \<Rightarrow> ('w, gate_error, unit) act" where
  "pause env ig no pending w =
     (Inr (), if pending \<noteq> [] \<and> no < copy_max_retry ig + 1 \<and> copy_retry_interval_seconds ig \<noteq> 0
              then sleep env (copy_retry_interval_seconds ig) w else w)"

fun rounds ::
  "'w gate_env \<Rightarrow> restore_integrity \<Rightarrow> file_to_copy list \<Rightarrow> nat \<Rightarrow> int \<Rightarrow> batch \<times> nat list
   \<Rightarrow> ('w, gate_error, batch \<times> nat list) act" where
  "rounds env ig items 0 no st = ret st"
| "rounds env ig items (Suc left) no st =
     (let (b, pending) = st in
      if pending = [] then ret st
      else
        bnd (loop (copy_one env items no) \<lparr>r_attempts = Map.empty, r_started = Map.empty, r_copied = []\<rparr> pending) (\<lambda>r.
        bnd (hash_some env items (r_copied r)) (\<lambda>after.
        bnd (loop (judge_one env items r after) (b, []) pending) (\<lambda>st'.
        bnd (pause env ig no (snd st')) (\<lambda>_.
        rounds env ig items left (no + 1) st')))))"

subsection \<open>The end of the batch\<close>

definition fail_one ::
  "restore_integrity \<Rightarrow> file_to_copy list \<Rightarrow> batch \<Rightarrow> nat \<Rightarrow> ('w, gate_error, batch) act" where
  "fail_one ig items b index =
     (let ats = attempts (outcomes b ! index) in
      if ats = [] then fail NoAttempt
      else ret (set_outcome index (\<lambda>out. out\<lparr>verdict := ''copy_failed_after_retries'',
             reason := file_name (items ! index) @ '': '' @ show_int (copy_max_retry ig + 1) @
               '' attempt(s), none arrived equal to the source'' @
               (if error_text (last ats) = [] then [] else '' - last: '' @ error_text (last ats))\<rparr>) b))"

definition record_end ::
  "'w gate_env \<Rightarrow> (nat \<rightharpoonup> string) \<Rightarrow> batch \<Rightarrow> unit \<Rightarrow> nat \<Rightarrow> ('w, gate_error, unit) act" where
  "record_end env copy_started b u index =
     (let out = outcomes b ! index; ats = attempts out in
      if ats = [] then fail NoAttempt
      else
        let after = at_checksum (last ats) in
        reading (utc_now_text env) (\<lambda>now.
        set_run_file (recorder env) (run_file_id out)
          [(''copy_attempts'', PInt (int (length ats))), (''copy_started_at'', PStr (the (copy_started index))),
           (''copy_ended_at'', PStr now), (''checksum_target_after_copy'', opt_str (checksum_target_after_copy out)),
           (''size_target_bytes'', opt_int (at_size (last ats))), (''verdict'', PStr (verdict out)),
           (''target_on_disk'', flag (after \<noteq> None)),
           (''target_checksum_matches'', if after = None then PNone else flag (after = stored b index)),
           (''target_checked_at'', PStr now)]))"

definition copy_verified_batch ::
  "'w gate_env \<Rightarrow> restore_integrity option \<Rightarrow> file_to_copy list \<Rightarrow> ('w, gate_error, file_outcome list) act" where
  "copy_verified_batch env ig0 items =
     (case ig0 of None \<Rightarrow> fail NoIntegrity
      | Some ig \<Rightarrow>
        bnd (hash_sources env (map source_path items)) (\<lambda>sources.
        bnd (loop (classify_source env ig sources) (new_batch items) (enumerate 0 items)) (\<lambda>b1.
        bnd (hash_some env items (candidates b1)) (\<lambda>before.
        bnd (loop (check_target env ig items before) (b1, []) (candidates b1)) (\<lambda>(b2, pending).
        reading (utc_now_text env) (\<lambda>now.
        bnd (rounds env ig items (nat (copy_max_retry ig + 1)) 1 (b2, pending)) (\<lambda>(b3, left).
        bnd (loop (fail_one ig items) b3 left) (\<lambda>b4.
        bnd (loop (record_end env (\<lambda>i. if i \<in> set pending then Some now else None) b4) () pending) (\<lambda>_.
        ret (outcomes b4))))))))))"

definition one :: "(string \<Rightarrow> ('w, gate_error, answer option) act) \<Rightarrow> string list \<Rightarrow> ('w, gate_error, string \<rightharpoonup> answer) act" where
  "one hasher paths =
     loop (\<lambda>found path. bnd (hasher path) (\<lambda>a. ret (case a of None \<Rightarrow> found | Some x \<Rightarrow> found(path \<mapsto> x))))
       Map.empty paths"

definition copy_verified ::
  "'w gate_env \<Rightarrow> (string \<Rightarrow> ('w, gate_error, answer option) act) \<Rightarrow> (string \<Rightarrow> ('w, gate_error, answer option) act)
   \<Rightarrow> restore_integrity option \<Rightarrow> file_to_copy \<Rightarrow> ('w, gate_error, file_outcome) act" where
  "copy_verified env hash_source hash_target ig item =
     bnd (copy_verified_batch (env\<lparr>hash_sources := one hash_source, hash_targets := one hash_target\<rparr>) ig [item])
       (\<lambda>os. ret (hd os))"

subsection \<open>The run-level answer and the shortcut\<close>

record run_summary =
  files :: nat
  verdicts :: "(string \<times> int) list"
  all_proven :: bool
  recopied :: int
  unproven :: "string list"

definition count_verdict :: "(string \<times> int) list \<Rightarrow> string \<Rightarrow> (string \<times> int) list" where
  "count_verdict counts v = upd v ((case map_of counts v of None \<Rightarrow> 0 | Some n \<Rightarrow> n) + 1) counts"

definition summarize :: "file_outcome list \<Rightarrow> run_summary" where
  "summarize os =
     (let counts = foldl count_verdict [] (map verdict os);
          bad = map (\<lambda>out. if reason out \<noteq> [] then reason out else verdict out) (filter (\<lambda>out. \<not> proven out) os) in
      \<lparr>files = length os, verdicts = counts, all_proven = (bad = []),
       recopied = (case map_of counts ''recopied'' of None \<Rightarrow> 0 | Some n \<Rightarrow> n), unproven = take 20 bad\<rparr>)"

definition confirm_one ::
  "'w gate_env \<Rightarrow> restore_integrity \<Rightarrow> file_to_copy list \<Rightarrow> (string \<rightharpoonup> answer) \<Rightarrow> file_outcome list \<times> nat list \<Rightarrow> nat
   \<Rightarrow> ('w, gate_error, file_outcome list \<times> nat list) act" where
  "confirm_one env ig items found st index =
     (let (os, remaining) = st; item = items ! index; target = found (target_path item);
          recorded = (if map_of HASHED_MEMBER (upper (file_type item)) \<noteq> None then None else size_after_backup item) in
      if \<not> same_bytes target (checksum_after_backup item) recorded then ret (os, remaining @ [index])
      else
        let sha = map_option fst target in
        reading (utc_now_text env) (\<lambda>now.
        bnd (add_run_file (recorder env)
               (run_file_base env ig item @
                [(''checksum_target_before_copy'', opt_str sha), (''checksum_target_after_copy'', opt_str sha),
                 (''size_target_bytes'', opt_int (snd (the target))), (''verdict'', PStr ''match''),
                 (''target_on_disk'', flag True), (''target_checksum_matches'', flag True),
                 (''target_checked_at'', PStr now)])) (\<lambda>rid.
        ret (os[index := (os ! index)\<lparr>verdict := ''match'', checksum_target_before_copy := sha,
               checksum_target_after_copy := sha, run_file_id := rid\<rparr>], remaining))))"

definition confirm_on_target ::
  "'w gate_env \<Rightarrow> restore_integrity option \<Rightarrow> file_to_copy list
   \<Rightarrow> ('w, gate_error, file_outcome list \<times> nat list) act" where
  "confirm_on_target env ig0 items =
     (case ig0 of None \<Rightarrow> fail NoIntegrity
      | Some ig \<Rightarrow>
        let recorded = (\<lambda>i. checksum_after_backup (items ! i) \<noteq> None \<and> checksum_after_backup (items ! i) \<noteq> Some []);
            indexes = [0..<length items]; checkable = filter recorded indexes in
        bnd (hash_some env items checkable) (\<lambda>found.
        bnd (loop (confirm_one env ig items found) (map (\<lambda>_. new_outcome) items, filter (\<lambda>i. \<not> recorded i) indexes)
               checkable) (\<lambda>(os, remaining).
        ret (os, sort remaining))))"

subsection \<open>What the gate keeps about each file\<close>

definition source_ok :: "restore_integrity \<Rightarrow> file_to_copy \<Rightarrow> string \<Rightarrow> bool" where
  "source_ok ig item s =
     (case checksum_after_backup item of None \<Rightarrow> uncatalogued ig \<noteq> ''refuse''
      | Some c \<Rightarrow> verify_source_before_copy ig \<longrightarrow> s = c)"

text \<open>A file whose copy is still to be made or made again, after \<open>k\<close> attempts.\<close>

definition waiting :: "restore_integrity \<Rightarrow> file_to_copy \<Rightarrow> answer option \<Rightarrow> nat \<Rightarrow> file_outcome \<Rightarrow> bool" where
  "waiting ig item src k out =
     (verdict out = ''copying'' \<and> length (attempts out) = k \<and> (\<forall>a\<in>set (attempts out). result a \<noteq> ''match'') \<and>
      (case src of None \<Rightarrow> False
       | Some (s, n) \<Rightarrow> checksum_source_before_copy out = Some s \<and> source_ok ig item s))"

text \<open>A file with its final verdict; \<open>rd\<close> is what the target holds, known when \<open>H\<close>.\<close>

definition attempts_fit :: "int \<Rightarrow> file_outcome \<Rightarrow> bool" where
  "attempts_fit most out =
     (if verdict out = ''match'' then attempts out = []
      else int (length (attempts out)) \<le> most \<and> attempts out \<noteq> [] \<and> result (last (attempts out)) = ''match'' \<and>
        (\<forall>a\<in>set (butlast (attempts out)). result a \<noteq> ''match'') \<and>
        (verdict out = ''copied'' \<longleftrightarrow> length (attempts out) = 1))"

definition settled ::
  "bool \<Rightarrow> restore_integrity \<Rightarrow> file_to_copy \<Rightarrow> answer option \<Rightarrow> file_outcome \<Rightarrow> answer option \<Rightarrow> bool" where
  "settled H ig item src out rd =
     (if proven out then
        (\<exists>s m t n. src = Some (s, m) \<and> checksum_source_before_copy out = Some s \<and> source_ok ig item s \<and>
           checksum_target_after_copy out = Some t \<and> same_bytes (Some (t, n)) (Some s) m \<and>
           (H \<longrightarrow> rd = Some (t, n))) \<and> attempts_fit (copy_max_retry ig + 1) out
      else verdict out \<in> {''source_missing'', ''uncatalogued_refused'', ''source_mismatch''} \<and> attempts out = [])"

definition file_ok ::
  "bool \<Rightarrow> ('w \<Rightarrow> string \<Rightarrow> answer option) \<Rightarrow> restore_integrity \<Rightarrow> file_to_copy list \<Rightarrow> (string \<rightharpoonup> answer) \<Rightarrow> batch \<Rightarrow> 'w
   \<Rightarrow> nat option \<Rightarrow> nat \<Rightarrow> bool" where
  "file_ok H tgt ig items sources b w phase i =
     (let item = items ! i; src = sources (source_path item); out = outcomes b ! i in
      case phase of
        None \<Rightarrow> settled H ig item src out (tgt w (target_path item))
      | Some k \<Rightarrow> waiting ig item src k out \<and> sha_of b i = map_option fst src \<and> size_of b i = map_option snd src)"

definition gate_inv ::
  "bool \<Rightarrow> ('w \<Rightarrow> string \<Rightarrow> answer option) \<Rightarrow> restore_integrity \<Rightarrow> file_to_copy list \<Rightarrow> (string \<rightharpoonup> answer) \<Rightarrow> batch \<Rightarrow> 'w
   \<Rightarrow> (nat \<Rightarrow> nat option) \<Rightarrow> bool" where
  "gate_inv H tgt ig items sources b w phase =
     (length (outcomes b) = length items \<and>
      (\<forall>i<length items. file_ok H tgt ig items sources b w (phase i) i))"

definition among :: "nat set \<Rightarrow> nat \<Rightarrow> nat \<Rightarrow> nat option" where
  "among S k i = (if i \<in> S then Some k else None)"

text \<open>
  The documented behaviour of the injected callables: a hasher reads what is there and changes
  nothing, a copy writes its own target only, and the catalog, the clock and the pause touch no
  file. No two files of the run share a target.
\<close>

definition honest_targets :: "'w gate_env \<Rightarrow> file_to_copy list \<Rightarrow> ('w \<Rightarrow> string \<Rightarrow> answer option) \<Rightarrow> bool" where
  "honest_targets env items tgt =
     ((\<forall>ps w m w'. hash_targets env ps w = (Inr m, w') \<longrightarrow> tgt w' = tgt w \<and> (\<forall>p\<in>set ps. m p = tgt w p)) \<and>
      (\<forall>item w r w' p. copy_file env item w = (r, w') \<longrightarrow> p \<noteq> target_path item \<longrightarrow> tgt w' p = tgt w p) \<and>
      (\<forall>n w. tgt (sleep env n w) = tgt w) \<and>
      (\<forall>row w r w'. add_run_file (recorder env) row w = (r, w') \<longrightarrow> tgt w' = tgt w) \<and>
      (\<forall>rid row w r w'. set_run_file (recorder env) rid row w = (r, w') \<longrightarrow> tgt w' = tgt w) \<and>
      (\<forall>row w r w'. record_copy_attempt (recorder env) row w = (r, w') \<longrightarrow> tgt w' = tgt w) \<and>
      distinct (map target_path items))"

definition honest_sources :: "'w gate_env \<Rightarrow> ('w \<Rightarrow> string \<Rightarrow> answer option) \<Rightarrow> bool" where
  "honest_sources env src =
     (\<forall>ps w m w'. hash_sources env ps w = (Inr m, w') \<longrightarrow> (\<forall>p\<in>set ps. m p = src w p))"

named_theorems gate_frame \<open>what leaves the targets as they are\<close>

lemma honest_frame [gate_frame]:
  assumes "honest_targets env items tgt"
  shows "hash_targets env ps w = (Inr m, w') \<Longrightarrow> tgt w' = tgt w"
    and "hash_targets env ps w = (Inr m, w') \<Longrightarrow> p \<in> set ps \<Longrightarrow> m p = tgt w p"
    and "copy_file env item w = (r, w') \<Longrightarrow> p \<noteq> target_path item \<Longrightarrow> tgt w' p = tgt w p"
    and "tgt (sleep env n w) = tgt w"
    and "add_run_file (recorder env) row w = (r1, w') \<Longrightarrow> tgt w' = tgt w"
    and "set_run_file (recorder env) rid row w = (r2, w') \<Longrightarrow> tgt w' = tgt w"
    and "record_copy_attempt (recorder env) row w = (r3, w') \<Longrightarrow> tgt w' = tgt w"
  using assms unfolding honest_targets_def by auto

lemma honest_distinct:
  assumes "honest_targets env items tgt" "i < length items" "j < length items" "i \<noteq> j"
  shows "target_path (items ! i) \<noteq> target_path (items ! j)"
  using assms nth_eq_iff_index_eq [of "map target_path items" i j] by (auto simp: honest_targets_def)

subsection \<open>Updating one file\<close>

lemma set_outcome_simps [simp]:
  "stored (set_outcome i f b) = stored b" "sha_of (set_outcome i f b) = sha_of b"
  "size_of (set_outcome i f b) = size_of b" "side (set_outcome i f b) = side b"
  "candidates (set_outcome i f b) = candidates b"
  "length (outcomes (set_outcome i f b)) = length (outcomes b)"
  "i < length (outcomes b) \<Longrightarrow> outcomes (set_outcome i f b) ! j = (if j = i then f (outcomes b ! i) else outcomes b ! j)"
  by (auto simp: set_outcome_def)

lemma set_outcome_twice: "set_outcome i f (set_outcome i g b) = set_outcome i (\<lambda>out. f (g out)) b"
  by (cases "i < length (outcomes b)") (simp_all add: set_outcome_def list_update_beyond)

lemma gate_inv_update:
  assumes "gate_inv H tgt ig items sources b w phase" "i < length items"
    and "file_ok H tgt ig items sources (set_outcome i f b) w' x i"
    and "\<And>j. H \<Longrightarrow> j < length items \<Longrightarrow> j \<noteq> i \<Longrightarrow> phase j = None \<Longrightarrow>
          tgt w' (target_path (items ! j)) = tgt w (target_path (items ! j))"
  shows "gate_inv H tgt ig items sources (set_outcome i f b) w' (phase(i := x))"
  using assms
  by (auto simp: gate_inv_def file_ok_def Let_def settled_def split: option.splits)

lemma gate_inv_frame:
  assumes "gate_inv H tgt ig items sources b w phase"
    and "\<And>j. H \<Longrightarrow> j < length items \<Longrightarrow> phase j = None \<Longrightarrow>
          tgt w' (target_path (items ! j)) = tgt w (target_path (items ! j))"
  shows "gate_inv H tgt ig items sources b w' phase"
  using assms
  by (auto simp: gate_inv_def file_ok_def Let_def settled_def split: option.splits)

subsection \<open>Stage 1 keeps it\<close>

definition classified ::
  "bool \<Rightarrow> ('w \<Rightarrow> string \<Rightarrow> answer option) \<Rightarrow> restore_integrity \<Rightarrow> file_to_copy list \<Rightarrow> (string \<rightharpoonup> answer) \<Rightarrow> nat \<Rightarrow> batch \<Rightarrow> 'w
   \<Rightarrow> bool" where
  "classified H tgt ig items sources k b w =
     (length (outcomes b) = length items \<and> distinct (candidates b) \<and> set (candidates b) \<subseteq> {..<k} \<and>
      (\<forall>i<k. file_ok H tgt ig items sources b w (if i \<in> set (candidates b) then Some 0 else None) i \<and>
        \<not> proven (outcomes b ! i)) \<and>
      (\<forall>i<length items. k \<le> i \<longrightarrow> outcomes b ! i = new_outcome))"

lemma refused_file_returns:
  "refused_file env i vd why row b w = (Inr b', w') \<longleftrightarrow>
   (\<exists>rid. add_run_file (recorder env) row w = (Inr rid, w') \<and>
     b' = set_outcome i (\<lambda>out. out\<lparr>verdict := vd, reason := why, run_file_id := rid\<rparr>) b)"
  by (auto simp: refused_file_def returns)

lemma new_outcome_simps [simp]:
  "verdict new_outcome = ''copying''" "attempts new_outcome = []"
  by (simp_all add: new_outcome_def)

lemma not_proven [simp]:
  "verdict out = ''source_missing'' \<Longrightarrow> \<not> proven out" "verdict out = ''uncatalogued_refused'' \<Longrightarrow> \<not> proven out"
  "verdict out = ''source_mismatch'' \<Longrightarrow> \<not> proven out" "verdict out = ''copying'' \<Longrightarrow> \<not> proven out"
  "verdict out = ''copy_failed_after_retries'' \<Longrightarrow> \<not> proven out"
  by (simp_all add: proven_def PROVEN_VERDICTS_def)

lemma classify_source_frame:
  assumes "classify_source env ig sources b (k, item) w = (Inr b', w')" "k < length (outcomes b)"
  shows "length (outcomes b') = length (outcomes b) \<and>
    (\<forall>i. i \<noteq> k \<longrightarrow> outcomes b' ! i = outcomes b ! i \<and> sha_of b' i = sha_of b i \<and> size_of b' i = size_of b i)"
  using assms
  by (cases "sources (source_path item)")
    (auto simp: classify_source_def returns refused_file_returns Let_def split: if_splits)

lemma classify_source_result:
  assumes "classify_source env ig sources b (k, item) w = (Inr b', w')" "k < length (outcomes b)"
  shows "candidates b' = candidates b \<and> attempts (outcomes b' ! k) = attempts (outcomes b ! k) \<and>
      verdict (outcomes b' ! k) \<in> {''source_missing'', ''uncatalogued_refused'', ''source_mismatch''}
    \<or> candidates b' = candidates b @ [k] \<and>
      (\<exists>s n. sources (source_path item) = Some (s, n) \<and> source_ok ig item s \<and>
        outcomes b' ! k = (outcomes b ! k)\<lparr>checksum_source_before_copy := Some s\<rparr> \<and>
        sha_of b' k = Some s \<and> size_of b' k = Some n)"
  using assms
  by (cases "sources (source_path item)"; cases "checksum_after_backup item")
    (auto simp: classify_source_def returns refused_file_returns Let_def source_ok_def split: if_splits)

lemma classify_source_step:
  assumes "classified H tgt ig items sources k b w" "k < length items"
    and "classify_source env ig sources b (k, items ! k) w = (Inr b', w')"
  shows "classified H tgt ig items sources (Suc k) b' w'"
proof -
  have b: "length (outcomes b) = length items" "distinct (candidates b)" "set (candidates b) \<subseteq> {..<k}"
    "outcomes b ! k = new_outcome" "\<And>i. i < k \<Longrightarrow> \<not> proven (outcomes b ! i)"
    "\<And>i. i < length items \<Longrightarrow> k \<le> i \<Longrightarrow> outcomes b ! i = new_outcome"
    using assms(1,2) by (auto simp: classified_def)
  note fr = classify_source_frame [OF assms(3)] and res = classify_source_result [OF assms(3)]
  have new: "\<not> proven (outcomes b' ! k) \<and>
      file_ok H tgt ig items sources b' w' (if k \<in> set (candidates b') then Some 0 else None) k"
    using res b assms(2) by (auto simp: file_ok_def Let_def settled_def waiting_def)
  have old: "\<not> proven (outcomes b' ! i) \<and>
      file_ok H tgt ig items sources b' w' (if i \<in> set (candidates b') then Some 0 else None) i" if "i < k" for i
    using assms(1) that fr res b assms(2) by (auto simp: classified_def file_ok_def Let_def settled_def)
  have "distinct (candidates b') \<and> set (candidates b') \<subseteq> {..<Suc k}"
    using res b assms(2) by auto
  with new old fr b show ?thesis
    unfolding classified_def by (auto simp: less_Suc_eq assms(2))
qed

lemma stage1_classified:
  assumes "loop (classify_source env ig sources) (new_batch items) (enumerate 0 items) w = (Inr b, w')"
  shows "classified H tgt ig items sources (length items) b w'"
proof -
  have "classified H tgt ig items sources (length (enumerate 0 items)) b w'"
  proof (rule loop_inv [OF assms, where I = "\<lambda>before. classified H tgt ig items sources (length before)"])
    show "classified H tgt ig items sources (length []) (new_batch items) w"
      by (simp add: classified_def new_batch_def)
  next
    fix before x after s w s' w'
    assume split: "enumerate 0 items = before @ x # after"
    then have "enumerate 0 items ! length before = x" "length before < length (enumerate 0 items)"
      by simp_all
    then have x: "x = (length before, items ! length before)" "length before < length items"
      by (auto simp: nth_enumerate_eq)
    assume "classified H tgt ig items sources (length before) s w" "classify_source env ig sources s x w = (Inr s', w')"
    with x classify_source_step show "classified H tgt ig items sources (length (before @ [x])) s' w'" by simp
  qed
  then show ?thesis by simp
qed

lemma classified_gate_inv:
  "classified H tgt ig items sources (length items) b w \<Longrightarrow>
   gate_inv H tgt ig items sources b w (among (set (candidates b)) 0)"
  by (simp add: classified_def gate_inv_def among_def)

text \<open>
  Both loops over files that wait settle a file or keep it for the next round; the lists they build
  hold exactly the files still waiting.
\<close>

lemma settle_loop:
  assumes "loop body (b, []) todo w = (Inr (b', acc), w')"
    and "gate_inv H tgt ig items sources b w (among (set todo) k)" "distinct todo"
    and step: "\<And>b acc i v b' acc' v' phase. i \<in> set todo \<Longrightarrow> body (b, acc) i v = (Inr (b', acc'), v') \<Longrightarrow>
      gate_inv H tgt ig items sources b v phase \<Longrightarrow> phase i = Some k \<Longrightarrow> (H \<longrightarrow> tgt v = tgt w) \<Longrightarrow>
      (H \<longrightarrow> tgt v' = tgt v) \<and>
      (acc' = acc \<and> gate_inv H tgt ig items sources b' v' (phase(i := None)) \<or>
       acc' = acc @ [i] \<and> gate_inv H tgt ig items sources b' v' (phase(i := Some k')))"
  shows "set acc \<subseteq> set todo \<and> distinct acc \<and> gate_inv H tgt ig items sources b' w' (among (set acc) k')
    \<and> (H \<longrightarrow> tgt w' = tgt w)"
proof -
  define ph where "ph = (\<lambda>acc seen i. if i \<in> set acc then Some k' else among (set todo - set seen) k i)"
  define I where "I = (\<lambda>seen (st :: batch \<times> nat list) v. (H \<longrightarrow> tgt v = tgt w) \<and> set (snd st) \<subseteq> set seen \<and>
     distinct (snd st) \<and> gate_inv H tgt ig items sources (fst st) v (ph (snd st) seen))"
  have "I todo (b', acc) w'"
  proof (rule loop_inv [OF assms(1)])
    have "ph [] [] = among (set todo) k" by (simp add: ph_def)
    then show "I [] (b, []) w" using assms(2) by (simp add: I_def)
  next
    fix seen i after st v st' v'
    assume todo: "todo = seen @ i # after" and inv: "I seen st v" and body: "body st i v = (Inr st', v')"
    then have i: "i \<in> set todo" "i \<notin> set seen" "i \<notin> set (snd st)"
      using assms(3) by (auto simp: I_def)
    have "(H \<longrightarrow> tgt v' = tgt v) \<and>
      (snd st' = snd st \<and> gate_inv H tgt ig items sources (fst st') v' ((ph (snd st) seen)(i := None)) \<or>
       snd st' = snd st @ [i] \<and> gate_inv H tgt ig items sources (fst st') v' ((ph (snd st) seen)(i := Some k')))"
      by (rule step [of i "fst st" "snd st" v "fst st'" "snd st'" v'])
        (use i body inv in \<open>simp_all add: I_def ph_def among_def\<close>)
    moreover have "(ph (snd st) seen)(i := None) = ph (snd st) (seen @ [i])"
      "(ph (snd st) seen)(i := Some k') = ph (snd st @ [i]) (seen @ [i])"
      using i by (auto simp: ph_def among_def)
    ultimately show "I (seen @ [i]) st' v'"
      using inv i unfolding I_def by auto
  qed
  moreover have "ph acc todo = among (set acc) k'" by (auto simp: ph_def among_def)
  ultimately show ?thesis by (simp add: I_def)
qed

subsection \<open>Stage 2 keeps it\<close>

lemma same_bytesE:
  assumes "same_bytes found sha n"
  obtains t m s where "found = Some (t, m)" "sha = Some s" "same_bytes (Some (t, m)) (Some s) n"
  using assms by (auto simp: same_bytes_def split: option.splits)

lemma check_target_step:
  assumes "check_target env ig items before (b, pending) i w = (Inr (b', pending'), w')"
    and "gate_inv H tgt ig items sources b w phase" "i < length items" "phase i = Some 0"
    and "H \<Longrightarrow> honest_targets env items tgt" "H \<Longrightarrow> before (target_path (items ! i)) = tgt w (target_path (items ! i))"
  shows "(H \<longrightarrow> tgt w' = tgt w) \<and>
    (pending' = pending \<and> gate_inv H tgt ig items sources b' w' (phase(i := None)) \<or>
     pending' = pending @ [i] \<and> gate_inv H tgt ig items sources b' w' (phase(i := Some 0)))"
proof -
  let ?item = "items ! i" and ?found = "before (target_path (items ! i))"
  have len: "i < length (outcomes b)" and ok: "file_ok H tgt ig items sources b w (Some 0) i"
    using assms(2-4) by (auto simp: gate_inv_def dest: spec [of _ i])
  then obtain sh sz where src: "sources (source_path ?item) = Some (sh, sz)"
    by (auto simp: file_ok_def waiting_def Let_def split: option.splits)
  from assms(1) obtain rid v where add: "add_run_file (recorder env) (run_file_base env ig ?item @
      [(''checksum_target_before_copy'', opt_str (map_option fst ?found)), (''verdict'', PStr ''copying'')] @
      the (side b i)) w = (Inr rid, v)"
    by (auto simp: check_target_def Let_def returns)
  then have v: "H \<Longrightarrow> tgt v = tgt w" using assms(5) by (auto intro: honest_frame)
  note upd = gate_inv_update [OF assms(2,3)]
  show ?thesis
  proof (cases "same_bytes ?found (sha_of b i) (the (size_of b i))")
    case True
    then obtain t m s where same: "?found = Some (t, m)" "sha_of b i = Some s"
      "same_bytes (Some (t, m)) (Some s) (the (size_of b i))" by (rule same_bytesE)
    let ?f = "\<lambda>out. out\<lparr>checksum_target_before_copy := Some t, run_file_id := rid, verdict := ''match'',
      checksum_target_after_copy := Some t\<rparr>"
    from True assms(1) add same(1) have res: "pending' = pending" "b' = set_outcome i ?f b" and keep: "H \<longrightarrow> tgt w' = tgt v"
      using assms(5) by (auto simp: check_target_def Let_def returns set_outcome_twice intro: honest_frame)
    have "file_ok H tgt ig items sources (set_outcome i ?f b) w' None i"
      using ok len same assms(6) keep v src
      by (auto simp: file_ok_def Let_def settled_def waiting_def attempts_fit_def proven_def PROVEN_VERDICTS_def)
    from upd [OF this] res keep v show ?thesis by simp
  next
    case False
    let ?f = "\<lambda>out. out\<lparr>checksum_target_before_copy := map_option fst ?found, run_file_id := rid\<rparr>"
    from False assms(1) add have res: "pending' = pending @ [i]" "b' = set_outcome i ?f b" "w' = v"
      by (auto simp: check_target_def Let_def returns)
    have "file_ok H tgt ig items sources (set_outcome i ?f b) w' (Some 0) i"
      using ok len src by (auto simp: file_ok_def Let_def waiting_def)
    from upd [OF this] res v show ?thesis by simp
  qed
qed

lemma hash_some_reads:
  assumes "hash_some env items is w = (Inr m, w')" "honest_targets env items tgt"
  shows "tgt w' = tgt w \<and> (\<forall>i\<in>set is. m (target_path (items ! i)) = tgt w (target_path (items ! i)))"
  using assms(1) honest_frame(1,2) [OF assms(2)]
  by (auto simp: hash_some_def returns split: if_splits)

lemma stage2_inv:
  assumes "loop (check_target env ig items before) (b, []) cand w = (Inr (b', pending), w')"
    and "gate_inv H tgt ig items sources b w (among (set cand) 0)"
    and "set cand \<subseteq> {..<length items}" "distinct cand" "H \<Longrightarrow> honest_targets env items tgt"
    and "H \<Longrightarrow> \<forall>i\<in>set cand. before (target_path (items ! i)) = tgt w (target_path (items ! i))"
  shows "set pending \<subseteq> set cand \<and> distinct pending \<and> gate_inv H tgt ig items sources b' w' (among (set pending) 0)"
proof -
  have "set pending \<subseteq> set cand \<and> distinct pending \<and>
    gate_inv H tgt ig items sources b' w' (among (set pending) 0) \<and> (H \<longrightarrow> tgt w' = tgt w)"
  proof (rule settle_loop [OF assms(1,2,4)])
    fix b acc i v b' acc' v' phase
    assume "i \<in> set cand" "check_target env ig items before (b, acc) i v = (Inr (b', acc'), v')"
      "gate_inv H tgt ig items sources b v phase" "phase i = Some 0" "H \<longrightarrow> tgt v = tgt w"
    from check_target_step [OF this(2,3) _ this(4)] this(1,5) assms(3,5,6)
    show "(H \<longrightarrow> tgt v' = tgt v) \<and>
      (acc' = acc \<and> gate_inv H tgt ig items sources b' v' (phase(i := None)) \<or>
       acc' = acc @ [i] \<and> gate_inv H tgt ig items sources b' v' (phase(i := Some 0)))"
      by auto
  qed
  then show ?thesis by simp
qed

subsection \<open>Stage 3 keeps it\<close>

definition fresh_attempt :: "int \<Rightarrow> attempt \<Rightarrow> bool" where
  "fresh_attempt no a = (attempt_no a = no \<and> result a = ''copy_error'' \<and> at_checksum a = None)"

lemma copy_one_step:
  assumes "copy_one env items no r i v = (Inr r', v')"
  shows "\<exists>a res. r_attempts r' = (r_attempts r)(i \<mapsto> a) \<and> fresh_attempt no a \<and> copy_file env (items ! i) v = (res, v') \<and>
    set (r_copied r') \<subseteq> insert i (set (r_copied r))"
proof -
  from assms obtain res where "copy_file env (items ! i) v = (res, v')"
    by (auto simp: copy_one_def returns Let_def)
  with assms show ?thesis
    by (cases res) (auto simp: copy_one_def returns Let_def fresh_attempt_def)
qed

lemma copy_loop:
  assumes "loop (copy_one env items no) r pending w = (Inr r', w')" "r_copied r = []"
  shows "(\<forall>i\<in>set pending. \<exists>a. r_attempts r' i = Some a \<and> fresh_attempt no a) \<and> set (r_copied r') \<subseteq> set pending \<and>
    (honest_targets env items tgt \<longrightarrow>
       (\<forall>p. p \<notin> (\<lambda>i. target_path (items ! i)) ` set pending \<longrightarrow> tgt w' p = tgt w p))"
proof (rule loop_inv [OF assms(1), where I = "\<lambda>seen r v.
    (\<forall>i\<in>set seen. \<exists>a. r_attempts r i = Some a \<and> fresh_attempt no a) \<and> set (r_copied r) \<subseteq> set seen \<and>
    (honest_targets env items tgt \<longrightarrow> (\<forall>p. p \<notin> (\<lambda>i. target_path (items ! i)) ` set seen \<longrightarrow> tgt v p = tgt w p))"])
  fix seen i after v v' and r r' :: copy_round
  assume inv: "(\<forall>i\<in>set seen. \<exists>a. r_attempts r i = Some a \<and> fresh_attempt no a) \<and> set (r_copied r) \<subseteq> set seen \<and>
      (honest_targets env items tgt \<longrightarrow> (\<forall>p. p \<notin> (\<lambda>i. target_path (items ! i)) ` set seen \<longrightarrow> tgt v p = tgt w p))"
  assume "copy_one env items no r i v = (Inr r', v')"
  then obtain a res where step: "r_attempts r' = (r_attempts r)(i \<mapsto> a)" "fresh_attempt no a"
    "copy_file env (items ! i) v = (res, v')" "set (r_copied r') \<subseteq> insert i (set (r_copied r))"
    using copy_one_step [of env items no r i v r' v'] by auto
  have "tgt v' p = tgt v p" if "honest_targets env items tgt" "p \<noteq> target_path (items ! i)" for p
    using honest_frame(3) [OF that(1) step(3)] that(2) by simp
  with inv step show "(\<forall>j\<in>set (seen @ [i]). \<exists>a. r_attempts r' j = Some a \<and> fresh_attempt no a) \<and>
      set (r_copied r') \<subseteq> set (seen @ [i]) \<and>
      (honest_targets env items tgt \<longrightarrow>
        (\<forall>p. p \<notin> (\<lambda>i. target_path (items ! i)) ` set (seen @ [i]) \<longrightarrow> tgt v' p = tgt w p))"
    by auto
qed (simp_all add: assms(2))

lemma judge_attempt_cases:
  "attempt_no (judge_attempt item found sha n a) = attempt_no a"
  "result (judge_attempt item found sha n a) = ''match'' \<Longrightarrow> result a \<noteq> ''match'' \<Longrightarrow>
     same_bytes found sha n \<and> at_checksum (judge_attempt item found sha n a) = map_option fst found"
  by (auto simp: judge_attempt_def Let_def split: option.splits if_splits)

lemma settle_attempt_fields:
  "attempts (settle_attempt a out) = attempts out @ [a]"
  "checksum_source_before_copy (settle_attempt a out) = checksum_source_before_copy out"
  "result a \<noteq> ''match'' \<Longrightarrow> verdict (settle_attempt a out) = verdict out"
  "result a = ''match'' \<Longrightarrow> verdict (settle_attempt a out) = (if attempt_no a = 1 then ''copied'' else ''recopied'')"
  "at_checksum a \<noteq> None \<Longrightarrow> checksum_target_after_copy (settle_attempt a out) = at_checksum a"
  by (simp_all add: settle_attempt_def Let_def)

lemma judge_one_step:
  assumes "judge_one env items r after (b, still) i w = (Inr (b', still'), w')"
    and "gate_inv H tgt ig items sources b w phase" "i < length items" "phase i = Some k"
    and "r_attempts r i = Some a" "fresh_attempt (int k + 1) a" "int k < copy_max_retry ig + 1"
    and "H \<Longrightarrow> honest_targets env items tgt"
    and "H \<Longrightarrow> i \<in> set (r_copied r) \<Longrightarrow> after (target_path (items ! i)) = tgt w (target_path (items ! i))"
  shows "(H \<longrightarrow> tgt w' = tgt w) \<and>
    (still' = still \<and> gate_inv H tgt ig items sources b' w' (phase(i := None)) \<or>
     still' = still @ [i] \<and> gate_inv H tgt ig items sources b' w' (phase(i := Some (Suc k))))"
proof -
  let ?item = "items ! i"
  have len: "i < length (outcomes b)" and ok: "file_ok H tgt ig items sources b w (Some k) i"
    using assms(2-4) by (auto simp: gate_inv_def dest: spec [of _ i])
  then obtain s m where src: "sources (source_path ?item) = Some (s, m)" "sha_of b i = Some s" "size_of b i = Some m"
    and wait: "verdict (outcomes b ! i) = ''copying''" "length (attempts (outcomes b ! i)) = k"
      "\<forall>a\<in>set (attempts (outcomes b ! i)). result a \<noteq> ''match''"
      "checksum_source_before_copy (outcomes b ! i) = Some s" "source_ok ig ?item s"
    by (auto simp: file_ok_def waiting_def Let_def split: option.splits)
  define att where "att = (if i \<in> set (r_copied r)
    then judge_attempt ?item (after (target_path ?item)) (Some s) m a else a)"
  have no: "attempt_no att = int k + 1" "result a \<noteq> ''match''"
    using assms(6) by (auto simp: att_def judge_attempt_cases fresh_attempt_def)
  have res: "b' = set_outcome i (settle_attempt att) b"
    "still' = (if result att = ''match'' then still else still @ [i])" and keep: "H \<longrightarrow> tgt w' = tgt w"
    using assms(1,5,8) src by (auto simp: judge_one_def att_def Let_def returns intro: honest_frame)
  show ?thesis
  proof (cases "result att = ''match''")
    case True
    then have "i \<in> set (r_copied r)" "att = judge_attempt ?item (after (target_path ?item)) (Some s) m a"
      using no by (auto simp: att_def split: if_splits)
    with judge_attempt_cases(2) True no(2)
    obtain t n where t: "after (target_path ?item) = Some (t, n)" "same_bytes (Some (t, n)) (Some s) m"
      "at_checksum att = Some t" by (metis (no_types, lifting) fst_conv option.simps(9) same_bytesE)
    have "file_ok H tgt ig items sources (set_outcome i (settle_attempt att) b) w' None i"
      using src wait t True no len keep assms(7,9) \<open>i \<in> set (r_copied r)\<close>
      by (auto simp: file_ok_def Let_def settled_def attempts_fit_def proven_def PROVEN_VERDICTS_def settle_attempt_fields)
    from gate_inv_update [OF assms(2,3) this] True res keep show ?thesis by simp
  next
    case False
    have "file_ok H tgt ig items sources (set_outcome i (settle_attempt att) b) w' (Some (Suc k)) i"
      using src wait False no len
      by (auto simp: file_ok_def Let_def waiting_def settle_attempt_fields)
    from gate_inv_update [OF assms(2,3) this] False res keep show ?thesis by simp
  qed
qed

lemma pause_returns:
  "pause env ig no pending w = (Inr u, w') \<Longrightarrow> honest_targets env items tgt \<Longrightarrow> tgt w' = tgt w"
  by (auto simp: pause_def honest_frame(4) split: if_splits)

lemma rounds_inv:
  assumes "rounds env ig items left no (b, pending) w = (Inr (b', left_over), w')"
    and "gate_inv H tgt ig items sources b w (among (set pending) k)"
    and "set pending \<subseteq> {..<length items}" "distinct pending"
    and "no = int k + 1" "int k + int left = copy_max_retry ig + 1"
    and "H \<Longrightarrow> honest_targets env items tgt"
  shows "set left_over \<subseteq> set pending \<and> distinct left_over \<and>
    (\<exists>k'. gate_inv H tgt ig items sources b' w' (among (set left_over) k') \<and>
       (left_over \<noteq> [] \<longrightarrow> int k' = copy_max_retry ig + 1))"
  using assms
proof (induction left arbitrary: no b pending w k)
  case 0
  then show ?case by (auto simp: returns)
next
  case (Suc left)
  show ?case
  proof (cases "pending = []")
    case True
    with Suc.prems show ?thesis by (auto simp: returns)
  next
    case False
    with Suc.prems(1) obtain r v1 after v2 b1 still v3 v4
      where copies: "loop (copy_one env items no) \<lparr>r_attempts = Map.empty, r_started = Map.empty, r_copied = []\<rparr> pending w = (Inr r, v1)"
        and hash: "hash_some env items (r_copied r) v1 = (Inr after, v2)"
        and judge: "loop (judge_one env items r after) (b, []) pending v2 = (Inr (b1, still), v3)"
        and rest: "pause env ig no still v3 = (Inr (), v4)"
          "rounds env ig items left (no + 1) (b1, still) v4 = (Inr (b', left_over), w')"
      by (fastforce simp: returns)
    note copy = copy_loop [OF copies, of tgt, simplified]
    have other: "tgt v2 (target_path (items ! j)) = tgt w (target_path (items ! j))"
      if "H" "j < length items" "among (set pending) k j = None" for j
    proof -
      have "target_path (items ! j) \<notin> (\<lambda>i. target_path (items ! i)) ` set pending"
        using honest_distinct [OF Suc.prems(7) [OF that(1)] that(2)] that Suc.prems(3)
        by (force simp: among_def split: if_splits)
      with copy Suc.prems(7) [OF that(1)] hash_some_reads [OF hash] show ?thesis by auto
    qed
    have st: "set still \<subseteq> set pending \<and> distinct still \<and>
        gate_inv H tgt ig items sources b1 v3 (among (set still) (Suc k)) \<and> (H \<longrightarrow> tgt v3 = tgt v2)"
    proof (rule settle_loop [OF judge gate_inv_frame [OF Suc.prems(2) other] Suc.prems(4)])
      fix b acc i v b' acc' v' phase
      assume st: "i \<in> set pending" "judge_one env items r after (b, acc) i v = (Inr (b', acc'), v')"
        "gate_inv H tgt ig items sources b v phase" "phase i = Some k" "H \<longrightarrow> tgt v = tgt v2"
      from copy st(1) obtain a where a: "r_attempts r i = Some a" "fresh_attempt no a" by blast
      show "(H \<longrightarrow> tgt v' = tgt v) \<and>
        (acc' = acc \<and> gate_inv H tgt ig items sources b' v' (phase(i := None)) \<or>
         acc' = acc @ [i] \<and> gate_inv H tgt ig items sources b' v' (phase(i := Some (Suc k))))"
        using judge_one_step [OF st(2,3) _ st(4) a(1)] a(2) st(1,5) Suc.prems(3,5-7) hash_some_reads [OF hash] by auto
    qed auto
    have v4: "H \<Longrightarrow> tgt v4 = tgt v3" using pause_returns [OF rest(1)] Suc.prems(7) by blast
    have "gate_inv H tgt ig items sources b1 v4 (among (set still) (Suc k))"
      using gate_inv_frame [where w' = v4] v4 st by metis
    with st show ?thesis
      using Suc.IH [OF rest(2), of "Suc k"] Suc.prems(3,5-7) by auto
  qed
qed

subsection \<open>The end keeps it\<close>

definition gave_up :: "restore_integrity \<Rightarrow> file_outcome \<Rightarrow> bool" where
  "gave_up ig out =
     (verdict out = ''copy_failed_after_retries'' \<and> int (length (attempts out)) = copy_max_retry ig + 1 \<and>
      (\<forall>a\<in>set (attempts out). result a \<noteq> ''match''))"

lemma fail_loop:
  assumes "loop (fail_one ig items) b pending w = (Inr b', w')" "set pending \<subseteq> {..<length (outcomes b)}" "distinct pending"
  shows "w' = w \<and> length (outcomes b') = length (outcomes b) \<and>
    (\<forall>i<length (outcomes b). if i \<in> set pending
       then verdict (outcomes b' ! i) = ''copy_failed_after_retries'' \<and> attempts (outcomes b' ! i) = attempts (outcomes b ! i)
       else outcomes b' ! i = outcomes b ! i)"
proof (rule loop_inv [OF assms(1), where I = "\<lambda>seen b' v. v = w \<and> length (outcomes b') = length (outcomes b) \<and>
    (\<forall>i<length (outcomes b). if i \<in> set seen
       then verdict (outcomes b' ! i) = ''copy_failed_after_retries'' \<and> attempts (outcomes b' ! i) = attempts (outcomes b ! i)
       else outcomes b' ! i = outcomes b ! i)"])
  fix seen i after v v' and st st' :: batch
  assume "pending = seen @ i # after" and "v = w \<and> length (outcomes st) = length (outcomes b) \<and>
    (\<forall>i<length (outcomes b). if i \<in> set seen
       then verdict (outcomes st ! i) = ''copy_failed_after_retries'' \<and> attempts (outcomes st ! i) = attempts (outcomes b ! i)
       else outcomes st ! i = outcomes b ! i)" and "fail_one ig items st i v = (Inr st', v')"
  with assms(2,3) show "v' = w \<and> length (outcomes st') = length (outcomes b) \<and>
    (\<forall>j<length (outcomes b). if j \<in> set (seen @ [i])
       then verdict (outcomes st' ! j) = ''copy_failed_after_retries'' \<and> attempts (outcomes st' ! j) = attempts (outcomes b ! j)
       else outcomes st' ! j = outcomes b ! j)"
    by (auto simp: fail_one_def Let_def returns split: if_splits)
qed simp

lemma record_loop:
  assumes "loop (record_end env started b) () pending w = (Inr u, w')" "honest_targets env items tgt"
  shows "tgt w' = tgt w"
proof (rule loop_inv [OF assms(1), where I = "\<lambda>seen s v. tgt v = tgt w"])
  fix i v s s' v'
  assume "tgt v = tgt w" "record_end env started b s i v = (Inr s', v')"
  then show "tgt v' = tgt w"
    using honest_frame(6) [OF assms(2)] by (auto simp: record_end_def Let_def returns split: if_splits)
qed simp

text \<open>The whole batch: every file is settled or was given up after its last attempt.\<close>

lemma copy_verified_batch_ok:
  assumes "copy_verified_batch env (Some ig) items w = (Inr os, w')" "0 \<le> copy_max_retry ig"
    and "H \<Longrightarrow> honest_targets env items tgt"
  shows "length os = length items \<and>
    (\<exists>sources v. hash_sources env (map source_path items) w = (Inr sources, v) \<and>
      (\<forall>i<length items. gave_up ig (os ! i) \<or>
         settled H ig (items ! i) (sources (source_path (items ! i))) (os ! i) (tgt w' (target_path (items ! i)))))"
proof -
  from assms(1) obtain sources v1 b1 v2 before v3 b2 pending v4 b3 rest v5 b4 v6
    where src: "hash_sources env (map source_path items) w = (Inr sources, v1)"
      and s1: "loop (classify_source env ig sources) (new_batch items) (enumerate 0 items) v1 = (Inr b1, v2)"
      and h2: "hash_some env items (candidates b1) v2 = (Inr before, v3)"
      and s2: "loop (check_target env ig items before) (b1, []) (candidates b1) v3 = (Inr (b2, pending), v4)"
      and s3: "rounds env ig items (nat (copy_max_retry ig + 1)) 1 (b2, pending) v4 = (Inr (b3, rest), v5)"
      and s4: "loop (fail_one ig items) b3 rest v5 = (Inr b4, v6)"
      and s5: "loop (record_end env (\<lambda>i. if i \<in> set pending then Some (utc_now_text env v4) else None) b4) () pending v6
        = (Inr (), w')"
      and os: "os = outcomes b4"
    by (fastforce simp: copy_verified_batch_def returns)
  note cl = stage1_classified [OF s1, of H tgt]
  have cand: "set (candidates b1) \<subseteq> {..<length items}" "distinct (candidates b1)"
    using cl by (auto simp: classified_def)
  have "gate_inv H tgt ig items sources b1 v3 (among (set (candidates b1)) 0)"
    using classified_gate_inv [OF cl] hash_some_reads [OF h2 assms(3)] by (auto intro: gate_inv_frame)
  from stage2_inv [OF s2 this cand assms(3)] hash_some_reads [OF h2 assms(3)]
  have inv2: "set pending \<subseteq> set (candidates b1)" "distinct pending"
    "gate_inv H tgt ig items sources b2 v4 (among (set pending) 0)" by auto
  with cand rounds_inv [OF s3 inv2(3) _ inv2(2) _ _ assms(3)] assms(2)
  obtain k where left: "set rest \<subseteq> set pending" "distinct rest"
    "gate_inv H tgt ig items sources b3 v5 (among (set rest) k)" "rest \<noteq> [] \<longrightarrow> int k = copy_max_retry ig + 1"
    by auto
  then have rest: "set rest \<subseteq> {..<length (outcomes b3)}" and len: "length (outcomes b3) = length items"
    using inv2 cand by (auto simp: gate_inv_def)
  note fin = fail_loop [OF s4 rest left(2)] and keep = record_loop [OF s5 assms(3)]
  have "gave_up ig (os ! i) \<or> settled H ig (items ! i) (sources (source_path (items ! i))) (os ! i)
      (tgt w' (target_path (items ! i)))" if i: "i < length items" for i
  proof (cases "i \<in> set rest")
    case True
    then have "waiting ig (items ! i) (sources (source_path (items ! i))) k (outcomes b3 ! i)" "rest \<noteq> []"
      using left(3) i by (auto simp: gate_inv_def file_ok_def Let_def among_def)
    with True i fin left(4) len os show ?thesis by (auto simp: waiting_def gave_up_def)
  next
    case False
    then have "settled H ig (items ! i) (sources (source_path (items ! i))) (outcomes b3 ! i) (tgt v5 (target_path (items ! i)))"
      using left(3) i by (auto simp: gate_inv_def file_ok_def Let_def among_def)
    with False i fin keep len os show ?thesis by (auto simp: settled_def)
  qed
  with src fin len os show ?thesis by auto
qed

subsection \<open>Counting verdicts and confirming on the target\<close>

definition tally :: "(string \<times> int) list \<Rightarrow> string \<Rightarrow> int" where
  "tally counts v = (case map_of counts v of None \<Rightarrow> 0 | Some n \<Rightarrow> n)"

lemma tally_counts:
  "tally (foldl count_verdict counts vs) v = tally counts v + int (length (filter (\<lambda>x. x = v) vs))"
  by (induction vs arbitrary: counts) (auto simp: tally_def count_verdict_def map_of_upd split: option.splits)

definition confirmed ::
  "('w \<Rightarrow> string \<Rightarrow> answer option) \<Rightarrow> 'w \<Rightarrow> file_to_copy \<Rightarrow> file_outcome \<Rightarrow> bool" where
  "confirmed tgt w item out =
     (\<exists>t n c. tgt w (target_path item) = Some (t, n) \<and> checksum_after_backup item = Some c \<and> lower t = lower c \<and>
        verdict out = ''match'' \<and> checksum_target_after_copy out = Some t)"

lemma confirm_one_step:
  assumes "confirm_one env ig items found (os, rest) i v = (Inr (os', rest'), v')" "honest_targets env items tgt"
    and "found (target_path (items ! i)) = tgt w (target_path (items ! i))"
  shows "os' = os \<and> rest' = rest @ [i] \<and> v' = v \<or>
    (\<exists>out. os' = os[i := out] \<and> rest' = rest \<and> tgt v' = tgt v \<and> confirmed tgt w (items ! i) out)"
proof (cases "same_bytes (found (target_path (items ! i))) (checksum_after_backup (items ! i))
    (if map_of HASHED_MEMBER (upper (file_type (items ! i))) \<noteq> None then None else size_after_backup (items ! i))")
  case True
  then obtain t n c where tn: "found (target_path (items ! i)) = Some (t, n)"
    "checksum_after_backup (items ! i) = Some c" "lower t = lower c"
    by (auto simp: same_bytes_def split: option.splits)
  with assms(1) True obtain rid row where "add_run_file (recorder env) row v = (Inr rid, v')" "rest' = rest"
    "os' = os[i := (os ! i)\<lparr>verdict := ''match'', checksum_target_before_copy := Some t,
       checksum_target_after_copy := Some t, run_file_id := rid\<rparr>]"
    by (auto simp: confirm_one_def Let_def returns)
  then show ?thesis
    using tn assms(3) honest_frame(5) [OF assms(2)] by (auto simp: confirmed_def)
next
  case False
  with assms(1) show ?thesis by (auto simp: confirm_one_def Let_def returns)
qed

lemma confirm_loop:
  assumes "loop (confirm_one env ig items found) (os, rest) todo w = (Inr (os', rest'), w')"
    and "honest_targets env items tgt" "distinct todo" "set todo \<subseteq> {..<length os}"
    and "\<forall>i\<in>set todo. found (target_path (items ! i)) = tgt w (target_path (items ! i))"
  shows "tgt w' = tgt w \<and> length os' = length os \<and> (\<exists>more. rest' = rest @ more \<and> distinct more \<and> set more \<subseteq> set todo \<and>
    (\<forall>i<length os. if i \<in> set todo - set more then confirmed tgt w (items ! i) (os' ! i) else os' ! i = os ! i))"
proof -
  define I where "I = (\<lambda>seen (st :: file_outcome list \<times> nat list) v. tgt v = tgt w \<and> length (fst st) = length os \<and>
    (\<exists>more. snd st = rest @ more \<and> distinct more \<and> set more \<subseteq> set seen \<and>
     (\<forall>i<length os. if i \<in> set seen - set more then confirmed tgt w (items ! i) (fst st ! i) else fst st ! i = os ! i)))"
  have "I todo (os', rest') w'"
  proof (rule loop_inv [OF assms(1)])
    fix seen i after st v st' v'
    assume todo: "todo = seen @ i # after" and inv: "I seen st v"
      and step: "confirm_one env ig items found st i v = (Inr st', v')"
    from inv obtain more where more: "snd st = rest @ more" "distinct more" "set more \<subseteq> set seen"
      "\<And>i. i < length os \<Longrightarrow> if i \<in> set seen - set more then confirmed tgt w (items ! i) (fst st ! i) else fst st ! i = os ! i"
      and v: "tgt v = tgt w" "length (fst st) = length os" by (auto simp: I_def)
    have i: "i \<notin> set seen" "i < length os" "found (target_path (items ! i)) = tgt w (target_path (items ! i))"
      using todo assms(3-5) by auto
    have "confirm_one env ig items found (fst st, snd st) i v = (Inr (fst st', snd st'), v')" using step by simp
    from confirm_one_step [OF this assms(2) i(3)]
    consider (kept) "fst st' = fst st" "snd st' = snd st @ [i]" "v' = v"
      | (ok) out where "fst st' = (fst st)[i := out]" "snd st' = snd st" "tgt v' = tgt v" "confirmed tgt w (items ! i) out"
      by blast
    then show "I (seen @ [i]) st' v'"
    proof cases
      case kept
      then show ?thesis unfolding I_def using more v i by (intro conjI exI [of _ "more @ [i]"]) auto
    next
      case ok
      then show ?thesis unfolding I_def using more v i by (intro conjI exI [of _ more]) (auto simp: nth_list_update)
    qed
  qed (simp add: I_def)
  then show ?thesis unfolding I_def fst_conv snd_conv .
qed

lemma confirm_on_target_ok:
  assumes "confirm_on_target env (Some ig) items w = (Inr (os, remaining), w')" "honest_targets env items tgt"
  shows "length os = length items \<and> sorted remaining \<and> distinct remaining \<and> set remaining \<subseteq> {..<length items} \<and>
    (\<forall>i<length items. if i \<in> set remaining then os ! i = new_outcome else confirmed tgt w' (items ! i) (os ! i))"
proof -
  define rec where "rec = (\<lambda>i. checksum_after_backup (items ! i) \<noteq> None \<and> checksum_after_backup (items ! i) \<noteq> Some [])"
  let ?ck = "filter rec [0..<length items]" and ?un = "filter (\<lambda>i. \<not> rec i) [0..<length items]"
  from assms(1) obtain found v rest
    where hash: "hash_some env items ?ck w = (Inr found, v)"
      and body: "loop (confirm_one env ig items found) (map (\<lambda>_. new_outcome) items, ?un) ?ck v = (Inr (os, rest), w')"
      and rem: "remaining = sort rest"
    by (auto simp: confirm_on_target_def Let_def returns rec_def)
  have "distinct ?ck" "set ?ck \<subseteq> {..<length (map (\<lambda>_. new_outcome) items)}"
    "\<forall>i\<in>set ?ck. found (target_path (items ! i)) = tgt v (target_path (items ! i))"
    using hash_some_reads [OF hash assms(2)] by auto
  from confirm_loop [OF body assms(2) this]
  have "tgt w' = tgt v \<and> length os = length items \<and> (\<exists>more. rest = ?un @ more \<and> distinct more \<and> set more \<subseteq> set ?ck \<and>
    (\<forall>i<length items. if i \<in> set ?ck - set more then confirmed tgt v (items ! i) (os ! i)
       else os ! i = map (\<lambda>_. new_outcome) items ! i))"
    by (simp only: length_map)
  then obtain more where ok: "tgt w' = tgt v" "length os = length items" "rest = ?un @ more" "distinct more" "set more \<subseteq> set ?ck"
    "\<forall>i<length items. if i \<in> set ?ck - set more then confirmed tgt v (items ! i) (os ! i)
       else os ! i = map (\<lambda>_. new_outcome) items ! i"
    by blast
  then have "set remaining = set ?un \<union> set more" "distinct remaining" using rem by auto
  with ok rem show ?thesis by (auto simp: confirmed_def)
qed

subsection \<open>The gate always answers\<close>

text \<open>A transport and a catalog that never raise; the copy may fail as often as it likes.\<close>

definition never_raises :: "'w gate_env \<Rightarrow> bool" where
  "never_raises env =
     ((\<forall>ps. answers (hash_sources env ps)) \<and> (\<forall>ps. answers (hash_targets env ps)) \<and>
      (\<forall>row. answers (add_run_file (recorder env) row)) \<and> (\<forall>rid row. answers (set_run_file (recorder env) rid row)) \<and>
      (\<forall>row. answers (record_copy_attempt (recorder env) row)))"

lemma stages_answer:
  assumes "never_raises env"
  shows "answers (classify_source env ig sources b x)" "answers (check_target env ig items before st i)"
    "answers (copy_one env items no r i)" "answers (judge_one env items r after st i)"
    "answers (hash_some env items is)" "answers (pause env ig no pending)"
  using assms unfolding never_raises_def
  by (auto simp: classify_source_def refused_file_def check_target_def copy_one_def judge_one_def hash_some_def
      pause_def answers_def [of "pause env ig no pending"] Let_def
      intro!: answering split: prod.splits option.splits)

lemma rounds_answer: "never_raises env \<Longrightarrow> answers (rounds env ig items left no st)"
  by (induction left arbitrary: no st) (auto intro!: answering stages_answer split: prod.splits)

text \<open>After a round every file that waited for it has an attempt, and attempts are never taken back.\<close>

definition tried :: "batch \<Rightarrow> nat \<Rightarrow> bool" where
  "tried b i = (attempts (outcomes b ! i) \<noteq> [])"

lemma judge_one_returns:
  assumes "judge_one env items r after (b, still) i w = (Inr st', w')"
  shows "\<exists>att. st' = (set_outcome i (settle_attempt att) b, if result att = ''match'' then still else still @ [i])"
  using assms by (auto simp: judge_one_def Let_def returns)

lemma judge_loop_tried:
  assumes "loop (judge_one env items r after) (b, still) pending w = (Inr (b', still'), w')"
    and "set pending \<subseteq> {..<length (outcomes b)}"
  shows "length (outcomes b') = length (outcomes b) \<and> (\<forall>i. tried b i \<or> i \<in> set pending \<longrightarrow> tried b' i) \<and>
    set still' \<subseteq> set still \<union> set pending"
  using assms
proof (induction pending arbitrary: b still w)
  case (Cons i pending)
  then obtain st v where "judge_one env items r after (b, still) i w = (Inr st, v)"
    "loop (judge_one env items r after) st pending v = (Inr (b', still'), w')" by (auto simp: returns)
  moreover from judge_one_returns [OF this(1)] obtain att st1
    where step: "st1 = (if result att = ''match'' then still else still @ [i])"
      and st: "st = (set_outcome i (settle_attempt att) b, st1)" by blast
  ultimately have step2: "loop (judge_one env items r after) (set_outcome i (settle_attempt att) b, st1) pending v
      = (Inr (b', still'), w')" by simp
  from Cons.IH [OF step2] Cons.prems(2) have
    "length (outcomes b') = length (outcomes b)" "set still' \<subseteq> set st1 \<union> set pending"
    "\<And>j. tried (set_outcome i (settle_attempt att) b) j \<or> j \<in> set pending \<Longrightarrow> tried b' j" by auto
  moreover have "tried (set_outcome i (settle_attempt att) b) j" if "tried b j \<or> j = i" for j
    using that Cons.prems(2) by (auto simp: tried_def settle_attempt_fields)
  ultimately show ?case using step by (auto split: if_splits)
qed (simp add: returns)

lemma rounds_tried:
  assumes "rounds env ig items left no (b, pending) w = (Inr (b', rest), w')"
    and "set pending \<subseteq> {..<length (outcomes b)}"
  shows "length (outcomes b') = length (outcomes b) \<and> set rest \<subseteq> set pending \<and>
    (\<forall>i. tried b i \<or> (0 < left \<and> i \<in> set pending) \<longrightarrow> tried b' i)"
  using assms
proof (induction left arbitrary: no b pending w)
  case (Suc left)
  show ?case
  proof (cases "pending = []")
    case False
    with Suc.prems(1) obtain r after v2 b1 still v3 v4
      where judge: "loop (judge_one env items r after) (b, []) pending v2 = (Inr (b1, still), v3)"
        and rest: "rounds env ig items left (no + 1) (b1, still) v4 = (Inr (b', rest), w')"
      by (fastforce simp: returns)
    note one = judge_loop_tried [OF judge Suc.prems(2)]
    then have "set still \<subseteq> {..<length (outcomes b1)}" using Suc.prems(2) by auto
    from Suc.IH [OF rest this] one show ?thesis by auto
  qed (use Suc.prems in \<open>auto simp: returns\<close>)
qed (auto simp: returns)

lemma fail_loop_answers:
  assumes "\<forall>i\<in>set pending. tried b i" "set pending \<subseteq> {..<length (outcomes b)}"
  shows "\<exists>b'. loop (fail_one ig items) b pending w = (Inr b', w) \<and> (\<forall>i. tried b i \<longrightarrow> tried b' i)"
  using assms
proof (induction pending arbitrary: b)
  case (Cons i pending)
  then obtain f where f: "fail_one ig items b i w = (Inr (set_outcome i f b), w)" "\<And>out. attempts (f out) = attempts out"
    by (auto simp: fail_one_def tried_def Let_def ret_def)
  then have "\<forall>j. tried b j \<longrightarrow> tried (set_outcome i f b) j" using Cons.prems by (auto simp: tried_def)
  with Cons.IH [of "set_outcome i f b"] Cons.prems f(1) show ?case by (auto simp: bnd_def)
qed (auto simp: ret_def)

lemma copy_verified_batch_answers:
  assumes "never_raises env" "0 \<le> copy_max_retry ig"
  shows "\<exists>os w'. copy_verified_batch env (Some ig) items w = (Inr os, w')"
proof -
  obtain sources v1 where src: "hash_sources env (map source_path items) w = (Inr sources, v1)"
    using assms(1) by (meson answersE never_raises_def)
  obtain b1 v2 where s1: "loop (classify_source env ig sources) (new_batch items) (enumerate 0 items) v1 = (Inr b1, v2)"
    by (rule answersE [of "loop (classify_source env ig sources) (new_batch items) (enumerate 0 items)" v1])
      (auto intro: answering stages_answer assms(1))
  obtain before v3 where h2: "hash_some env items (candidates b1) v2 = (Inr before, v3)"
    by (rule answersE [OF stages_answer(5) [OF assms(1)]])
  obtain b2 pending v4 where s2: "loop (check_target env ig items before) (b1, []) (candidates b1) v3 = (Inr (b2, pending), v4)"
    by (rule answersE [of "loop (check_target env ig items before) (b1, []) (candidates b1)" v3])
      (auto intro: answering stages_answer assms(1))
  obtain b3 rest v5 where s3: "rounds env ig items (nat (copy_max_retry ig + 1)) 1 (b2, pending) v4 = (Inr (b3, rest), v5)"
    by (rule answersE [OF rounds_answer [OF assms(1)], of ig items _ 1 "(b2, pending)" v4]) auto
  have cl: "classified False (\<lambda>_ _. None) ig items sources (length items) b1 v2" by (rule stage1_classified [OF s1])
  have "set pending \<subseteq> {..<length items} \<and> length (outcomes b2) = length items"
  proof -
    have "gate_inv False (\<lambda>_ _. None) ig items sources b1 v3 (among (set (candidates b1)) 0)"
      using classified_gate_inv [OF cl] by (rule gate_inv_frame) simp
    from stage2_inv [OF s2 this] cl show ?thesis by (auto simp: classified_def gate_inv_def)
  qed
  with rounds_tried [OF s3] assms(2) have tr: "\<forall>i\<in>set pending. tried b3 i" "set rest \<subseteq> set pending"
    "set rest \<subseteq> {..<length (outcomes b3)}" by auto
  then obtain b4 where s4: "loop (fail_one ig items) b3 rest v5 = (Inr b4, v5)" "\<forall>i\<in>set pending. tried b4 i"
    using fail_loop_answers [of rest b3 ig items v5] by blast
  let ?started = "\<lambda>i. if i \<in> set pending then Some (utc_now_text env v4) else None"
  have "answers (loop (record_end env ?started b4) () pending)"
    using assms(1) s4(2)
    by (auto simp: record_end_def tried_def Let_def never_raises_def intro!: answering)
  then obtain u v6 where s5: "loop (record_end env ?started b4) () pending v5 = (Inr u, v6)" by (rule answersE)
  show ?thesis
    by (simp add: copy_verified_batch_def bnd_def reading_def src s1 h2 s2 s3 s4 s5 ret_def)
qed

subsection \<open>Properties\<close>

lemma require_integrity_retry: "require_restore_integrity entry = Inr ig \<Longrightarrow> 0 \<le> copy_max_retry ig"
  using parse_restore_integrity_wf [of entry ig]
  by (auto simp: require_restore_integrity_def rbind_eq_Inr wf_integrity_def split: option.splits)

text \<open>A transport on which the first copy arrives damaged, for the witnesses.\<close>

definition flaky_env :: "(nat \<times> (string \<times> answer) list) gate_env" where
  "flaky_env = \<lparr>hash_sources = (\<lambda>ps. ret (map_of [(''/s/a'', (''aa'', Some 5)), (''/s/b'', (''bb'', Some 7))])),
     hash_targets = (\<lambda>ps w. (Inr (map_of (snd w)), w)),
     copy_file = (\<lambda>item w. (Inr None, (fst w + 1, upd (target_path item)
        (if fst w = 0 then (''00'', Some 5) else (''AA'', Some 5)) (snd w)))),
     sleep = (\<lambda>n w. w), utc_now_text = (\<lambda>w. ''now''), catalog = None, restore_run_id = None, copy_engine = []\<rparr>"

definition flaky_item :: "string \<Rightarrow> string \<Rightarrow> string option \<Rightarrow> file_to_copy" where
  "flaky_item sp tp c = \<lparr>source_server_id = ''S'', target_server_id = ''T'', file_name = ''f'', file_type = ''FULL'',
     source_path = sp, target_path = tp, database_name = [], engine = [], checksum_after_backup = c,
     size_after_backup = None, source_host_path = [], target_host_path = [], file_id = None,
     chain_position = None, backup_taken_at = None\<rparr>"

definition flaky_items :: "file_to_copy list" where
  "flaky_items = [flaky_item ''/s/a'' ''/t/a'' (Some ''aa''), flaky_item ''/s/b'' ''/t/b'' (Some ''b0'')]"

definition flaky_entry :: pydict where
  "flaky_entry = [(''integrity'', PDict [(''copy_max_retry'', PInt 1)])]"

definition flaky_outcomes :: "file_outcome list" where
  "flaky_outcomes = (case copy_verified_batch flaky_env (Some (default_integrity\<lparr>copy_max_retry := 1\<rparr>)) flaky_items (0, []) of
     (Inr os, w) \<Rightarrow> os | _ \<Rightarrow> [])"

lemma flaky_integrity: "require_restore_integrity flaky_entry = Inr (default_integrity\<lparr>copy_max_retry := 1\<rparr>)"
  by code_simp

lemma flaky_recorder: "recorder flaky_env = no_record"
  by (simp add: recorder_def flaky_env_def)

lemma flaky_honest: "honest_targets flaky_env flaky_items (\<lambda>w. map_of (snd w))"
  "honest_sources flaky_env (\<lambda>w. map_of [(''/s/a'', (''aa'', Some 5)), (''/s/b'', (''bb'', Some 7))])"
  "never_raises flaky_env"
  unfolding honest_targets_def honest_sources_def never_raises_def flaky_recorder
  by (auto simp: flaky_env_def no_record_def returns flaky_items_def flaky_item_def map_of_upd answers_def ret_def)

lemma flaky_run:
  "copy_verified_batch flaky_env (Some (default_integrity\<lparr>copy_max_retry := 1\<rparr>)) flaky_items (0, [])
   = (Inr flaky_outcomes, (2, [(''/t/a'', (''AA'', Some 5))]))"
  by code_simp

lemma flaky_ends: "length flaky_items = 2" "length flaky_outcomes = 2"
  "verdict (flaky_outcomes ! 0) = ''recopied''" "verdict (flaky_outcomes ! 1) = ''source_mismatch''"
  by code_simp+



text \<open>One outcome per file, and each one final: no file is left at copying, no file is copied more
  than the stated retries and one, a file is copied only when its source was accepted and was not
  already on the target, and a copied file's last attempt is the one that matched.\<close>

theorem gate_outcomes_final:
  assumes "require_restore_integrity entry = Inr ig"
    and "copy_verified_batch env (Some ig) items w = (Inr os, w')"
  shows "length os = length items \<and> (\<forall>i<length items.
    verdict (os ! i) \<noteq> ''copying'' \<and> int (length (attempts (os ! i))) \<le> copy_max_retry ig + 1 \<and>
    (if verdict (os ! i) \<in> {''copied'', ''recopied''}
     then result (last (attempts (os ! i))) = ''match'' \<and> (verdict (os ! i) = ''copied'' \<longleftrightarrow> length (attempts (os ! i)) = 1)
     else if verdict (os ! i) = ''copy_failed_after_retries'' then int (length (attempts (os ! i))) = copy_max_retry ig + 1
     else attempts (os ! i) = []))"
proof -
  note retry = require_integrity_retry [OF assms(1)]
  from copy_verified_batch_ok [where H = False and tgt = "\<lambda>_ _. None", OF assms(2) retry]
  have len: "length os = length items" and ok: "\<And>i. i < length items \<Longrightarrow> \<exists>src rd. gave_up ig (os ! i) \<or>
      settled False ig (items ! i) src (os ! i) rd" by blast+
  show ?thesis
    using len ok retry
    by (fastforce simp: gave_up_def settled_def attempts_fit_def proven_def PROVEN_VERDICTS_def split: if_splits)
qed

theorem gate_outcomes_final_witness:
  "length (attempts (flaky_outcomes ! 1)) = 0 \<and> int (length (attempts (flaky_outcomes ! 0))) \<le> 2"
  using gate_outcomes_final [OF flaky_integrity flaky_run] flaky_ends by fastforce



text \<open>The answer a restore is gated on: a run counts as proven exactly when every one of its
  outcomes is, and the count it gives for a verdict is the number of its files with that verdict.\<close>

theorem summarize_is_faithful:
  "(all_proven (summarize os) \<longleftrightarrow> set os \<subseteq> {out. proven out}) \<and> files (summarize os) = length os
   \<and> tally (verdicts (summarize os)) v = int (length (filter (\<lambda>out. verdict out = v) os))
   \<and> recopied (summarize os) = int (length (filter (\<lambda>out. verdict out = ''recopied'') os))"
proof -
  have "tally (foldl count_verdict [] (map verdict os)) x = int (length (filter (\<lambda>out. verdict out = x) os))" for x
    by (simp add: tally_counts filter_map o_def) (simp add: tally_def)
  then show ?thesis
    by (auto simp: summarize_def Let_def filter_empty_conv tally_def)
qed

text \<open>The shortcut that reads no source: a file it takes off the list of copies holds on the target
  the checksum its backup recorded; every other file is on that list, once and in order, with its
  outcome untouched.\<close>

theorem confirm_on_target_sound:
  assumes "confirm_on_target env (Some ig) items w = (Inr (os, remaining), w')" "honest_targets env items tgt"
  shows "length os = length items \<and> sorted remaining \<and> distinct remaining \<and> set remaining \<subseteq> {..<length items} \<and>
    (\<forall>i<length items. if i \<in> set remaining then os ! i = new_outcome
       else (\<exists>t n c. tgt w' (target_path (items ! i)) = Some (t, n) \<and> checksum_after_backup (items ! i) = Some c \<and>
         lower t = lower c \<and> verdict (os ! i) = ''match'' \<and> checksum_target_after_copy (os ! i) = Some t))"
  using confirm_on_target_ok [OF assms] unfolding confirmed_def .

theorem confirm_on_target_sound_witness:
  "verdict (fst (case confirm_on_target flaky_env (Some default_integrity) flaky_items (0, [(''/t/a'', (''AA'', Some 5))]) of
     (Inr r, w) \<Rightarrow> r) ! 0) = ''match''"
proof -
  obtain os where run: "confirm_on_target flaky_env (Some default_integrity) flaky_items (0, [(''/t/a'', (''AA'', Some 5))])
     = (Inr (os, [1]), (0, [(''/t/a'', (''AA'', Some 5))]))"
    by (rule that, code_simp)
  from confirm_on_target_sound [OF run flaky_honest(1)] flaky_ends run show ?thesis by force
qed

end
