(* ===== verification/RunRequests.thy ===== *)
theory RunRequests
  imports Coerce
begin

section \<open>The run-now queue\<close>

text \<open>
  Models \<^verbatim>\<open>dbabrain/db/run_requests.py\<close>: the requests the console writes and the daemon picks up.
  The table is a list of rows in the order of their keys, with the next key the store will give and
  the \<^verbatim>\<open>job_runs\<close> rows its foreign key points at; a write that would break the partial unique index
  or the foreign key raises and changes nothing. Stored times are whole seconds: the text
  \<^verbatim>\<open>YYYY-MM-DDTHH:MM:SSZ\<close> is ordered as the second it names.

  A method that reads in one transaction and writes in another is two definitions besides the
  method itself, so that what another process does in between can be stated.
\<close>

subsection \<open>The table\<close>

definition STATUS_PENDING :: string where
  "STATUS_PENDING = ''pending''"

definition STATUS_CLAIMED :: string where
  "STATUS_CLAIMED = ''claimed''"

definition STATUS_STARTED :: string where
  "STATUS_STARTED = ''started''"

definition STATUS_DONE :: string where
  "STATUS_DONE = ''done''"

definition STATUS_CANCELLED :: string where
  "STATUS_CANCELLED = ''cancelled''"

definition STATUS_EXPIRED :: string where
  "STATUS_EXPIRED = ''expired''"

definition OPEN_STATUSES :: "string list" where
  "OPEN_STATUSES = [STATUS_PENDING, STATUS_CLAIMED, STATUS_STARTED]"

definition DEFAULT_REQUEST_TTL_SECONDS :: int where
  "DEFAULT_REQUEST_TTL_SECONDS = 900"

lemmas status_defs = STATUS_PENDING_def STATUS_CLAIMED_def STATUS_STARTED_def STATUS_DONE_def
  STATUS_CANCELLED_def STATUS_EXPIRED_def

record request =
  request_id :: int
  app_command_id :: string
  status :: string
  requested_by :: string
  request_source :: string
  requested_at :: int
  claimed_at :: "int option"
  started_at :: "int option"
  finished_at :: "int option"
  job_run_id :: "int option"
  rq_note :: string

record job_run =
  log_id :: int
  job_status :: string
  job_finished_at :: "int option"

record queue =
  rows :: "request list"
  next_id :: int
  job_runs :: "job_run list"

datatype request_error = CommandRequired | UniqueViolation | ForeignKeyViolation

definition utc_text :: "instant \<Rightarrow> int" where
  "utc_text moment = moment div 1000000"

definition pending :: "request \<Rightarrow> bool" where
  "pending r = (status r = STATUS_PENDING)"

text \<open>\<^verbatim>\<open>ux_app_command_requests_pending\<close>\<close>

definition index_ok :: "request list \<Rightarrow> bool" where
  "index_ok rs = distinct (map app_command_id (filter pending rs))"

definition fk_ok :: "queue \<Rightarrow> request \<Rightarrow> bool" where
  "fk_ok q r = (case job_run_id r of None \<Rightarrow> True | Some j \<Rightarrow> j \<in> log_id ` set (job_runs q))"

definition sql_update :: "(request \<Rightarrow> bool) \<Rightarrow> (request \<Rightarrow> request) \<Rightarrow> queue \<Rightarrow> request_error + queue" where
  "sql_update P f q =
     (let rs = map (\<lambda>r. if P r then f r else r) (rows q) in
      if \<not> index_ok rs then Inl UniqueViolation
      else if \<not> list_all (fk_ok q) rs then Inl ForeignKeyViolation
      else Inr (q\<lparr>rows := rs\<rparr>))"

fun fold_res :: "('x \<Rightarrow> 's \<Rightarrow> 'e + 's) \<Rightarrow> 'x list \<Rightarrow> 's \<Rightarrow> 'e + 's" where
  "fold_res f [] s = Inr s"
| "fold_res f (x # xs) s = rbind (f x s) (fold_res f xs)"

subsection \<open>Asking\<close>

definition pending_for :: "queue \<Rightarrow> string \<Rightarrow> request option" where
  "pending_for q code = List.find (\<lambda>r. app_command_id r = code \<and> pending r) (rows q)"

record answer =
  an_request_id :: int
  an_created :: bool
  an_status :: string
  an_requested_at :: int
  an_requested_by :: string

definition insert_request ::
  "string \<Rightarrow> string \<Rightarrow> string \<Rightarrow> string \<Rightarrow> instant \<Rightarrow> queue \<Rightarrow> request_error + (int \<times> queue)" where
  "insert_request code requester source text now q =
     (let r = \<lparr>request_id = next_id q, app_command_id = code, status = STATUS_PENDING, requested_by = requester,
               request_source = source, requested_at = utc_text now, claimed_at = None, started_at = None,
               finished_at = None, job_run_id = None, rq_note = text\<rparr> in
      if \<not> index_ok (rows q @ [r]) then Inl UniqueViolation
      else Inr (next_id q, q\<lparr>rows := rows q @ [r], next_id := next_id q + 1\<rparr>))"

definition request_run ::
  "string \<Rightarrow> string \<Rightarrow> string \<Rightarrow> string \<Rightarrow> instant \<Rightarrow> instant \<Rightarrow> queue \<Rightarrow> request_error + (answer \<times> queue)" where
  "request_run app requester source text now answered q =
     (let code = strip app in
      if code = [] then Inl CommandRequired
      else case pending_for q code of
        Some r \<Rightarrow> Inr (\<lparr>an_request_id = request_id r, an_created = False, an_status = status r,
                        an_requested_at = requested_at r, an_requested_by = requested_by r\<rparr>, q)
      | None \<Rightarrow>
          rbind (insert_request code requester source text now q) (\<lambda>(rid, q').
          Inr (\<lparr>an_request_id = rid, an_created = True, an_status = STATUS_PENDING,
                an_requested_at = utc_text answered, an_requested_by = requester\<rparr>, q')))"

definition find_request :: "queue \<Rightarrow> int \<Rightarrow> request option" where
  "find_request q rid = List.find (\<lambda>r. request_id r = rid) (rows q)"

definition cancel_request :: "int \<Rightarrow> string \<Rightarrow> instant \<Rightarrow> queue \<Rightarrow> request_error + (bool \<times> queue)" where
  "cancel_request rid actor now q =
     (case find_request q rid of
        None \<Rightarrow> Inr (False, q)
      | Some r \<Rightarrow>
          if \<not> pending r then Inr (False, q)
          else rbind (sql_update (\<lambda>r. request_id r = rid)
                 (\<lambda>r. r\<lparr>status := STATUS_CANCELLED, finished_at := Some (utc_text now),
                        rq_note := ''Cancelled by '' @ (if actor = [] then ''an operator'' else actor) @ ''.''\<rparr>) q)
               (\<lambda>q'. Inr (True, q')))"

subsection \<open>Reading\<close>

text \<open>Both readings are in the order of the key; a dict built from them keeps the last row of an app.\<close>

definition open_requests :: "queue \<Rightarrow> string \<Rightarrow> request option" where
  "open_requests q code =
     List.find (\<lambda>r. app_command_id r = code) (rev (filter (\<lambda>r. status r \<in> set OPEN_STATUSES) (rows q)))"

definition list_requests :: "queue \<Rightarrow> string option \<Rightarrow> nat \<Rightarrow> request list" where
  "list_requests q code most =
     take most (rev (filter (\<lambda>r. case code of None \<Rightarrow> True | Some c \<Rightarrow> c = [] \<or> app_command_id r = c) (rows q)))"

subsection \<open>The daemon's side\<close>

definition finish :: "int \<Rightarrow> string \<Rightarrow> string \<Rightarrow> instant \<Rightarrow> queue \<Rightarrow> request_error + queue" where
  "finish rid st text now =
     sql_update (\<lambda>r. request_id r = rid) (\<lambda>r. r\<lparr>status := st, finished_at := Some (utc_text now), rq_note := text\<rparr>)"

definition mark_done :: "int \<Rightarrow> string \<Rightarrow> instant \<Rightarrow> queue \<Rightarrow> request_error + queue" where
  "mark_done rid text now = finish rid STATUS_DONE text now"

definition stale_cutoff :: "int \<Rightarrow> instant \<Rightarrow> int" where
  "stale_cutoff ttl now = utc_text (now - sec (max 1 ttl))"

text \<open>The second transaction of \<^verbatim>\<open>claim\<close>: the conditional update and the row it reads back.\<close>

definition claim_take :: "int \<Rightarrow> instant \<Rightarrow> queue \<Rightarrow> request_error + (request option \<times> queue)" where
  "claim_take rid now q =
     rbind (sql_update (\<lambda>r. request_id r = rid \<and> pending r)
              (\<lambda>r. r\<lparr>status := STATUS_CLAIMED, claimed_at := Some (utc_text now)\<rparr>) q)
       (\<lambda>q'. Inr (List.find (\<lambda>r. request_id r = rid \<and> status r = STATUS_CLAIMED) (rows q'), q'))"

definition claim :: "string \<Rightarrow> int \<Rightarrow> instant \<Rightarrow> queue \<Rightarrow> request_error + (request option \<times> queue)" where
  "claim code ttl now q =
     (case pending_for q code of
        None \<Rightarrow> Inr (None, q)
      | Some r \<Rightarrow>
          if requested_at r < stale_cutoff ttl now
          then rbind (finish (request_id r) STATUS_EXPIRED
                        (''Not picked up within '' @ show_int ttl @ ''s; the daemon was not running.'') now q)
                 (\<lambda>q'. Inr (None, q'))
          else claim_take (request_id r) now q)"

definition mark_started :: "int \<Rightarrow> int option \<Rightarrow> instant \<Rightarrow> queue \<Rightarrow> request_error + queue" where
  "mark_started rid job now =
     sql_update (\<lambda>r. request_id r = rid)
       (\<lambda>r. r\<lparr>status := STATUS_STARTED, started_at := Some (utc_text now), job_run_id := job\<rparr>)"

definition release :: "int \<Rightarrow> string \<Rightarrow> queue \<Rightarrow> request_error + queue" where
  "release rid text =
     sql_update (\<lambda>r. request_id r = rid \<and> status r = STATUS_CLAIMED)
       (\<lambda>r. r\<lparr>status := STATUS_PENDING, claimed_at := None, rq_note := text\<rparr>)"

definition expire_stale :: "int \<Rightarrow> instant \<Rightarrow> queue \<Rightarrow> request_error + (nat \<times> queue)" where
  "expire_stale ttl now q =
     (let stale = filter (\<lambda>r. pending r \<and> requested_at r < stale_cutoff ttl now) (rows q) in
      rbind (fold_res (\<lambda>r. finish (request_id r) STATUS_EXPIRED
               (''Not picked up within '' @ show_int ttl @ ''s.'') now) stale q)
        (\<lambda>q'. Inr (length stale, q')))"

definition finished_runs :: "queue \<Rightarrow> (request \<times> job_run) list" where
  "finished_runs q =
     concat (map (\<lambda>r. map (\<lambda>j. (r, j)) (filter (\<lambda>j. job_run_id r = Some (log_id j) \<and> job_finished_at j \<noteq> None) (job_runs q)))
       (filter (\<lambda>r. status r = STATUS_STARTED) (rows q)))"

definition close_finished :: "instant \<Rightarrow> queue \<Rightarrow> request_error + (nat \<times> queue)" where
  "close_finished now q =
     rbind (fold_res (\<lambda>(r, j). sql_update (\<lambda>x. request_id x = request_id r \<and> status x = STATUS_STARTED)
              (\<lambda>x. x\<lparr>status := STATUS_DONE, finished_at := Some (utc_text now),
                     rq_note := ''Run finished with status '' @ job_status j @ ''.''\<rparr>)) (finished_runs q) q)
       (\<lambda>q'. Inr (length (finished_runs q), q'))"

subsection \<open>What every write keeps\<close>

definition STATUSES :: "string list" where
  "STATUSES = [STATUS_PENDING, STATUS_CLAIMED, STATUS_STARTED, STATUS_DONE, STATUS_CANCELLED, STATUS_EXPIRED]"

definition queue_ok :: "queue \<Rightarrow> bool" where
  "queue_ok q =
     (index_ok (rows q) \<and> sorted (map request_id (rows q)) \<and> distinct (map request_id (rows q)) \<and>
      (\<forall>r\<in>set (rows q). request_id r < next_id q \<and> status r \<in> set STATUSES) \<and>
      list_all (fk_ok q) (rows q))"

text \<open>
  One write transaction of any process: whatever was read before it may be out of date. New rows of
  \<^verbatim>\<open>job_runs\<close> arrive at any time; rows of it are removed only with the requests that point at them.
\<close>

inductive queue_step :: "queue \<Rightarrow> queue \<Rightarrow> bool" where
  asked: "insert_request code requester source text now q = Inr (rid, q') \<Longrightarrow> queue_step q q'"
| cancelled: "cancel_request rid actor now q = Inr (b, q') \<Longrightarrow> queue_step q q'"
| finished: "st \<noteq> STATUS_PENDING \<Longrightarrow> st \<in> set STATUSES \<Longrightarrow> finish rid st text now q = Inr q' \<Longrightarrow> queue_step q q'"
| taken: "claim_take rid now q = Inr (r, q') \<Longrightarrow> queue_step q q'"
| claimed: "claim code ttl now q = Inr (r, q') \<Longrightarrow> queue_step q q'"
| started: "mark_started rid job now q = Inr q' \<Longrightarrow> queue_step q q'"
| released: "release rid text q = Inr q' \<Longrightarrow> queue_step q q'"
| expired: "expire_stale ttl now q = Inr (n, q') \<Longrightarrow> queue_step q q'"
| closed: "close_finished now q = Inr (n, q') \<Longrightarrow> queue_step q q'"
| run_recorded: "queue_step q (q\<lparr>job_runs := j # job_runs q\<rparr>)"

definition empty_queue :: queue where
  "empty_queue = \<lparr>rows = [], next_id = 1, job_runs = []\<rparr>"

definition same_request :: "request \<Rightarrow> request \<Rightarrow> bool" where
  "same_request r r' =
     (request_id r' = request_id r \<and> app_command_id r' = app_command_id r \<and> requested_by r' = requested_by r \<and>
      request_source r' = request_source r \<and> requested_at r' = requested_at r)"

definition remembers :: "queue \<Rightarrow> queue \<Rightarrow> bool" where
  "remembers q q' = (\<forall>r\<in>set (rows q). \<exists>r'\<in>set (rows q'). same_request r r')"

definition evolves :: "queue \<Rightarrow> queue \<Rightarrow> bool" where
  "evolves q q' = (queue_ok q \<longrightarrow> queue_ok q' \<and> remembers q q')"

lemma evolves_refl [simp]: "evolves q q"
  by (auto simp: evolves_def remembers_def same_request_def)

lemma remembers_trans: "remembers q q' \<Longrightarrow> remembers q' q'' \<Longrightarrow> remembers q q''"
  unfolding remembers_def same_request_def by (metis (no_types, lifting))

lemma evolves_trans: "evolves q q' \<Longrightarrow> evolves q' q'' \<Longrightarrow> evolves q q''"
  unfolding evolves_def using remembers_trans by blast

lemma sql_update_Inr:
  "sql_update P f q = Inr q' \<longleftrightarrow>
   q' = q\<lparr>rows := map (\<lambda>r. if P r then f r else r) (rows q)\<rparr> \<and> index_ok (rows q') \<and> list_all (fk_ok q) (rows q')"
  by (auto simp: sql_update_def Let_def)

lemma fk_ok_simps [simp]: "fk_ok (q\<lparr>rows := rs\<rparr>) = fk_ok q" "fk_ok (q\<lparr>next_id := n\<rparr>) = fk_ok q"
  "fk_ok q r \<Longrightarrow> fk_ok (q\<lparr>job_runs := j # job_runs q\<rparr>) r"
  by (auto simp: fk_ok_def fun_eq_iff split: option.splits)

lemma sql_update_evolves:
  assumes "sql_update P f q = Inr q'" "\<And>r. same_request r (f r)" "\<And>r. status (f r) \<in> set STATUSES"
  shows "evolves q q'"
proof -
  have rows: "rows q' = map (\<lambda>r. if P r then f r else r) (rows q)" "next_id q' = next_id q" "fk_ok q' = fk_ok q"
    "index_ok (rows q')" "list_all (fk_ok q) (rows q')"
    using assms(1) by (auto simp: sql_update_Inr)
  have ids: "map request_id (rows q') = map request_id (rows q)"
    using rows(1) assms(2) by (auto simp: same_request_def)
  have one: "same_request r (if P r then f r else r)" for r
    using assms(2) by (simp add: same_request_def)
  have "\<forall>r\<in>set (rows q'). request_id r < next_id q' \<and> status r \<in> set STATUSES" if "queue_ok q"
    using that rows assms(2,3) by (auto simp: queue_ok_def same_request_def)
  then have "queue_ok q'" if "queue_ok q"
    using that rows(2-5) ids unfolding queue_ok_def by simp
  moreover have "remembers q q'"
    unfolding remembers_def
  proof
    fix r
    assume "r \<in> set (rows q)"
    then have "(if P r then f r else r) \<in> set (rows q')" by (simp add: rows(1))
    with one show "\<exists>r'\<in>set (rows q'). same_request r r'" by blast
  qed
  ultimately show ?thesis by (simp add: evolves_def)
qed

lemma finish_evolves: "finish rid st text now q = Inr q' \<Longrightarrow> st \<in> set STATUSES \<Longrightarrow> evolves q q'"
  unfolding finish_def by (erule sql_update_evolves) (auto simp: same_request_def)

lemma claim_take_evolves: "claim_take rid now q = Inr (r, q') \<Longrightarrow> evolves q q'"
  unfolding claim_take_def
  by (auto simp: rbind_eq_Inr same_request_def STATUSES_def elim!: sql_update_evolves)

lemma fold_res_evolves:
  assumes "fold_res f xs q = Inr q'" "\<And>x q q'. f x q = Inr q' \<Longrightarrow> evolves q q'"
  shows "evolves q q'"
  using assms(1)
proof (induction xs arbitrary: q)
  case (Cons x xs)
  then obtain p where "f x q = Inr p" "fold_res f xs p = Inr q'" by (auto simp: rbind_eq_Inr)
  with Cons.IH assms(2) show ?case by (blast intro: evolves_trans)
qed simp

lemma insert_request_evolves:
  assumes "insert_request code requester source msg now q = Inr (rid, q')"
  shows "evolves q q'"
proof -
  from assms obtain r where r: "rows q' = rows q @ [r]" "request_id r = next_id q" "status r = STATUS_PENDING"
    "fk_ok q r" "next_id q' = next_id q + 1" "index_ok (rows q @ [r])" "fk_ok q' = fk_ok q"
    by (auto simp: insert_request_def Let_def fk_ok_def split: if_splits)
  then have "queue_ok q'" if "queue_ok q"
    using that by (force simp: queue_ok_def sorted_append STATUSES_def)
  with r(1) show ?thesis by (auto simp: evolves_def remembers_def same_request_def)
qed

lemma queue_step_evolves: "queue_step q q' \<Longrightarrow> evolves q q'"
proof (induction rule: queue_step.induct)
  case (asked code requester source msg now q rid q')
  then show ?case by (rule insert_request_evolves)
next
  case (cancelled rid actor now q b q')
  then show ?case
    by (auto simp: cancel_request_def rbind_eq_Inr same_request_def STATUSES_def
        elim!: sql_update_evolves split: option.splits if_splits)
next
  case (finished st rid msg now q q')
  then show ?case by (auto elim: finish_evolves)
next
  case (taken rid now q r q')
  then show ?case by (rule claim_take_evolves)
next
  case (claimed code ttl now q r q')
  then show ?case
    by (auto simp: claim_def rbind_eq_Inr STATUSES_def intro: finish_evolves claim_take_evolves
        split: option.splits if_splits)
next
  case (started rid job now q q')
  then show ?case
    unfolding mark_started_def by (elim sql_update_evolves) (auto simp: same_request_def STATUSES_def)
next
  case (released rid msg q q')
  then show ?case
    unfolding release_def by (elim sql_update_evolves) (auto simp: same_request_def STATUSES_def)
next
  case (expired ttl now q n q')
  then show ?case
    by (auto simp: expire_stale_def Let_def rbind_eq_Inr STATUSES_def elim!: fold_res_evolves finish_evolves)
next
  case (closed now q n q')
  then show ?case
    unfolding close_finished_def rbind_eq_Inr
    by (elim exE conjE, simp, elim fold_res_evolves)
      (auto simp: same_request_def STATUSES_def elim!: sql_update_evolves)
next
  case (run_recorded q j)
  then show ?case by (auto simp: evolves_def queue_ok_def remembers_def same_request_def list_all_iff)
qed

interpretation requests: kept queue_step queue_ok
  by unfold_locales (use queue_step_evolves in \<open>auto simp: evolves_def\<close>)

interpretation history: kept queue_step "\<lambda>q'. queue_ok q' \<and> remembers q q'" for q
proof unfold_locales
  fix p p'
  assume "queue_ok p \<and> remembers q p" "queue_step p p'"
  then show "queue_ok p' \<and> remembers q p'"
    using queue_step_evolves [of p p'] remembers_trans by (auto simp: evolves_def)
qed

subsection \<open>Writes that cannot fail\<close>

lemma find_by_key:
  "distinct (map k xs) \<Longrightarrow> x \<in> set xs \<Longrightarrow> Q x \<Longrightarrow> List.find (\<lambda>y. k y = k x \<and> Q y) xs = Some x"
  by (induction xs) (auto simp: image_iff)

lemma find_Some: "List.find P xs = Some x \<Longrightarrow> x \<in> set xs \<and> P x"
  by (induction xs) (auto split: if_splits)

lemma index_ok_unique:
  "index_ok rs \<Longrightarrow> x \<in> set rs \<Longrightarrow> y \<in> set rs \<Longrightarrow> pending x \<Longrightarrow> pending y \<Longrightarrow>
   app_command_id x = app_command_id y \<Longrightarrow> x = y"
  by (auto simp: index_ok_def distinct_map inj_on_def)

lemma index_ok_update:
  assumes "index_ok rs" "\<And>r. r \<in> set rs \<Longrightarrow> P r \<Longrightarrow> \<not> pending (f r)"
  shows "index_ok (map (\<lambda>r. if P r then f r else r) rs)"
proof -
  have "filter pending (map (\<lambda>r. if P r then f r else r) rs) = filter (\<lambda>r. \<not> P r) (filter pending rs)"
    using assms(2) by (induction rs) auto
  with assms(1) distinct_map_filter [of app_command_id "filter pending rs" "\<lambda>r. \<not> P r"] show ?thesis
    unfolding index_ok_def by simp
qed

lemma sql_update_succeeds:
  assumes "queue_ok q" "\<And>r. r \<in> set (rows q) \<Longrightarrow> P r \<Longrightarrow> \<not> pending (f r)"
    and "\<And>r. job_run_id (f r) = job_run_id r"
  shows "sql_update P f q = Inr (q\<lparr>rows := map (\<lambda>r. if P r then f r else r) (rows q)\<rparr>)"
proof -
  have "list_all (fk_ok q) (map (\<lambda>r. if P r then f r else r) (rows q))"
    using assms(1,3) by (auto simp: queue_ok_def list_all_iff fk_ok_def)
  with index_ok_update [of "rows q" P f] assms(1,2) show ?thesis
    by (auto simp: sql_update_def Let_def queue_ok_def)
qed

lemma pending_for_eq_Some:
  "queue_ok q \<Longrightarrow> pending_for q code = Some r \<longleftrightarrow> r \<in> set (rows q) \<and> app_command_id r = code \<and> pending r"
proof
  assume ok: "queue_ok q" and r: "r \<in> set (rows q) \<and> app_command_id r = code \<and> pending r"
  then have "List.find (\<lambda>y. app_command_id y = app_command_id r) (filter pending (rows q)) = Some r"
    using find_by_key [of app_command_id "filter pending (rows q)" r "\<lambda>_. True"]
    by (simp add: queue_ok_def index_ok_def)
  moreover have "List.find P (filter Q xs) = List.find (\<lambda>x. P x \<and> Q x) xs" for P Q and xs :: "request list"
    by (induction xs) auto
  ultimately show "pending_for q code = Some r" using r by (simp add: pending_for_def)
qed (auto simp: pending_for_def dest: find_Some)

lemma insert_request_row:
  assumes "insert_request code who source msg now q = Inr (rid, q')"
  shows "\<exists>r. rows q' = rows q @ [r] \<and> request_id r = rid \<and> app_command_id r = code \<and> pending r \<and>
    requested_by r = who \<and> requested_at r = utc_text now"
  using assms by (auto simp: insert_request_def Let_def pending_def split: if_splits)

lemma claim_take_pending:
  fixes now :: instant
  assumes "queue_ok q" "r \<in> set (rows q)" "pending r"
  defines "r' \<equiv> r\<lparr>status := STATUS_CLAIMED, claimed_at := Some (utc_text now)\<rparr>"
  shows "\<exists>q'. claim_take (request_id r) now q = Inr (Some r', q') \<and> queue_ok q' \<and> r' \<in> set (rows q') \<and>
    (\<forall>x\<in>set (rows q'). app_command_id x = app_command_id r \<longrightarrow> \<not> pending x)"
proof -
  let ?P = "\<lambda>x. request_id x = request_id r \<and> pending x"
  let ?f = "\<lambda>x. x\<lparr>status := STATUS_CLAIMED, claimed_at := Some (utc_text now)\<rparr>"
  define q' where "q' = q\<lparr>rows := map (\<lambda>x. if ?P x then ?f x else x) (rows q)\<rparr>"
  have rows: "rows q' = map (\<lambda>x. if ?P x then ?f x else x) (rows q)" by (simp add: q'_def)
  have upd: "sql_update ?P ?f q = Inr q'"
    unfolding q'_def by (rule sql_update_succeeds [OF assms(1)]) (auto simp: pending_def status_defs)
  then have ok: "queue_ok q'"
    using sql_update_evolves [OF upd] assms(1) by (auto simp: evolves_def same_request_def STATUSES_def)
  have r': "r' \<in> set (rows q')" "status r' = STATUS_CLAIMED" "request_id r' = request_id r"
    using assms(2,3) by (auto simp: r'_def rows)
  have "distinct (map request_id (rows q'))" using ok by (simp add: queue_ok_def)
  from find_by_key [OF this r'(1), of "\<lambda>x. status x = STATUS_CLAIMED"] r'
  have found: "List.find (\<lambda>x. request_id x = request_id r \<and> status x = STATUS_CLAIMED) (rows q') = Some r'" by simp
  have "\<not> pending x" if "x \<in> set (rows q')" "app_command_id x = app_command_id r" for x
  proof
    assume "pending x"
    with that have "x \<in> set (rows q)" "\<not> ?P x" by (auto simp: rows pending_def status_defs)
    with that \<open>pending x\<close> assms(1-3) show False
      using pending_for_eq_Some [OF assms(1), of "app_command_id r" x] pending_for_eq_Some [OF assms(1), of "app_command_id r" r]
      by auto
  qed
  moreover have "claim_take (request_id r) now q = Inr (Some r', q')"
    by (simp add: claim_take_def upd rbind_def found)
  ultimately show ?thesis using ok r'(1) by blast
qed

subsection \<open>Properties\<close>



text \<open>A run that was asked for is what the daemon gets: a request the console created and that is
  still in its window when the daemon claims the app comes back with its key and its author, and
  no second claim finds it again.\<close>

theorem request_then_claim:
  assumes "queue_ok q" "request_run app who source msg now answered q = Inr (a, q1)" "an_created a"
    and "stale_cutoff ttl later \<le> utc_text now"
  shows "\<exists>r q2. claim (strip app) ttl later q1 = Inr (Some r, q2) \<and> request_id r = an_request_id a \<and>
    requested_by r = who \<and> status r = STATUS_CLAIMED \<and> claim (strip app) ttl later' q2 = Inr (None, q2)"
proof -
  from assms(2,3) have ins: "insert_request (strip app) who source msg now q = Inr (an_request_id a, q1)"
    by (auto simp: request_run_def Let_def rbind_eq_Inr split: if_splits option.splits)
  then have ok: "queue_ok q1" using insert_request_evolves assms(1) by (auto simp: evolves_def)
  from ins obtain r where r: "r \<in> set (rows q1)" "app_command_id r = strip app" "pending r" "requested_by r = who"
    "request_id r = an_request_id a" "requested_at r = utc_text now"
    using insert_request_row [OF ins] by (metis in_set_conv_decomp)
  with claim_take_pending [OF ok r(1,3), of later] pending_for_eq_Some [OF ok, of "strip app" r] assms(4)
  obtain q2 where q2: "claim (strip app) ttl later q1 =
      Inr (Some (r\<lparr>status := STATUS_CLAIMED, claimed_at := Some (utc_text later)\<rparr>), q2)" "queue_ok q2"
      "\<forall>x\<in>set (rows q2). app_command_id x = strip app \<longrightarrow> \<not> pending x"
    by (auto simp: claim_def)
  then have "pending_for q2 (strip app) = None"
    using pending_for_eq_Some [OF q2(2)] by (metis not_None_eq)
  with q2 r show ?thesis by (auto simp: claim_def)
qed

text \<open>Two daemons that both read the pending request both come away with it: the one whose update
  came second changes nothing, but the row it reads back is the one the first has claimed.\<close>

theorem claim_race_is_lost_by_nobody:
  assumes "queue_ok q" "pending_for q code = Some r"
  shows "\<exists>r1 q1. claim_take (request_id r) now1 q = Inr (Some r1, q1) \<and>
    claim_take (request_id r) now2 q1 = Inr (Some r1, q1) \<and> request_id r1 = request_id r"
proof -
  have r: "r \<in> set (rows q)" "pending r" using assms pending_for_eq_Some [OF assms(1)] by auto
  let ?r1 = "r\<lparr>status := STATUS_CLAIMED, claimed_at := Some (utc_text now1)\<rparr>"
  from claim_take_pending [OF assms(1) r, of now1] obtain q1
    where one: "claim_take (request_id r) now1 q = Inr (Some ?r1, q1)" "queue_ok q1" "?r1 \<in> set (rows q1)" by auto
  let ?P = "\<lambda>x. request_id x = request_id r \<and> pending x"
  have none: "\<not> ?P x" if "x \<in> set (rows q1)" for x
  proof
    assume "?P x"
    then have "x = ?r1" using one(2,3) that by (auto simp: queue_ok_def distinct_map inj_on_def)
    with \<open>?P x\<close> show False by (simp add: pending_def status_defs)
  qed
  have same: "map (\<lambda>x. if ?P x then f x else x) (rows q1) = rows q1" for f
    using none by (intro map_idI) auto
  have upd: "sql_update ?P (\<lambda>x. x\<lparr>status := STATUS_CLAIMED, claimed_at := Some (utc_text now2)\<rparr>) q1 = Inr q1"
    using sql_update_succeeds [OF one(2), of ?P] none by (simp add: same)
  have "distinct (map request_id (rows q1))" using one(2) by (simp add: queue_ok_def)
  from find_by_key [OF this one(3), of "\<lambda>x. status x = STATUS_CLAIMED"]
  have found: "List.find (\<lambda>x. request_id x = request_id r \<and> status x = STATUS_CLAIMED) (rows q1) = Some ?r1" by simp
  have "claim_take (request_id r) now2 q1 = Inr (Some ?r1, q1)"
    using upd found by (simp add: claim_take_def rbind_def)
  with one show ?thesis by auto
qed

definition mark :: "string \<Rightarrow> string \<Rightarrow> instant \<Rightarrow> request \<Rightarrow> request" where
  "mark st msg now r = r\<lparr>status := st, finished_at := Some (utc_text now), rq_note := msg\<rparr>"

lemma finish_succeeds:
  assumes "queue_ok q" "st \<in> set STATUSES" "st \<noteq> STATUS_PENDING"
  shows "finish rid st msg now q = Inr (q\<lparr>rows := map (\<lambda>r. if request_id r = rid then mark st msg now r else r) (rows q)\<rparr>)"
    and "queue_ok (q\<lparr>rows := map (\<lambda>r. if request_id r = rid then mark st msg now r else r) (rows q)\<rparr>)"
proof -
  show fin: "finish rid st msg now q = Inr (q\<lparr>rows := map (\<lambda>r. if request_id r = rid then mark st msg now r else r) (rows q)\<rparr>)"
    unfolding finish_def mark_def by (rule sql_update_succeeds [OF assms(1)]) (auto simp: pending_def assms(3))
  show "queue_ok (q\<lparr>rows := map (\<lambda>r. if request_id r = rid then mark st msg now r else r) (rows q)\<rparr>)"
    using finish_evolves [OF fin assms(2)] assms(1) by (simp add: evolves_def)
qed

lemma finish_all:
  assumes "queue_ok q" "st \<in> set STATUSES" "st \<noteq> STATUS_PENDING"
  shows "fold_res (\<lambda>r. finish (request_id r) st msg now) rs q =
    Inr (q\<lparr>rows := map (\<lambda>x. if request_id x \<in> request_id ` set rs then mark st msg now x else x) (rows q)\<rparr>)"
  using assms(1)
proof (induction rs arbitrary: q)
  case (Cons r rs)
  have twice: "mark st msg now (mark st msg now x) = mark st msg now x" "request_id (mark st msg now x) = request_id x" for x
    by (simp_all add: mark_def)
  show ?case
    using finish_succeeds [OF Cons.prems assms(2,3), of "request_id r" msg now] Cons.IH
    by (auto simp: rbind_def o_def twice intro!: map_cong)
qed simp

definition stale :: "int \<Rightarrow> instant \<Rightarrow> request \<Rightarrow> bool" where
  "stale ttl now r = (pending r \<and> requested_at r < stale_cutoff ttl now)"

lemma expire_stale_marks:
  assumes "queue_ok q"
  shows "expire_stale ttl now q = Inr (length (filter (stale ttl now) (rows q)),
    q\<lparr>rows := map (\<lambda>r. if stale ttl now r
       then mark STATUS_EXPIRED (''Not picked up within '' @ show_int ttl @ ''s.'') now r else r) (rows q)\<rparr>)"
proof -
  have "distinct (map request_id (rows q))" using assms by (simp add: queue_ok_def)
  then have "request_id r \<in> request_id ` set (filter (stale ttl now) (rows q)) \<longleftrightarrow> stale ttl now r"
    if "r \<in> set (rows q)" for r
    using that by (auto simp: distinct_map inj_on_def)
  then have same: "map (\<lambda>x. if request_id x \<in> request_id ` set (filter (stale ttl now) (rows q)) then f x else x) (rows q)
    = map (\<lambda>x. if stale ttl now x then f x else x) (rows q)" for f
    by (intro map_cong) auto
  have st: "STATUS_EXPIRED \<in> set STATUSES" "STATUS_EXPIRED \<noteq> STATUS_PENDING"
    by (simp_all add: STATUSES_def status_defs)
  show ?thesis
    unfolding expire_stale_def Let_def stale_def [symmetric] finish_all [OF assms st] same rbind_def by simp
qed

text \<open>The sweep of stale requests: it never fails, it counts and expires exactly the pending requests
  older than the window, and every other row, a claimed one in particular, stays as it is.\<close>

theorem expire_stale_exact:
  assumes "queue_ok q"
  shows "expire_stale ttl now q =
    Inr (length (filter (\<lambda>r. pending r \<and> requested_at r < stale_cutoff ttl now) (rows q)),
         q\<lparr>rows := map (\<lambda>r. if pending r \<and> requested_at r < stale_cutoff ttl now
            then r\<lparr>status := STATUS_EXPIRED, finished_at := Some (utc_text now),
                   rq_note := ''Not picked up within '' @ show_int ttl @ ''s.''\<rparr> else r) (rows q)\<rparr>)"
  using expire_stale_marks [OF assms] unfolding stale_def mark_def .

text \<open>Giving a claimed request back can fail: when another request of the same app has been queued in
  the meantime, the release breaks the unique index, and the request stays claimed; neither a
  later claim of the app nor the sweep of stale requests moves it on.\<close>

theorem release_blocked_by_new_request:
  assumes "queue_ok q" "r \<in> set (rows q)" "status r = STATUS_CLAIMED"
    and "other \<in> set (rows q)" "pending other" "app_command_id other = app_command_id r"
  shows "release (request_id r) msg q = Inl UniqueViolation \<and>
    (\<exists>n q'. expire_stale ttl now q = Inr (n, q') \<and> r \<in> set (rows q')) \<and>
    (\<forall>x q'. claim (app_command_id r) ttl now q = Inr (x, q') \<longrightarrow> r \<in> set (rows q'))"
proof -
  have np: "\<not> pending r" using assms(3) by (simp add: pending_def status_defs)
  let ?P = "\<lambda>x. request_id x = request_id r \<and> status x = STATUS_CLAIMED"
  let ?f = "\<lambda>x. x\<lparr>status := STATUS_PENDING, claimed_at := None, rq_note := msg\<rparr>"
  let ?rs = "map (\<lambda>x. if ?P x then ?f x else x) (rows q)"
  have ids: "request_id other \<noteq> request_id r"
    using assms np by (auto simp: queue_ok_def distinct_map inj_on_def)
  have "?f r \<in> set ?rs" "other \<in> set ?rs" using assms(2-4) ids by force+
  then have "\<not> index_ok ?rs"
    using index_ok_unique [of ?rs "?f r" other] assms(5,6) ids by (auto simp: pending_def)
  then have "release (request_id r) msg q = Inl UniqueViolation"
    by (simp add: release_def sql_update_def Let_def)
  moreover have "\<exists>n q'. expire_stale ttl now q = Inr (n, q') \<and> r \<in> set (rows q')"
    using expire_stale_marks [OF assms(1)] assms(2) np by (auto simp: stale_def intro: rev_image_eqI)
  moreover have "r \<in> set (rows q')" if "claim (app_command_id r) ttl now q = Inr (x, q')" for x q'
  proof -
    have "pending_for q (app_command_id r) = Some other" using pending_for_eq_Some [OF assms(1)] assms(4-6) by auto
    with that obtain P f where "sql_update P f q = Inr q'" "\<not> P r"
      using ids by (auto simp: claim_def finish_def claim_take_def rbind_eq_Inr split: if_splits)
    then show ?thesis using assms(2) by (force simp: sql_update_Inr)
  qed
  ultimately show ?thesis by blast
qed

subsection \<open>Witnesses\<close>

definition etl_request :: request where
  "etl_request = \<lparr>request_id = 1, app_command_id = ''etl'', status = STATUS_PENDING, requested_by = ''ann'',
     request_source = ''console'', requested_at = 1000, claimed_at = None, started_at = None, finished_at = None,
     job_run_id = None, rq_note = []\<rparr>"

definition etl_queue :: queue where
  "etl_queue = \<lparr>rows = [etl_request], next_id = 2, job_runs = []\<rparr>"

definition etl_blocked :: queue where
  "etl_blocked = \<lparr>rows = [etl_request\<lparr>status := STATUS_CLAIMED\<rparr>, etl_request\<lparr>request_id := 2\<rparr>], next_id = 3,
     job_runs = []\<rparr>"

lemma etl_ok: "queue_ok etl_queue" "queue_ok etl_blocked" "queue_ok empty_queue"
  by code_simp+

lemma etl_asked: "insert_request ''etl'' ''ann'' ''console'' [] (sec 1000) empty_queue = Inr (1, etl_queue)"
  by code_simp



theorem request_then_claim_witness:
  "\<exists>r q2. claim (strip '' etl'') 900 (sec 1800) etl_queue = Inr (Some r, q2) \<and> request_id r = 1 \<and> requested_by r = ''ann''"
proof -
  let ?a = "\<lparr>an_request_id = 1, an_created = True, an_status = STATUS_PENDING, an_requested_at = 1000, an_requested_by = ''ann''\<rparr>"
  have "request_run '' etl'' ''ann'' ''console'' [] (sec 1000) (sec 1000) empty_queue = Inr (?a, etl_queue)" by code_simp
  moreover have "stale_cutoff 900 (sec 1800) \<le> utc_text (sec 1000)" by code_simp
  ultimately show ?thesis
    using request_then_claim [OF etl_ok(3), of "'' etl''" "''ann''" "''console''" "[]" "sec 1000" "sec 1000" ?a etl_queue 900 "sec 1800" 0]
    by auto
qed

theorem claim_race_is_lost_by_nobody_witness:
  "\<exists>r1 q1. claim_take 1 (sec 1001) etl_queue = Inr (Some r1, q1) \<and> claim_take 1 (sec 1002) q1 = Inr (Some r1, q1)"
proof -
  have "pending_for etl_queue ''etl'' = Some etl_request" "request_id etl_request = 1" by code_simp+
  with claim_race_is_lost_by_nobody [OF etl_ok(1) this(1), of "sec 1001" "sec 1002"] show ?thesis by auto
qed

theorem expire_stale_exact_witness: "\<exists>q'. expire_stale 900 (sec 1901) etl_queue = Inr (1, q')"
proof -
  have "length (filter (\<lambda>r. pending r \<and> requested_at r < stale_cutoff 900 (sec 1901)) (rows etl_queue)) = 1" by code_simp
  with expire_stale_exact [OF etl_ok(1), of 900 "sec 1901"] show ?thesis by simp
qed

theorem release_blocked_by_new_request_witness: "release 1 [] etl_blocked = Inl UniqueViolation"
proof -
  let ?r = "etl_request\<lparr>status := STATUS_CLAIMED\<rparr>"
  have "?r \<in> set (rows etl_blocked)" "etl_request\<lparr>request_id := 2\<rparr> \<in> set (rows etl_blocked)" "request_id ?r = 1"
    "status ?r = STATUS_CLAIMED" "pending (etl_request\<lparr>request_id := 2\<rparr>)"
    "app_command_id (etl_request\<lparr>request_id := 2\<rparr>) = app_command_id ?r"
    by (simp_all add: etl_blocked_def etl_request_def pending_def)
  then show ?thesis using release_blocked_by_new_request [OF etl_ok(2), of ?r "etl_request\<lparr>request_id := 2\<rparr>" "[]"] by simp
qed

end
