(* ===== verification/StoreOutage.thy ===== *)
theory StoreOutage
  imports PyPrelude
begin

section \<open>Store outages\<close>

text \<open>
  Models \<^verbatim>\<open>dbabrain/lib/store_outage.py\<close>: which failures of the store are waited out, and for how
  long. An exception is its class name, its text, whether it is SQLite's \<^verbatim>\<open>OperationalError\<close>, the
  code attribute and the arguments a driver gave it, and the exception it was raised from; the chain
  is finite because the source follows it by identity and stops at the first one it has seen.

  The properties are about the waiter over a run of failed attempts: what it sleeps in all, that it
  gives up, and what a good pass gives back.
\<close>

subsection \<open>Exceptions\<close>

datatype exn = Exn (ex_type: string) (ex_text: string) (ex_sqlite: bool) (ex_direct: pyval) (ex_args: "pyval list")
  (ex_cause: "exn option")

definition TRANSIENT_SQLSTATES :: "string list" where
  "TRANSIENT_SQLSTATES =
     [''08000'', ''08001'', ''08003'', ''08004'', ''08006'', ''08007'', ''08P01'', ''57P01'', ''57P02'', ''57P03'',
      ''53000'', ''53100'', ''53200'', ''53300'']"

definition TRANSIENT_PHRASES :: "string list" where
  "TRANSIENT_PHRASES =
     [''network error'', ''connection is closed'', ''connection already closed'', ''server closed the connection'',
      ''the database system is starting up'', ''the database system is in recovery mode'',
      ''the database system is shutting down'', ''connection reset'', ''connection refused'', ''connection aborted'',
      ''broken pipe'', ''no route to host'', ''timed out'', ''timeout expired'',
      ''can'' @ [CHR 0x27] @ ''t create a connection to host'']"

definition BUDGET_SECONDS :: int where
  "BUDGET_SECONDS = 6 * 60 * 60"

definition MAX_WAIT_SECONDS :: int where
  "MAX_WAIT_SECONDS = 30"

definition code_text :: "pyval \<Rightarrow> string option" where
  "code_text v = (case v of PStr s \<Rightarrow> (if strip s = [] then None else Some (strip s)) | _ \<Rightarrow> None)"

fun arg_code :: "pyval list \<Rightarrow> string option" where
  "arg_code [] = None"
| "arg_code (a # rest) =
     (if is_dict a
      then (case code_text (if truthy (get (as_dict a) ''C'') then get (as_dict a) ''C'' else get (as_dict a) ''code'') of
              Some c \<Rightarrow> Some c
            | None \<Rightarrow> arg_code rest)
      else arg_code rest)"

fun sqlstate :: "exn \<Rightarrow> string" where
  "sqlstate (Exn ty txt sq direct args cause) =
     (case code_text direct of
        Some c \<Rightarrow> c
      | None \<Rightarrow> (case arg_code args of
                   Some c \<Rightarrow> c
                 | None \<Rightarrow> (case cause of None \<Rightarrow> [] | Some e \<Rightarrow> sqlstate e)))"

definition is_transient :: "exn \<Rightarrow> bool" where
  "is_transient e =
     (let code = sqlstate e in
      if code \<noteq> [] then code \<in> set TRANSIENT_SQLSTATES
      else let txt = lower (ex_type e @ '': '' @ ex_text e) in
           list_ex (contains txt) TRANSIENT_PHRASES)"

subsection \<open>The waiter\<close>

record outage_waiter =
  budget_seconds :: int
  max_wait_seconds :: int
  attempts :: nat
  waited_seconds :: int

definition new_waiter :: outage_waiter where
  "new_waiter = \<lparr>budget_seconds = BUDGET_SECONDS, max_wait_seconds = MAX_WAIT_SECONDS, attempts = 0, waited_seconds = 0\<rparr>"

definition wait_for :: "exn \<Rightarrow> outage_waiter \<Rightarrow> int option \<times> outage_waiter" where
  "wait_for e w =
     (if \<not> is_transient e then (None, w)
      else let remaining = budget_seconds w - waited_seconds w in
        if remaining \<le> 0 then (None, w)
        else let n = attempts w + 1;
                 wait = min (min (max_wait_seconds w) (2 ^ n)) remaining in
             (Some wait, w\<lparr>attempts := n, waited_seconds := waited_seconds w + wait\<rparr>))"

definition recovered :: "outage_waiter \<Rightarrow> outage_waiter" where
  "recovered w = w\<lparr>attempts := 0, waited_seconds := 0\<rparr>"

text \<open>The loop that brings the daemon up: one attempt after another until one succeeds or an error
  is let out. \<open>outcomes\<close> is what the store answers to each attempt; what is returned is how it
  ended, if it did, and the seconds of each sleep.\<close>

fun wait_out :: "exn option list \<Rightarrow> outage_waiter \<Rightarrow> (exn + unit) option \<times> int list" where
  "wait_out [] w = (None, [])"
| "wait_out (None # rest) w = (Some (Inr ()), [])"
| "wait_out (Some e # rest) w =
     (case wait_for e w of
        (None, w') \<Rightarrow> (Some (Inl e), [])
      | (Some s, w') \<Rightarrow> (case wait_out rest w' of (r, slept) \<Rightarrow> (r, s # slept)))"

subsection \<open>The schedule of one outage\<close>

text \<open>Seconds slept after \<open>n\<close> waits of one outage: 2, 4, 8, 16 and then 30 each.\<close>

definition slept_after :: "nat \<Rightarrow> int" where
  "slept_after n = (if n \<le> 4 then 2 ^ (n + 1) - 2 else 30 * (int n - 3))"

definition waiter_after :: "nat \<Rightarrow> outage_waiter" where
  "waiter_after n = new_waiter\<lparr>attempts := n, waited_seconds := slept_after n\<rparr>"

lemma slept_after_step: "slept_after (n + 1) = slept_after n + min 30 (2 ^ (n + 1))"
proof -
  consider "n = 0" | "n = 1" | "n = 2" | "n = 3" | "n = 4" | "4 < n" by linarith
  then show ?thesis
  proof cases
    case 6
    then have "(2::int) ^ 5 \<le> 2 ^ n" by (intro power_increasing) auto
    with 6 show ?thesis by (simp add: slept_after_def)
  qed (simp_all add: slept_after_def)
qed

lemma slept_after_723: "n \<le> 723 \<Longrightarrow> slept_after n \<le> 21600" "slept_after 723 = 21600"
proof -
  have "(2::int) ^ (n + 1) \<le> 2 ^ 5" if "n \<le> 4" using that by (intro power_increasing) auto
  then show "n \<le> 723 \<Longrightarrow> slept_after n \<le> 21600" by (auto simp: slept_after_def)
qed (simp add: slept_after_def)

lemma wait_for_after:
  assumes "is_transient e" "n \<le> 723"
  shows "wait_for e (waiter_after n) =
    (if n = 723 then (None, waiter_after n)
     else (Some (slept_after (n + 1) - slept_after n), waiter_after (n + 1)))"
proof (cases "n = 723")
  case True
  with assms show ?thesis
    by (simp add: wait_for_def waiter_after_def new_waiter_def BUDGET_SECONDS_def slept_after_723)
next
  case False
  with assms(2) slept_after_723(1) [of "n + 1"] slept_after_step [of n]
  have rem: "slept_after n + min 30 (2 ^ (n + 1)) \<le> 21600" by simp
  moreover have "(0::int) < min 30 (2 ^ (n + 1))" by simp
  ultimately have "\<not> 21600 \<le> slept_after n" "min 30 (2 ^ (n + 1)) \<le> 21600 - slept_after n" by linarith+
  then show ?thesis
    using assms(1) False slept_after_step [of n]
    by (simp add: wait_for_def waiter_after_def new_waiter_def BUDGET_SECONDS_def MAX_WAIT_SECONDS_def Let_def)
qed

lemma wait_out_from:
  assumes "list_all is_transient es" "n \<le> 723"
  shows "\<exists>slept. wait_out (map Some es @ [None]) (waiter_after n) =
      (Some (if n + length es \<le> 723 then Inr () else Inl (es ! (723 - n))), slept) \<and>
    sum_list slept = slept_after (min 723 (n + length es)) - slept_after n"
  using assms
proof (induction es arbitrary: n)
  case (Cons e es)
  show ?case
  proof (cases "n = 723")
    case True
    with Cons.prems wait_for_after [of e n] show ?thesis by simp
  next
    case False
    with Cons.prems Cons.IH [of "n + 1"] obtain slept where
      "wait_out (map Some es @ [None]) (waiter_after (n + 1)) =
         (Some (if n + 1 + length es \<le> 723 then Inr () else Inl (es ! (723 - (n + 1)))), slept)"
      "sum_list slept = slept_after (min 723 (n + 1 + length es)) - slept_after (n + 1)"
      by auto
    with False Cons.prems wait_for_after [of e n] show ?thesis
      by (auto simp: nth_Cons' numeral_eq_Suc split: if_splits)
  qed
qed simp

subsection \<open>Properties\<close>

text \<open>C39: an outage is waited out for exactly six hours: a start that fails n times in a row for
  a passing reason and would then succeed comes up when n is at most 723, having slept at most
  21600 seconds, and otherwise the 724th error is let out after sleeping exactly that.\<close>

theorem outage_budget_is_exact:
  assumes "list_all is_transient es"
  shows "\<exists>slept. wait_out (map Some es @ [None]) new_waiter =
      (Some (if length es \<le> 723 then Inr () else Inl (es ! 723)), slept) \<and>
    sum_list slept = slept_after (min 723 (length es)) \<and> sum_list slept \<le> 21600 \<and>
    (723 \<le> length es \<longrightarrow> sum_list slept = 21600)"
proof -
  have "waiter_after 0 = new_waiter" by (simp add: waiter_after_def new_waiter_def slept_after_def)
  moreover have "slept_after 0 = 0" by (simp add: slept_after_def)
  ultimately show ?thesis
    using wait_out_from [OF assms, of 0] slept_after_723 by (auto simp: min_def)
qed

definition starting_up :: exn where
  "starting_up = Exn ''PostgresStoreError'' ''Could not connect'' False PNone []
     (Some (Exn ''DatabaseError'' [] False PNone [PDict [(''C'', PStr ''57P03'')]] None))"

lemma starting_up_transient: "is_transient starting_up"
  by code_simp

theorem outage_budget_is_exact_witness:
  "wait_out [Some starting_up, Some starting_up, None] new_waiter = (Some (Inr ()), [2, 4]) \<and>
   fst (wait_out (map Some (replicate 724 starting_up) @ [None]) new_waiter) = Some (Inl starting_up)"
proof
  show "wait_out [Some starting_up, Some starting_up, None] new_waiter = (Some (Inr ()), [2, 4])"
    by (simp add: wait_for_def starting_up_transient new_waiter_def BUDGET_SECONDS_def MAX_WAIT_SECONDS_def)
  have "list_all is_transient (replicate 724 starting_up)" by (simp add: list_all_iff starting_up_transient)
  from outage_budget_is_exact [OF this]
  show "fst (wait_out (map Some (replicate 724 starting_up) @ [None]) new_waiter) = Some (Inl starting_up)"
    by (auto simp del: wait_out.simps)
qed

end
