(* ===== verification/Scheduler.thy ===== *)
theory Scheduler
  imports TimeWindow RunClaim RunRequests StoreOutage Effects
begin

section \<open>The daemon's scan\<close>

text \<open>
  Models the scheduler of \<^verbatim>\<open>dbabrain/jobs/daemon.py\<close> with the run rows of
  \<^verbatim>\<open>dbabrain/db/store_job_runs.py\<close> and the node filter of \<^verbatim>\<open>dbabrain/lib/node_role.py\<close>. It composes the
  schedules (\<open>is_time_window_open\<close>, \<open>due_from_row\<close>), the run modes (\<open>may_start\<close>), the run-now queue
  (\<open>claim\<close>, \<open>mark_started\<close>, \<open>release\<close>, \<open>expire_stale\<close>, \<open>close_finished\<close>) and the outage rule.

  The world of an action is the daemon's table of running commands, the \<^verbatim>\<open>job_runs\<close> table in key
  order, the queue, and the processes the daemon has started and not seen the end of. What comes
  from outside during one scan is a record: the clocks, what starting each command gives, what the
  store raises, which processes have ended. A clock is one reading per command. Logging, the output
  files and the child's environment are not part of the state.
\<close>

subsection \<open>Commands\<close>

record app_command =
  ac_id :: string
  app_code :: string
  app_name :: string
  display_name :: string
  log_scope :: string
  working_dir :: string
  command_text :: string
  ac_window :: time_window
  active :: bool
  node_role :: string
  ac_mode :: run_mode

definition retry_interval_seconds :: "app_command \<Rightarrow> int" where
  "retry_interval_seconds c = (case retry_interval (ac_window c) of Some v \<Rightarrow> v | None \<Rightarrow> 60)"

definition timeout_seconds :: "app_command \<Rightarrow> int" where
  "timeout_seconds c = (case timeout (ac_window c) of Some v \<Rightarrow> v | None \<Rightarrow> 300)"

definition timeout_disabled :: "app_command \<Rightarrow> bool" where
  "timeout_disabled c = (timeout (ac_window c) = Some 0)"

definition EVERY_NODE :: "string list" where
  "EVERY_NODE = [''all'', ''both'', ''any'']"

definition DEFAULT_NODE_ROLE :: string where
  "DEFAULT_NODE_ROLE = ''master''"

definition runs_on :: "string \<Rightarrow> string \<Rightarrow> string \<Rightarrow> bool" where
  "runs_on command_role node dflt =
     (let given = lower (strip command_role);
          role = (if given = [] then lower (strip dflt) else given);
          here = lower (strip node) in
      role \<in> set EVERY_NODE \<or> role = (if here = [] then DEFAULT_NODE_ROLE else here))"

definition command_runs_on_node :: "app_command \<Rightarrow> string \<Rightarrow> bool" where
  "command_runs_on_node c node = runs_on (node_role c) node ''all''"

datatype load_error = NoCommandId | BadWindow string tw_error | BadLogScope string | BadRunMode string run_mode_error

definition SCHEDULE_DEFAULTS :: pydict where
  "SCHEDULE_DEFAULTS =
     [(''from_day'', PInt 1), (''to_day'', PInt 31), (''from_hour'', PInt 0), (''to_hour'', PInt 23),
      (''retry_interval'', PInt 60), (''timeout'', PInt 300)]"

definition validate_log_scope :: "string \<Rightarrow> string option" where
  "validate_log_scope scope =
     (let clean = strip scope in
      if clean = [] \<or> list_ex (\<lambda>c. c \<in> set ''/:*?<>|'' \<or> c = CHR 0x5C \<or> c = CHR 0x22) clean then None else Some clean)"

fun first_truthy :: "pyval list \<Rightarrow> pyval" where
  "first_truthy [] = PNone"
| "first_truthy [v] = v"
| "first_truthy (v # vs) = (if truthy v then v else first_truthy vs)"

definition load_app_command :: "pydict \<Rightarrow> load_error + app_command" where
  "load_app_command item =
     (if \<not> has_key item ''app_command_id'' then Inl NoCommandId
      else let cid = py_str (get item ''app_command_id'') in
      case parse_time_window_config item (''app_commands.'' @ cid) SCHEDULE_DEFAULTS of
        Inl e \<Rightarrow> Inl (BadWindow cid e)
      | Inr (window, warnings) \<Rightarrow>
         (case validate_log_scope (str_or (get item ''log_scope'')) of
            None \<Rightarrow> Inl (BadLogScope cid)
          | Some scope \<Rightarrow>
             (case parse_run_mode item of
                Inl e \<Rightarrow> Inl (BadRunMode cid e)
              | Inr rm \<Rightarrow>
                  let role = lower (strip (py_str (get_or item ''node_role'' (PStr ''all'')))) in
                  Inr \<lparr>ac_id = cid,
                       app_code = py_str (first_truthy [get item ''app_code'', get item ''app_command_id'']),
                       app_name = py_str (first_truthy [get item ''app_name'', get item ''app_code'', get item ''app_command_id'']),
                       display_name = py_str (first_truthy [get item ''display_name'', get item ''command_name'',
                         get item ''app_name'', get item ''app_command_id'']),
                       log_scope = scope,
                       working_dir = py_str (get_or item ''working_dir'' (PStr [])),
                       command_text = py_str (get_or item ''command_text'' (PStr [])),
                       ac_window = window,
                       active = truthy (get_or item ''active'' (PBool True)),
                       node_role = (if role = [] then ''all'' else role),
                       ac_mode = rm\<rparr>)))"

definition load_app_commands :: "pydict list \<Rightarrow> load_error + app_command list" where
  "load_app_commands items =
     rbind (map_res load_app_command items) (\<lambda>cs. Inr (map snd (dict_of (map (\<lambda>c. (ac_id c, c)) cs))))"

subsection \<open>The state\<close>

record running_command =
  ru_command :: app_command
  ru_pid :: int
  ru_started :: instant
  ru_log_id :: int
  ru_request :: "int option"
  ru_requested_by :: string

record run_row =
  rw_log_id :: int
  rw_job_code :: string
  rw_level :: string
  rw_status :: string
  rw_message :: string
  rw_created :: instant
  rw_started :: "instant option"
  rw_finished :: "instant option"
  rw_duration :: "int option"
  rw_host :: string
  rw_claim_key :: "string option"
  rw_metadata :: pydict

record daemon =
  running :: "(string \<times> running_command) list"
  runs :: "run_row list"
  next_log :: int
  requests :: queue
  children :: "(int \<times> string) list"

record outside =
  o_clock :: "string \<Rightarrow> instant"
  o_local :: "string \<Rightarrow> civil"
  o_spawn :: "string \<Rightarrow> exn + int"
  o_insert :: "string \<Rightarrow> exn option"
  o_record :: "string \<Rightarrow> bool"
  o_queue :: "string \<Rightarrow> bool"
  o_scan_clock :: instant
  o_poll :: "int \<Rightarrow> int option"
  o_update :: "int \<Rightarrow> exn option"
  o_sweep :: bool
  o_open :: bool
  o_host :: string
  o_pid :: int
  o_node :: string
  o_pid_started :: "int \<Rightarrow> string"
  o_stamp :: "instant \<Rightarrow> string"
  o_fromiso :: iso_parser

text \<open>The queue's foreign key reads the same table.\<close>

definition job_view :: "run_row \<Rightarrow> job_run" where
  "job_view r = \<lparr>log_id = rw_log_id r, job_status = rw_status r, job_finished_at = map_option utc_text (rw_finished r)\<rparr>"

definition set_runs :: "run_row list \<Rightarrow> daemon \<Rightarrow> daemon" where
  "set_runs rs d = d\<lparr>runs := rs, requests := (requests d)\<lparr>job_runs := map job_view rs\<rparr>\<rparr>"

definition app_command_metadata :: "app_command \<Rightarrow> pydict \<Rightarrow> pydict" where
  "app_command_metadata c extra =
     update_with [(''scope'', PStr (log_scope c)), (''app_command_id'', PStr (ac_id c)), (''app_code'', PStr (app_code c)),
       (''app_name'', PStr (app_name c)), (''display_name'', PStr (display_name c)), (''command_text'', PStr (command_text c)),
       (''retry_interval_seconds'', PInt (retry_interval_seconds c)), (''timeout_seconds'', PInt (timeout_seconds c))] extra"

definition request_metadata :: "running_command \<Rightarrow> pydict" where
  "request_metadata ru =
     (case ru_request ru of
        None \<Rightarrow> []
      | Some rid \<Rightarrow> [(''run_request_id'', PInt rid), (''requested_by'', PStr (ru_requested_by ru))])"

subsection \<open>Run rows\<close>

datatype insert_error = RunAlreadyClaimed | Raised exn

text \<open>\<^verbatim>\<open>ux_job_runs_claim\<close>\<close>

definition holds_claim :: "run_row \<Rightarrow> bool" where
  "holds_claim r = (rw_claim_key r \<noteq> None \<and> lower (rw_status r) = ''running'')"

definition claims_ok :: "run_row list \<Rightarrow> bool" where
  "claims_ok rs = distinct (map (\<lambda>r. (rw_claim_key r, rw_host r)) (filter holds_claim rs))"

definition unique_violation :: exn where
  "unique_violation = Exn ''IntegrityError'' ''UNIQUE constraint failed'' False PNone [] None"

definition stored_key :: "run_row \<Rightarrow> string option" where
  "stored_key item = (case rw_claim_key item of None \<Rightarrow> None | Some k \<Rightarrow> (if strip k = [] then None else Some (strip k)))"

definition claims_its_key :: "run_row \<Rightarrow> bool" where
  "claims_its_key item = (lower (strip (rw_status item)) = ''running'' \<and> stored_key item \<noteq> None)"

definition stored_row :: "outside \<Rightarrow> int \<Rightarrow> run_row \<Rightarrow> run_row" where
  "stored_row env lid item =
     (let pid = (case py_int (get (rw_metadata item) ''pid'') of Some p \<Rightarrow> p | None \<Rightarrow> o_pid env) in
      item\<lparr>rw_log_id := lid, rw_claim_key := stored_key item,
           rw_metadata := (if claims_its_key item
             then update_with (rw_metadata item) (claim_fields pid (rw_host item) (o_node env) (o_pid_started env pid))
             else rw_metadata item)\<rparr>)"

definition insert_job_run :: "outside \<Rightarrow> exn option \<Rightarrow> run_row \<Rightarrow> (daemon, insert_error, int) act" where
  "insert_job_run env raised item d =
     (case raised of
        Some e \<Rightarrow> (Inl (Raised e), d)
      | None \<Rightarrow>
          let rs = runs d @ [stored_row env (next_log d) item] in
          if \<not> claims_ok rs
          then (Inl (if claims_its_key item then RunAlreadyClaimed else Raised unique_violation), d)
          else (Inr (next_log d), set_runs rs (d\<lparr>next_log := next_log d + 1\<rparr>)))"

definition close_row :: "string \<Rightarrow> string \<Rightarrow> string \<Rightarrow> instant \<Rightarrow> int option \<Rightarrow> pydict \<Rightarrow> run_row \<Rightarrow> run_row" where
  "close_row level st msg finished_time duration md r =
     r\<lparr>rw_finished := Some finished_time, rw_level := level, rw_status := st, rw_message := msg,
       rw_duration := duration, rw_metadata := md\<rparr>"

definition update_job_run ::
  "exn option \<Rightarrow> int \<Rightarrow> string \<Rightarrow> string \<Rightarrow> string \<Rightarrow> instant \<Rightarrow> int option \<Rightarrow> pydict \<Rightarrow> (daemon, exn, unit) act" where
  "update_job_run raised lid level st msg finished_time duration md d =
     (case raised of
        Some e \<Rightarrow> (Inl e, d)
      | None \<Rightarrow> (Inr (), set_runs (map (\<lambda>r. if rw_log_id r = lid
          then close_row level st msg finished_time duration md r else r) (runs d)) d))"

definition row_dict :: "outside \<Rightarrow> run_row \<Rightarrow> pydict" where
  "row_dict env r =
     [(''log_id'', PInt (rw_log_id r)), (''created_at'', PStr (o_stamp env (rw_created r))),
      (''started_at'', case rw_started r of None \<Rightarrow> PNone | Some t \<Rightarrow> PStr (o_stamp env t)),
      (''finished_at'', case rw_finished r of None \<Rightarrow> PNone | Some t \<Rightarrow> PStr (o_stamp env t)),
      (''job_code'', PStr (rw_job_code r)), (''level'', PStr (rw_level r)), (''status'', PStr (rw_status r)),
      (''message'', PStr (rw_message r)), (''host_name'', PStr (rw_host r))]"

text \<open>The table is in key order, so the row with the greatest key of a job is its last one.\<close>

definition latest_job_run :: "outside \<Rightarrow> run_row list \<Rightarrow> string \<Rightarrow> pydict option" where
  "latest_job_run env rs code = map_option (row_dict env) (List.find (\<lambda>r. rw_job_code r = code) (rev rs))"

subsection \<open>The queue, failing open\<close>

definition queue_call :: "bool \<Rightarrow> (queue \<Rightarrow> request_error + queue) \<Rightarrow> daemon \<Rightarrow> daemon" where
  "queue_call up op d =
     (if up then (case op (requests d) of Inl e \<Rightarrow> d | Inr q \<Rightarrow> d\<lparr>requests := q\<rparr>) else d)"

definition open_run_requests :: "outside \<Rightarrow> daemon \<Rightarrow> string \<Rightarrow> request option" where
  "open_run_requests env d code =
     (if o_open env
      then (case open_requests (requests d) code of
              Some r \<Rightarrow> (if status r = STATUS_PENDING then Some r else None) | None \<Rightarrow> None)
      else None)"

definition claim_run_request :: "outside \<Rightarrow> string \<Rightarrow> daemon \<Rightarrow> request option \<times> daemon" where
  "claim_run_request env code d =
     (if o_queue env code
      then (case claim code DEFAULT_REQUEST_TTL_SECONDS (o_clock env code) (requests d) of
              Inl e \<Rightarrow> (None, d) | Inr (r, q) \<Rightarrow> (r, d\<lparr>requests := q\<rparr>))
      else (None, d))"

definition mark_run_request_started :: "outside \<Rightarrow> string \<Rightarrow> request \<Rightarrow> int \<Rightarrow> daemon \<Rightarrow> daemon" where
  "mark_run_request_started env code r lid =
     queue_call (o_queue env code) (mark_started (request_id r) (Some lid) (o_clock env code))"

definition finish_run_request :: "outside \<Rightarrow> string \<Rightarrow> int \<Rightarrow> string \<Rightarrow> daemon \<Rightarrow> daemon" where
  "finish_run_request env code rid st =
     queue_call (o_queue env code) (mark_done rid (''Run finished with status '' @ st @ ''.'') (o_scan_clock env))"

definition release_run_request :: "outside \<Rightarrow> string \<Rightarrow> request \<Rightarrow> string \<Rightarrow> daemon \<Rightarrow> daemon" where
  "release_run_request env code r msg = queue_call (o_queue env code) (release (request_id r) msg)"

definition sweep_run_requests :: "outside \<Rightarrow> daemon \<Rightarrow> daemon" where
  "sweep_run_requests env d =
     (if o_sweep env
      then (case expire_stale DEFAULT_REQUEST_TTL_SECONDS (o_scan_clock env) (requests d) of
              Inl e \<Rightarrow> d
            | Inr (n, q) \<Rightarrow> (case close_finished (o_scan_clock env) q of
                               Inl e \<Rightarrow> d\<lparr>requests := q\<rparr> | Inr (m, q') \<Rightarrow> d\<lparr>requests := q'\<rparr>))
      else d)"

subsection \<open>Collecting\<close>

definition millis :: "int \<Rightarrow> int" where
  "millis t = (if 0 \<le> t then t div 1000 else - ((- t) div 1000))"

definition still_running :: "outside \<Rightarrow> running_command \<Rightarrow> bool" where
  "still_running env ru =
     (o_poll env (ru_pid ru) = None \<and>
      (timeout_disabled (ru_command ru) \<or>
       millis (o_scan_clock env - ru_started ru) \<le> timeout_seconds (ru_command ru) * 1000))"

definition end_status :: "outside \<Rightarrow> running_command \<Rightarrow> string" where
  "end_status env ru =
     (case o_poll env (ru_pid ru) of None \<Rightarrow> ''timeout'' | Some code \<Rightarrow> (if code = 0 then ''done'' else ''error''))"

definition collect_one :: "outside \<Rightarrow> unit \<Rightarrow> string \<times> running_command \<Rightarrow> (daemon, exn, unit) act" where
  "collect_one env u slot d =
     (let ru = snd slot; c = ru_command ru;
          elapsed_ms = millis (o_scan_clock env - ru_started ru);
          returncode = o_poll env (ru_pid ru) in
      if still_running env ru then (Inr (), d)
      else
        let st = end_status env ru;
            level = (if st = ''done'' then ''logging'' else ''error'');
            ended = d\<lparr>children := filter (\<lambda>(p, _). p \<noteq> ru_pid ru) (children d)\<rparr>;
            md = app_command_metadata c ([(''pid'', PInt (ru_pid ru)),
                   (''returncode'', case returncode of None \<Rightarrow> PNone | Some code \<Rightarrow> PInt code)] @ request_metadata ru) in
        bnd (update_job_run (o_update env (ru_log_id ru)) (ru_log_id ru) level st
               (''App command '' @ ac_id c @ '' finished with status '' @ st @ ''.'') (o_scan_clock env) (Some elapsed_ms) md)
          (\<lambda>_ d'. (Inr (), (case ru_request ru of None \<Rightarrow> d' | Some rid \<Rightarrow> finish_run_request env (ac_id c) rid st d')
                     \<lparr>running := filter (\<lambda>(k, _). k \<noteq> fst slot) (running d')\<rparr>)) ended)"

definition collect_running_commands :: "outside \<Rightarrow> (daemon, exn, unit) act" where
  "collect_running_commands env d = loop (collect_one env) () (running d) d"

subsection \<open>Starting\<close>

definition running_slot_key :: "string \<Rightarrow> int \<Rightarrow> string" where
  "running_slot_key code pid = code @ ''#'' @ show_int pid"

definition count_in_flight :: "(string \<times> running_command) list \<Rightarrow> string \<Rightarrow> int" where
  "count_in_flight rs code = int (length (filter (\<lambda>(_, ru). ac_id (ru_command ru) = code) rs))"

definition start_row :: "outside \<Rightarrow> app_command \<Rightarrow> int \<Rightarrow> request option \<Rightarrow> run_row" where
  "start_row env c pid req =
     (let now = o_clock env (ac_id c) in
      \<lparr>rw_log_id = 0, rw_job_code = ac_id c, rw_level = ''logging'', rw_status = ''running'',
       rw_message = ''App command '' @ ac_id c @ '' started'' @ (case req of None \<Rightarrow> ''.''
         | Some r \<Rightarrow> '' on request from '' @ (if requested_by r = [] then ''the console'' else requested_by r) @ ''.''),
       rw_created = now, rw_started = Some now, rw_finished = None, rw_duration = None, rw_host = o_host env,
       rw_claim_key = (if rm_mode (ac_mode c) = ASYNC then None else Some (ac_id c)),
       rw_metadata = app_command_metadata c ([(''pid'', PInt pid)] @ (case req of None \<Rightarrow> []
         | Some r \<Rightarrow> [(''run_request_id'', PInt (request_id r)), (''requested_by'', PStr (requested_by r))]))\<rparr>)"

definition start_app_command :: "outside \<Rightarrow> app_command \<Rightarrow> request option \<Rightarrow> (daemon, exn, unit) act" where
  "start_app_command env c req d =
     (case o_spawn env (ac_id c) of
        Inl e \<Rightarrow> (Inl e, d)
      | Inr pid \<Rightarrow>
         (case insert_job_run env (o_insert env (ac_id c)) (start_row env c pid req)
                 (d\<lparr>children := (pid, ac_id c) # children d\<rparr>) of
            (Inl RunAlreadyClaimed, d') \<Rightarrow> (Inr (), d'\<lparr>children := filter (\<lambda>(p, _). p \<noteq> pid) (children d')\<rparr>)
          | (Inl (Raised e), d') \<Rightarrow> (Inl e, d')
          | (Inr lid, d') \<Rightarrow>
              let d'' = d'\<lparr>running := upd (running_slot_key (ac_id c) pid)
                     \<lparr>ru_command = c, ru_pid = pid, ru_started = o_clock env (ac_id c), ru_log_id = lid,
                      ru_request = map_option request_id req,
                      ru_requested_by = (case req of None \<Rightarrow> [] | Some r \<Rightarrow> requested_by r)\<rparr> (running d')\<rparr> in
              (Inr (), case req of None \<Rightarrow> d'' | Some r \<Rightarrow> mark_run_request_started env (ac_id c) r lid d'')))"

definition app_command_due :: "outside \<Rightarrow> app_command \<Rightarrow> pydict option \<Rightarrow> due_verdict" where
  "app_command_due env c latest =
     due_from_row (o_fromiso env) (Some (ac_window c)) latest (o_clock env (ac_id c)) None (Some 60) (Some 300) None
       (rm_mode (ac_mode c) \<noteq> ASYNC)"

definition app_command_is_due :: "outside \<Rightarrow> app_command \<Rightarrow> pydict option \<Rightarrow> bool" where
  "app_command_is_due env c latest = due (app_command_due env c latest)"

definition app_command_in_schedule_window :: "outside \<Rightarrow> app_command \<Rightarrow> bool" where
  "app_command_in_schedule_window env c = is_time_window_open (Some (ac_window c)) (o_local env (ac_id c))"

definition is_store_trouble :: "exn \<Rightarrow> bool" where
  "is_store_trouble e =
     (if ex_sqlite e \<and> contains (lower (ex_text e)) ''database is locked'' then True else is_transient e)"

definition record_start_failure :: "outside \<Rightarrow> app_command \<Rightarrow> exn \<Rightarrow> daemon \<Rightarrow> daemon" where
  "record_start_failure env c e d =
     (let now = o_clock env (ac_id c) in
      if o_record env (ac_id c)
      then snd (insert_job_run env None
             \<lparr>rw_log_id = 0, rw_job_code = ac_id c, rw_level = ''error'', rw_status = ''error'',
              rw_message = ''App command '' @ ac_id c @ '' could not be started.'',
              rw_created = now, rw_started = Some now, rw_finished = Some now, rw_duration = Some 0, rw_host = o_host env,
              rw_claim_key = None, rw_metadata = app_command_metadata c [(''start_failed'', PBool True)]\<rparr> d)
      else d)"

subsection \<open>The scan\<close>

definition start_or_record :: "outside \<Rightarrow> app_command \<Rightarrow> request option \<Rightarrow> (daemon, exn, unit) act" where
  "start_or_record env c req d =
     (case start_app_command env c req d of
        (Inr u, d') \<Rightarrow> (Inr u, d')
      | (Inl e, d') \<Rightarrow>
          let d'' = (case req of None \<Rightarrow> d'
                     | Some r \<Rightarrow> release_run_request env (ac_id c) r ''Start failed; returned to the queue.'' d') in
          if is_store_trouble e then (Inl e, d'') else (Inr (), record_start_failure env c e d''))"

definition scan_command ::
  "outside \<Rightarrow> bool \<Rightarrow> (string \<Rightarrow> pydict option) \<Rightarrow> (string \<Rightarrow> request option) \<Rightarrow> unit \<Rightarrow> app_command
   \<Rightarrow> (daemon, exn, unit) act" where
  "scan_command env single_pass latest reqs u c d =
     (if single_pass \<and> timeout_disabled c then (Inr (), d)
      else if \<not> may_start (ac_mode c) (count_in_flight (running d) (ac_id c)) then (Inr (), d)
      else case reqs (ac_id c) of
        None \<Rightarrow>
          if \<not> app_command_in_schedule_window env c then (Inr (), d)
          else if \<not> app_command_is_due env c (latest (ac_id c)) then (Inr (), d)
          else start_or_record env c None d
      | Some _ \<Rightarrow>
          (case claim_run_request env (ac_id c) d of
             (None, d') \<Rightarrow> (Inr (), d')
           | (Some r, d') \<Rightarrow> start_or_record env c (Some r) d'))"

definition active_commands :: "string \<Rightarrow> app_command list \<Rightarrow> app_command list" where
  "active_commands node cs = filter (\<lambda>c. active c \<and> command_runs_on_node c node) cs"

definition run_scheduler_scan :: "outside \<Rightarrow> bool \<Rightarrow> string \<Rightarrow> app_command list \<Rightarrow> (daemon, exn, unit) act" where
  "run_scheduler_scan env single_pass node cs =
     bnd (collect_running_commands env) (\<lambda>_ d.
       let latest = latest_job_run env (runs d);
           swept = sweep_run_requests env d in
       loop (scan_command env single_pass latest (open_run_requests env swept)) () (active_commands node cs) swept)"

subsection \<open>What a step touches\<close>

lemma set_runs_simps [simp]:
  "running (set_runs rs d) = running d" "children (set_runs rs d) = children d" "runs (set_runs rs d) = rs"
  "next_log (set_runs rs d) = next_log d" "rows (requests (set_runs rs d)) = rows (requests d)"
  "next_id (requests (set_runs rs d)) = next_id (requests d)" "job_runs (requests (set_runs rs d)) = map job_view rs"
  by (simp_all add: set_runs_def)

lemma queue_call_simps [simp]:
  "running (queue_call up op d) = running d" "children (queue_call up op d) = children d"
  "runs (queue_call up op d) = runs d" "next_log (queue_call up op d) = next_log d"
  by (auto simp: queue_call_def split: sum.splits)

lemma queue_helpers_simps [simp]:
  "running (mark_run_request_started env code r lid d) = running d"
  "runs (mark_run_request_started env code r lid d) = runs d"
  "running (finish_run_request env code rid st d) = running d"
  "running (release_run_request env code r msg d) = running d"
  "children (release_run_request env code r msg d) = children d"
  "runs (release_run_request env code r msg d) = runs d"
  "running (sweep_run_requests env d) = running d"
  "runs (sweep_run_requests env d) = runs d"
  "next_log (sweep_run_requests env d) = next_log d"
  by (auto simp: mark_run_request_started_def finish_run_request_def release_run_request_def sweep_run_requests_def
      split: sum.splits)

lemma claim_run_request_simps [simp]:
  "running (snd (claim_run_request env code d)) = running d" "runs (snd (claim_run_request env code d)) = runs d"
  by (auto simp: claim_run_request_def split: sum.splits)

lemma insert_job_run_snd:
  "running (snd (insert_job_run env raised item d)) = running d"
  "children (snd (insert_job_run env raised item d)) = children d"
  "rows (requests (snd (insert_job_run env raised item d))) = rows (requests d)"
  by (auto simp: insert_job_run_def Let_def split: option.splits)

lemma record_start_failure_simps [simp]:
  "running (record_start_failure env c e d) = running d"
  "children (record_start_failure env c e d) = children d"
  "rows (requests (record_start_failure env c e d)) = rows (requests d)"
  by (auto simp: record_start_failure_def Let_def insert_job_run_snd)

lemma count_upd:
  "count_in_flight (upd k ru rs) code \<le> count_in_flight rs code + (if ac_id (ru_command ru) = code then 1 else 0)"
  by (induction k ru rs rule: upd.induct) (auto simp: count_in_flight_def)

lemma count_filter: "count_in_flight (filter P rs) code \<le> count_in_flight rs code"
  by (induction rs) (auto simp: count_in_flight_def)

definition started_by :: "outside \<Rightarrow> app_command \<Rightarrow> request option \<Rightarrow> daemon \<Rightarrow> daemon \<Rightarrow> bool" where
  "started_by env c req d d' =
     (\<exists>pid lid. running d' = upd (running_slot_key (ac_id c) pid)
        \<lparr>ru_command = c, ru_pid = pid, ru_started = o_clock env (ac_id c), ru_log_id = lid,
         ru_request = map_option request_id req,
         ru_requested_by = (case req of None \<Rightarrow> [] | Some r \<Rightarrow> requested_by r)\<rparr> (running d))"

lemma start_app_command_running:
  "running (snd (start_app_command env c req d)) = running d \<or> started_by env c req d (snd (start_app_command env c req d))"
proof (cases "o_spawn env (ac_id c)")
  case (Inr pid)
  obtain r d' where ins: "insert_job_run env (o_insert env (ac_id c)) (start_row env c pid req)
      (d\<lparr>children := (pid, ac_id c) # children d\<rparr>) = (r, d')"
    by fastforce
  then have same: "running d' = running d"
    using insert_job_run_snd(1) [of env "o_insert env (ac_id c)" "start_row env c pid req"
        "d\<lparr>children := (pid, ac_id c) # children d\<rparr>"] by simp
  show ?thesis
  proof (cases r)
    case (Inl e)
    with Inr ins same show ?thesis by (cases e) (simp_all add: start_app_command_def)
  next
    case lid: (Inr lid)
    with Inr ins same show ?thesis
      by (cases req) (auto simp: start_app_command_def started_by_def Let_def)
  qed
qed (simp add: start_app_command_def)

lemma start_or_record_running:
  "running (snd (start_or_record env c req d)) = running d \<or> started_by env c req d (snd (start_or_record env c req d))"
proof -
  have "running (snd (start_or_record env c req d)) = running (snd (start_app_command env c req d))"
    by (auto simp: start_or_record_def Let_def split: prod.splits sum.splits option.splits)
  with start_app_command_running [of env c req d] show ?thesis by (simp add: started_by_def)
qed

text \<open>The one way a pass of the scan starts a command.\<close>

definition justified ::
  "outside \<Rightarrow> bool \<Rightarrow> (string \<Rightarrow> pydict option) \<Rightarrow> (string \<Rightarrow> request option) \<Rightarrow> app_command \<Rightarrow> daemon
   \<Rightarrow> request option \<Rightarrow> bool" where
  "justified env single_pass latest reqs c d req =
     (\<not> (single_pass \<and> timeout_disabled c) \<and> may_start (ac_mode c) (count_in_flight (running d) (ac_id c)) \<and>
      (case req of
         None \<Rightarrow> reqs (ac_id c) = None \<and> app_command_in_schedule_window env c \<and> app_command_is_due env c (latest (ac_id c))
       | Some r \<Rightarrow> reqs (ac_id c) \<noteq> None \<and> fst (claim_run_request env (ac_id c) d) = Some r))"

lemma scan_command_running:
  "running (snd (scan_command env single_pass latest reqs u c d)) = running d \<or>
   (\<exists>req. started_by env c req d (snd (scan_command env single_pass latest reqs u c d)) \<and>
          justified env single_pass latest reqs c d req)"
proof (cases "reqs (ac_id c)")
  case None
  with start_or_record_running [of env c None d] show ?thesis
    unfolding scan_command_def justified_def by (auto intro!: exI [of _ None])
next
  case (Some r0)
  obtain x d' where claim: "claim_run_request env (ac_id c) d = (x, d')" by (cases "claim_run_request env (ac_id c) d")
  with claim_run_request_simps(1) [of env "ac_id c" d] have same: "running d' = running d" by simp
  show ?thesis
  proof (cases x)
    case None
    with claim same Some show ?thesis by (simp add: scan_command_def)
  next
    case (Some r)
    have "started_by env c (Some r) d' = started_by env c (Some r) d" by (simp add: started_by_def same fun_eq_iff)
    with start_or_record_running [of env c "Some r" d'] same claim Some \<open>reqs (ac_id c) = Some r0\<close> show ?thesis
      unfolding scan_command_def justified_def by (auto intro!: exI [of _ "Some r"])
  qed
qed

lemma collect_one_running:
  "running (snd (collect_one env u slot d)) = running d \<or>
   running (snd (collect_one env u slot d)) = filter (\<lambda>(k, _). k \<noteq> fst slot) (running d)"
  by (auto simp: collect_one_def Let_def bnd_def update_job_run_def set_runs_def split: option.splits)

lemma collect_keeps_subset: "set (running (snd (collect_running_commands env d))) \<subseteq> set (running d)"
  unfolding collect_running_commands_def
proof (rule loop_keeps)
  fix u slot and w :: daemon
  assume "set (running w) \<subseteq> set (running d)"
  with collect_one_running [of env u slot w] show "set (running (snd (collect_one env u slot w))) \<subseteq> set (running d)"
    by (metis (no_types, lifting) filter_is_subset subset_trans)
qed simp

text \<open>A property of the running table that every pass of a scan keeps, a scan keeps.\<close>

lemma scan_keeps:
  assumes collect: "\<And>slot w. P w \<Longrightarrow> slot \<in> set (running d) \<Longrightarrow> P (snd (collect_one env () slot w))"
    and sweep: "\<And>w. P w \<Longrightarrow> P (sweep_run_requests env w)"
    and command: "\<And>c w reqs. P w \<Longrightarrow> c \<in> set cs \<Longrightarrow> active c \<Longrightarrow> command_runs_on_node c node \<Longrightarrow>
      P (snd (scan_command env single_pass (latest_job_run env (runs (snd (collect_running_commands env d)))) reqs () c w))"
    and start: "P d"
  shows "P (snd (run_scheduler_scan env single_pass node cs d))"
proof -
  obtain r d1 where c: "collect_running_commands env d = (r, d1)" by (cases "collect_running_commands env d")
  have "P (snd (collect_running_commands env d))"
    unfolding collect_running_commands_def by (rule loop_keeps) (auto intro: collect start)
  with c have d1: "P d1" by simp
  have "P (snd (loop (scan_command env single_pass (latest_job_run env (runs d1)) reqs) () (active_commands node cs)
      (sweep_run_requests env d1)))" for reqs
  proof (rule loop_keeps)
    fix u x w
    assume "x \<in> set (active_commands node cs)" "P w"
    with command [of w x reqs] c
    show "P (snd (scan_command env single_pass (latest_job_run env (runs d1)) reqs u x w))"
      by (simp add: active_commands_def)
  qed (rule sweep [OF d1])
  with c d1 show ?thesis
    by (cases r) (auto simp: run_scheduler_scan_def bnd_def Let_def)
qed

subsection \<open>How many are in flight\<close>

definition flight_cap :: "run_mode \<Rightarrow> int" where
  "flight_cap m = (if rm_mode m = ASYNC then max_parallel m else 1)"

definition flights_ok :: "app_command list \<Rightarrow> daemon \<Rightarrow> bool" where
  "flights_ok cs d = (\<forall>c\<in>set cs. count_in_flight (running d) (ac_id c) \<le> max 0 (flight_cap (ac_mode c)))"

lemma flights_ok_simps [simp]:
  "flights_ok cs (d\<lparr>requests := q\<rparr>) = flights_ok cs d" "flights_ok cs (set_runs rs d) = flights_ok cs d"
  "flights_ok cs (d\<lparr>next_log := n\<rparr>) = flights_ok cs d"
  by (simp_all add: flights_ok_def)

lemma flights_ok_fewer:
  "flights_ok cs d \<Longrightarrow> (\<And>code. count_in_flight (running d') code \<le> count_in_flight (running d) code) \<Longrightarrow> flights_ok cs d'"
  unfolding flights_ok_def by (meson order_trans)

lemma flights_ok_started:
  assumes "flights_ok cs d" "distinct (map ac_id cs)" "c \<in> set cs" "started_by env c req d d'"
    "may_start (ac_mode c) (count_in_flight (running d) (ac_id c))"
  shows "flights_ok cs d'"
  unfolding flights_ok_def
proof
  fix x
  assume x: "x \<in> set cs"
  from assms(4) obtain k ru where "running d' = upd k ru (running d)" "ru_command ru = c"
    by (force simp: started_by_def)
  moreover have "ac_id c = ac_id x \<longleftrightarrow> c = x" using assms(2,3) x by (auto simp: distinct_map inj_on_def)
  ultimately
  have n: "count_in_flight (running d') (ac_id x) \<le> count_in_flight (running d) (ac_id x) + (if c = x then 1 else 0)"
    using count_upd [of k ru "running d" "ac_id x"] by simp
  show "count_in_flight (running d') (ac_id x) \<le> max 0 (flight_cap (ac_mode x))"
    using n assms(1,5) x by (auto simp: flights_ok_def flight_cap_def may_start_def max_def split: if_splits)
qed

lemma scan_flights_ok:
  assumes "distinct (map ac_id cs)" "flights_ok cs d"
  shows "flights_ok cs (snd (run_scheduler_scan env single_pass node cs d))"
proof (rule scan_keeps)
  fix slot w
  assume "flights_ok cs w"
  then show "flights_ok cs (snd (collect_one env () slot w))"
    using collect_one_running [of env "()" slot w] by (auto intro: flights_ok_fewer simp: count_filter)
next
  fix c w reqs
  let ?l = "latest_job_run env (runs (snd (collect_running_commands env d)))"
  assume "flights_ok cs w" "c \<in> set cs"
  with scan_command_running [of env single_pass ?l reqs "()" c w] assms(1)
  show "flights_ok cs (snd (scan_command env single_pass ?l reqs () c w))"
    by (auto simp: justified_def intro: flights_ok_fewer flights_ok_started)
qed (use assms(2) in \<open>auto simp: flights_ok_def\<close>)


subsection \<open>What the store keeps\<close>

definition daemon_ok :: "daemon \<Rightarrow> bool" where
  "daemon_ok d =
     (queue_ok (requests d) \<and> job_runs (requests d) = map job_view (runs d) \<and> claims_ok (runs d) \<and>
      (\<forall>r\<in>set (runs d). rw_log_id r < next_log d))"

lemma daemon_ok_simps [simp]:
  "daemon_ok (d\<lparr>running := x\<rparr>) = daemon_ok d" "daemon_ok (d\<lparr>children := y\<rparr>) = daemon_ok d"
  by (simp_all add: daemon_ok_def)

text \<open>The constraints of the store, with a set of requests that have not been forgotten.\<close>

definition knows :: "request set \<Rightarrow> daemon \<Rightarrow> bool" where
  "knows R d = (daemon_ok d \<and> (\<forall>r\<in>R. \<exists>r'\<in>set (rows (requests d)). same_request r r'))"

lemma knows_simps [simp]:
  "knows R (d\<lparr>running := x\<rparr>) = knows R d" "knows R (d\<lparr>children := y\<rparr>) = knows R d"
  by (simp_all add: knows_def daemon_ok_def)

lemma queue_ok_more_runs:
  "queue_ok q \<Longrightarrow> log_id ` set (job_runs q) \<subseteq> log_id ` set js \<Longrightarrow> queue_ok (q\<lparr>job_runs := js\<rparr>)"
  by (auto simp: queue_ok_def list_all_iff fk_ok_def split: option.splits)

lemma set_runs_ok:
  assumes "knows R d" "claims_ok rs" "rw_log_id ` set (runs d) \<subseteq> rw_log_id ` set rs" "\<forall>r\<in>set rs. rw_log_id r < n"
  shows "knows R (set_runs rs (d\<lparr>next_log := n\<rparr>))"
proof -
  have "log_id ` set (map job_view xs) = rw_log_id ` set xs" for xs by (auto simp: job_view_def image_image)
  with assms queue_ok_more_runs [of "requests d" "map job_view rs"] show ?thesis
    by (simp add: knows_def daemon_ok_def set_runs_def)
qed

lemma stored_row_simps [simp]:
  "rw_log_id (stored_row env lid item) = lid" "rw_claim_key (stored_row env lid item) = stored_key item"
  "rw_status (stored_row env lid item) = rw_status item" "rw_host (stored_row env lid item) = rw_host item"
  "rw_job_code (stored_row env lid item) = rw_job_code item"
  by (simp_all add: stored_row_def Let_def)

lemma insert_job_run_ok:
  assumes "knows R d"
  shows "knows R (snd (insert_job_run env raised item d))"
proof -
  have "\<forall>r\<in>set (runs d @ [stored_row env (next_log d) item]). rw_log_id r < next_log d + 1"
    using assms by (auto simp: knows_def daemon_ok_def)
  then show ?thesis
    using assms by (auto simp: insert_job_run_def Let_def split: option.splits intro!: set_runs_ok)
qed

lemma update_job_run_ok:
  assumes "knows R d" "lower st \<noteq> ''running''"
  shows "knows R (snd (update_job_run raised lid level st msg finished_time duration md d))"
proof -
  define f where "f = close_row level st msg finished_time duration md"
  note f_def = f_def close_row_def
  let ?rs = "map (\<lambda>r. if rw_log_id r = lid then f r else r) (runs d)"
  have "filter holds_claim (map (\<lambda>r. if rw_log_id r = lid then f r else r) rs) =
      filter (\<lambda>r. rw_log_id r \<noteq> lid) (filter holds_claim rs)" for rs
    using assms(2) by (induction rs) (auto simp: f_def holds_claim_def)
  moreover have "claims_ok (runs d)" using assms(1) by (simp add: knows_def daemon_ok_def)
  ultimately have "claims_ok ?rs"
    unfolding claims_ok_def by (simp add: distinct_map_filter del: filter_filter)
  moreover have "rw_log_id ` set ?rs = rw_log_id ` set (runs d)"
  proof -
    have "map rw_log_id ?rs = map rw_log_id (runs d)" by (simp add: f_def)
    then show ?thesis by (metis list.set_map)
  qed
  ultimately have "knows R (set_runs ?rs (d\<lparr>next_log := next_log d\<rparr>))"
    using assms(1) by (intro set_runs_ok) (auto simp: knows_def daemon_ok_def f_def)
  with assms(1) show ?thesis by (simp add: update_job_run_def f_def(1) split: option.splits cong: if_cong)
qed

lemma knows_evolves:
  assumes "knows R d" "evolves (requests d) q" "job_runs q = job_runs (requests d)"
  shows "knows R (d\<lparr>requests := q\<rparr>)"
proof -
  have "queue_ok q" "remembers (requests d) q" using assms by (auto simp: knows_def daemon_ok_def evolves_def)
  moreover have "\<exists>r''\<in>set (rows q). same_request r r''" if "r' \<in> set (rows (requests d))" "same_request r r'" for r r'
    using that \<open>remembers (requests d) q\<close> unfolding remembers_def same_request_def by metis
  ultimately show ?thesis using assms(1,3) by (fastforce simp: knows_def daemon_ok_def)
qed

lemma queue_call_ok:
  assumes "knows R d" "\<And>q q'. op q = Inr q' \<Longrightarrow> queue_step q q' \<and> job_runs q' = job_runs q"
  shows "knows R (queue_call up op d)"
proof (cases "op (requests d)")
  case (Inr q)
  with assms knows_evolves [OF assms(1), of q] queue_step_evolves show ?thesis by (auto simp: queue_call_def)
qed (simp add: queue_call_def assms(1))


lemma sql_update_job_runs: "sql_update P f q = Inr q' \<Longrightarrow> job_runs q' = job_runs q"
  by (auto simp: sql_update_Inr)

lemma fold_res_job_runs:
  "fold_res f xs q = Inr q' \<Longrightarrow> (\<And>x q q'. f x q = Inr q' \<Longrightarrow> job_runs q' = job_runs q) \<Longrightarrow> job_runs q' = job_runs q"
proof (induction xs arbitrary: q)
  case (Cons x xs)
  then obtain p where p: "f x q = Inr p" "fold_res f xs p = Inr q'" by (auto simp: rbind_eq_Inr)
  have "job_runs q' = job_runs p" by (rule Cons.IH [OF p(2) Cons.prems(2)])
  with Cons.prems(2) [OF p(1)] show ?case by simp
qed simp

lemma claim_job_runs: "claim code ttl now q = Inr (r, q') \<Longrightarrow> job_runs q' = job_runs q"
  by (auto simp: claim_def claim_take_def finish_def rbind_eq_Inr dest!: sql_update_job_runs split: option.splits if_splits)

lemma sweep_job_runs:
  "expire_stale ttl now q = Inr (n, q') \<Longrightarrow> job_runs q' = job_runs q"
  "close_finished now q = Inr (n, q') \<Longrightarrow> job_runs q' = job_runs q"
  by (auto simp: expire_stale_def close_finished_def finish_def Let_def rbind_eq_Inr
      elim!: fold_res_job_runs dest!: sql_update_job_runs)

lemma queue_helpers_ok:
  assumes "knows R d"
  shows "knows R (mark_run_request_started env code r lid d)" "knows R (finish_run_request env code rid st d)"
    "knows R (release_run_request env code r msg d)"
proof -
  show "knows R (mark_run_request_started env code r lid d)"
    unfolding mark_run_request_started_def
    by (rule queue_call_ok [OF assms]) (auto intro: queue_step.started simp: mark_started_def sql_update_job_runs)
  show "knows R (finish_run_request env code rid st d)"
    unfolding finish_run_request_def mark_done_def
    by (rule queue_call_ok [OF assms])
      (auto intro!: queue_step.finished [of STATUS_DONE] simp: finish_def sql_update_job_runs STATUSES_def status_defs)
  show "knows R (release_run_request env code r msg d)"
    unfolding release_run_request_def
    by (rule queue_call_ok [OF assms]) (auto intro: queue_step.released simp: release_def sql_update_job_runs)
qed

lemma claim_run_request_ok: "knows R d \<Longrightarrow> knows R (snd (claim_run_request env code d))"
  by (auto simp: claim_run_request_def claim_job_runs split: sum.splits
      intro!: knows_evolves queue_step_evolves queue_step.claimed)

lemma sweep_run_requests_ok: "knows R d \<Longrightarrow> knows R (sweep_run_requests env d)"
  by (auto simp: sweep_run_requests_def sweep_job_runs split: sum.splits intro!: knows_evolves
      intro: queue_step_evolves queue_step.expired queue_step.closed evolves_trans)

lemma collect_one_ok:
  assumes "knows R d"
  shows "knows R (snd (collect_one env u slot d))"
proof -
  let ?st = "end_status env (snd slot)"
  have "lower ?st \<noteq> ''running''" by (auto simp: end_status_def lower_def lower_char_def split: option.splits)
  then have upd: "update_job_run raised lid level ?st msg t dur md (d\<lparr>children := y\<rparr>) = (r, d') \<Longrightarrow> knows R d'"
    for raised lid level msg t dur md y r d'
    using update_job_run_ok [of R "d\<lparr>children := y\<rparr>" ?st raised lid level msg t dur md] assms by simp
  show ?thesis
    unfolding collect_one_def Let_def bnd_def using assms
    by (simp split: prod.splits sum.splits) (intro allI impI conjI; simp add: upd queue_helpers_ok(2) split: option.splits)
qed


lemma start_app_command_ok:
  assumes "knows R d"
  shows "knows R (snd (start_app_command env c req d))"
proof (cases "o_spawn env (ac_id c)")
  case (Inr pid)
  let ?d = "d\<lparr>children := (pid, ac_id c) # children d\<rparr>"
  obtain r d' where ins: "insert_job_run env (o_insert env (ac_id c)) (start_row env c pid req) ?d = (r, d')"
    by fastforce
  then have "knows R d'"
    using insert_job_run_ok [of R ?d env "o_insert env (ac_id c)" "start_row env c pid req"] assms by simp
  then show ?thesis
    using Inr ins queue_helpers_ok(1)
    by (auto simp: start_app_command_def Let_def split: sum.splits insert_error.splits option.splits)
qed (simp add: start_app_command_def assms)

lemma start_or_record_ok: "knows R d \<Longrightarrow> knows R (snd (start_or_record env c req d))"
proof -
  assume ok: "knows R d"
  obtain r d' where s: "start_app_command env c req d = (r, d')" by fastforce
  with start_app_command_ok [OF ok, of env c req] have "knows R d'" by simp
  then show ?thesis
    using s queue_helpers_ok(3) insert_job_run_ok
    by (auto simp: start_or_record_def Let_def record_start_failure_def split: sum.splits option.splits)
qed

lemma scan_command_ok: "knows R d \<Longrightarrow> knows R (snd (scan_command env single_pass latest reqs u c d))"
  using start_or_record_ok claim_run_request_ok [of R d env "ac_id c"]
  by (auto simp: scan_command_def split: option.splits prod.splits)

lemma scan_knows: "knows R d \<Longrightarrow> knows R (snd (run_scheduler_scan env single_pass node cs d))"
  by (rule scan_keeps) (auto intro: collect_one_ok sweep_run_requests_ok scan_command_ok)

lemma knows_nothing [simp]: "knows {} d = daemon_ok d"
  by (simp add: knows_def)

lemmas daemon_ok_keeps = collect_one_ok [of "{}", simplified] sweep_run_requests_ok [of "{}", simplified]
  scan_command_ok [of "{}", simplified]

subsection \<open>The daemon among its neighbours\<close>

text \<open>
  Scans of this daemon on one list of commands, with the console asking and cancelling and with
  whatever other processes do to the run rows in between: they write rows and change them, within
  the index, and never remove one.
\<close>

inductive daemon_step :: "app_command list \<Rightarrow> daemon \<Rightarrow> daemon \<Rightarrow> bool" for cs where
  scanned: "daemon_step cs d (snd (run_scheduler_scan env single_pass node cs d))"
| asked: "request_run app who source msg now answered (requests d) = Inr (a, q) \<Longrightarrow> daemon_step cs d (d\<lparr>requests := q\<rparr>)"
| cancelled: "cancel_request rid who now (requests d) = Inr (b, q) \<Longrightarrow> daemon_step cs d (d\<lparr>requests := q\<rparr>)"
| rows_written: "claims_ok rs \<Longrightarrow> rw_log_id ` set (runs d) \<subseteq> rw_log_id ` set rs \<Longrightarrow> \<forall>r\<in>set rs. rw_log_id r < n \<Longrightarrow>
    daemon_step cs d (set_runs rs (d\<lparr>next_log := n\<rparr>))"

inductive_cases daemon_stepE: "daemon_step cs d d'"

lemma request_run_evolves:
  "request_run app who source msg now answered q = Inr (a, q') \<Longrightarrow> evolves q q' \<and> job_runs q' = job_runs q"
  by (auto simp: request_run_def Let_def rbind_eq_Inr split: if_splits option.splits dest: insert_request_evolves)
    (auto simp: insert_request_def Let_def split: if_splits)

lemma cancel_request_kept:
  assumes "cancel_request rid who now q = Inr (b, q')"
  shows "evolves q q' \<and> job_runs q' = job_runs q"
  using queue_step_evolves [OF queue_step.cancelled [OF assms]] assms sql_update_job_runs
  by (auto simp: cancel_request_def rbind_eq_Inr split: option.splits if_splits)

lemma daemon_step_ok: "daemon_ok d \<Longrightarrow> daemon_step cs d d' \<Longrightarrow> daemon_ok d'"
proof (erule daemon_stepE)
  show "daemon_ok d \<Longrightarrow> d' = snd (run_scheduler_scan env single_pass node cs d) \<Longrightarrow> daemon_ok d'" for env single_pass node
    using scan_knows [of "{}"] by (simp add: knows_def)
next
  show "daemon_ok d \<Longrightarrow> d' = d\<lparr>requests := q\<rparr> \<Longrightarrow> request_run app who source msg now answered (requests d) = Inr (a, q) \<Longrightarrow> daemon_ok d'"
    for app who source msg now answered a q
    using request_run_evolves by (fastforce simp: daemon_ok_def evolves_def)
next
  show "daemon_ok d \<Longrightarrow> d' = d\<lparr>requests := q\<rparr> \<Longrightarrow> cancel_request rid who now (requests d) = Inr (b, q) \<Longrightarrow> daemon_ok d'"
    for rid who now b q
    using cancel_request_kept by (fastforce simp: daemon_ok_def evolves_def)
qed (use set_runs_ok [of "{}"] in \<open>auto simp: knows_def\<close>)

interpretation scheduler: kept "daemon_step cs" daemon_ok for cs
  by unfold_locales (rule daemon_step_ok)

interpretation flights: kept "daemon_step cs" "\<lambda>d. distinct (map ac_id cs) \<longrightarrow> flights_ok cs d" for cs
  by unfold_locales (auto elim!: daemon_stepE intro: scan_flights_ok)


subsection \<open>Rows a write leaves alone\<close>

lemma sql_update_keeps_row: "sql_update P f q = Inr q' \<Longrightarrow> r \<in> set (rows q) \<Longrightarrow> \<not> P r \<Longrightarrow> r \<in> set (rows q')"
  by (force simp: sql_update_Inr)

lemma fold_res_keeps_row:
  assumes "fold_res f xs q = Inr q'" "r \<in> set (rows q)"
    and "\<And>x p p'. x \<in> set xs \<Longrightarrow> f x p = Inr p' \<Longrightarrow> r \<in> set (rows p) \<Longrightarrow> r \<in> set (rows p')"
  shows "r \<in> set (rows q')"
  using assms
proof (induction xs arbitrary: q)
  case (Cons x xs)
  then obtain p where p: "f x q = Inr p" "fold_res f xs p = Inr q'" by (auto simp: rbind_eq_Inr)
  with Cons.prems(2,3) have "r \<in> set (rows p)" by auto
  then show ?case by (rule Cons.IH [OF p(2)]) (use Cons.prems(3) in auto)
qed simp

lemma finish_keeps_row:
  "finish rid st msg now q = Inr q' \<Longrightarrow> r \<in> set (rows q) \<Longrightarrow> request_id r \<noteq> rid \<Longrightarrow> r \<in> set (rows q')"
  unfolding finish_def by (rule sql_update_keeps_row)

lemma other_id:
  "queue_ok q \<Longrightarrow> r \<in> set (rows q) \<Longrightarrow> x \<in> set (rows q) \<Longrightarrow> pending x \<Longrightarrow> \<not> pending r \<Longrightarrow> request_id r \<noteq> request_id x"
  by (auto simp: queue_ok_def distinct_map inj_on_def)

lemma expire_stale_keeps_row:
  assumes "expire_stale ttl now q = Inr (n, q')" "queue_ok q" "r \<in> set (rows q)" "\<not> pending r"
  shows "r \<in> set (rows q')"
proof -
  from assms(1) have "fold_res (\<lambda>r. finish (request_id r) STATUS_EXPIRED (''Not picked up within '' @ show_int ttl @ ''s.'') now)
      (filter (\<lambda>r. pending r \<and> requested_at r < stale_cutoff ttl now) (rows q)) q = Inr q'"
    by (auto simp: expire_stale_def Let_def rbind_eq_Inr)
  then show ?thesis
  proof (rule fold_res_keeps_row [OF _ assms(3)])
    fix x p p'
    assume "x \<in> set (filter (\<lambda>r. pending r \<and> requested_at r < stale_cutoff ttl now) (rows q))"
    then have "request_id r \<noteq> request_id x" using other_id [OF assms(2,3)] assms(4) by simp
    then show "finish (request_id x) STATUS_EXPIRED (''Not picked up within '' @ show_int ttl @ ''s.'') now p = Inr p' \<Longrightarrow>
      r \<in> set (rows p) \<Longrightarrow> r \<in> set (rows p')" by (rule finish_keeps_row [rotated 2])
  qed
qed

lemma close_finished_keeps_row:
  assumes "close_finished now q = Inr (n, q')" "r \<in> set (rows q)" "status r \<noteq> STATUS_STARTED"
  shows "r \<in> set (rows q')"
  using assms unfolding close_finished_def
  by (auto simp: rbind_eq_Inr elim!: fold_res_keeps_row split: prod.splits elim: sql_update_keeps_row)

lemma claim_gives:
  assumes "queue_ok q" "claim code ttl now q = Inr (Some r, q')"
  shows "r \<in> set (rows q') \<and> app_command_id r = code \<and> status r = STATUS_CLAIMED \<and>
    (\<exists>x\<in>set (rows q). pending x \<and> same_request x r)"
proof -
  from assms(2) obtain x where x: "pending_for q code = Some x" "claim_take (request_id x) now q = Inr (Some r, q')"
    by (auto simp: claim_def rbind_eq_Inr split: option.splits if_splits)
  with pending_for_eq_Some [OF assms(1)] have row: "x \<in> set (rows q)" "app_command_id x = code" "pending x" by auto
  with claim_take_pending [OF assms(1) row(1,3), of now] x(2) show ?thesis by (auto simp: same_request_def)
qed

lemma claim_keeps_row:
  assumes "queue_ok q" "claim code ttl now q = Inr (x, q')" "r \<in> set (rows q)" "\<not> pending r"
  shows "r \<in> set (rows q')"
proof -
  have "request_id r \<noteq> request_id y" if "pending_for q code = Some y" for y
    using that pending_for_eq_Some [OF assms(1)] other_id [OF assms(1,3)] assms(4) by auto
  with assms(2-4) show ?thesis
    by (auto simp: claim_def claim_take_def rbind_eq_Inr split: option.splits if_splits
        intro: sql_update_keeps_row finish_keeps_row)
qed

lemma queue_call_keeps_row:
  "r \<in> set (rows (requests d)) \<Longrightarrow> (\<And>q. op (requests d) = Inr q \<Longrightarrow> r \<in> set (rows q)) \<Longrightarrow>
   r \<in> set (rows (requests (queue_call up op d)))"
  by (auto simp: queue_call_def split: sum.splits)

lemma queue_helpers_keep_row:
  assumes "r \<in> set (rows (requests d))"
  shows "request_id x \<noteq> request_id r \<Longrightarrow> r \<in> set (rows (requests (mark_run_request_started env code x lid d)))"
    "request_id x \<noteq> request_id r \<Longrightarrow> r \<in> set (rows (requests (release_run_request env code x msg d)))"
    "rid \<noteq> request_id r \<Longrightarrow> r \<in> set (rows (requests (finish_run_request env code rid st d)))"
  by (auto simp: mark_run_request_started_def release_run_request_def finish_run_request_def mark_started_def release_def
      mark_done_def finish_def intro!: queue_call_keeps_row [OF assms] elim!: sql_update_keeps_row [OF _ assms])

lemma start_or_record_keeps_row:
  assumes "r \<in> set (rows (requests d))" "\<And>x. req = Some x \<Longrightarrow> request_id x \<noteq> request_id r"
  shows "r \<in> set (rows (requests (snd (start_or_record env c req d))))"
proof -
  have started: "r \<in> set (rows (requests (snd (start_app_command env c req d))))"
  proof (cases "o_spawn env (ac_id c)")
    case (Inr pid)
    let ?d = "d\<lparr>children := (pid, ac_id c) # children d\<rparr>"
    obtain res d' where ins: "insert_job_run env (o_insert env (ac_id c)) (start_row env c pid req) ?d = (res, d')"
      by fastforce
    then have "r \<in> set (rows (requests d'))"
      using insert_job_run_snd(3) [of env "o_insert env (ac_id c)" "start_row env c pid req" ?d] assms(1) by simp
    with Inr ins assms(2) queue_helpers_keep_row(1) show ?thesis
      by (auto simp: start_app_command_def Let_def split: sum.splits insert_error.splits option.splits)
  qed (simp add: start_app_command_def assms(1))
  then show ?thesis
    using assms(2) queue_helpers_keep_row(2)
    by (auto simp: start_or_record_def Let_def split: prod.splits sum.splits option.splits)
qed


subsection \<open>A claimed request nobody holds\<close>

definition stranded :: "request \<Rightarrow> daemon \<Rightarrow> bool" where
  "stranded r d =
     (r \<in> set (rows (requests d)) \<and> status r = STATUS_CLAIMED \<and>
      (\<forall>slot\<in>set (running d). ru_request (snd slot) \<noteq> Some (request_id r)))"

lemma claimed_not_pending: "status r = STATUS_CLAIMED \<Longrightarrow> \<not> pending r \<and> status r \<noteq> STATUS_STARTED"
  by (simp add: pending_def status_defs)

lemma started_by_slots:
  "started_by env c req d d' \<Longrightarrow> slot \<in> set (running d') \<Longrightarrow>
   slot \<in> set (running d) \<or> (ru_command (snd slot) = c \<and> ru_request (snd slot) = map_option request_id req \<and>
     ru_requested_by (snd slot) = (case req of None \<Rightarrow> [] | Some r \<Rightarrow> requested_by r))"
proof -
  have "slot \<in> set (upd k v xs) \<Longrightarrow> slot \<in> set xs \<or> slot = (k, v)" for k and v :: running_command and xs
    by (induction xs rule: upd.induct [of _ k v]) (auto split: if_splits)
  then show "started_by env c req d d' \<Longrightarrow> slot \<in> set (running d') \<Longrightarrow>
   slot \<in> set (running d) \<or> (ru_command (snd slot) = c \<and> ru_request (snd slot) = map_option request_id req \<and>
     ru_requested_by (snd slot) = (case req of None \<Rightarrow> [] | Some r \<Rightarrow> requested_by r))"
    by (fastforce simp: started_by_def)
qed

lemma sweep_keeps_stranded:
  assumes "daemon_ok d" "stranded r d"
  shows "stranded r (sweep_run_requests env d)"
  using assms claimed_not_pending [of r]
  by (auto simp: stranded_def sweep_run_requests_def daemon_ok_def split: sum.splits
      intro: expire_stale_keeps_row close_finished_keeps_row)

lemma collect_one_keeps_stranded:
  assumes "stranded r d" "ru_request (snd slot) \<noteq> Some (request_id r)"
  shows "stranded r (snd (collect_one env u slot d))"
proof -
  have row: "r \<in> set (rows (requests (snd (collect_one env u slot d))))"
    using assms queue_helpers_keep_row(3)
    by (auto simp: stranded_def collect_one_def Let_def bnd_def update_job_run_def split: option.splits)
  moreover have "set (running (snd (collect_one env u slot d))) \<subseteq> set (running d)"
    using collect_one_running [of env u slot d] by auto
  ultimately show ?thesis using assms(1) by (auto simp: stranded_def)
qed

lemma claim_run_request_stranded:
  assumes "daemon_ok d" "stranded r d" "claim_run_request env code d = (x, d')"
  shows "stranded r d' \<and> (\<forall>y. x = Some y \<longrightarrow> request_id y \<noteq> request_id r)"
proof -
  have ok: "queue_ok (requests d)" using assms(1) by (simp add: daemon_ok_def)
  have r: "r \<in> set (rows (requests d))" "\<not> pending r" using assms(2) claimed_not_pending by (auto simp: stranded_def)
  have "request_id y \<noteq> request_id r" if "claim code ttl now (requests d) = Inr (Some y, q)" for ttl now y q
    using claim_gives [OF ok that] other_id [OF ok r(1)] r(2) by (auto simp: same_request_def)
  moreover have "running d' = running d" using claim_run_request_simps(1) [of env code d] assms(3) by simp
  ultimately show ?thesis
    using assms(2,3) r claim_keeps_row [OF ok]
    by (auto simp: claim_run_request_def stranded_def split: if_splits sum.splits)
qed

lemma scan_command_keeps_stranded:
  assumes "daemon_ok d" "stranded r d"
  shows "stranded r (snd (scan_command env single_pass latest reqs u c d))"
proof -
  obtain x d1 where claim: "claim_run_request env (ac_id c) d = (x, d1)" by fastforce
  note claimed = claim_run_request_stranded [OF assms claim]
  have "r \<in> set (rows (requests (snd (scan_command env single_pass latest reqs u c d))))"
    using assms(2) claim claimed
    by (auto simp: scan_command_def stranded_def split: option.splits intro!: start_or_record_keeps_row)
  moreover have "ru_request (snd slot) \<noteq> Some (request_id r)"
    if "slot \<in> set (running (snd (scan_command env single_pass latest reqs u c d)))" for slot
    using scan_command_running [of env single_pass latest reqs u c d] that assms(2) claim claimed
    by (fastforce simp: stranded_def justified_def dest: started_by_slots split: option.splits)
  ultimately show ?thesis using assms(2) by (simp add: stranded_def)
qed

lemma daemon_step_keeps_stranded:
  assumes "daemon_ok d" "stranded r d" "daemon_step cs d d'"
  shows "stranded r d'"
  using assms(3)
proof (cases rule: daemon_step.cases)
  case (scanned env single_pass node)
  have slots: "ru_request (snd slot) \<noteq> Some (request_id r)" if "slot \<in> set (running d)" for slot
    using that assms(2) by (simp add: stranded_def)
  have "daemon_ok d' \<and> stranded r d'"
    unfolding scanned
    by (rule scan_keeps) (use assms(1,2) slots in \<open>auto intro: daemon_ok_keeps
      collect_one_keeps_stranded sweep_keeps_stranded scan_command_keeps_stranded\<close>)
  then show ?thesis by simp
next
  case (asked app who source msg now answered a q)
  have "set (rows (requests d)) \<subseteq> set (rows q)"
    using asked(2) by (auto simp: request_run_def insert_request_def Let_def rbind_eq_Inr split: if_splits option.splits)
  with assms(2) asked show ?thesis by (auto simp: stranded_def)
next
  case (cancelled rid who now b q)
  have ok: "queue_ok (requests d)" and r: "r \<in> set (rows (requests d))" "\<not> pending r"
    using assms claimed_not_pending by (auto simp: stranded_def daemon_ok_def)
  have "request_id r \<noteq> rid" if "find_request (requests d) rid = Some x" "pending x" for x
    using that find_Some [of _ "rows (requests d)" x] other_id [OF ok r(1)] r(2) by (fastforce simp: find_request_def)
  then have "r \<in> set (rows q)"
    using cancelled(2) r by (auto simp: cancel_request_def rbind_eq_Inr split: option.splits if_splits intro: sql_update_keeps_row)
  with assms(2) cancelled show ?thesis by (auto simp: stranded_def)
qed (use assms(2) in \<open>auto simp: stranded_def\<close>)

interpretation stranding: kept "daemon_step cs" "\<lambda>d. daemon_ok d \<and> stranded r d" for cs r
  by unfold_locales (auto intro: daemon_step_ok daemon_step_keeps_stranded)


subsection \<open>Starts that succeed\<close>

lemma claims_ok_snoc:
  "claims_ok (rs @ [x]) \<longleftrightarrow> claims_ok rs \<and>
     (holds_claim x \<longrightarrow> (\<forall>r\<in>set rs. holds_claim r \<longrightarrow> rw_claim_key r = rw_claim_key x \<longrightarrow> rw_host r \<noteq> rw_host x))"
  by (auto simp: claims_ok_def image_iff) metis

lemma mark_started_succeeds:
  assumes "queue_ok q" "lid \<in> log_id ` set (job_runs q)" "r \<in> set (rows q)"
  shows "\<exists>q'. mark_started (request_id r) (Some lid) now q = Inr q' \<and>
    r\<lparr>status := STATUS_STARTED, started_at := Some (utc_text now), job_run_id := Some lid\<rparr> \<in> set (rows q')"
proof -
  let ?P = "\<lambda>x. request_id x = request_id r"
  let ?f = "\<lambda>x. x\<lparr>status := STATUS_STARTED, started_at := Some (utc_text now), job_run_id := Some lid\<rparr>"
  let ?rs = "map (\<lambda>x. if ?P x then ?f x else x) (rows q)"
  have "index_ok ?rs"
    using assms(1) by (intro index_ok_update) (auto simp: queue_ok_def pending_def status_defs)
  moreover have "list_all (fk_ok q) ?rs"
    using assms(1,2) by (auto simp: queue_ok_def list_all_iff fk_ok_def)
  ultimately have "mark_started (request_id r) (Some lid) now q = Inr (q\<lparr>rows := ?rs\<rparr>)"
    by (simp add: mark_started_def sql_update_def)
  with assms(3) show ?thesis by force
qed

lemma claim_fresh:
  assumes "daemon_ok d" "o_queue env code" "pending_for (requests d) code = Some r"
    and "stale_cutoff DEFAULT_REQUEST_TTL_SECONDS (o_clock env code) \<le> requested_at r"
  defines "r' \<equiv> r\<lparr>status := STATUS_CLAIMED, claimed_at := Some (utc_text (o_clock env code))\<rparr>"
  shows "\<exists>q. claim_run_request env code d = (Some r', d\<lparr>requests := q\<rparr>) \<and> r' \<in> set (rows q) \<and>
    daemon_ok (d\<lparr>requests := q\<rparr>)"
proof -
  have ok: "queue_ok (requests d)" using assms(1) by (simp add: daemon_ok_def)
  have r: "r \<in> set (rows (requests d))" "pending r" using assms(3) pending_for_eq_Some [OF ok] by auto
  from claim_take_pending [OF ok r, of "o_clock env code"] obtain q where
    "claim_take (request_id r) (o_clock env code) (requests d) = Inr (Some r', q)" "r' \<in> set (rows q)"
    by (auto simp: r'_def)
  with assms(2-4) have "claim_run_request env code d = (Some r', d\<lparr>requests := q\<rparr>)" "r' \<in> set (rows q)"
    by (simp_all add: claim_run_request_def claim_def)
  with claim_run_request_ok [of "{}" d env code] assms(1) show ?thesis by auto
qed

lemma start_succeeds:
  assumes "daemon_ok d" "r \<in> set (rows (requests d))" "o_queue env (ac_id c)"
    and "o_spawn env (ac_id c) = Inr pid" "o_insert env (ac_id c) = None"
    and "claims_ok (runs d @ [stored_row env (next_log d) (start_row env c pid (Some r))])"
  shows "\<exists>d' k ru row x. start_app_command env c (Some r) d = (Inr (), d') \<and>
    (k, ru) \<in> set (running d') \<and> ru_command ru = c \<and> ru_pid ru = pid \<and> ru_request ru = Some (request_id r) \<and>
    row \<in> set (runs d') \<and> rw_log_id row = ru_log_id ru \<and> rw_job_code row = ac_id c \<and> rw_status row = ''running'' \<and>
    x \<in> set (rows (requests d')) \<and> request_id x = request_id r \<and> status x = STATUS_STARTED \<and>
    job_run_id x = Some (ru_log_id ru)"
proof -
  let ?row = "stored_row env (next_log d) (start_row env c pid (Some r))"
  let ?d1 = "d\<lparr>children := (pid, ac_id c) # children d\<rparr>"
  define d2 where "d2 = set_runs (runs d @ [?row]) (?d1\<lparr>next_log := next_log d + 1\<rparr>)"
  have ins: "insert_job_run env None (start_row env c pid (Some r)) ?d1 = (Inr (next_log d), d2)"
    using assms(6) by (simp add: insert_job_run_def d2_def)
  then have ok: "daemon_ok d2"
    using insert_job_run_ok [of "{}" ?d1 env None "start_row env c pid (Some r)"] assms(1) by simp
  define ru where "ru = \<lparr>ru_command = c, ru_pid = pid, ru_started = o_clock env (ac_id c), ru_log_id = next_log d,
    ru_request = Some (request_id r), ru_requested_by = requested_by r\<rparr>"
  define d3 where "d3 = d2\<lparr>running := upd (running_slot_key (ac_id c) pid) ru (running d2)\<rparr>"
  have "next_log d \<in> log_id ` set (job_runs (requests d3))" by (simp add: d3_def d2_def job_view_def)
  moreover have "queue_ok (requests d3)" "r \<in> set (rows (requests d3))"
    using ok assms(2) by (auto simp: daemon_ok_def d3_def d2_def)
  ultimately obtain q where q: "mark_started (request_id r) (Some (next_log d)) (o_clock env (ac_id c)) (requests d3) = Inr q"
    "r\<lparr>status := STATUS_STARTED, started_at := Some (utc_text (o_clock env (ac_id c))), job_run_id := Some (next_log d)\<rparr> \<in> set (rows q)"
    using mark_started_succeeds by blast
  have start: "start_app_command env c (Some r) d = (Inr (), d3\<lparr>requests := q\<rparr>)"
    using assms(3-5) ins q(1)
    by (simp add: start_app_command_def Let_def mark_run_request_started_def queue_call_def d3_def ru_def)
  have "(running_slot_key (ac_id c) pid, ru) \<in> set (running d3)"
    using map_of_upd [of "running_slot_key (ac_id c) pid" ru "running d2"] by (simp add: d3_def map_of_SomeD)
  moreover have "?row \<in> set (runs d3)" by (simp add: d3_def d2_def)
  ultimately show ?thesis
    using start q(2)
    by (intro exI [of _ "d3\<lparr>requests := q\<rparr>"] exI [of _ "running_slot_key (ac_id c) pid"] exI [of _ ru] exI [of _ ?row]
        exI [of _ "r\<lparr>status := STATUS_STARTED, started_at := Some (utc_text (o_clock env (ac_id c))), job_run_id := Some (next_log d)\<rparr>"])
      (simp add: ru_def start_row_def Let_def)
qed


subsection \<open>Properties\<close>

lemma load_app_commands_ids:
  assumes "load_app_commands items = Inr cs"
  shows "distinct (map ac_id cs) \<and> (\<forall>c\<in>set cs. \<exists>item. parse_run_mode item = Inr (ac_mode c))"
proof -
  from assms obtain xs where xs: "map_res load_app_command items = Inr xs"
    and cs: "cs = map snd (dict_of (map (\<lambda>c. (ac_id c, c)) xs))"
    by (auto simp: load_app_commands_def rbind_eq_Inr)
  let ?d = "dict_of (map (\<lambda>c. (ac_id c, c)) xs)"
  have entry: "k = ac_id c \<and> c \<in> set xs" if "(k, c) \<in> set ?d" for k c
  proof -
    have "map_of ?d k = Some c" using that by (simp add: distinct_dict_of)
    then have "(k, c) \<in> set (map (\<lambda>c. (ac_id c, c)) xs)"
      by (metis map_of_dict_of map_of_SomeD set_rev)
    then show ?thesis by auto
  qed
  then have "map ac_id cs = map fst ?d" by (auto simp: cs)
  moreover have "\<exists>item. parse_run_mode item = Inr (ac_mode c)" if "c \<in> set cs" for c
  proof -
    have "c \<in> set xs" using that entry by (auto simp: cs)
    with xs obtain item where "load_app_command item = Inr c"
      by (auto simp: map_res_Inr list_all2_conv_all_nth in_set_conv_nth)
    then have "parse_run_mode item = Inr (ac_mode c)"
      by (auto simp: load_app_command_def Let_def split: if_splits sum.splits option.splits)
    then show ?thesis ..
  qed
  ultimately show ?thesis by simp
qed


lemma knows_self: "daemon_ok w \<Longrightarrow> knows (set (rows (requests w))) w"
  by (auto simp: knows_def same_request_def)

lemma knows_remembers: "knows (set (rows (requests w))) w' \<Longrightarrow> remembers (requests w) (requests w')"
  by (simp add: knows_def remembers_def)

lemmas scan_remembers = collect_one_ok [OF knows_self, THEN knows_remembers]
  sweep_run_requests_ok [OF knows_self, THEN knows_remembers] scan_command_ok [OF knows_self, THEN knows_remembers]

lemma requested_is_kept:
  assumes "daemon_ok w" "justified env single_pass l reqs c w (Some r)"
  shows "\<exists>r'\<in>set (rows (requests (snd (scan_command env single_pass l reqs u c w)))).
    request_id r' = request_id r \<and> app_command_id r' = ac_id c \<and> requested_by r' = requested_by r"
proof -
  from assms(2) obtain w1 where claim: "claim_run_request env (ac_id c) w = (Some r, w1)"
    by (cases "claim_run_request env (ac_id c) w") (auto simp: justified_def)
  then obtain q where q: "w1 = w\<lparr>requests := q\<rparr>"
    "claim (ac_id c) DEFAULT_REQUEST_TTL_SECONDS (o_clock env (ac_id c)) (requests w) = Inr (Some r, q)"
    by (auto simp: claim_run_request_def split: if_splits sum.splits)
  have r: "r \<in> set (rows (requests w1))" "app_command_id r = ac_id c"
    using claim_gives [OF _ q(2)] assms(1) q(1) by (auto simp: daemon_ok_def)
  have ok: "daemon_ok w1" using claim_run_request_ok [of "{}" w env "ac_id c"] assms(1) claim by simp
  have "snd (scan_command env single_pass l reqs u c w) = snd (start_or_record env c (Some r) w1)"
    using assms(2) claim by (auto simp: scan_command_def justified_def split: option.splits)
  moreover have "remembers (requests w1) (requests (snd (start_or_record env c (Some r) w1)))"
    by (rule knows_remembers [OF start_or_record_ok [OF knows_self [OF ok]]])
  ultimately show ?thesis using r by (auto simp: remembers_def same_request_def) metis
qed

definition reason_to_run ::
  "outside \<Rightarrow> bool \<Rightarrow> string \<Rightarrow> app_command list \<Rightarrow> (string \<Rightarrow> pydict option) \<Rightarrow> queue \<Rightarrow> running_command \<Rightarrow> bool" where
  "reason_to_run env single_pass node cs latest q ru =
     (ru_command ru \<in> set cs \<and> active (ru_command ru) \<and> command_runs_on_node (ru_command ru) node \<and>
      \<not> (single_pass \<and> timeout_disabled (ru_command ru)) \<and>
      (case ru_request ru of
         None \<Rightarrow> app_command_in_schedule_window env (ru_command ru) \<and>
           app_command_is_due env (ru_command ru) (latest (ac_id (ru_command ru)))
       | Some rid \<Rightarrow> \<exists>r\<in>set (rows q). request_id r = rid \<and> app_command_id r = ac_id (ru_command ru) \<and>
           requested_by r = ru_requested_by ru))"

lemma reason_remembered:
  "reason_to_run env single_pass node cs l q ru \<Longrightarrow> remembers q q' \<Longrightarrow> reason_to_run env single_pass node cs l q' ru"
  by (force simp: reason_to_run_def remembers_def same_request_def split: option.splits)

lemma reason_started:
  assumes "daemon_ok w" "c \<in> set cs" "active c" "command_runs_on_node c node"
    and "started_by env c req w (snd (scan_command env single_pass l reqs u c w))" "justified env single_pass l reqs c w req"
    and "slot \<in> set (running (snd (scan_command env single_pass l reqs u c w)))"
  shows "slot \<in> set (running w) \<or>
    reason_to_run env single_pass node cs l (requests (snd (scan_command env single_pass l reqs u c w))) (snd slot)"
  using started_by_slots [OF assms(5,7)] assms(2-4,6) requested_is_kept [OF assms(1), of env single_pass l reqs c _ u]
  by (cases req) (auto simp: reason_to_run_def justified_def)

text \<open>C2: a scan starts nothing without a reason: an entry it adds to the table is an active command of
  this node that the pass may run, and either its window was open and its schedule due on the
  newest row of the job, or a request of that very command, by the person recorded, is behind it.\<close>

theorem scan_starts_are_justified:
  assumes "daemon_ok d" "run_scheduler_scan env single_pass node cs d = (res, d')"
    and "slot \<in> set (running d')" "slot \<notin> set (running d)"
  shows "reason_to_run env single_pass node cs (latest_job_run env (runs (snd (collect_running_commands env d))))
    (requests d') (snd slot)"
proof -
  let ?l = "latest_job_run env (runs (snd (collect_running_commands env d)))"
  let ?P = "\<lambda>w. daemon_ok w \<and> (\<forall>s\<in>set (running w). s \<in> set (running d) \<or>
    reason_to_run env single_pass node cs ?l (requests w) (snd s))"
  have "?P (snd (run_scheduler_scan env single_pass node cs d))"
  proof (rule scan_keeps)
    fix s w
    assume w: "?P w"
    then have ok: "daemon_ok w" by simp
    have "set (running (snd (collect_one env () s w))) \<subseteq> set (running w)"
      using collect_one_running [of env "()" s w] by auto
    with w scan_remembers(1) [OF ok, of env "()" s] daemon_ok_keeps(1) [OF ok] show "?P (snd (collect_one env () s w))"
      by (blast intro: reason_remembered)
  next
    fix w
    assume w: "?P w"
    then have ok: "daemon_ok w" by simp
    with w scan_remembers(2) [OF ok, of env] daemon_ok_keeps(2) [OF ok] show "?P (sweep_run_requests env w)"
      by (auto intro: reason_remembered)
  next
    fix c w reqs
    assume w: "?P w" and c: "c \<in> set cs" "active c" "command_runs_on_node c node"
    then have ok: "daemon_ok w" by simp
    with w scan_remembers(3) [OF ok, of env single_pass ?l reqs "()" c] scan_command_running [of env single_pass ?l reqs "()" c w]
      reason_started [OF ok c] daemon_ok_keeps(3) [OF ok]
    show "?P (snd (scan_command env single_pass ?l reqs () c w))"
      by (metis (no_types, lifting) reason_remembered)
  qed (use assms(1) in simp)
  with assms(2-4) show ?thesis by fastforce
qed


text \<open>C36: "run now" is obeyed: a pending request, still in its window, of a command that may start is
  claimed and started whatever the schedule says - when the process starts, the store takes the
  row and no running row of this host holds the command's key - and afterwards the process is in
  the table, its run row is running, and the request is started and names that row.\<close>

theorem requested_run_starts:
  assumes "daemon_ok d" "\<not> (single_pass \<and> timeout_disabled c)"
    and "may_start (ac_mode c) (count_in_flight (running d) (ac_id c))" "reqs (ac_id c) \<noteq> None"
    and "o_queue env (ac_id c)" "pending_for (requests d) (ac_id c) = Some r"
    and "stale_cutoff DEFAULT_REQUEST_TTL_SECONDS (o_clock env (ac_id c)) \<le> requested_at r"
    and "o_spawn env (ac_id c) = Inr pid" "o_insert env (ac_id c) = None"
    and "\<forall>x\<in>set (runs d). holds_claim x \<longrightarrow> rw_claim_key x = Some (strip (ac_id c)) \<longrightarrow> rw_host x \<noteq> o_host env"
  shows "\<exists>d' k ru row x. scan_command env single_pass latest reqs u c d = (Inr (), d') \<and>
    (k, ru) \<in> set (running d') \<and> ru_command ru = c \<and> ru_pid ru = pid \<and> ru_request ru = Some (request_id r) \<and>
    row \<in> set (runs d') \<and> rw_log_id row = ru_log_id ru \<and> rw_job_code row = ac_id c \<and> rw_status row = ''running'' \<and>
    x \<in> set (rows (requests d')) \<and> request_id x = request_id r \<and> status x = STATUS_STARTED \<and>
    job_run_id x = Some (ru_log_id ru)"
proof -
  let ?r = "r\<lparr>status := STATUS_CLAIMED, claimed_at := Some (utc_text (o_clock env (ac_id c)))\<rparr>"
  from claim_fresh [OF assms(1,5,6,7)] obtain q where q: "claim_run_request env (ac_id c) d = (Some ?r, d\<lparr>requests := q\<rparr>)"
    "?r \<in> set (rows q)" "daemon_ok (d\<lparr>requests := q\<rparr>)" by auto
  have "claims_ok (runs d @ [stored_row env (next_log d) (start_row env c pid (Some ?r))])"
    using assms(1,10)
    by (auto simp: claims_ok_snoc daemon_ok_def holds_claim_def start_row_def Let_def stored_key_def split: if_splits)
  with start_succeeds [OF q(3), of ?r env c pid] q(2) assms(5,8,9) obtain d' k ru row x where start:
    "start_app_command env c (Some ?r) (d\<lparr>requests := q\<rparr>) = (Inr (), d')"
    "(k, ru) \<in> set (running d') \<and> ru_command ru = c \<and> ru_pid ru = pid \<and> ru_request ru = Some (request_id r) \<and>
    row \<in> set (runs d') \<and> rw_log_id row = ru_log_id ru \<and> rw_job_code row = ac_id c \<and> rw_status row = ''running'' \<and>
    x \<in> set (rows (requests d')) \<and> request_id x = request_id r \<and> status x = STATUS_STARTED \<and>
    job_run_id x = Some (ru_log_id ru)" by auto
  have "scan_command env single_pass latest reqs u c d = (Inr (), d')"
    using assms(2-4) q(1) start(1) by (auto simp: scan_command_def start_or_record_def split: option.splits)
  with start(2) show ?thesis by blast
qed


text \<open>A store that fails while the run row is written leaves a process nobody watches: the child
  that was started is neither stopped nor in the table, and no run row holds its claim, so the
  next scan may start the same sync command again beside it.\<close>

theorem failed_insert_orphans_child:
  assumes "o_spawn env (ac_id c) = Inr pid" "o_insert env (ac_id c) = Some e"
    and "start_or_record env c req d = (res, d')"
  shows "(pid, ac_id c) \<in> set (children d') \<and> running d' = running d \<and>
    filter holds_claim (runs d') = filter holds_claim (runs d) \<and>
    may_start (ac_mode c) (count_in_flight (running d') (ac_id c)) =
      may_start (ac_mode c) (count_in_flight (running d) (ac_id c))"
proof -
  define d1 where "d1 = (case req of None \<Rightarrow> d\<lparr>children := (pid, ac_id c) # children d\<rparr>
    | Some r \<Rightarrow> release_run_request env (ac_id c) r ''Start failed; returned to the queue.'' (d\<lparr>children := (pid, ac_id c) # children d\<rparr>))"
  have d1: "running d1 = running d" "runs d1 = runs d" "children d1 = (pid, ac_id c) # children d"
    by (simp_all add: d1_def split: option.splits)
  have "start_or_record env c req d = (if is_store_trouble e then (Inl e, d1) else (Inr (), record_start_failure env c e d1))"
    using assms(1,2) by (simp add: start_or_record_def start_app_command_def insert_job_run_def d1_def split: option.splits)
  moreover have "filter holds_claim (runs (record_start_failure env c e d1)) = filter holds_claim (runs d1)"
    by (auto simp: record_start_failure_def Let_def insert_job_run_def holds_claim_def stored_key_def)
  ultimately show ?thesis using assms(3) d1 by (auto split: if_splits)
qed


lemma collect_one_returns:
  assumes "collect_one env u (k, ru) d = (Inr v, d')"
  shows "if still_running env ru then d' = d
    else running d' = filter (\<lambda>(k', _). k' \<noteq> k) (running d) \<and>
      (\<exists>level msg dur md. runs d' = map (\<lambda>r. if rw_log_id r = ru_log_id ru
        then close_row level (end_status env ru) msg (o_scan_clock env) dur md r else r) (runs d))"
  using assms
  by (auto simp: collect_one_def Let_def bnd_def update_job_run_def finish_run_request_def split: option.splits if_splits)
    blast+


definition closed_as_ended :: "outside \<Rightarrow> running_command \<Rightarrow> run_row list \<Rightarrow> bool" where
  "closed_as_ended env ru rs =
     (\<forall>row\<in>set rs. rw_log_id row = ru_log_id ru \<longrightarrow>
        rw_status row = end_status env ru \<and> rw_finished row = Some (o_scan_clock env))"

text \<open>Collecting keeps exactly the commands that are still alive and not over their timeout - a
  service is never over its timeout - and the run row of every other one is closed with how it
  ended: done, error, or timeout.\<close>

theorem collect_closes_what_ended:
  assumes "collect_running_commands env d = (Inr u, d')"
    and "distinct (map fst (running d))" "distinct (map (\<lambda>(k, ru). ru_log_id ru) (running d))"
  shows "running d' = filter (\<lambda>(k, ru). still_running env ru) (running d) \<and>
    (\<forall>(k, ru)\<in>set (running d). \<not> still_running env ru \<longrightarrow> closed_as_ended env ru (runs d'))"
proof -
  define I where "I before (v :: unit) w \<longleftrightarrow>
      running w = filter (\<lambda>(k, ru). k \<notin> fst ` set before \<or> still_running env ru) (running d) \<and>
      (\<forall>(k, ru)\<in>set before. \<not> still_running env ru \<longrightarrow> closed_as_ended env ru (runs w))"
    for before :: "(string \<times> running_command) list" and v and w :: daemon
  have "I (running d) u d'"
    using assms(1) [unfolded collect_running_commands_def]
  proof (rule loop_inv [where I = I])
    show "I [] () d" by (simp add: I_def split_beta)
  next
    fix before slot after s w s' w'
    assume split: "running d = before @ slot # after" and inv: "I before s w" and step: "collect_one env s slot w = (Inr s', w')"
    obtain k ru where slot: "slot = (k, ru)" by (cases slot)
    have alone: "x = slot" if "x \<in> set (running d)" "fst x = k" for x
      using that assms(2) split slot by (auto simp: distinct_map inj_on_def)
    have others: "ru_log_id ru' \<noteq> ru_log_id ru" if "(k', ru') \<in> set before" for k' ru'
      using that assms(3) split slot by (force simp: image_iff)
    note one = collect_one_returns [OF step [unfolded slot]]
    show "I (before @ [slot]) s' w'"
    proof (cases "still_running env ru")
      case True
      with one inv alone slot show ?thesis
        unfolding I_def by (auto intro!: filter_cong)
    next
      case False
      with one obtain level msg dur md where run: "running w' = filter (\<lambda>(k', _). k' \<noteq> k) (running w)"
        and rows: "runs w' = map (\<lambda>r. if rw_log_id r = ru_log_id ru
          then close_row level (end_status env ru) msg (o_scan_clock env) dur md r else r) (runs w)" by auto
      have "running w' = filter (\<lambda>(k, ru). k \<notin> fst ` set (before @ [slot]) \<or> still_running env ru) (running d)"
        using inv alone slot False unfolding run I_def by (auto simp: filter_filter intro!: filter_cong)
      moreover have "closed_as_ended env ru (runs w')"
        by (auto simp: closed_as_ended_def rows close_row_def)
      moreover have "closed_as_ended env ru' (runs w')" if "(k', ru') \<in> set before" "\<not> still_running env ru'" for k' ru'
        using that inv others [OF that(1)] by (fastforce simp: I_def closed_as_ended_def rows close_row_def)
      ultimately show ?thesis by (auto simp: I_def slot)
    qed
  qed
  moreover have "filter (\<lambda>(k, ru). k \<notin> fst ` set (running d) \<or> still_running env ru) (running d) =
      filter (\<lambda>(k, ru). still_running env ru) (running d)"
    by (rule filter_cong) force+
  ultimately show ?thesis by (simp add: I_def)
qed


subsection \<open>A run-now request, step by step\<close>

definition etl_item :: pydict where
  "etl_item = [(''app_command_id'', PStr ''etl''), (''log_scope'', PStr ''etl'')]"

definition etl_command :: app_command where
  "etl_command = \<lparr>ac_id = ''etl'', app_code = ''etl'', app_name = ''etl'', display_name = ''etl'', log_scope = ''etl'',
     working_dir = [], command_text = [],
     ac_window = default_time_window\<lparr>from_day := Some 1, to_day := Some 31, from_hour := Some 0, to_hour := Some 23,
       retry_interval := Some 60, timeout := Some 300\<rparr>,
     active = True, node_role = ''all'', ac_mode = \<lparr>rm_mode = SYNC, max_parallel = 1\<rparr>\<rparr>"

definition calm :: outside where
  "calm = \<lparr>o_clock = (\<lambda>_. sec 1100), o_local = (\<lambda>_. \<lparr>c_year = 2026, c_month = 11, c_day = 18, c_hour = 3, c_minute = 0\<rparr>),
     o_spawn = (\<lambda>_. Inr 42), o_insert = (\<lambda>_. None), o_record = (\<lambda>_. True), o_queue = (\<lambda>_. True),
     o_scan_clock = sec 1100, o_poll = (\<lambda>_. None), o_update = (\<lambda>_. None), o_sweep = True, o_open = True,
     o_host = ''db01'', o_pid = 7, o_node = [], o_pid_started = (\<lambda>_. []), o_stamp = (\<lambda>_. []), o_fromiso = (\<lambda>_. None)\<rparr>"

definition idle :: daemon where
  "idle = \<lparr>running = [], runs = [], next_log = 1, requests = etl_queue, children = []\<rparr>"

definition etl_running :: run_row where
  "etl_running = \<lparr>rw_log_id = 1, rw_job_code = ''etl'', rw_level = ''logging'', rw_status = ''running'', rw_message = [],
     rw_created = 0, rw_started = Some 0, rw_finished = None, rw_duration = None, rw_host = ''db01'',
     rw_claim_key = Some ''etl'', rw_metadata = []\<rparr>"

definition busy :: daemon where
  "busy = set_runs [etl_running] (idle\<lparr>next_log := 2\<rparr>)"

lemma etl_loaded: "load_app_commands [etl_item] = Inr [etl_command]"
  by code_simp


lemma etl_daemons_ok: "daemon_ok idle" "daemon_ok busy"
  by code_simp+

lemma etl_pending: "pending_for (requests idle) ''etl'' = Some etl_request" "pending_for (requests busy) ''etl'' = Some etl_request"
  by code_simp+

lemma etl_fresh: "stale_cutoff DEFAULT_REQUEST_TTL_SECONDS (o_clock calm ''etl'') \<le> requested_at etl_request"
  by code_simp

lemma etl_scan: "map fst (running (snd (run_scheduler_scan calm False ''master'' [etl_command] idle))) = [''etl#42'']"
  by code_simp


theorem scan_starts_are_justified_witness:
  "\<exists>slot :: string \<times> running_command. reason_to_run calm False ''master'' [etl_command]
     (latest_job_run calm (runs (snd (collect_running_commands calm idle))))
     (requests (snd (run_scheduler_scan calm False ''master'' [etl_command] idle))) (snd slot)"
proof -
  obtain slot where slot: "slot \<in> set (running (snd (run_scheduler_scan calm False ''master'' [etl_command] idle)))"
    using etl_scan by (cases "running (snd (run_scheduler_scan calm False ''master'' [etl_command] idle))") auto
  have "slot \<notin> set (running idle)" by (simp add: idle_def)
  from scan_starts_are_justified [OF etl_daemons_ok(1) prod.collapse [symmetric] slot this] show ?thesis
    by (rule exI [where x = slot])
qed

theorem requested_run_starts_witness:
  "\<exists>d' k ru. scan_command calm False (\<lambda>_. None) (\<lambda>_. Some etl_request) () etl_command idle = (Inr (), d') \<and>
     (k, ru) \<in> set (running d') \<and> ru_pid ru = 42 \<and> ru_request ru = Some 1"
proof -
  have may: "may_start (ac_mode etl_command) (count_in_flight (running idle) ''etl'')" by code_simp
  have e: "ac_id etl_command = ''etl''" "runs idle = []" "request_id etl_request = 1"
    by (simp_all add: etl_command_def idle_def etl_request_def)
  have "\<exists>d' k ru row x. scan_command calm False (\<lambda>_. None) (\<lambda>_. Some etl_request) () etl_command idle = (Inr (), d') \<and>
    (k, ru) \<in> set (running d') \<and> ru_command ru = etl_command \<and> ru_pid ru = 42 \<and> ru_request ru = Some (request_id etl_request) \<and>
    row \<in> set (runs d') \<and> rw_log_id row = ru_log_id ru \<and> rw_job_code row = ac_id etl_command \<and> rw_status row = ''running'' \<and>
    x \<in> set (rows (requests d')) \<and> request_id x = request_id etl_request \<and> status x = STATUS_STARTED \<and>
    job_run_id x = Some (ru_log_id ru)"
    by (rule requested_run_starts [OF etl_daemons_ok(1)]) (simp_all add: e may etl_pending etl_fresh, simp_all add: calm_def)
  then show ?thesis unfolding e by blast
qed


theorem failed_insert_orphans_child_witness:
  "(42, ''etl'') \<in> set (children (snd (start_or_record (calm\<lparr>o_insert := \<lambda>_. Some starting_up\<rparr>) etl_command None idle)))"
  using failed_insert_orphans_child [of "calm\<lparr>o_insert := \<lambda>_. Some starting_up\<rparr>" etl_command 42 starting_up None idle,
      OF _ _ prod.collapse [symmetric]]
  by (simp add: calm_def etl_command_def)

definition etl_run :: running_command where
  "etl_run = \<lparr>ru_command = etl_command, ru_pid = 42, ru_started = 0, ru_log_id = 1, ru_request = Some 1, ru_requested_by = ''ann''\<rparr>"

theorem collect_closes_what_ended_witness:
  "running (snd (collect_running_commands calm (busy\<lparr>running := [(''etl#42'', etl_run)]\<rparr>))) = []"
proof -
  have "fst (collect_running_commands calm (busy\<lparr>running := [(''etl#42'', etl_run)]\<rparr>)) = Inr ()" "\<not> still_running calm etl_run"
    by code_simp+
  then have "collect_running_commands calm (busy\<lparr>running := [(''etl#42'', etl_run)]\<rparr>) =
      (Inr (), snd (collect_running_commands calm (busy\<lparr>running := [(''etl#42'', etl_run)]\<rparr>)))" by (simp add: prod_eq_iff)
  from collect_closes_what_ended [OF this] \<open>\<not> still_running calm etl_run\<close> show ?thesis by simp
qed

end
