(* ===== verification/Retention.thy ===== *)
theory Retention
  imports Coerce
begin

section \<open>How long backups are kept\<close>

text \<open>
  Models \<^verbatim>\<open>dbabrain/lib/cleanup_retention.py\<close>: the \<^verbatim>\<open>cleanup_retention\<close> field of a backup job,
  its legacy spellings, the window per file type, the checks a registrar makes of the windows, the
  upgrade step that moves the jobs' windows onto their entry, and the question whether a file that
  is gone was its retention's to remove. A window is \<open>None\<close> for \<^verbatim>\<open>keep\<close>. The sentences built for a
  reader are represented by the facts they state.
\<close>

subsection \<open>The field\<close>

definition FIELD :: string where
  "FIELD = ''cleanup_retention''"

definition LEGACY_FIELDS :: "(string \<times> int) list" where
  "LEGACY_FIELDS = [(''target_retention_seconds'', 1), (''retention_days'', 24 * 3600)]"

definition DEFAULT_SECONDS :: int where
  "DEFAULT_SECONDS = 8 * 24 * 3600"

definition KEEP :: string where
  "KEEP = ''keep''"

definition KEEP_AS_SECONDS :: int where
  "KEEP_AS_SECONDS = 100 * 365 * 24 * 3600"

definition ENGINE_FILE_TYPES :: "(string \<times> string list) list" where
  "ENGINE_FILE_TYPES =
     [(''sqlserver'', [''FULL'', ''DIFF'', ''LOG'', ''CERT'']),
      (''postgresql'', [''FULL_BASE'', ''INCR_BASE'', ''MANIFEST'', ''WAL'']),
      (''oracle'', [''RMAN_L0'', ''RMAN_L1'', ''ARCHIVELOG'', ''CONTROLFILE'', ''SPFILE''])]"

definition ENGINE_ALIASES :: "(string \<times> string) list" where
  "ENGINE_ALIASES = [(''mssql'', ''sqlserver''), (''postgres'', ''postgresql'')]"

definition BASE_TYPE :: "(string \<times> string) list" where
  "BASE_TYPE = [(''sqlserver'', ''FULL''), (''postgresql'', ''FULL_BASE''), (''oracle'', ''RMAN_L0'')]"

definition DEPENDENT_TYPES :: "(string \<times> string list) list" where
  "DEPENDENT_TYPES = [(''sqlserver'', [''DIFF'', ''LOG'']), (''postgresql'', [''INCR_BASE'', ''WAL'']),
     (''oracle'', [''RMAN_L1'', ''ARCHIVELOG''])]"

definition LOG_TYPE :: "(string \<times> string) list" where
  "LOG_TYPE = [(''sqlserver'', ''LOG''), (''postgresql'', ''WAL''), (''oracle'', ''ARCHIVELOG'')]"

definition DEFAULT_KEY :: string where
  "DEFAULT_KEY = ''default''"

definition ALL_FILE_TYPES :: "string list" where
  "ALL_FILE_TYPES = concat (map snd ENGINE_FILE_TYPES)"

definition CHAIN_MEMBERS :: "(string \<times> string) list" where
  "CHAIN_MEMBERS = [(''postgresql'', ''INCR_BASE''), (''oracle'', ''RMAN_L1'')]"

definition LEVEL_TYPES :: "(string \<times> (string \<times> string) list) list" where
  "LEVEL_TYPES =
     [(''sqlserver'', [(''full'', ''FULL''), (''diff'', ''DIFF''), (''log'', ''LOG'')]),
      (''postgresql'', [(''full'', ''FULL_BASE''), (''diff'', ''INCR_BASE''), (''log'', ''WAL'')]),
      (''oracle'', [(''full'', ''RMAN_L0''), (''diff'', ''RMAN_L1''), (''log'', ''RMAN_L0'')])]"

lemmas retention_tables = FIELD_def LEGACY_FIELDS_def ENGINE_FILE_TYPES_def ENGINE_ALIASES_def BASE_TYPE_def
  DEPENDENT_TYPES_def LOG_TYPE_def CHAIN_MEMBERS_def LEVEL_TYPES_def DEFAULT_KEY_def KEEP_def

datatype cleanup_error =
    RetentionRequired
  | NotWholeNumber string
  | NegativeRetention string
  | BadWindow string
  | NegativeWindow string
  | UnknownType string
  | NoDefault

subsection \<open>Windows per file type\<close>

definition engine_name :: "string option \<Rightarrow> string" where
  "engine_name v =
     (let name = lower (strip (case v of None \<Rightarrow> [] | Some s \<Rightarrow> s)) in
      case map_of ENGINE_ALIASES name of None \<Rightarrow> name | Some n \<Rightarrow> n)"

record retention =
  windows :: "(string \<times> int option) list"
  default_window :: "int option"
  uniform :: bool

definition window_for :: "retention \<Rightarrow> string \<Rightarrow> int option" where
  "window_for r file_type =
     (let kind = upper (strip file_type) in
      case map_of (windows r) kind of
        Some w \<Rightarrow> w
      | None \<Rightarrow> if kind = ''CERT'' \<and> \<not> uniform r then None else default_window r)"

definition longest :: "retention \<Rightarrow> int" where
  "longest r =
     (let stated = map snd (filter (\<lambda>(kind, w). kind \<noteq> ''CERT'') (windows r)) @ [default_window r] in
      if None \<in> set stated then KEEP_AS_SECONDS
      else Max (set (map the stated)))"

definition window_value :: "int option \<Rightarrow> pyval" where
  "window_value w = (case w of None \<Rightarrow> PStr KEEP | Some n \<Rightarrow> PInt n)"

definition as_config :: "retention \<Rightarrow> pyval" where
  "as_config r =
     (if uniform r then PInt (case default_window r of None \<Rightarrow> 0 | Some n \<Rightarrow> n)
      else PDict (upd DEFAULT_KEY (window_value (default_window r)) (map (\<lambda>(k, w). (k, window_value w)) (windows r))))"

definition parse_window :: "pyval \<Rightarrow> string \<Rightarrow> cleanup_error + int option" where
  "parse_window v name =
     (if (case v of PStr s \<Rightarrow> lower (strip s) = KEEP | _ \<Rightarrow> False) then Inr None
      else if (case v of PBool b \<Rightarrow> True | _ \<Rightarrow> False) then Inl (BadWindow name)
      else case py_int v of
        None \<Rightarrow> Inl (BadWindow name)
      | Some n \<Rightarrow> if n < 0 then Inl (NegativeWindow name) else Inr (Some n))"

text \<open>The loop of \<^verbatim>\<open>parse_per_type\<close> over the object's items: the windows so far, the default, and
  whether one was given.\<close>

fun parse_items ::
  "string list \<Rightarrow> pydict \<Rightarrow> (string \<times> int option) list \<Rightarrow> int option \<Rightarrow> bool
   \<Rightarrow> cleanup_error + ((string \<times> int option) list \<times> int option \<times> bool)" where
  "parse_items allowed [] ws d has = Inr (ws, d, has)"
| "parse_items allowed ((key, v) # items) ws d has =
     (let name = strip key in
      if lower name = DEFAULT_KEY then rbind (parse_window v name) (\<lambda>w. parse_items allowed items ws w True)
      else if upper name \<notin> set allowed then Inl (UnknownType name)
      else rbind (parse_window v name) (\<lambda>w. parse_items allowed items (upd (upper name) w ws) d has))"

definition parse_object :: "pydict \<Rightarrow> string option \<Rightarrow> cleanup_error + retention" where
  "parse_object raw eng =
     (let kind = engine_name eng;
          allowed = (case map_of ENGINE_FILE_TYPES kind of None \<Rightarrow> ALL_FILE_TYPES | Some ts \<Rightarrow> ts) in
      rbind (parse_items allowed raw [] (Some DEFAULT_SECONDS) False) (\<lambda>(ws, d, has).
      if \<not> has \<and> \<not> (map_of ENGINE_FILE_TYPES kind \<noteq> None \<and>
            (\<forall>t\<in>set allowed. t \<noteq> ''CERT'' \<longrightarrow> map_of ws t \<noteq> None))
      then Inl NoDefault
      else Inr \<lparr>windows = ws, default_window = d, uniform = False\<rparr>))"

definition parse_number :: "pyval \<Rightarrow> string \<Rightarrow> int \<Rightarrow> cleanup_error + int" where
  "parse_number raw source factor =
     (case raw of
        PDict d \<Rightarrow> rbind (parse_object d None) (\<lambda>r. Inr (longest r))
      | _ \<Rightarrow>
          (case py_int raw of
             None \<Rightarrow> Inl (NotWholeNumber source)
           | Some n \<Rightarrow> if n < 0 then Inl (NegativeRetention source) else Inr (n * factor)))"

definition parse :: "pydict \<Rightarrow> bool \<Rightarrow> cleanup_error + int" where
  "parse entry required =
     (if get entry FIELD \<noteq> PNone then parse_number (get entry FIELD) FIELD 1
      else case List.find (\<lambda>(name, factor). get entry name \<noteq> PNone) LEGACY_FIELDS of
        Some (name, factor) \<Rightarrow> parse_number (get entry name) name factor
      | None \<Rightarrow> if required then Inl RetentionRequired else Inr DEFAULT_SECONDS)"

definition parse_per_type :: "pydict \<Rightarrow> string option \<Rightarrow> bool \<Rightarrow> cleanup_error + retention" where
  "parse_per_type entry eng required =
     (case get entry FIELD of
        PDict d \<Rightarrow> parse_object d eng
      | _ \<Rightarrow> rbind (parse entry required) (\<lambda>n.
          Inr \<lparr>windows = [], default_window = Some n, uniform = True\<rparr>))"

subsection \<open>Checks of the windows\<close>

definition dependents_past_their_base :: "retention \<Rightarrow> string \<Rightarrow> string list" where
  "dependents_past_their_base r eng =
     (let kind = engine_name (Some eng) in
      case map_of BASE_TYPE kind of
        None \<Rightarrow> []
      | Some base_type \<Rightarrow>
          (let base = window_for r base_type in
           filter (\<lambda>dependent.
             let w = window_for r dependent in
             if base = None \<or> w = Some 0 then False
             else w = None \<or> (the base \<noteq> 0 \<and> the w > the base))
             (case map_of DEPENDENT_TYPES kind of None \<Rightarrow> [] | Some ds \<Rightarrow> ds)))"

definition chain_member_split :: "retention \<Rightarrow> string \<Rightarrow> bool" where
  "chain_member_split r eng =
     (let kind = engine_name (Some eng) in
      case map_of CHAIN_MEMBERS kind of
        None \<Rightarrow> False
      | Some member \<Rightarrow>
          (case map_of (windows r) member of
             None \<Rightarrow> False
           | Some w \<Rightarrow> w \<noteq> window_for r (the (map_of BASE_TYPE kind))))"

definition point_in_time_reach :: "retention \<Rightarrow> string \<Rightarrow> int option" where
  "point_in_time_reach r eng =
     (let kind = engine_name (Some eng) in
      case map_of BASE_TYPE kind of
        None \<Rightarrow> default_window r
      | Some base_type \<Rightarrow>
          if kind = ''oracle'' then window_for r ''RMAN_L0''
          else (let numbers = List.map_filter id [window_for r base_type, window_for r (the (map_of LOG_TYPE kind))] in
                if numbers = [] then None else Some (Min (set numbers))))"

definition windows_by_level :: "retention \<Rightarrow> string \<Rightarrow> (string \<times> int option) list option" where
  "windows_by_level r eng =
     (if uniform r then None
      else case map_of LEVEL_TYPES (engine_name (Some eng)) of
        None \<Rightarrow> None
      | Some levels \<Rightarrow> Some (map (\<lambda>(level, kind). (level, window_for r kind)) levels))"

definition shorter_than_its_interval :: "int option \<Rightarrow> int option \<Rightarrow> bool" where
  "shorter_than_its_interval window interval =
     (case window of None \<Rightarrow> False
      | Some w \<Rightarrow> (case interval of None \<Rightarrow> False | Some i \<Rightarrow> w \<noteq> 0 \<and> i \<noteq> 0 \<and> 0 < w \<and> w < i))"

text \<open>What a registrar refuses: a value that does not parse, or windows that contradict each other.\<close>

datatype registrar_refusal = Unreadable cleanup_error | Inconsistent "string list" bool

definition registrar_refusal :: "pydict \<Rightarrow> string \<Rightarrow> registrar_refusal option" where
  "registrar_refusal entry eng =
     (case parse_per_type entry (Some eng) True of
        Inl e \<Rightarrow> Some (Unreadable e)
      | Inr r \<Rightarrow>
          (let found = dependents_past_their_base r eng; split = chain_member_split r eng in
           if found = [] \<and> \<not> split then None else Some (Inconsistent found split)))"

definition problems :: "pyval \<Rightarrow> cleanup_error list" where
  "problems v = (case parse_per_type [(FIELD, v)] None True of Inl e \<Rightarrow> [e] | Inr r \<Rightarrow> [])"

subsection \<open>A job and its entry\<close>

definition retention_names :: "string list" where
  "retention_names = FIELD # map fst LEGACY_FIELDS"

definition states_it :: "pydict \<Rightarrow> bool" where
  "states_it rec = (\<exists>name\<in>set retention_names. get rec name \<noteq> PNone)"

definition retention_source :: "pydict \<Rightarrow> pydict \<Rightarrow> pydict" where
  "retention_source job entry =
     (if states_it job \<or> \<not> states_it entry then job
      else map (\<lambda>name. (name, get entry name)) (filter (\<lambda>name. get entry name \<noteq> PNone) retention_names))"

definition job_entry_disagreement :: "pydict \<Rightarrow> pydict \<Rightarrow> bool" where
  "job_entry_disagreement job entry =
     (states_it job \<and> states_it entry \<and>
      (case parse_per_type job None True of Inl e \<Rightarrow> False
       | Inr mine \<Rightarrow> (case parse_per_type entry None True of Inl e \<Rightarrow> False | Inr theirs \<Rightarrow> mine \<noteq> theirs)))"

definition script_name :: "string \<Rightarrow> string" where
  "script_name path = lower (last (split_on (CHR ''/'') (replace_char (CHR 0x5C) (CHR ''/'') path)))"

definition types_a_job_writes :: "string \<Rightarrow> pydict \<Rightarrow> string list option" where
  "types_a_job_writes eng job =
     (let kind = engine_name (Some eng);
          level = lower (strip (str_or (get (as_dict (get job ''env'')) ''BACKUP_LEVEL'')));
          script = script_name (str_or (get job ''script'')) in
      if kind = ''sqlserver'' \<and> level \<in> {''full'', ''diff'', ''log''} then Some [upper level]
      else if kind = ''postgresql'' \<and> contains script ''archive_wal'' then Some [''WAL'']
      else if kind = ''postgresql'' \<and> contains script ''basebackup'' \<and> level = ''full''
      then Some [''FULL_BASE'', ''INCR_BASE'', ''MANIFEST'']
      else if kind = ''postgresql'' \<and> contains script ''basebackup'' \<and> level = ''incr'' then Some []
      else if kind = ''oracle'' \<and> contains script ''archivelog'' then Some [''ARCHIVELOG'']
      else if kind = ''oracle'' \<and> contains script ''rman_database'' \<and> level = ''0''
      then Some [''RMAN_L0'', ''RMAN_L1'', ''CONTROLFILE'', ''SPFILE'']
      else if kind = ''oracle'' \<and> contains script ''rman_database'' \<and> level = ''1'' then Some []
      else None)"

datatype fold_conflict =
    BothState | ObjectAlready | Unparsed cleanup_error | SomeStateNone | UnknownJob string

definition job_name :: "pydict \<Rightarrow> string" where
  "job_name job = (if truthy (get job ''job'') then py_str (get job ''job'') else ''?'')"

fun job_values :: "pydict list \<Rightarrow> (string \<times> int) list \<Rightarrow> cleanup_error + (string \<times> int) list" where
  "job_values [] vs = Inr vs"
| "job_values (job # jobs) vs = rbind (parse job True) (\<lambda>n. job_values jobs (upd (job_name job) n vs))"

fun fold_windows ::
  "string \<Rightarrow> (string \<times> int) list \<Rightarrow> pydict list \<Rightarrow> (string \<times> int) list \<Rightarrow> fold_conflict + (string \<times> int) list" where
  "fold_windows eng vs [] ws = Inr ws"
| "fold_windows eng vs (job # jobs) ws =
     (case types_a_job_writes eng job of
        None \<Rightarrow> Inl (UnknownJob (job_name job))
      | Some kinds \<Rightarrow>
          fold_windows eng vs jobs (foldl (\<lambda>acc kind. upd kind (the (map_of vs (job_name job))) acc) ws kinds))"

definition pop_retention :: "pyval \<Rightarrow> pyval" where
  "pop_retention v =
     (case v of PDict job \<Rightarrow>
         if states_it job then PDict (filter (\<lambda>(k, x). k \<notin> set retention_names) job) else v
      | _ \<Rightarrow> v)"

text \<open>\<open>Inr None\<close> when there is nothing to fold, \<open>Inr (Some entry')\<close> the entry as it is left.\<close>

definition fold_entry :: "pydict \<Rightarrow> fold_conflict + pydict option" where
  "fold_entry entry =
     (let jobs = map as_dict (filter is_dict (as_list (get entry ''jobs'')));
          stating = filter states_it jobs in
      if stating = [] then Inr None
      else if states_it entry then Inl BothState
      else if \<exists>job\<in>set stating. is_dict (get job FIELD) then Inl ObjectAlready
      else case job_values stating [] of
        Inl e \<Rightarrow> Inl (Unparsed e)
      | Inr vs \<Rightarrow>
          if length stating \<noteq> length jobs then Inl SomeStateNone
          else
            let finish = (\<lambda>folded. Inr (Some (upd FIELD folded
                  (upd ''jobs'' (PList (map pop_retention (as_list (get entry ''jobs'')))) entry)))) in
            if card (set (map snd vs)) = 1 then finish (PInt (snd (hd vs)))
            else rbind (fold_windows (str_or (get entry ''db_type'')) vs stating []) (\<lambda>ws.
              finish (PDict (upd DEFAULT_KEY (PInt (Max (set (map snd vs))))
                (map (\<lambda>(k, n). (k, PInt n)) ws)))))"

subsection \<open>Was it the retention\<close>

datatype removal = NotItsRetention | ChainRuleRemovesIt | PastItsWindow

text \<open>\<open>moment\<close> is \<^verbatim>\<open>datetime.fromisoformat\<close> on the normalised text, \<open>None\<close> where it raises.\<close>

definition removed_by_retention ::
  "(string \<Rightarrow> instant option) \<Rightarrow> retention \<Rightarrow> string \<Rightarrow> string option \<Rightarrow> string \<Rightarrow> removal" where
  "removed_by_retention moment r file_type ended_at now_utc =
     (case window_for r file_type of
        None \<Rightarrow> NotItsRetention
      | Some window \<Rightarrow>
          if ended_at = None \<or> ended_at = Some [] then NotItsRetention
          else if window = 0 then ChainRuleRemovesIt
          else case (moment (the ended_at), moment now_utc) of
            (Some ended, Some now) \<Rightarrow> if ended < now - sec window then PastItsWindow else NotItsRetention
          | _ \<Rightarrow> NotItsRetention)"

subsection \<open>Lemmas on the parser\<close>

definition wf_window :: "int option \<Rightarrow> bool" where
  "wf_window w = (case w of None \<Rightarrow> True | Some n \<Rightarrow> 0 \<le> n)"

lemma parse_window_wf: "parse_window v name = Inr w \<Longrightarrow> wf_window w"
  by (auto simp: parse_window_def wf_window_def split: if_splits option.splits)

lemma parse_window_value: "wf_window w \<Longrightarrow> parse_window (window_value w) name = Inr w"
proof (cases w)
  case None
  have "lower (strip ''keep'') = ''keep''" by code_simp
  with None show ?thesis by (simp add: parse_window_def window_value_def KEEP_def)
qed (auto simp: parse_window_def window_value_def wf_window_def)

lemma upd_entries: "(x, y) \<in> set (upd k w ws) \<Longrightarrow> (x, y) = (k, w) \<or> (x, y) \<in> set ws"
  by (induction ws) (auto split: if_splits)

lemma parse_items_wf:
  assumes "parse_items allowed items ws d has = Inr (ws', d', has')"
    and "distinct (map fst ws)" "fst ` set ws \<subseteq> set allowed" "\<forall>w\<in>snd ` set ws. wf_window w" "wf_window d"
  shows "distinct (map fst ws') \<and> fst ` set ws' \<subseteq> set allowed \<and> (\<forall>w\<in>snd ` set ws'. wf_window w) \<and> wf_window d'"
  using assms
proof (induction allowed items ws d has rule: parse_items.induct)
  case (2 allowed key v items ws d has)
  show ?case
  proof (cases "lower (strip key) = DEFAULT_KEY")
    case True
    with "2.prems"(1) obtain w where w: "parse_window v (strip key) = Inr w"
      "parse_items allowed items ws w True = Inr (ws', d', has')" by (auto simp: rbind_eq_Inr)
    from "2.IH"(1) [OF refl True w(2)] "2.prems" parse_window_wf [OF w(1)] show ?thesis by blast
  next
    case False
    with "2.prems"(1) obtain w where w: "parse_window v (strip key) = Inr w" "upper (strip key) \<in> set allowed"
      "parse_items allowed items (upd (upper (strip key)) w ws) d has = Inr (ws', d', has')"
      by (auto simp: Let_def rbind_eq_Inr split: if_splits)
    show ?thesis
    proof (rule "2.IH"(2) [OF refl False _ w(3)])
      show "\<forall>x\<in>snd ` set (upd (upper (strip key)) w ws). wf_window x"
        using "2.prems"(4) parse_window_wf [OF w(1)] by (auto dest!: upd_entries)
    qed (use "2.prems" w(2) in \<open>auto intro: distinct_upd\<close>)
  qed
qed simp

definition canonical :: "string \<Rightarrow> bool" where
  "canonical t = (strip t = t \<and> upper t = t \<and> lower t \<noteq> DEFAULT_KEY \<and> t \<noteq> DEFAULT_KEY)"

lemma ALL_FILE_TYPES_canonical: "\<forall>t\<in>set ALL_FILE_TYPES. canonical t"
  by code_simp

definition allowed_types :: "string \<Rightarrow> string list" where
  "allowed_types kind = (case map_of ENGINE_FILE_TYPES kind of None \<Rightarrow> ALL_FILE_TYPES | Some ts \<Rightarrow> ts)"

lemma allowed_types_canonical: "t \<in> set (allowed_types kind) \<Longrightarrow> canonical t"
  using ALL_FILE_TYPES_canonical
  by (auto simp: allowed_types_def ALL_FILE_TYPES_def split: option.splits dest!: map_of_SomeD)

lemma upd_append: "k \<notin> fst ` set ws \<Longrightarrow> upd k v ws = ws @ [(k, v)]"
  by (induction ws) auto

lemma parse_items_encoded:
  assumes "distinct (map fst (ws @ ws'))" "fst ` set ws' \<subseteq> set (allowed_types kind)" "\<forall>w\<in>snd ` set ws'. wf_window w"
  shows "parse_items (allowed_types kind) (map (\<lambda>(k, w). (k, window_value w)) ws' @ items) ws d has
    = parse_items (allowed_types kind) items (ws @ ws') d has"
  using assms
proof (induction ws' arbitrary: ws)
  case (Cons e ws')
  obtain k w where e: "e = (k, w)" by (cases e)
  have "canonical k" "k \<in> set (allowed_types kind)" "k \<notin> fst ` set ws" "wf_window w"
    using Cons.prems e allowed_types_canonical by auto
  then show ?case
    using Cons.IH [of "ws @ [(k, w)]"] Cons.prems e
    by (auto simp: canonical_def Let_def parse_window_value rbind_def upd_append)
qed simp

lemma parse_object_encoded:
  assumes "distinct (map fst ws)" "fst ` set ws \<subseteq> set (allowed_types (engine_name eng))"
    "\<forall>w\<in>snd ` set ws. wf_window w" "wf_window d"
  shows "parse_object (upd DEFAULT_KEY (window_value d) (map (\<lambda>(k, w). (k, window_value w)) ws)) eng
    = Inr \<lparr>windows = ws, default_window = d, uniform = False\<rparr>"
proof -
  have "DEFAULT_KEY \<notin> fst ` set (map (\<lambda>(k, w). (k, window_value w)) ws)"
    using assms(2) allowed_types_canonical by (force simp: canonical_def)
  moreover have "lower (strip DEFAULT_KEY) = DEFAULT_KEY" by code_simp
  ultimately show ?thesis
    using parse_items_encoded [of "[]" ws "engine_name eng" "[(DEFAULT_KEY, window_value d)]"] assms
    by (simp add: parse_object_def allowed_types_def [symmetric] Let_def upd_append parse_window_value rbind_def)
qed

lemma parse_object_wf:
  assumes "parse_object raw eng = Inr r"
  shows "distinct (map fst (windows r)) \<and> fst ` set (windows r) \<subseteq> set (allowed_types (engine_name eng)) \<and>
    (\<forall>w\<in>snd ` set (windows r). wf_window w) \<and> wf_window (default_window r) \<and> \<not> uniform r"
proof -
  from assms obtain ws d has where "parse_items (allowed_types (engine_name eng)) raw [] (Some DEFAULT_SECONDS) False = Inr (ws, d, has)"
    "r = \<lparr>windows = ws, default_window = d, uniform = False\<rparr>"
    by (auto simp: parse_object_def allowed_types_def [symmetric] Let_def rbind_eq_Inr split: if_splits)
  with parse_items_wf [OF this(1)] show ?thesis by (simp add: wf_window_def DEFAULT_SECONDS_def)
qed

lemma longest_ge:
  assumes "w = default_window r \<or> (\<exists>k. (k, w) \<in> set (windows r) \<and> k \<noteq> ''CERT'')" "w = Some n"
  shows "longest r = KEEP_AS_SECONDS \<or> n \<le> longest r"
proof -
  define st where "st = map snd (filter (\<lambda>(kind, w). kind \<noteq> ''CERT'') (windows r)) @ [default_window r]"
  have "w \<in> set st" using assms(1) by (force simp: st_def)
  then have "the w \<in> the ` set st" by (rule imageI)
  then have "n \<le> Max (set (map the st))" using assms(2) by (intro Max_ge) simp_all
  then show ?thesis unfolding longest_def st_def [symmetric] Let_def by simp
qed

lemma longest_nonneg: "wf_window (default_window r) \<Longrightarrow> 0 \<le> longest r"
proof (cases "default_window r")
  case (Some n)
  assume "wf_window (default_window r)"
  with Some longest_ge [of "default_window r" r n] show ?thesis
    unfolding wf_window_def by (auto simp: KEEP_AS_SECONDS_def)
qed (simp add: longest_def KEEP_AS_SECONDS_def)

lemma parse_nonneg: "parse entry required = Inr n \<Longrightarrow> 0 \<le> n"
proof -
  have num: "0 \<le> n" if "parse_number raw source factor = Inr n" "0 \<le> factor" for raw source factor
    using that parse_object_wf longest_nonneg
    by (fastforce simp: parse_number_def rbind_eq_Inr split: pyval.splits option.splits if_splits)
  assume "parse entry required = Inr n"
  then show ?thesis
    using num [of "get entry FIELD" FIELD 1] num
    by (fastforce simp: parse_def LEGACY_FIELDS_def DEFAULT_SECONDS_def split: if_splits option.splits)
qed

subsection \<open>Lemmas on the fold\<close>

lemma job_values_Cons:
  assumes "job_values (j # jobs) vs = Inr vs'"
  obtains n where "parse j True = Inr n" "job_values jobs (upd (job_name j) n vs) = Inr vs'"
  using assms by (auto simp: rbind_eq_Inr)

lemma job_values_parse: "job_values jobs vs = Inr vs' \<Longrightarrow> job \<in> set jobs \<Longrightarrow> \<exists>n. parse job True = Inr n"
proof (induction jobs arbitrary: vs)
  case (Cons j jobs)
  from Cons.prems(1) obtain m where "parse j True = Inr m" "job_values jobs (upd (job_name j) m vs) = Inr vs'"
    by (rule job_values_Cons)
  with Cons.IH Cons.prems(2) show ?case by auto
qed simp

lemma job_values_from:
  "job_values jobs vs = Inr vs' \<Longrightarrow> (x, n) \<in> set vs' \<Longrightarrow> (\<exists>job\<in>set jobs. parse job True = Inr n) \<or> (x, n) \<in> set vs"
proof (induction jobs arbitrary: vs)
  case (Cons j jobs)
  from Cons.prems(1) obtain m where m: "parse j True = Inr m" "job_values jobs (upd (job_name j) m vs) = Inr vs'"
    by (rule job_values_Cons)
  from Cons.IH [OF m(2) Cons.prems(2)] m(1) show ?case by (auto dest: upd_entries)
qed simp

lemma job_values_other: "job_values jobs vs = Inr vs' \<Longrightarrow> x \<notin> job_name ` set jobs \<Longrightarrow> map_of vs' x = map_of vs x"
proof (induction jobs arbitrary: vs)
  case (Cons j jobs)
  from Cons.prems(1) obtain m where "job_values jobs (upd (job_name j) m vs) = Inr vs'" by (rule job_values_Cons)
  from Cons.IH [OF this] Cons.prems(2) show ?case by simp
qed simp

lemma job_values_of:
  "job_values jobs vs = Inr vs' \<Longrightarrow> distinct (map job_name jobs) \<Longrightarrow> job \<in> set jobs \<Longrightarrow>
   parse job True = Inr n \<Longrightarrow> map_of vs' (job_name job) = Some n"
proof (induction jobs arbitrary: vs)
  case (Cons j jobs)
  from Cons.prems(1) obtain m where m: "parse j True = Inr m" "job_values jobs (upd (job_name j) m vs) = Inr vs'"
    by (rule job_values_Cons)
  show ?case
  proof (cases "job = j")
    case True
    with job_values_other [OF m(2), of "job_name j"] Cons.prems m(1) show ?thesis by simp
  next
    case False
    with Cons.IH [OF m(2)] Cons.prems show ?thesis by simp
  qed
qed simp

lemma job_values_names: "job_values jobs vs = Inr vs' \<Longrightarrow> fst ` set vs' = job_name ` set jobs \<union> fst ` set vs"
proof (induction jobs arbitrary: vs)
  case (Cons j jobs)
  from Cons.prems obtain m where "job_values jobs (upd (job_name j) m vs) = Inr vs'" by (rule job_values_Cons)
  from Cons.IH [OF this] show ?case by auto
qed simp

text \<open>The types a job writes are types of its engine.\<close>

lemma types_a_job_writes_allowed:
  assumes "types_a_job_writes eng job = Some kinds"
  shows "set kinds \<subseteq> set (allowed_types (engine_name (Some eng)))"
proof -
  have "upper ''full'' = ''FULL''" "upper ''diff'' = ''DIFF''" "upper ''log'' = ''LOG''" by code_simp+
  with assms show ?thesis
    by (auto simp: types_a_job_writes_def Let_def allowed_types_def ENGINE_FILE_TYPES_def split: if_splits)
qed

lemma upd_fold_entries:
  "(x, y) \<in> set (foldl (\<lambda>acc kind. upd kind v acc) ws kinds) \<Longrightarrow> (x \<in> set kinds \<and> y = v) \<or> (x, y) \<in> set ws"
  by (induction kinds arbitrary: ws) (auto dest: upd_entries)

lemma upd_fold_distinct: "distinct (map fst ws) \<Longrightarrow> distinct (map fst (foldl (\<lambda>acc kind. upd kind v acc) ws kinds))"
  by (induction kinds arbitrary: ws) (auto intro: distinct_upd)

lemma upd_fold_get:
  "map_of (foldl (\<lambda>acc kind. upd kind v acc) ws kinds) t = (if t \<in> set kinds then Some v else map_of ws t)"
  by (induction kinds arbitrary: ws) auto

lemma fold_windows_Cons:
  assumes "fold_windows eng vs (job # jobs) ws = Inr ws'"
  obtains kinds where "types_a_job_writes eng job = Some kinds"
    "fold_windows eng vs jobs (foldl (\<lambda>acc kind. upd kind (the (map_of vs (job_name job))) acc) ws kinds) = Inr ws'"
  using assms by (auto split: option.splits)

lemma fold_windows_wf:
  assumes "fold_windows eng vs jobs ws = Inr ws'" "distinct (map fst ws)"
    "fst ` set ws \<subseteq> set (allowed_types (engine_name (Some eng)))" "snd ` set ws \<subseteq> snd ` set vs"
    "job_name ` set jobs \<subseteq> fst ` set vs"
  shows "distinct (map fst ws') \<and> fst ` set ws' \<subseteq> set (allowed_types (engine_name (Some eng))) \<and> snd ` set ws' \<subseteq> snd ` set vs"
  using assms
proof (induction jobs arbitrary: ws)
  case (Cons job jobs)
  from Cons.prems(1) obtain kinds where k: "types_a_job_writes eng job = Some kinds"
    "fold_windows eng vs jobs (foldl (\<lambda>acc kind. upd kind (the (map_of vs (job_name job))) acc) ws kinds) = Inr ws'"
    by (rule fold_windows_Cons)
  have "job_name job \<in> fst ` set vs" using Cons.prems(5) by simp
  then obtain v where v: "map_of vs (job_name job) = Some v" by (metis map_of_eq_None_iff not_None_eq)
  then have "v \<in> snd ` set vs" by (force dest: map_of_SomeD)
  show ?case
    by (rule Cons.IH [OF k(2)])
      (use Cons.prems(2-5) types_a_job_writes_allowed [OF k(1)] v \<open>v \<in> snd ` set vs\<close>
        in \<open>auto intro!: upd_fold_distinct intro: rev_image_eqI dest!: upd_fold_entries\<close>)
qed simp

lemma fold_windows_of:
  assumes "fold_windows eng vs jobs ws = Inr ws'" "job \<in> set jobs"
    "types_a_job_writes eng job = Some kinds" "t \<in> set kinds" "map_of vs (job_name job) = Some n"
    "\<forall>j\<in>set jobs. \<forall>ks. types_a_job_writes eng j = Some ks \<longrightarrow> t \<in> set ks \<longrightarrow> j = job"
  shows "map_of ws' t = Some n"
  using assms
proof (induction jobs arbitrary: ws)
  case Nil
  from Nil.prems(2) show ?case by simp
next
  case (Cons j jobs)
  from Cons.prems(1) obtain ks where k: "types_a_job_writes eng j = Some ks"
    "fold_windows eng vs jobs (foldl (\<lambda>acc kind. upd kind (the (map_of vs (job_name j))) acc) ws ks) = Inr ws'"
    by (rule fold_windows_Cons)
  show ?case
  proof (cases "job \<in> set jobs")
    case True
    show ?thesis by (rule Cons.IH [OF k(2) True Cons.prems(3-5)]) (use Cons.prems(6) in simp)
  next
    case False
    then have j: "j = job" "ks = kinds" using Cons.prems(2,3) k(1) by auto
    have other: "fold_windows eng vs jobs acc = Inr ws' \<Longrightarrow> map_of ws' t = map_of acc t" for acc
      using Cons.prems(6) False
    proof (induction jobs arbitrary: acc)
      case (Cons i jobs)
      from Cons.prems(1) obtain iks where i: "types_a_job_writes eng i = Some iks"
        "fold_windows eng vs jobs (foldl (\<lambda>acc kind. upd kind (the (map_of vs (job_name i))) acc) acc iks) = Inr ws'"
        by (rule fold_windows_Cons)
      then have "t \<notin> set iks" using Cons.prems(2,3) by auto
      with Cons.IH [OF i(2)] Cons.prems(2,3) show ?case by (auto simp: upd_fold_get)
    qed simp
    show ?thesis using other [OF k(2)] j Cons.prems(4,5) by (simp add: upd_fold_get)
  qed
qed

text \<open>What the fold leaves behind, read back by the parser.\<close>

definition jobs_of :: "pydict \<Rightarrow> pydict list" where
  "jobs_of entry = map as_dict (filter is_dict (as_list (get entry ''jobs'')))"

lemma pop_retention_states:
  "is_dict v \<Longrightarrow> \<not> states_it (as_dict (pop_retention v))"
proof -
  have "get (filter (\<lambda>(k, x). k \<notin> K) d) name = PNone" if "name \<in> K" for name K and d :: pydict
    using that by (induction d) (auto simp: get_def)
  then show "is_dict v \<Longrightarrow> \<not> states_it (as_dict (pop_retention v))"
    by (auto simp: pop_retention_def is_dict_def as_dict_def states_it_def split: pyval.splits)
qed

lemma pop_retention_dict: "is_dict (pop_retention v) = is_dict v"
  by (auto simp: pop_retention_def is_dict_def split: pyval.splits)

lemma fold_entry_shape:
  assumes "fold_entry entry = Inr (Some entry')"
  obtains vs folded where "job_values (jobs_of entry) [] = Inr vs" "jobs_of entry \<noteq> []"
    "entry' = upd FIELD folded (upd ''jobs'' (PList (map pop_retention (as_list (get entry ''jobs'')))) entry)"
    "(card (set (map snd vs)) = 1 \<and> folded = PInt (snd (hd vs))) \<or>
     (\<exists>ws. fold_windows (str_or (get entry ''db_type'')) vs (jobs_of entry) [] = Inr ws \<and>
        folded = PDict (upd DEFAULT_KEY (PInt (Max (set (map snd vs)))) (map (\<lambda>(k, n). (k, PInt n)) ws)))"
proof -
  have "filter states_it (jobs_of entry) = jobs_of entry" if "length (filter states_it (jobs_of entry)) = length (jobs_of entry)"
    using that by (metis filter_True length_filter_less less_irrefl)
  with assms that show ?thesis
    by (auto simp: fold_entry_def Let_def jobs_of_def [symmetric] rbind_eq_Inr split: if_splits sum.splits)
qed

lemma fold_entry_parses:
  assumes "fold_entry entry = Inr (Some entry')"
  defines "eng \<equiv> str_or (get entry ''db_type'')"
  obtains vs r where "job_values (jobs_of entry) [] = Inr vs" "parse_per_type entry' (Some eng) True = Inr r"
    "(card (set (map snd vs)) = 1 \<and> r = \<lparr>windows = [], default_window = Some (snd (hd vs)), uniform = True\<rparr>) \<or>
     (\<exists>ws. fold_windows eng vs (jobs_of entry) [] = Inr ws \<and>
        r = \<lparr>windows = map (\<lambda>(k, n). (k, Some n)) ws, default_window = Some (Max (set (map snd vs))), uniform = False\<rparr>)"
    "snd (hd vs) \<in> snd ` set vs" "Max (set (map snd vs)) \<in> snd ` set vs"
proof -
  from assms(1) obtain vs folded where sh: "job_values (jobs_of entry) [] = Inr vs" "jobs_of entry \<noteq> []"
    "entry' = upd FIELD folded (upd ''jobs'' (PList (map pop_retention (as_list (get entry ''jobs'')))) entry)"
    and alt: "(card (set (map snd vs)) = 1 \<and> folded = PInt (snd (hd vs))) \<or>
     (\<exists>ws. fold_windows eng vs (jobs_of entry) [] = Inr ws \<and>
        folded = PDict (upd DEFAULT_KEY (PInt (Max (set (map snd vs)))) (map (\<lambda>(k, n). (k, PInt n)) ws)))"
    unfolding eng_def by (rule fold_entry_shape)
  have names: "fst ` set vs = job_name ` set (jobs_of entry)" using job_values_names [OF sh(1)] by simp
  then have ne: "vs \<noteq> []" using sh(2) by auto
  have nonneg: "0 \<le> n" if "n \<in> snd ` set vs" for n
  proof -
    from that obtain x where "(x, n) \<in> set vs" by auto
    with job_values_from [OF sh(1)] have "\<exists>job. parse job True = Inr n" by fastforce
    then show ?thesis using parse_nonneg by blast
  qed
  have top: "Max (set (map snd vs)) \<in> snd ` set vs" "snd (hd vs) \<in> snd ` set vs"
    using ne Max_in [of "set (map snd vs)"] by auto
  have field: "get entry' FIELD = folded" by (simp add: sh(3) get_def)
  from alt show ?thesis
  proof
    assume one: "card (set (map snd vs)) = 1 \<and> folded = PInt (snd (hd vs))"
    then have "parse_per_type entry' (Some eng) True = Inr \<lparr>windows = [], default_window = Some (snd (hd vs)), uniform = True\<rparr>"
      using field nonneg [OF top(2)] by (simp add: parse_per_type_def parse_def parse_number_def rbind_def)
    with that sh(1) one top show ?thesis by blast
  next
    assume "\<exists>ws. fold_windows eng vs (jobs_of entry) [] = Inr ws \<and>
        folded = PDict (upd DEFAULT_KEY (PInt (Max (set (map snd vs)))) (map (\<lambda>(k, n). (k, PInt n)) ws))"
    then obtain ws where ws: "fold_windows eng vs (jobs_of entry) [] = Inr ws"
      "folded = PDict (upd DEFAULT_KEY (PInt (Max (set (map snd vs)))) (map (\<lambda>(k, n). (k, PInt n)) ws))" by blast
    let ?ws = "map (\<lambda>(k, n). (k, Some n)) ws"
    note wf = fold_windows_wf [OF ws(1), simplified, OF eq_refl [OF names [symmetric]]]
    have "parse_object (upd DEFAULT_KEY (window_value (Some (Max (set (map snd vs))))) (map (\<lambda>(k, w). (k, window_value w)) ?ws)) (Some eng)
      = Inr \<lparr>windows = ?ws, default_window = Some (Max (set (map snd vs))), uniform = False\<rparr>"
    proof (rule parse_object_encoded)
      show "distinct (map fst ?ws)" using wf by (simp add: o_def split_def)
      show "fst ` set ?ws \<subseteq> set (allowed_types (engine_name (Some eng)))" using wf by (force simp: image_iff)
      show "\<forall>w\<in>snd ` set ?ws. wf_window w" using wf nonneg by (force simp: wf_window_def)
      show "wf_window (Some (Max (set (map snd vs))))" using nonneg [OF top(1)] by (simp add: wf_window_def)
    qed
    then have "parse_per_type entry' (Some eng) True =
        Inr \<lparr>windows = ?ws, default_window = Some (Max (set (map snd vs))), uniform = False\<rparr>"
      using field ws(2) by (simp add: parse_per_type_def window_value_def o_def split_def)
    with that sh(1) ws(1) top show ?thesis by blast
  qed
qed

subsection \<open>Properties\<close>

text \<open>The value a retention is written back with is read back as the same windows, in the integer
  form and in the per-type form, for every engine.\<close>

theorem retention_config_roundtrip:
  assumes "parse_per_type entry eng required = Inr r"
  shows "parse_per_type [(FIELD, as_config r)] eng required' = Inr r"
proof (cases "uniform r")
  case True
  with assms obtain n where "parse entry required = Inr n" "r = \<lparr>windows = [], default_window = Some n, uniform = True\<rparr>"
    by (auto simp: parse_per_type_def rbind_eq_Inr dest: parse_object_wf split: pyval.splits)
  with parse_nonneg [OF this(1)] show ?thesis
    by (simp add: parse_per_type_def as_config_def get_def parse_def parse_number_def rbind_def)
next
  case False
  with assms obtain raw where "parse_object raw eng = Inr r"
    by (auto simp: parse_per_type_def rbind_eq_Inr split: pyval.splits)
  from parse_object_wf [OF this] parse_object_encoded [of "windows r" eng "default_window r"]
  show ?thesis by (simp add: parse_per_type_def as_config_def get_def)
qed

theorem retention_config_roundtrip_witness:
  "parse_per_type [(FIELD, PDict [(''LOG'', PInt 604800), (''CERT'', PStr ''keep''), (''default'', PInt 691200)])] (Some ''mssql'') True
   = Inr \<lparr>windows = [(''LOG'', Some 604800), (''CERT'', None)], default_window = Some 691200, uniform = False\<rparr>"
proof -
  let ?r = "\<lparr>windows = [(''LOG'', Some 604800), (''CERT'', None)], default_window = Some 691200, uniform = False\<rparr>"
  have "parse_per_type [(FIELD, PDict [(''log'', PStr ''604800''), (''default'', PInt 691200), (''Cert'', PStr '' Keep'')])]
      (Some ''mssql'') False = Inr ?r"
    "as_config ?r = PDict [(''LOG'', PInt 604800), (''CERT'', PStr ''keep''), (''default'', PInt 691200)]"
    by code_simp+
  with retention_config_roundtrip [OF this(1), of True] show ?thesis by simp
qed

lemma window_for_wf:
  assumes "parse_per_type entry eng required = Inr r"
  shows "wf_window (window_for r t)"
proof (cases "uniform r")
  case True
  with assms obtain n where "parse entry required = Inr n" "r = \<lparr>windows = [], default_window = Some n, uniform = True\<rparr>"
    by (auto simp: parse_per_type_def rbind_eq_Inr dest: parse_object_wf split: pyval.splits)
  with parse_nonneg [OF this(1)] show ?thesis by (simp add: window_for_def wf_window_def)
next
  case False
  with assms obtain raw where "parse_object raw eng = Inr r"
    by (auto simp: parse_per_type_def rbind_eq_Inr split: pyval.splits)
  from parse_object_wf [OF this] show ?thesis
    by (auto simp: window_for_def Let_def wf_window_def [of None] dest!: map_of_SomeD split: option.splits)
qed

text \<open>Windows a registrar accepts say what they seem to say: on SQL Server and PostgreSQL, when the
  base backups have an age gate, point-in-time recovery reaches back exactly as far as the log
  window states, and the logs are not kept past the base they restore onto.\<close>

theorem accepted_log_window_is_the_reach:
  assumes "registrar_refusal entry eng = None" "parse_per_type entry (Some eng) True = Inr r"
    and "map_of BASE_TYPE (engine_name (Some eng)) = Some bt" "map_of LOG_TYPE (engine_name (Some eng)) = Some lt"
    and "engine_name (Some eng) \<noteq> ''oracle''" "window_for r bt \<noteq> Some 0"
  shows "point_in_time_reach r eng = window_for r lt \<and>
    (case window_for r lt of None \<Rightarrow> window_for r bt = None
     | Some w \<Rightarrow> (case window_for r bt of None \<Rightarrow> True | Some b \<Rightarrow> w \<le> b))"
proof -
  have "\<exists>ds. map_of DEPENDENT_TYPES (engine_name (Some eng)) = Some ds \<and> lt \<in> set ds"
    using assms(4) by (auto simp: LOG_TYPE_def DEPENDENT_TYPES_def split: if_splits)
  moreover have "dependents_past_their_base r eng = []"
    using assms(1,2) by (auto simp: registrar_refusal_def Let_def split: if_splits)
  ultimately have fit: "\<not> (if window_for r bt = None \<or> window_for r lt = Some 0 then False
      else window_for r lt = None \<or> (the (window_for r bt) \<noteq> 0 \<and> the (window_for r lt) > the (window_for r bt)))"
    using assms(3) by (auto simp: dependents_past_their_base_def Let_def filter_empty_conv)
  have wf: "wf_window (window_for r lt)" "wf_window (window_for r bt)" by (rule window_for_wf [OF assms(2)])+
  have reach: "point_in_time_reach r eng = (let numbers = List.map_filter id [window_for r bt, window_for r lt] in
      if numbers = [] then None else Some (Min (set numbers)))"
    using assms(3-5) by (simp add: point_in_time_reach_def Let_def)
  show ?thesis
    using fit wf assms(6) unfolding reach
    by (cases "window_for r lt"; cases "window_for r bt") (auto simp: map_filter_simps wf_window_def min_def split: if_splits)
qed

theorem accepted_log_window_is_the_reach_witness:
  "point_in_time_reach \<lparr>windows = [(''LOG'', Some 604800)], default_window = Some 691200, uniform = False\<rparr> ''mssql'' = Some 604800"
proof -
  let ?r = "\<lparr>windows = [(''LOG'', Some 604800)], default_window = Some 691200, uniform = False\<rparr>"
  let ?e = "[(FIELD, PDict [(''log'', PInt 604800), (''default'', PInt 691200)])]"
  have "registrar_refusal ?e ''mssql'' = None" "parse_per_type ?e (Some ''mssql'') True = Inr ?r"
    "map_of BASE_TYPE (engine_name (Some ''mssql'')) = Some ''FULL''" "map_of LOG_TYPE (engine_name (Some ''mssql'')) = Some ''LOG''"
    "engine_name (Some ''mssql'') \<noteq> ''oracle''" "window_for ?r ''FULL'' \<noteq> Some 0" "window_for ?r ''LOG'' = Some 604800"
    by code_simp+
  with accepted_log_window_is_the_reach [OF this(1-6)] show ?thesis by simp
qed

text \<open>The one number a reader of an object gets when it prunes every type alike never cuts a type
  shorter than the object asks: each window of a type other than CERT is at most that number, or
  the number stands for keep.\<close>

theorem single_number_covers_every_type:
  assumes "get entry FIELD = PDict d" "parse entry required = Inr n" "parse_per_type entry None required = Inr r"
    and "upper (strip t) \<noteq> ''CERT''" "window_for r t = Some w"
  shows "n = KEEP_AS_SECONDS \<or> w \<le> n"
proof -
  have r: "parse_object d None = Inr r" "n = longest r"
    using assms(1-3) by (auto simp: parse_def parse_number_def parse_per_type_def rbind_eq_Inr)
  have "Some w = default_window r \<or> (\<exists>k. (k, Some w) \<in> set (windows r) \<and> k \<noteq> ''CERT'')"
    using assms(4,5) by (auto simp: window_for_def Let_def split: option.splits dest!: map_of_SomeD)
  from longest_ge [OF this] r(2) show ?thesis by simp
qed

theorem single_number_covers_every_type_witness:
  "(691200::int) = KEEP_AS_SECONDS \<or> 604800 \<le> (691200::int)"
proof (rule single_number_covers_every_type [where t = "''LOG''" and required = True])
  let ?e = "[(FIELD, PDict [(''log'', PInt 604800), (''default'', PInt 691200)])]"
  let ?r = "\<lparr>windows = [(''LOG'', Some 604800)], default_window = Some 691200, uniform = False\<rparr>"
  show "get ?e FIELD = PDict [(''log'', PInt 604800), (''default'', PInt 691200)]" by (simp add: get_def)
  show "parse ?e True = Inr 691200" "parse_per_type ?e None True = Inr ?r"
    "upper (strip ''LOG'') \<noteq> ''CERT''" "window_for ?r ''LOG'' = Some 604800" by code_simp+
qed

text \<open>The upgrade step that moves the jobs' windows onto their entry keeps what each job meant: the
  folded entry parses, no job states a window any more, every window it gives was stated by one of
  the jobs, and a file type that only one job writes keeps that job's own window.\<close>

theorem fold_keeps_what_each_job_meant:
  assumes "fold_entry entry = Inr (Some entry')"
  shows "\<exists>r. parse_per_type entry' (Some (str_or (get entry ''db_type''))) True = Inr r \<and>
    (\<forall>job\<in>set (jobs_of entry'). \<not> states_it job) \<and>
    (\<forall>t w. window_for r t = Some w \<longrightarrow> (\<exists>job\<in>set (jobs_of entry). parse job True = Inr w)) \<and>
    (\<forall>job kinds t n. distinct (map job_name (jobs_of entry)) \<longrightarrow> job \<in> set (jobs_of entry) \<longrightarrow>
       types_a_job_writes (str_or (get entry ''db_type'')) job = Some kinds \<longrightarrow> t \<in> set kinds \<longrightarrow> parse job True = Inr n \<longrightarrow>
       (\<forall>j\<in>set (jobs_of entry). \<forall>ks. types_a_job_writes (str_or (get entry ''db_type'')) j = Some ks \<longrightarrow> t \<in> set ks \<longrightarrow> j = job) \<longrightarrow>
       window_for r t = Some n)"
proof -
  let ?eng = "str_or (get entry ''db_type'')"
  from assms obtain vs r where vs: "job_values (jobs_of entry) [] = Inr vs" and r: "parse_per_type entry' (Some ?eng) True = Inr r"
    and alt: "(card (set (map snd vs)) = 1 \<and> r = \<lparr>windows = [], default_window = Some (snd (hd vs)), uniform = True\<rparr>) \<or>
     (\<exists>ws. fold_windows ?eng vs (jobs_of entry) [] = Inr ws \<and>
        r = \<lparr>windows = map (\<lambda>(k, n). (k, Some n)) ws, default_window = Some (Max (set (map snd vs))), uniform = False\<rparr>)"
    and top: "snd (hd vs) \<in> snd ` set vs" "Max (set (map snd vs)) \<in> snd ` set vs"
    by (rule fold_entry_parses)
  have states: "\<forall>job\<in>set (jobs_of entry'). \<not> states_it job"
    using assms by (rule fold_entry_shape) (auto simp: jobs_of_def get_def FIELD_def as_list_def pop_retention_dict
        dest: pop_retention_states)
  have stated: "\<exists>job\<in>set (jobs_of entry). parse job True = Inr w" if "w \<in> snd ` set vs" for w
    using that job_values_from [OF vs] by fastforce
  have of_ws: "snd ` set ws \<subseteq> snd ` set vs" if "fold_windows ?eng vs (jobs_of entry) [] = Inr ws" for ws
    using fold_windows_wf [OF that] job_values_names [OF vs] by simp
  have from_job: "\<exists>job\<in>set (jobs_of entry). parse job True = Inr w" if "window_for r t = Some w" for t w
  proof (rule stated)
    from alt show "w \<in> snd ` set vs"
    proof
      assume "card (set (map snd vs)) = 1 \<and> r = \<lparr>windows = [], default_window = Some (snd (hd vs)), uniform = True\<rparr>"
      with that top show ?thesis by (simp add: window_for_def)
    next
      assume "\<exists>ws. fold_windows ?eng vs (jobs_of entry) [] = Inr ws \<and>
        r = \<lparr>windows = map (\<lambda>(k, n). (k, Some n)) ws, default_window = Some (Max (set (map snd vs))), uniform = False\<rparr>"
      then obtain ws where ws: "fold_windows ?eng vs (jobs_of entry) [] = Inr ws"
        "r = \<lparr>windows = map (\<lambda>(k, n). (k, Some n)) ws, default_window = Some (Max (set (map snd vs))), uniform = False\<rparr>" by blast
      show ?thesis
      proof (cases "map_of ws (upper (strip t))")
        case None
        with that ws(2) top show ?thesis by (simp add: window_for_def map_of_map Let_def split: if_splits)
      next
        case (Some n)
        then have "n \<in> snd ` set ws" by (force dest: map_of_SomeD)
        with Some that ws(2) of_ws [OF ws(1)] show ?thesis by (auto simp: window_for_def map_of_map Let_def)
      qed
    qed
  qed
  have own: "window_for r t = Some n" if "distinct (map job_name (jobs_of entry))" "job \<in> set (jobs_of entry)"
    "types_a_job_writes ?eng job = Some kinds" "t \<in> set kinds" "parse job True = Inr n"
    "\<forall>j\<in>set (jobs_of entry). \<forall>ks. types_a_job_writes ?eng j = Some ks \<longrightarrow> t \<in> set ks \<longrightarrow> j = job" for job kinds t n
  proof -
    have n: "map_of vs (job_name job) = Some n" by (rule job_values_of [OF vs that(1,2,5)])
    have can: "canonical t" using types_a_job_writes_allowed [OF that(3)] that(4) allowed_types_canonical by blast
    from alt show ?thesis
    proof
      assume one: "card (set (map snd vs)) = 1 \<and> r = \<lparr>windows = [], default_window = Some (snd (hd vs)), uniform = True\<rparr>"
      then obtain x where "snd ` set vs = {x}" by (auto simp: card_1_singleton_iff)
      moreover have "n \<in> snd ` set vs" using map_of_SomeD [OF n] by force
      ultimately have "n = snd (hd vs)" using top(1) by simp
      with one show ?thesis by (simp add: window_for_def)
    next
      assume "\<exists>ws. fold_windows ?eng vs (jobs_of entry) [] = Inr ws \<and>
        r = \<lparr>windows = map (\<lambda>(k, n). (k, Some n)) ws, default_window = Some (Max (set (map snd vs))), uniform = False\<rparr>"
      with fold_windows_of [OF _ that(2-4) n that(6)] can show ?thesis
        by (auto simp: window_for_def canonical_def map_of_map Let_def)
    qed
  qed
  show ?thesis using r states from_job own by blast
qed

definition two_jobs :: pydict where
  "two_jobs = [(''db_type'', PStr ''sqlserver''), (''jobs'', PList
     [PDict [(''job'', PStr ''f''), (''env'', PDict [(''BACKUP_LEVEL'', PStr ''full'')]), (''retention_days'', PInt 14)],
      PDict [(''job'', PStr ''l''), (''env'', PDict [(''BACKUP_LEVEL'', PStr ''log'')]), (''cleanup_retention'', PInt 604800)]])]"

theorem fold_keeps_what_each_job_meant_witness:
  "\<exists>entry' r. fold_entry two_jobs = Inr (Some entry') \<and> parse_per_type entry' (Some ''sqlserver'') True = Inr r \<and>
     window_for r ''FULL'' = Some 1209600 \<and> window_for r ''LOG'' = Some 604800"
proof -
  let ?f = "[(''job'', PStr ''f''), (''env'', PDict [(''BACKUP_LEVEL'', PStr ''full'')]), (''retention_days'', PInt 14)]"
  let ?l = "[(''job'', PStr ''l''), (''env'', PDict [(''BACKUP_LEVEL'', PStr ''log'')]), (''cleanup_retention'', PInt 604800)]"
  obtain entry' where e: "fold_entry two_jobs = Inr (Some entry')" by (rule that, code_simp)
  have jobs: "jobs_of two_jobs = [?f, ?l]" "str_or (get two_jobs ''db_type'') = ''sqlserver''" by code_simp+
  have w: "types_a_job_writes ''sqlserver'' ?f = Some [''FULL'']" "types_a_job_writes ''sqlserver'' ?l = Some [''LOG'']"
    "parse ?f True = Inr 1209600" "parse ?l True = Inr 604800" "map job_name [?f, ?l] = [''f'', ''l'']"
    by code_simp+
  from fold_keeps_what_each_job_meant [OF e] obtain r where r: "parse_per_type entry' (Some ''sqlserver'') True = Inr r"
    and own: "\<forall>job kinds t n. distinct (map job_name [?f, ?l]) \<longrightarrow> job \<in> set [?f, ?l] \<longrightarrow>
       types_a_job_writes ''sqlserver'' job = Some kinds \<longrightarrow> t \<in> set kinds \<longrightarrow> parse job True = Inr n \<longrightarrow>
       (\<forall>j\<in>set [?f, ?l]. \<forall>ks. types_a_job_writes ''sqlserver'' j = Some ks \<longrightarrow> t \<in> set ks \<longrightarrow> j = job) \<longrightarrow>
       window_for r t = Some n"
    unfolding jobs by blast
  have "window_for r ''FULL'' = Some 1209600"
    by (rule own [rule_format, of ?f "[''FULL'']"]) (use w in auto)
  moreover have "window_for r ''LOG'' = Some 604800"
    by (rule own [rule_format, of ?l "[''LOG'']"]) (use w in auto)
  ultimately show ?thesis using e r by blast
qed

end
