(* ===== verification/Prune.thy ===== *)
theory Prune
  imports Retention "HOL-Library.Multiset"
begin

section \<open>Which backup files are obsolete\<close>

text \<open>
  Models \<^verbatim>\<open>dbabrain/lib/backupfiles_retention.py\<close>: the plan of a prune over a listing. A row of the
  listing is a record of the fields the planner reads, with an absent text as the empty one. Stamps
  are the texts \<^verbatim>\<open>YYYY-MM-DD HH:MM:SS\<close>, compared as text; \<open>stamp\<close> and \<open>strptime\<close>, which turn an
  instant into such a text and back, are parameters. The contract the two rules share is the locale
  \<open>prune_rule\<close>; the floor under both rules is proved in it once.
\<close>

subsection \<open>The listing\<close>

record listed =
  path :: string
  kind :: string
  database_name :: string
  finished_at :: string
  age_seconds :: "int option"
  size_bytes :: "int option"

record judged =
  row :: listed
  verdict :: string
  reason :: string

record stamps =
  stamp :: "instant \<Rightarrow> string"
  strptime :: "string \<Rightarrow> instant option"

definition FULL :: string where
  "FULL = ''full''"

definition OBSOLETE :: string where
  "OBSOLETE = ''obsolete''"

definition AGE :: string where
  "AGE = ''age''"

definition RECOVERY_WINDOW :: string where
  "RECOVERY_WINDOW = ''recovery_window''"

definition MASS_DELETE_MIN_FILES :: int where
  "MASS_DELETE_MIN_FILES = 10"

text \<open>More than half of at least ten files.\<close>

definition mass_delete_refused :: "int \<Rightarrow> int \<Rightarrow> bool" where
  "mass_delete_refused gone all_files = (all_files \<ge> MASS_DELETE_MIN_FILES \<and> rat_of_int gone > 1/2 * rat_of_int all_files)"

definition normalise :: "string \<Rightarrow> string" where
  "normalise v = (let text = strip v in if text = [] then [] else take 19 (replace_char (CHR ''T'') (CHR '' '') text))"

abbreviation finished :: "listed \<Rightarrow> string" where
  "finished f \<equiv> normalise (finished_at f)"

definition judged_as :: "listed \<Rightarrow> string \<Rightarrow> string \<Rightarrow> judged" where
  "judged_as x v why = \<lparr>row = x, verdict = v, reason = why\<rparr>"

subsection \<open>The clock that stamped the files\<close>

definition there_now :: "stamps \<Rightarrow> listed list \<Rightarrow> instant option" where
  "there_now st files =
     foldl (\<lambda>acc f.
       case age_seconds f of None \<Rightarrow> acc
       | Some age \<Rightarrow>
           if finished f = [] then acc
           else case strptime st (finished f) of None \<Rightarrow> acc
           | Some ended \<Rightarrow>
               (let moment = ended + sec age in
                case acc of None \<Rightarrow> Some moment | Some t \<Rightarrow> Some (max t moment)))
     None files"

definition source_cutoff :: "stamps \<Rightarrow> listed list \<Rightarrow> int \<Rightarrow> string" where
  "source_cutoff st files back = (case there_now st files of None \<Rightarrow> [] | Some t \<Rightarrow> stamp st (t - back))"

definition cutoff_of :: "stamps \<Rightarrow> listed list \<Rightarrow> instant \<Rightarrow> int \<Rightarrow> string" where
  "cutoff_of st files now back =
     (let c = source_cutoff st files back in if c = [] then stamp st (now - back) else c)"

subsection \<open>The two rules\<close>

definition age_verdict :: "string \<Rightarrow> string \<Rightarrow> (string \<times> string option) list option \<Rightarrow> listed \<Rightarrow> judged" where
  "age_verdict cutoff days levels f =
     (let level = (case levels of None \<Rightarrow> None | Some ls \<Rightarrow> map_of ls (kind f)) in
      if level = Some None then judged_as f KEEP (''its level ('' @ kind f @ '') is kept: keep'')
      else
        let own = (case level of Some (Some c) \<Rightarrow> c | _ \<Rightarrow> cutoff);
            label = (if level = None then days else kind f @ '' window'' @ [CHR 0x27] @ ''s'') in
        if finished f = [] then judged_as f KEEP ''no finished_at: age unknown, so not judged''
        else if finished f < own
        then judged_as f OBSOLETE (''finished '' @ finished f @ '', older than the '' @ label @ '' cutoff ('' @ own @ '')'')
        else judged_as f KEEP (''finished '' @ finished f @ '', inside the '' @ label @ '' window''))"

definition by_age :: "string \<Rightarrow> string \<Rightarrow> (string \<times> string option) list option \<Rightarrow> listed list \<Rightarrow> judged list" where
  "by_age cutoff days levels files = map (age_verdict cutoff days levels) files"

text \<open>\<open>Inr\<close> the stamp every retained file must reach back to, \<open>Inl\<close> why nothing may be deleted.\<close>

definition anchor :: "listed list \<Rightarrow> string \<Rightarrow> string + string" where
  "anchor grp cutoff =
     (let fulls = sort (filter (\<lambda>s. s \<noteq> []) (map finished (filter (\<lambda>f. kind f = FULL) grp)));
          older = filter (\<lambda>s. s \<le> cutoff) fulls in
      if fulls = []
      then Inl ''no full backup in this set: the differentials and logs here have nothing to restore onto, so none of them can be spared''
      else if older = []
      then Inl (''the oldest full ('' @ hd fulls @ '') is newer than the cutoff ('' @ cutoff @
                ''): the chain does not reach back to the far edge of the window yet'')
      else Inr (last older))"

definition window_verdict :: "string + string \<Rightarrow> string \<Rightarrow> listed \<Rightarrow> judged" where
  "window_verdict a days f =
     (if finished f = [] then judged_as f KEEP ''no finished_at: age unknown, so not judged''
      else case a of
        Inl why \<Rightarrow> judged_as f KEEP why
      | Inr s \<Rightarrow>
          if finished f \<ge> s
          then judged_as f KEEP (''at or after the anchor full ('' @ s @ ''); needed to restore into the '' @ days @ '' window'')
          else judged_as f OBSOLETE (''older than the anchor full ('' @ s @ ''); nothing in the '' @ days @ '' window restores from it''))"

definition by_recovery_window :: "string \<Rightarrow> string \<Rightarrow> listed list \<Rightarrow> judged list" where
  "by_recovery_window cutoff days files =
     concat (map (\<lambda>(db, grp). map (window_verdict (anchor grp cutoff) days) grp) (group_by database_name files))"

subsection \<open>The floor and the plan\<close>

definition newest_fulls :: "judged list \<Rightarrow> (string \<times> string) list" where
  "newest_fulls rows =
     foldl (\<lambda>newest r.
       if kind (row r) = FULL \<and> finished (row r) \<noteq> []
       then upd (database_name (row r))
              (max (case map_of newest (database_name (row r)) of None \<Rightarrow> [] | Some s \<Rightarrow> s) (finished (row r))) newest
       else newest) [] rows"

definition spare :: "(string \<times> string) list \<Rightarrow> judged \<Rightarrow> judged" where
  "spare newest r =
     (case map_of newest (database_name (row r)) of
        None \<Rightarrow> r
      | Some a \<Rightarrow>
          if verdict r = OBSOLETE \<and> a \<noteq> [] \<and> finished (row r) \<ge> a
          then judged_as (row r) KEEP
                 (if kind (row r) = FULL \<and> finished (row r) = a
                  then ''the newest full of this database - kept regardless of age''
                  else ''after the newest full ('' @ a @ '') - its chain is kept regardless of age'')
          else r)"

definition keep_newest_chain :: "judged list \<Rightarrow> judged list" where
  "keep_newest_chain rows = map (spare (newest_fulls rows)) rows"

datatype plan_error = BadDays | DaysTooSmall | BadMode

definition days_value :: "pyval \<Rightarrow> plan_error + int" where
  "days_value v = (case py_int v of None \<Rightarrow> Inl BadDays | Some d \<Rightarrow> if d < 1 then Inl DaysTooSmall else Inr d)"

record plan =
  mode :: string
  retention_days :: int
  retention_seconds :: int
  window :: string
  cutoff :: string
  level_cutoffs :: "(string \<times> string option) list"
  obsolete :: "judged list"
  keep :: "judged list"
  obsolete_paths :: "string list"
  total_files :: nat
  reclaimable_bytes :: int
  sizes_known :: bool

definition planned_rows :: "string \<Rightarrow> string \<Rightarrow> string \<Rightarrow> (string \<times> string option) list \<Rightarrow> listed list \<Rightarrow> judged list" where
  "planned_rows rule c win levels files =
     keep_newest_chain (if rule = AGE then by_age c win (if levels = [] then None else Some levels) files
                        else by_recovery_window c win files)"

text \<open>The answer, from the rule, the whole days, the stated seconds, the words, the cutoffs and the rows.\<close>

definition make_plan ::
  "string \<Rightarrow> int \<Rightarrow> int \<Rightarrow> string \<Rightarrow> string \<Rightarrow> (string \<times> string option) list \<Rightarrow> judged list \<Rightarrow> plan" where
  "make_plan rule days seconds win c levels rows =
     (let obs = filter (\<lambda>r. verdict r = OBSOLETE) rows; kp = filter (\<lambda>r. verdict r = KEEP) rows in
      \<lparr>mode = rule, retention_days = days,
       retention_seconds = (if seconds > 0 then seconds else days * 86400), window = win, cutoff = c,
       level_cutoffs = levels, obsolete = obs, keep = kp,
       obsolete_paths = map (\<lambda>r. path (row r)) obs, total_files = length rows,
       reclaimable_bytes = sum_list (map (\<lambda>r. case size_bytes (row r) of None \<Rightarrow> 0 | Some n \<Rightarrow> n) obs),
       sizes_known = list_all (\<lambda>r. size_bytes (row r) \<noteq> None) obs\<rparr>)"

definition plan_for ::
  "stamps \<Rightarrow> listed list \<Rightarrow> instant \<Rightarrow> (string \<times> int option) list \<Rightarrow> string \<Rightarrow> int \<Rightarrow> int \<Rightarrow> string \<Rightarrow> plan" where
  "plan_for st files now ws rule days seconds win =
     (let back = (if seconds \<le> 0 then sec (days * 86400) else sec seconds);
          levels = map (\<lambda>(level, w). (level, map_option (\<lambda>s. cutoff_of st files now (sec s)) w)) ws;
          c0 = cutoff_of st files now back;
          c = (if levels \<noteq> [] \<and> rule \<noteq> AGE
               then (case map_of levels FULL of None \<Rightarrow> c0 | Some None \<Rightarrow> ''0000-00-00 00:00:00'' | Some (Some s) \<Rightarrow>
                       if s = [] then ''0000-00-00 00:00:00'' else s)
               else c0) in
      make_plan rule days seconds win c levels (planned_rows rule c win levels files))"

definition plan_retention ::
  "stamps \<Rightarrow> listed list \<Rightarrow> pyval \<Rightarrow> string \<Rightarrow> instant \<Rightarrow> int option \<Rightarrow> (string \<times> int option) list option
   \<Rightarrow> plan_error + plan" where
  "plan_retention st files days0 mode0 now seconds0 ws =
     (let seconds = (case seconds0 of None \<Rightarrow> 0 | Some s \<Rightarrow> s) in
      rbind (if seconds \<le> 0 then days_value days0 else Inr (seconds div 86400)) (\<lambda>days.
      let win = (if seconds \<le> 0 \<or> seconds mod 86400 = 0 then show_int days @ ''-day'' else show_int seconds @ ''-second'');
          rule = lower (strip (if mode0 = [] then AGE else mode0)) in
      rbind (check (rule = AGE \<or> rule = RECOVERY_WINDOW) BadMode) (\<lambda>_.
      Inr (plan_for st files now (case ws of None \<Rightarrow> [] | Some w \<Rightarrow> w) rule days seconds win))))"

subsection \<open>What the two rules promise the planner\<close>

locale prune_rule =
  fixes judge :: "listed list \<Rightarrow> judged list"
  assumes same_files: "mset (map row (judge files)) = mset files"
    and two_verdicts: "r \<in> set (judge files) \<Longrightarrow> verdict r = KEEP \<or> verdict r = OBSOLETE"
    and unknown_kept: "r \<in> set (judge files) \<Longrightarrow> finished (row r) = [] \<Longrightarrow> verdict r = KEEP"
begin

lemma row_in: "r \<in> set (judge files) \<Longrightarrow> row r \<in> set files"
  using same_files [of files] by (metis image_eqI mset_eq_setD set_map)

lemma judged_row: "f \<in> set files \<Longrightarrow> \<exists>r\<in>set (judge files). row r = f"
  using same_files [of files] by (metis image_iff mset_eq_setD set_map)

end

lemma KEEP_not_OBSOLETE [simp]: "KEEP \<noteq> OBSOLETE" "OBSOLETE \<noteq> KEEP"
  by (simp_all add: KEEP_def OBSOLETE_def)

lemma judged_as_simps [simp]: "row (judged_as f v why) = f" "verdict (judged_as f v why) = v"
  by (simp_all add: judged_as_def)

lemma age_verdict_simps [simp]: "row (age_verdict c d ls f) = f"
  by (simp add: age_verdict_def Let_def)

lemma window_verdict_simps [simp]: "row (window_verdict a d f) = f"
  by (simp add: window_verdict_def split: sum.splits)

lemma age_verdict_of:
  "verdict (age_verdict c d ls f) = KEEP \<or> verdict (age_verdict c d ls f) = OBSOLETE"
  "finished f = [] \<Longrightarrow> verdict (age_verdict c d ls f) = KEEP"
  by (simp_all add: age_verdict_def Let_def)

interpretation age_rule: prune_rule "by_age c d ls" for c d ls
  by unfold_locales (use age_verdict_of in \<open>auto simp: by_age_def o_def\<close>)

lemma group_by_mset: "mset (concat (map snd (group_by k xs))) = mset xs"
proof (induction xs rule: rev_induct)
  case (snoc x xs)
  have "mset (concat (map snd (add_to_group y x gs))) = add_mset x (mset (concat (map snd gs)))" for y and gs :: "('b \<times> 'a list) list"
    by (induction gs) auto
  with snoc show ?case by (simp add: group_by_def)
qed (simp add: group_by_def)

interpretation window_rule: prune_rule "by_recovery_window c d" for c d
proof unfold_locales
  fix files
  have "map row (by_recovery_window c d files) = concat (map snd (group_by database_name files))"
    by (auto simp: by_recovery_window_def map_concat o_def split_def)
  then show "mset (map row (by_recovery_window c d files)) = mset files"
    by (simp add: group_by_mset)
qed (auto simp: by_recovery_window_def window_verdict_def split: if_splits sum.splits)

subsection \<open>The floor\<close>

lemma newest_fulls_rev:
  "newest_fulls (rows @ [r]) =
     (if kind (row r) = FULL \<and> finished (row r) \<noteq> []
      then upd (database_name (row r)) (max (case map_of (newest_fulls rows) (database_name (row r)) of None \<Rightarrow> [] | Some s \<Rightarrow> s)
             (finished (row r))) (newest_fulls rows)
      else newest_fulls rows)"
  by (simp add: newest_fulls_def)

text \<open>The stamp of the newest full of a database is one of its fulls', and no full of it is newer.\<close>

lemma newest_fulls_ge:
  assumes "r \<in> set rows" "kind (row r) = FULL" "finished (row r) \<noteq> []"
  shows "\<exists>s. map_of (newest_fulls rows) (database_name (row r)) = Some s \<and> finished (row r) \<le> s \<and> s \<noteq> []"
  using assms(1)
proof (induction rows rule: rev_induct)
  case (snoc x rows)
  show ?case
  proof (cases "r = x")
    case True
    have "max s (finished (row x)) \<noteq> []" for s using assms(3) True by (auto simp: max_def)
    with True assms(2,3) show ?thesis by (simp add: newest_fulls_rev)
  next
    case False
    with snoc obtain s where s: "map_of (newest_fulls rows) (database_name (row r)) = Some s" "finished (row r) \<le> s" "s \<noteq> []" by auto
    have "s \<le> max s t" "max s t \<noteq> []" for t using s(3) by (auto simp: max_def)
    with s show ?thesis by (auto simp: newest_fulls_rev intro: order_trans)
  qed
qed simp

lemma newest_fulls_in:
  "map_of (newest_fulls rows) db = Some s \<Longrightarrow>
   \<exists>r\<in>set rows. kind (row r) = FULL \<and> database_name (row r) = db \<and> finished (row r) = s"
proof (induction rows arbitrary: s rule: rev_induct)
  case (snoc x rows)
  then show ?case
    by (cases "map_of (newest_fulls rows) db") (auto simp: newest_fulls_rev max_def split: if_splits)
qed (simp add: newest_fulls_def)

lemma spare_row [simp]: "row (spare n r) = row r"
  by (simp add: spare_def split: option.splits)

lemma spare_verdict: "verdict (spare n r) = KEEP \<or> spare n r = r"
  by (simp add: spare_def split: option.splits)

lemma spare_keeps:
  "map_of n (database_name (row r)) = Some s \<Longrightarrow> s \<noteq> [] \<Longrightarrow> s \<le> finished (row r) \<Longrightarrow>
   verdict r = KEEP \<or> verdict r = OBSOLETE \<Longrightarrow> verdict (spare n r) = KEEP"
  by (auto simp: spare_def)

context prune_rule
begin

lemma floor_same_files: "mset (map row (keep_newest_chain (judge files))) = mset files"
proof -
  have "map row (keep_newest_chain (judge files)) = map row (judge files)"
    by (simp add: keep_newest_chain_def)
  with same_files [of files] show ?thesis by simp
qed

lemma floor_cases:
  assumes "r \<in> set (keep_newest_chain (judge files))"
  obtains x where "x \<in> set (judge files)" "r = spare (newest_fulls (judge files)) x"
  using assms by (auto simp: keep_newest_chain_def)

lemma floor_two_verdicts:
  assumes "r \<in> set (keep_newest_chain (judge files))"
  shows "verdict r = KEEP \<or> verdict r = OBSOLETE"
proof -
  from assms obtain x where "x \<in> set (judge files)" "r = spare (newest_fulls (judge files)) x" by (rule floor_cases)
  with two_verdicts [of x files] spare_verdict [of "newest_fulls (judge files)" x] show ?thesis by auto
qed

lemma floor_obsolete:
  assumes "r \<in> set (keep_newest_chain (judge files))" "verdict r = OBSOLETE"
  shows "r \<in> set (judge files)"
proof -
  from assms(1) obtain x where x: "x \<in> set (judge files)" "r = spare (newest_fulls (judge files)) x" by (rule floor_cases)
  with spare_verdict [of "newest_fulls (judge files)" x] assms(2) have "r = x" by auto
  with x(1) show ?thesis by simp
qed

lemma floor_unknown:
  "r \<in> set (keep_newest_chain (judge files)) \<Longrightarrow> finished (row r) = [] \<Longrightarrow> verdict r = KEEP"
  using floor_two_verdicts floor_obsolete unknown_kept by blast

text \<open>A file at or after a full of its database that no full of it outdates is kept.\<close>

lemma floor_chain:
  assumes "r \<in> set (keep_newest_chain (judge files))" "full \<in> set files" "kind full = FULL"
    and "database_name full = database_name (row r)" "finished full \<noteq> []"
    and "\<forall>g\<in>set files. kind g = FULL \<longrightarrow> database_name g = database_name (row r) \<longrightarrow> finished g \<le> finished full"
    and "finished full \<le> finished (row r)"
  shows "verdict r = KEEP"
proof -
  from judged_row [OF assms(2)] obtain y where y: "y \<in> set (judge files)" "row y = full" by blast
  with assms(3-5) newest_fulls_ge [of y "judge files"] obtain s
    where s: "map_of (newest_fulls (judge files)) (database_name (row r)) = Some s" "finished full \<le> s" "s \<noteq> []" by auto
  from newest_fulls_in [OF s(1)] row_in assms(6) have "s \<le> finished full" by blast
  with assms(7) have le: "s \<le> finished (row r)" by order
  from assms(1) obtain x where "x \<in> set (judge files)" "r = spare (newest_fulls (judge files)) x" by (rule floor_cases)
  with s le two_verdicts [of x files] spare_keeps [of _ x s] show ?thesis by simp
qed

end

subsection \<open>The plan\<close>

lemma make_plan_simps [simp]:
  "mode (make_plan rule days seconds win c levels rows) = rule" "cutoff (make_plan rule days seconds win c levels rows) = c"
  "window (make_plan rule days seconds win c levels rows) = win"
  "level_cutoffs (make_plan rule days seconds win c levels rows) = levels"
  "obsolete (make_plan rule days seconds win c levels rows) = filter (\<lambda>r. verdict r = OBSOLETE) rows"
  "keep (make_plan rule days seconds win c levels rows) = filter (\<lambda>r. verdict r = KEEP) rows"
  by (simp_all add: make_plan_def Let_def)

lemma plan_made:
  assumes "plan_retention st files d m now s ws = Inr p"
  shows "\<exists>rule days seconds win c levels. (rule = AGE \<or> rule = RECOVERY_WINDOW) \<and>
    p = make_plan rule days seconds win c levels (planned_rows rule c win levels files)"
proof -
  from assms obtain now ws rule days seconds win where "rule = AGE \<or> rule = RECOVERY_WINDOW"
    and p: "p = plan_for st files now ws rule days seconds win"
    unfolding plan_retention_def Let_def rbind_eq_Inr check_eq_Inr sum.inject
    by (elim exE conjE) (drule sym, blast)
  moreover have "\<exists>c levels. p = make_plan rule days seconds win c levels (planned_rows rule c win levels files)"
    unfolding p plan_for_def Let_def by (intro exI) (rule refl)
  ultimately show ?thesis by blast
qed

lemma plan_rows:
  assumes "plan_retention st files d m now s ws = Inr p"
  obtains ls where "mode p = AGE" "obsolete p = filter (\<lambda>r. verdict r = OBSOLETE) (keep_newest_chain (by_age (cutoff p) (window p) ls files))"
      "keep p = filter (\<lambda>r. verdict r = KEEP) (keep_newest_chain (by_age (cutoff p) (window p) ls files))"
      "ls = None \<and> level_cutoffs p = [] \<or> ls = Some (level_cutoffs p)"
  | "mode p = RECOVERY_WINDOW"
      "obsolete p = filter (\<lambda>r. verdict r = OBSOLETE) (keep_newest_chain (by_recovery_window (cutoff p) (window p) files))"
      "keep p = filter (\<lambda>r. verdict r = KEEP) (keep_newest_chain (by_recovery_window (cutoff p) (window p) files))"
proof -
  have ne: "RECOVERY_WINDOW \<noteq> AGE" by (simp add: AGE_def RECOVERY_WINDOW_def)
  from plan_made [OF assms] obtain rule days seconds win c levels where rule: "rule = AGE \<or> rule = RECOVERY_WINDOW"
    and p: "p = make_plan rule days seconds win c levels (planned_rows rule c win levels files)" by blast
  from rule show thesis
  proof
    assume "rule = AGE"
    then show thesis
      by (intro that(1) [of "if levels = [] then None else Some levels"]) (simp_all add: p planned_rows_def)
  next
    assume "rule = RECOVERY_WINDOW"
    with ne show thesis by (intro that(2)) (simp_all add: p planned_rows_def)
  qed
qed

lemma obsolete_not_kept:
  assumes "plan_retention st files d m now s ws = Inr p" "f \<in> row ` set (obsolete p)"
  obtains c w ls r where "row r = f" "verdict r = OBSOLETE" "r \<in> set (keep_newest_chain (by_age c w ls files))"
  | c w r where "row r = f" "verdict r = OBSOLETE" "r \<in> set (keep_newest_chain (by_recovery_window c w files))"
proof -
  from assms(2) obtain r where r: "r \<in> set (obsolete p)" "row r = f" by auto
  from assms(1) show thesis
  proof (rule plan_rows)
    fix ls
    assume "obsolete p = filter (\<lambda>r. verdict r = OBSOLETE) (keep_newest_chain (by_age (cutoff p) (window p) ls files))"
    with r show thesis by (intro that(1) [of r "cutoff p" "window p" ls]) simp_all
  next
    assume "obsolete p = filter (\<lambda>r. verdict r = OBSOLETE) (keep_newest_chain (by_recovery_window (cutoff p) (window p) files))"
    with r show thesis by (intro that(2) [of r "cutoff p" "window p"]) simp_all
  qed
qed

lemma anchor_bound:
  assumes "anchor grp c = Inr s" "full \<in> set grp" "kind full = FULL" "finished full \<noteq> []"
    and "c \<le> t" "finished full \<le> t"
    and "\<forall>g\<in>set grp. kind g = FULL \<longrightarrow> finished g \<le> t \<longrightarrow> finished g \<le> finished full"
  shows "s \<le> finished full"
proof -
  let ?fulls = "sort (filter (\<lambda>s. s \<noteq> []) (map finished (filter (\<lambda>f. kind f = FULL) grp)))"
  from assms(1) have "filter (\<lambda>s. s \<le> c) ?fulls \<noteq> []" "s = last (filter (\<lambda>s. s \<le> c) ?fulls)"
    by (auto simp: anchor_def Let_def split: if_splits)
  then have "s \<in> set (filter (\<lambda>s. s \<le> c) ?fulls)" using last_in_set by blast
  then obtain g where "g \<in> set grp" "kind g = FULL" "finished g = s" "s \<le> c" by auto
  with assms(5,7) show ?thesis by (meson order_trans)
qed

subsection \<open>Properties\<close>

text \<open>A prune loses no row of the listing: what it keeps and what it marks obsolete are together
  exactly the files listed, and a file whose age is unknown is never obsolete.\<close>

theorem prune_partitions_listing:
  assumes "plan_retention st files d m now s ws = Inr p"
  shows "mset (map row (keep p)) + mset (map row (obsolete p)) = mset files \<and>
    (\<forall>r\<in>set (obsolete p). finished (row r) \<noteq> [])"
proof -
  have split: "mset (map row (filter (\<lambda>r. verdict r = KEEP) rs)) + mset (map row (filter (\<lambda>r. verdict r = OBSOLETE) rs)) = mset (map row rs)"
    if "\<forall>r\<in>set rs. verdict r = KEEP \<or> verdict r = OBSOLETE" for rs
    using that by (induction rs) auto
  from assms show ?thesis
  proof (rule plan_rows)
    fix ls
    let ?rows = "keep_newest_chain (by_age (cutoff p) (window p) ls files)"
    assume "obsolete p = filter (\<lambda>r. verdict r = OBSOLETE) ?rows" "keep p = filter (\<lambda>r. verdict r = KEEP) ?rows"
    moreover have "\<forall>r\<in>set ?rows. verdict r = KEEP \<or> verdict r = OBSOLETE"
      using age_rule.floor_two_verdicts by blast
    ultimately show ?thesis
      using split [of ?rows] age_rule.floor_same_files [of "cutoff p" "window p" ls files]
        age_rule.floor_unknown [of _ "cutoff p" "window p" ls files] by auto
  next
    let ?rows = "keep_newest_chain (by_recovery_window (cutoff p) (window p) files)"
    assume "obsolete p = filter (\<lambda>r. verdict r = OBSOLETE) ?rows" "keep p = filter (\<lambda>r. verdict r = KEEP) ?rows"
    moreover have "\<forall>r\<in>set ?rows. verdict r = KEEP \<or> verdict r = OBSOLETE"
      using window_rule.floor_two_verdicts by blast
    ultimately show ?thesis
      using split [of ?rows] window_rule.floor_same_files [of "cutoff p" "window p" files]
        window_rule.floor_unknown [of _ "cutoff p" "window p" files] by auto
  qed
qed

text \<open>Under both rules and any window, a database's newest full backup and every file at or after
  it are kept, however old they are.\<close>

theorem prune_keeps_newest_chain:
  assumes "plan_retention st files d m now s ws = Inr p"
    and "full \<in> set files" "kind full = FULL" "finished full \<noteq> []"
    and "\<forall>g\<in>set files. kind g = FULL \<longrightarrow> database_name g = database_name full \<longrightarrow> finished g \<le> finished full"
    and "database_name f = database_name full" "finished full \<le> finished f"
  shows "f \<notin> row ` set (obsolete p)"
proof
  assume "f \<in> row ` set (obsolete p)"
  with assms(1) show False
  proof (rule obsolete_not_kept)
    fix c w ls r
    assume "row r = f" "verdict r = OBSOLETE" "r \<in> set (keep_newest_chain (by_age c w ls files))"
    with age_rule.floor_chain [OF this(3) assms(2,3)] assms(4-7) show False by simp
  next
    fix c w r
    assume "row r = f" "verdict r = OBSOLETE" "r \<in> set (keep_newest_chain (by_recovery_window c w files))"
    with window_rule.floor_chain [OF this(3) assms(2,3)] assms(4-7) show False by simp
  qed
qed

text \<open>C3: the recovery window keeps its word: for any moment at or after the cutoff, the newest full of
  a database at or before that moment and every file of the database between the two are kept.\<close>

theorem recovery_window_restores_any_moment:
  assumes "plan_retention st files d m now s ws = Inr p" "mode p = RECOVERY_WINDOW"
    and "full \<in> set files" "kind full = FULL" "finished full \<noteq> []"
    and "cutoff p \<le> t" "finished full \<le> t"
    and "\<forall>g\<in>set files. kind g = FULL \<longrightarrow> database_name g = database_name full \<longrightarrow> finished g \<le> t \<longrightarrow>
          finished g \<le> finished full"
    and "database_name f = database_name full" "finished full \<le> finished f"
  shows "f \<notin> row ` set (obsolete p)"
proof
  assume f: "f \<in> row ` set (obsolete p)"
  have "AGE \<noteq> RECOVERY_WINDOW" by (simp add: AGE_def RECOVERY_WINDOW_def)
  with assms(1,2) have obs: "obsolete p = filter (\<lambda>r. verdict r = OBSOLETE) (keep_newest_chain (by_recovery_window (cutoff p) (window p) files))"
    by (elim plan_rows) auto
  with f obtain r where "row r = f" "verdict r = OBSOLETE" "r \<in> set (by_recovery_window (cutoff p) (window p) files)"
    using window_rule.floor_obsolete by auto
  then obtain db grp where grp: "(db, grp) \<in> set (group_by database_name files)" "f \<in> set grp"
    and v: "verdict (window_verdict (anchor grp (cutoff p)) (window p) f) = OBSOLETE"
    by (auto simp: by_recovery_window_def)
  from group_by_member [OF grp(1)] grp(2) have g: "grp = filter (\<lambda>x. database_name x = database_name full) files"
    using assms(9) by auto
  from v obtain s where s: "anchor grp (cutoff p) = Inr s" "finished f < s"
    by (auto simp: window_verdict_def split: if_splits sum.splits)
  have "s \<le> finished full" using anchor_bound [OF s(1) _ assms(4,5,6,7)] assms(3,8) g by auto
  with s(2) assms(10) show False by order
qed

text \<open>Under the age rule a file is obsolete only when it is older than its own cutoff: that of its
  level when the retention names one, and never when its level is kept.\<close>

theorem age_rule_deletes_only_the_old:
  assumes "plan_retention st files d m now s ws = Inr p" "mode p = AGE" "r \<in> set (obsolete p)"
  shows "case map_of (level_cutoffs p) (kind (row r)) of
      None \<Rightarrow> finished (row r) < cutoff p | Some None \<Rightarrow> False | Some (Some c) \<Rightarrow> finished (row r) < c"
proof -
  have "AGE \<noteq> RECOVERY_WINDOW" by (simp add: AGE_def RECOVERY_WINDOW_def)
  with assms(1,2) obtain ls where obs: "obsolete p = filter (\<lambda>r. verdict r = OBSOLETE) (keep_newest_chain (by_age (cutoff p) (window p) ls files))"
    and ls: "ls = None \<and> level_cutoffs p = [] \<or> ls = Some (level_cutoffs p)"
    by (elim plan_rows) auto
  from assms(3) obs have "r \<in> set (by_age (cutoff p) (window p) ls files)" "verdict r = OBSOLETE"
    using age_rule.floor_obsolete by auto
  with ls show ?thesis
    by (auto simp: by_age_def age_verdict_def Let_def split: if_splits option.splits)
qed

subsection \<open>Witnesses\<close>

definition digit_stamps :: stamps where
  "digit_stamps = \<lparr>stamp = show_int, strptime = (\<lambda>_. None)\<rparr>"

definition old_file :: "string \<Rightarrow> string \<Rightarrow> listed" where
  "old_file k at_text = \<lparr>path = k @ at_text, kind = k, database_name = ''db'', finished_at = at_text, age_seconds = None, size_bytes = Some 1\<rparr>"

definition old_listing :: "listed list" where
  "old_listing = [old_file ''full'' ''050'', old_file ''full'' ''060'', old_file ''log'' ''070'', old_file ''log'' []]"

definition age_plan :: plan where
  "age_plan = plan_for digit_stamps old_listing (sec 86400 + 100) [] AGE 1 0 ''1-day''"

definition window_plan :: plan where
  "window_plan = plan_for digit_stamps old_listing (sec 86400 + 100) [] RECOVERY_WINDOW 1 0 ''1-day''"

lemma old_cutoff: "cutoff_of digit_stamps old_listing (sec 86400 + 100) (sec 86400) = ''100''"
  by code_simp

lemma digit_words: "lower (strip AGE) = AGE" "lower (strip ''Recovery_Window'') = RECOVERY_WINDOW" "show_int 1 = ''1''"
  by code_simp+

lemma age_plan_made: "plan_retention digit_stamps old_listing (PInt 1) [] (sec 86400 + 100) None None = Inr age_plan"
  by (simp add: plan_retention_def days_value_def rbind_def check_def digit_words age_plan_def)

lemma window_plan_made:
  "plan_retention digit_stamps old_listing (PInt 1) ''Recovery_Window'' (sec 86400 + 100) None None = Inr window_plan"
  "mode window_plan = RECOVERY_WINDOW" "cutoff window_plan = ''100''"
  using old_cutoff
  by (simp_all add: plan_retention_def days_value_def rbind_def check_def digit_words window_plan_def plan_for_def Let_def)

theorem prune_partitions_listing_witness:
  "mset (map row (keep age_plan)) + mset (map row (obsolete age_plan)) = mset old_listing"
  using prune_partitions_listing [OF age_plan_made] by blast

lemma old_newest:
  "old_file ''full'' ''060'' \<in> set old_listing" "kind (old_file ''full'' ''060'') = FULL"
  "finished (old_file ''full'' ''060'') \<noteq> []"
  "\<forall>g\<in>set old_listing. kind g = FULL \<longrightarrow> database_name g = database_name (old_file ''full'' ''060'') \<longrightarrow>
     finished g \<le> finished (old_file ''full'' ''060'')"
  "database_name (old_file ''log'' ''070'') = database_name (old_file ''full'' ''060'')"
  "finished (old_file ''full'' ''060'') \<le> finished (old_file ''log'' ''070'')"
  "finished (old_file ''full'' ''060'') \<le> ''200''" "''100'' \<le> ''200''"
  by code_simp+

theorem prune_keeps_newest_chain_witness: "old_file ''log'' ''070'' \<notin> row ` set (obsolete age_plan)"
  by (rule prune_keeps_newest_chain [OF age_plan_made old_newest(1-6)])

theorem recovery_window_restores_any_moment_witness: "old_file ''log'' ''070'' \<notin> row ` set (obsolete window_plan)"
  using recovery_window_restores_any_moment [OF window_plan_made(1,2) old_newest(1-3), of "''200''"] old_newest window_plan_made(3)
  by simp

theorem age_rule_deletes_only_the_old_witness: "finished (row (hd (obsolete age_plan))) < ''100''"
proof -
  have "filter (\<lambda>r. verdict r = OBSOLETE) (planned_rows AGE ''100'' ''1-day'' [] old_listing) \<noteq> []" by code_simp
  then have "mode age_plan = AGE" "obsolete age_plan \<noteq> []" "level_cutoffs age_plan = []" "cutoff age_plan = ''100''"
    using old_cutoff by (simp_all add: age_plan_def plan_for_def Let_def)
  with age_rule_deletes_only_the_old [OF age_plan_made, of "hd (obsolete age_plan)"] show ?thesis by simp
qed

end
