(* ===== verification/StateTransition.thy ===== *)
theory StateTransition
  imports Coerce
begin

section \<open>Notifying on change\<close>

text \<open>
  Models \<^verbatim>\<open>dbabrain/lib/state_transition.py\<close> (the comparison of two runs of a recurring check and
  the decision to speak) and the part of \<^verbatim>\<open>dbabrain/sla/cli.py\<close> that feeds it: the SLA run that
  reads its previous state, decides, and queues a message.

  Correspondence: \<open>state_diff\<close> is \<^verbatim>\<open>StateDiff\<close>; the loop of \<open>diff_states\<close> over the sorted keys is
  \<open>diff_key\<close> folded over them. The reason of a decision is a datatype that carries the values the
  sentence prints. Reading a stored moment uses the ISO parser \<open>fromiso\<close> of the standard library.
\<close>

subsection \<open>StateDiff\<close>

record state_diff =
  new_bad :: "string list"
  recovered :: "string list"
  worsened :: "(string \<times> string \<times> string) list"
  improved :: "(string \<times> string \<times> string) list"
  unchanged_bad :: "string list"
  vanished_bad :: "string list"
  appeared_ok :: "string list"
  baseline :: bool

definition has_transition :: "state_diff \<Rightarrow> bool" where
  "has_transition d = (new_bad d \<noteq> [] \<or> recovered d \<noteq> [] \<or> worsened d \<noteq> [] \<or> improved d \<noteq> [])"

record diff_counts =
  new_failed :: nat
  recovered_count :: nat
  worsened_count :: nat
  improved_count :: nat
  unchanged_count :: nat
  vanished_count :: nat

definition counts :: "state_diff \<Rightarrow> diff_counts" where
  "counts d = \<lparr> new_failed = length (new_bad d), recovered_count = length (recovered d),
     worsened_count = length (worsened d), improved_count = length (improved d),
     unchanged_count = length (unchanged_bad d), vanished_count = length (vanished_bad d) \<rparr>"

subsection \<open>diff_states\<close>

definition status_name :: "string \<Rightarrow> string" where
  "status_name s = upper (strip s)"

definition severity_ranks :: "string list \<Rightarrow> (string \<times> nat) list" where
  "severity_ranks order = dict_of (map (\<lambda>(i, s). (status_name s, i)) (enumerate 0 order))"

definition severity :: "string list \<Rightarrow> string \<Rightarrow> nat" where
  "severity order s =
     (let ranks = severity_ranks order in
      case map_of ranks (status_name s) of None \<Rightarrow> length ranks | Some i \<Rightarrow> i)"

definition is_bad :: "string list \<Rightarrow> string \<Rightarrow> bool" where
  "is_bad healthy s = (status_name s \<notin> status_name ` set healthy)"

definition empty_diff :: "bool \<Rightarrow> state_diff" where
  "empty_diff b = \<lparr> new_bad = [], recovered = [], worsened = [], improved = [], unchanged_bad = [],
     vanished_bad = [], appeared_ok = [], baseline = b \<rparr>"

definition diff_key ::
  "string list \<Rightarrow> string list \<Rightarrow> (string \<times> string) list \<Rightarrow> (string \<times> string) list \<Rightarrow>
     state_diff \<Rightarrow> string \<Rightarrow> state_diff" where
  "diff_key order healthy before after d key =
     (case map_of after key of
        None \<Rightarrow> d
      | Some now_status \<Rightarrow>
          (case map_of before key of
             None \<Rightarrow>
               if is_bad healthy now_status \<and> \<not> baseline d then d\<lparr>new_bad := new_bad d @ [key]\<rparr>
               else if is_bad healthy now_status then d\<lparr>unchanged_bad := unchanged_bad d @ [key]\<rparr>
               else d\<lparr>appeared_ok := appeared_ok d @ [key]\<rparr>
           | Some was_status \<Rightarrow>
               if is_bad healthy was_status \<and> \<not> is_bad healthy now_status
               then d\<lparr>recovered := recovered d @ [key]\<rparr>
               else if \<not> is_bad healthy was_status \<and> is_bad healthy now_status
               then d\<lparr>new_bad := new_bad d @ [key]\<rparr>
               else if is_bad healthy now_status
               then (if severity order now_status < severity order was_status
                     then d\<lparr>worsened := worsened d @ [(key, was_status, now_status)]\<rparr>
                     else if severity order was_status < severity order now_status
                     then d\<lparr>improved := improved d @ [(key, was_status, now_status)]\<rparr>
                     else d\<lparr>unchanged_bad := unchanged_bad d @ [key]\<rparr>)
               else d))"

definition diff_states ::
  "(string \<times> string) list option \<Rightarrow> (string \<times> string) list \<Rightarrow> string list \<Rightarrow> string list \<Rightarrow> state_diff" where
  "diff_states previous current order healthy =
     (let before = dict_of (case previous of None \<Rightarrow> [] | Some m \<Rightarrow> m);
          after = dict_of current;
          d = foldl (diff_key order healthy before after) (empty_diff (previous = None)) (sorted_keys after)
      in d\<lparr>vanished_bad := sort (map fst (filter (\<lambda>(key, status).
               is_bad healthy status \<and> map_of after key = None) before))\<rparr>)"

subsection \<open>decide_notification\<close>

datatype stored_moment = No_moment | Text_moment string | Aware_moment instant | Naive_moment int

definition replace_first_space :: "string \<Rightarrow> string" where
  "replace_first_space s =
     (case partition_on (CHR '' '') s of None \<Rightarrow> s | Some (a, b) \<Rightarrow> a @ ''T'' @ b)"

fun parse_moment :: "iso_parser \<Rightarrow> stored_moment \<Rightarrow> instant option" where
  "parse_moment fromiso No_moment = None"
| "parse_moment fromiso (Aware_moment t) = Some t"
| "parse_moment fromiso (Naive_moment t) = Some t"
| "parse_moment fromiso (Text_moment s) =
     (if s = [] then None
      else case fromiso (replace_first_space (replace_Z (strip s))) of
             None \<Rightarrow> None
           | Some (wall, None) \<Rightarrow> Some wall
           | Some (wall, Some off) \<Rightarrow> Some (wall - off))"

datatype notify_kind = Transition | Reminder | Baseline | Silent

datatype notify_reason =
    Always_requested | First_run_findings | First_run_clean
  | State_changed diff_counts | Nothing_outstanding | Never_notified
  | Outstanding_since nat instant | Next_reminder_at nat instant

record notify_decision =
  send :: bool
  decision_kind :: notify_kind
  decision_reason :: notify_reason

definition decision :: "bool \<Rightarrow> notify_kind \<Rightarrow> notify_reason \<Rightarrow> notify_decision" where
  "decision b k r = \<lparr> send = b, decision_kind = k, decision_reason = r \<rparr>"

definition DEFAULT_REMINDER_SECONDS :: int where
  "DEFAULT_REMINDER_SECONDS = 24 * 3600"

definition decide_notification ::
  "iso_parser \<Rightarrow> state_diff \<Rightarrow> stored_moment \<Rightarrow> instant \<Rightarrow> int \<Rightarrow> bool \<Rightarrow> notify_decision" where
  "decide_notification fromiso d last_sent_at now reminder_after_seconds always =
     (if always then decision True Transition Always_requested
      else if baseline d then
        (if unchanged_bad d \<noteq> [] \<or> new_bad d \<noteq> [] then decision True Baseline First_run_findings
         else decision False Silent First_run_clean)
      else if has_transition d then decision True Transition (State_changed (counts d))
      else if unchanged_bad d = [] then decision False Silent Nothing_outstanding
      else (case parse_moment fromiso last_sent_at of
              None \<Rightarrow> decision True Reminder Never_notified
            | Some previous \<Rightarrow>
                let due_at = previous + sec (max 0 reminder_after_seconds);
                    n = length (unchanged_bad d) in
                if due_at \<le> now then decision True Reminder (Outstanding_since n previous)
                else decision False Silent (Next_reminder_at n due_at)))"

subsection \<open>The SLA run\<close>

text \<open>
  \<^verbatim>\<open>_maybe_notify_telegram\<close>: the state the check left behind (the statuses its last run saved and
  the moment of its last queued message), this run's statuses, and the chat the router names for
  it (\<open>None\<close>: telegram is disabled or no group takes this level).
\<close>

record sla_memory =
  saved_state :: "(string \<times> string) list option"
  last_queued :: stored_moment

definition SLA_SEVERITY_ORDER :: "string list" where
  "SLA_SEVERITY_ORDER = [''FAILED'', ''BURNING'', ''AT_RISK'', ''NO_DATA'', ''NOT_CONFIGURED'', ''PASSED'']"

definition SLA_HEALTHY :: "string list" where
  "SLA_HEALTHY = [''PASSED'']"

definition sla_diff :: "sla_memory \<Rightarrow> (string \<times> string) list \<Rightarrow> state_diff" where
  "sla_diff m current = diff_states (saved_state m) current SLA_SEVERITY_ORDER SLA_HEALTHY"

definition maybe_notify_telegram ::
  "iso_parser \<Rightarrow> int \<Rightarrow> bool \<Rightarrow> string option \<Rightarrow> sla_memory \<Rightarrow> instant \<Rightarrow> (string \<times> string) list \<Rightarrow>
     (string \<times> state_diff) option" where
  "maybe_notify_telegram fromiso reminder always chat m now current =
     (let d = sla_diff m current;
          dec = decide_notification fromiso d (last_queued m) now reminder always in
      if \<not> send dec then None else map_option (\<lambda>c. (c, d)) chat)"

definition sla_run ::
  "iso_parser \<Rightarrow> int \<Rightarrow> bool \<Rightarrow> string option \<Rightarrow> sla_memory \<Rightarrow> instant \<Rightarrow> (string \<times> string) list \<Rightarrow> sla_memory" where
  "sla_run fromiso reminder always chat m now current =
     \<lparr> saved_state = Some current,
       last_queued = (if maybe_notify_telegram fromiso reminder always chat m now current = None
                      then last_queued m else Aware_moment now) \<rparr>"

subsection \<open>What each list of the comparison holds\<close>

definition fails_now :: "string list \<Rightarrow> (string \<rightharpoonup> string) \<Rightarrow> string \<Rightarrow> bool" where
  "fails_now healthy states k = (case states k of None \<Rightarrow> False | Some s \<Rightarrow> is_bad healthy s)"

definition passes_now :: "string list \<Rightarrow> (string \<rightharpoonup> string) \<Rightarrow> string \<Rightarrow> bool" where
  "passes_now healthy states k = (case states k of None \<Rightarrow> False | Some s \<Rightarrow> \<not> is_bad healthy s)"

definition rank_at :: "string list \<Rightarrow> (string \<rightharpoonup> string) \<Rightarrow> string \<Rightarrow> nat" where
  "rank_at order states k = (case states k of None \<Rightarrow> 0 | Some s \<Rightarrow> severity order s)"

lemmas status_defs = fails_now_def passes_now_def rank_at_def

lemma baseline_diff_key [simp]: "baseline (diff_key order healthy before after d k) = baseline d"
  by (simp add: diff_key_def split: option.splits)

lemma diff_key_recovered:
  "recovered (diff_key order healthy before after d k) = recovered d @
     (if fails_now healthy (map_of before) k \<and> passes_now healthy (map_of after) k then [k] else [])"
  by (simp add: diff_key_def status_defs split: option.splits)

lemma diff_key_new_bad:
  "new_bad (diff_key order healthy before after d k) = new_bad d @
     (if fails_now healthy (map_of after) k \<and>
         (passes_now healthy (map_of before) k \<or> map_of before k = None \<and> \<not> baseline d) then [k] else [])"
  by (simp add: diff_key_def status_defs split: option.splits)

lemma diff_key_worsened:
  "map fst (worsened (diff_key order healthy before after d k)) = map fst (worsened d) @
     (if fails_now healthy (map_of after) k \<and> fails_now healthy (map_of before) k \<and>
         rank_at order (map_of after) k < rank_at order (map_of before) k then [k] else [])"
  by (simp add: diff_key_def status_defs split: option.splits)

lemma diff_key_improved:
  "map fst (improved (diff_key order healthy before after d k)) = map fst (improved d) @
     (if fails_now healthy (map_of after) k \<and> fails_now healthy (map_of before) k \<and>
         rank_at order (map_of before) k < rank_at order (map_of after) k then [k] else [])"
  by (simp add: diff_key_def status_defs split: option.splits)

lemma diff_key_unchanged:
  "unchanged_bad (diff_key order healthy before after d k) = unchanged_bad d @
     (if fails_now healthy (map_of after) k \<and>
         (fails_now healthy (map_of before) k \<and> rank_at order (map_of before) k = rank_at order (map_of after) k
          \<or> map_of before k = None \<and> baseline d) then [k] else [])"
  by (simp add: diff_key_def status_defs split: option.splits)

lemma fold_appends:
  assumes "\<And>d k. b (step d k) = b d"
    and "\<And>d k. f (step d k) = f d @ (if P (b d) k then [k] else [])"
  shows "f (foldl step d ks) = f d @ filter (P (b d)) ks"
  by (induction ks arbitrary: d) (simp_all add: assms)

lemma diff_states_parts:
  fixes previous current order healthy
  defines "d \<equiv> diff_states previous current order healthy"
    and "was \<equiv> map_of (dict_of (case previous of None \<Rightarrow> [] | Some m \<Rightarrow> m))"
    and "cur \<equiv> map_of (dict_of current)"
    and "ks \<equiv> sorted_keys (dict_of current)"
  shows "baseline d = (previous = None)"
    and "recovered d = filter (\<lambda>k. fails_now healthy was k \<and> passes_now healthy cur k) ks"
    and "new_bad d = filter (\<lambda>k. fails_now healthy cur k \<and>
           (passes_now healthy was k \<or> was k = None \<and> previous \<noteq> None)) ks"
    and "map fst (worsened d) = filter (\<lambda>k. fails_now healthy cur k \<and> fails_now healthy was k \<and>
           rank_at order cur k < rank_at order was k) ks"
    and "map fst (improved d) = filter (\<lambda>k. fails_now healthy cur k \<and> fails_now healthy was k \<and>
           rank_at order was k < rank_at order cur k) ks"
    and "unchanged_bad d = filter (\<lambda>k. fails_now healthy cur k \<and>
           (fails_now healthy was k \<and> rank_at order was k = rank_at order cur k \<or>
            was k = None \<and> previous = None)) ks"
proof -
  define before where "before = dict_of (case previous of None \<Rightarrow> [] | Some m \<Rightarrow> m)"
  define after where "after = dict_of current"
  define e where "e = foldl (diff_key order healthy before after) (empty_diff (previous = None)) ks"
  have states: "was = map_of before" "cur = map_of after"
    by (simp_all add: was_def cur_def before_def after_def)
  have d: "recovered d = recovered e" "new_bad d = new_bad e" "worsened d = worsened e" "improved d = improved e"
    "unchanged_bad d = unchanged_bad e" "baseline d = baseline e"
    by (simp_all add: d_def e_def diff_states_def Let_def before_def after_def ks_def)
  have "baseline (foldl (diff_key order healthy before after) e xs) = baseline e" for e xs
    by (induction xs arbitrary: e) simp_all
  then show "baseline d = (previous = None)"
    by (simp add: d e_def empty_diff_def)
  note fold = fold_appends [where b = baseline and step = "diff_key order healthy before after" and
      d = "empty_diff (previous = None)" and ks = ks, folded e_def, OF baseline_diff_key]
  show "recovered d = filter (\<lambda>k. fails_now healthy was k \<and> passes_now healthy cur k) ks"
    using fold [of "recovered" "\<lambda>b k. fails_now healthy was k \<and> passes_now healthy cur k"]
    by (simp add: d states diff_key_recovered empty_diff_def)
  show "new_bad d = filter (\<lambda>k. fails_now healthy cur k \<and>
           (passes_now healthy was k \<or> was k = None \<and> previous \<noteq> None)) ks"
    using fold [of "new_bad" "\<lambda>b k. fails_now healthy cur k \<and> (passes_now healthy was k \<or> was k = None \<and> \<not> b)"]
    by (simp add: d states diff_key_new_bad empty_diff_def)
  show "map fst (worsened d) = filter (\<lambda>k. fails_now healthy cur k \<and> fails_now healthy was k \<and>
           rank_at order cur k < rank_at order was k) ks"
    using fold [of "\<lambda>d. map fst (worsened d)" "\<lambda>b k. fails_now healthy cur k \<and> fails_now healthy was k \<and> rank_at order cur k < rank_at order was k"]
    by (simp add: d states diff_key_worsened empty_diff_def)
  show "map fst (improved d) = filter (\<lambda>k. fails_now healthy cur k \<and> fails_now healthy was k \<and>
           rank_at order was k < rank_at order cur k) ks"
    using fold [of "\<lambda>d. map fst (improved d)" "\<lambda>b k. fails_now healthy cur k \<and> fails_now healthy was k \<and> rank_at order was k < rank_at order cur k"]
    by (simp add: d states diff_key_improved empty_diff_def)
  show "unchanged_bad d = filter (\<lambda>k. fails_now healthy cur k \<and>
           (fails_now healthy was k \<and> rank_at order was k = rank_at order cur k \<or>
            was k = None \<and> previous = None)) ks"
    using fold [of "unchanged_bad" "\<lambda>b k. fails_now healthy cur k \<and> (fails_now healthy was k \<and> rank_at order was k = rank_at order cur k \<or> was k = None \<and> b)"]
    by (simp add: d states diff_key_unchanged empty_diff_def)
qed

lemma diff_states_vanished:
  "set (vanished_bad (diff_states previous current order healthy)) =
     {k. fails_now healthy (map_of (dict_of (case previous of None \<Rightarrow> [] | Some m \<Rightarrow> m))) k \<and>
         map_of (dict_of current) k = None}"
proof -
  define before where "before = dict_of (case previous of None \<Rightarrow> [] | Some m \<Rightarrow> m)"
  have pairs: "(k, v) \<in> set before \<longleftrightarrow> map_of before k = Some v" for k v
    by (simp add: before_def)
  have "k \<in> set (map fst (filter (\<lambda>(k, v). is_bad healthy v \<and> map_of (dict_of current) k = None) before)) \<longleftrightarrow>
        fails_now healthy (map_of before) k \<and> map_of (dict_of current) k = None" for k
    by (cases "map_of before k") (force simp: fails_now_def pairs image_iff)+
  then show ?thesis
    by (auto simp: diff_states_def Let_def before_def)
qed

lemma fails_or_passes: "states k = Some s \<Longrightarrow> fails_now healthy states k \<or> passes_now healthy states k"
  by (simp add: status_defs)

lemma fails_not_passes: "fails_now healthy states k \<Longrightarrow> \<not> passes_now healthy states k"
  by (simp add: status_defs split: option.splits)

lemma unseen_neither: "states k = None \<Longrightarrow> \<not> fails_now healthy states k \<and> \<not> passes_now healthy states k"
  by (simp add: status_defs)

lemma in_sorted_keys: "fails_now healthy (map_of d) k \<Longrightarrow> k \<in> set (sorted_keys d)"
  "passes_now healthy (map_of d) k \<Longrightarrow> k \<in> set (sorted_keys d)"
  by (auto simp: set_sorted_keys status_defs split: option.splits)

lemma failing_keys_listed:
  "set (new_bad d @ map fst (worsened d) @ map fst (improved d) @ unchanged_bad d) =
     {k. fails_now healthy (map_of (dict_of current)) k}"
  if d: "d = diff_states previous current order healthy"
proof -
  define was where "was = map_of (dict_of (case previous of None \<Rightarrow> [] | Some m \<Rightarrow> m))"
  define cur where "cur = map_of (dict_of current)"
  define ks where "ks = sorted_keys (dict_of current)"
  note parts = diff_states_parts [of previous current order healthy, folded was_def cur_def ks_def d]
  have ks: "k \<in> set ks" if "fails_now healthy cur k \<or> passes_now healthy cur k" for k
    using that in_sorted_keys by (auto simp: cur_def ks_def)
  have new_or_old: "fails_now healthy was k \<or> passes_now healthy was k \<or> was k = None" for k
    by (cases "was k") (auto dest: fails_or_passes)
  show ?thesis
  proof (rule set_eqI)
    fix k
    show "k \<in> set (new_bad d @ map fst (worsened d) @ map fst (improved d) @ unchanged_bad d) \<longleftrightarrow>
          k \<in> {k. fails_now healthy (map_of (dict_of current)) k}"
      unfolding set_append parts(3-6) cur_def [symmetric] using ks [of k] new_or_old [of k]
      by (cases "previous = None"; cases "was k = None") auto
  qed
qed

lemma listed_once:
  "distinct (new_bad d @ map fst (worsened d) @ map fst (improved d) @ unchanged_bad d @ recovered d)"
  if d: "d = diff_states previous current order healthy"
proof -
  have "distinct (sorted_keys (dict_of current))"
    by (simp add: sorted_keys_distinct)
  then show ?thesis
    unfolding d distinct_append set_append diff_states_parts(2-6)
    by (auto dest: fails_not_passes unseen_neither)
qed

lemma recovered_were_measured:
  "set (recovered (diff_states previous current order healthy)) =
     {k. fails_now healthy (map_of (dict_of (case previous of None \<Rightarrow> [] | Some m \<Rightarrow> m))) k \<and>
         passes_now healthy (map_of (dict_of current)) k}"
  unfolding diff_states_parts(2) using in_sorted_keys(2) by auto

lemma baseline_has_no_transition: "\<not> has_transition (diff_states None current order healthy)"
  using diff_states_parts(2-5) [of None current order healthy]
  by (auto simp: has_transition_def status_defs dict_of_def)

text \<open>C10: The comparison of two runs accounts for every finding once and announces nothing that was not
  measured. The keys failing now are exactly those listed as new, worsened, improved or unchanged,
  no key in two of these lists; a key is listed as recovered exactly when it failed in the previous
  run and was measured healthy in this one; a failing key absent from this run is listed as
  vanished, never as recovered; and a run with no predecessor reports no transition.
\<close>
theorem diff_accounts_for_every_finding:
  "let d = diff_states previous current order healthy;
       was = map_of (dict_of (case previous of None \<Rightarrow> [] | Some m \<Rightarrow> m));
       cur = map_of (dict_of current)
   in set (new_bad d @ map fst (worsened d) @ map fst (improved d) @ unchanged_bad d) =
        {k. fails_now healthy cur k} \<and>
      distinct (new_bad d @ map fst (worsened d) @ map fst (improved d) @ unchanged_bad d @ recovered d) \<and>
      set (recovered d) = {k. fails_now healthy was k \<and> passes_now healthy cur k} \<and>
      set (vanished_bad d) = {k. fails_now healthy was k \<and> cur k = None} \<and>
      \<not> (previous = None \<and> has_transition d)"
  unfolding Let_def
  by (intro conjI failing_keys_listed [OF refl] listed_once [OF refl] recovered_were_measured
      diff_states_vanished) (use baseline_has_no_transition in blast)

subsection \<open>The reminder clock\<close>

lemma backlog_is_listed:
  assumes "fails_now healthy (map_of (dict_of current)) k" and d: "d = diff_states previous current order healthy"
  shows "k \<in> set (new_bad d) \<or> has_transition d \<or> k \<in> set (unchanged_bad d)"
  using failing_keys_listed [OF d] assms by (auto simp: has_transition_def)

lemma silent_keeps_clock:
  "maybe_notify_telegram fromiso reminder always chat m now current = None \<Longrightarrow>
     last_queued (sla_run fromiso reminder always chat m now current) = last_queued m"
  by (simp add: sla_run_def)

text \<open>A standing failure is not forgotten. After any run of the SLA check in which some key is
  failing and a chat is configured, a message has been queued within the last reminder interval:
  either by this run or, when this run stayed silent, by an earlier one less than that long ago.
  The clock a silent run leaves behind is the one it found.
\<close>
theorem standing_failure_is_restated:
  assumes "fails_now SLA_HEALTHY (map_of (dict_of current)) k"
  shows "\<exists>t. parse_moment fromiso (last_queued (sla_run fromiso reminder always (Some chat) m now current)) = Some t \<and>
             (t = now \<or> last_queued (sla_run fromiso reminder always (Some chat) m now current) = last_queued m \<and>
                        now < t + sec (max 0 reminder))"
proof -
  define d where "d = sla_diff m current"
  define dec where "dec = decide_notification fromiso d (last_queued m) now reminder always"
  define m' where "m' = sla_run fromiso reminder always (Some chat) m now current"
  have lq: "last_queued m' = (if send dec then Aware_moment now else last_queued m)"
    by (simp add: m'_def sla_run_def maybe_notify_telegram_def Let_def d_def dec_def)
  have listed: "k \<in> set (new_bad d) \<or> has_transition d \<or> k \<in> set (unchanged_bad d)"
    by (rule backlog_is_listed [OF assms]) (simp add: d_def sla_diff_def)
  have first: "\<not> (baseline d \<and> has_transition d)"
    using diff_states_parts(1) baseline_has_no_transition by (auto simp: d_def sla_diff_def)
  show ?thesis unfolding m'_def [symmetric]
  proof (cases "send dec")
    case True
    then show "\<exists>t. parse_moment fromiso (last_queued m') = Some t \<and>
             (t = now \<or> last_queued m' = last_queued m \<and> now < t + sec (max 0 reminder))"
      by (simp add: lq)
  next
    case False
    then have "\<not> always" "\<not> has_transition d" "\<not> baseline d"
      using listed first by (auto simp: dec_def decide_notification_def decision_def
          split: if_splits option.splits)
    moreover from this have "unchanged_bad d \<noteq> []"
      using listed by (auto simp: has_transition_def)
    ultimately show "\<exists>t. parse_moment fromiso (last_queued m') = Some t \<and>
             (t = now \<or> last_queued m' = last_queued m \<and> now < t + sec (max 0 reminder))"
      using False by (auto simp: lq dec_def decide_notification_def decision_def Let_def not_le
          split: if_splits option.splits)
  qed
qed

theorem standing_failure_is_restated_witness:
  "fails_now SLA_HEALTHY (map_of (dict_of [(''RPO@db1'', ''FAILED'')])) ''RPO@db1'' \<and>
   (\<exists>t. parse_moment (\<lambda>_. None) (last_queued (sla_run (\<lambda>_. None) 86400 False (Some ''ops'')
          \<lparr> saved_state = Some [(''RPO@db1'', ''FAILED'')], last_queued = Aware_moment 0 \<rparr> (sec 3600)
          [(''RPO@db1'', ''FAILED'')])) = Some t \<and>
        (t = sec 3600 \<or>
         last_queued (sla_run (\<lambda>_. None) 86400 False (Some ''ops'')
          \<lparr> saved_state = Some [(''RPO@db1'', ''FAILED'')], last_queued = Aware_moment 0 \<rparr> (sec 3600)
          [(''RPO@db1'', ''FAILED'')]) = Aware_moment 0 \<and> sec 3600 < t + sec (max 0 86400)))"
proof -
  have f: "fails_now SLA_HEALTHY (map_of (dict_of [(''RPO@db1'', ''FAILED'')])) ''RPO@db1''"
    by code_simp
  show ?thesis
    using f standing_failure_is_restated [OF f, of "\<lambda>_. None" 86400 False "''ops''"
        "\<lparr> saved_state = Some [(''RPO@db1'', ''FAILED'')], last_queued = Aware_moment 0 \<rparr>" "sec 3600"]
    by simp
qed


end
