(* ===== verification/BackupChain.thy ===== *)
theory BackupChain
  imports Coerce "HOL-Library.Product_Lexorder"
begin

section \<open>The backups a restore needs\<close>

text \<open>
  Models \<^verbatim>\<open>dbabrain/lib/sqlserver_backup_chain.py\<close> (which FULL, DIFF and LOG a restore to a moment
  applies), \<^verbatim>\<open>dbabrain/lib/backup_level.py\<close> (what each engine calls a level) and
  \<^verbatim>\<open>dbabrain/lib/drill_tiers.py\<close> (how often a restore drill must succeed).

  A candidate's \<open>item\<close> is the caller's own handle, an arbitrary type. A time stamp is a number of
  seconds; the calendar of a stamp without \<open>Z\<close> is the process's local zone, the argument \<open>local\<close>
  of \<open>backup_time_from_name\<close>. The lines that tell the operator what was chosen carry the counts
  they print.
\<close>

subsection \<open>Names\<close>

definition KINDS :: "string list" where
  "KINDS = [''FULL'', ''DIFF'', ''LOG'']"

definition kind_from_folder :: "string \<Rightarrow> string" where
  "kind_from_folder name = (let u = upper (strip name) in if u \<in> set KINDS then u else [])"

text \<open>\<^verbatim>\<open>_(\d{8})_(\d{6})(Z?)\<close> at the start of the text, then searched at every position.\<close>

definition stamp_here :: "string \<Rightarrow> (string \<times> string \<times> bool) option" where
  "stamp_here s =
     (let day = take 8 (drop 1 s); time = take 6 (drop 10 s) in
      if 16 \<le> length s \<and> s ! 0 = CHR ''_'' \<and> s ! 9 = CHR ''_'' \<and>
         list_all is_digit day \<and> list_all is_digit time
      then Some (day, time, 16 < length s \<and> s ! 16 = CHR ''Z'') else None)"

fun stamp_in :: "string \<Rightarrow> (string \<times> string \<times> bool) option" where
  "stamp_in [] = None"
| "stamp_in (c # cs) = (case stamp_here (c # cs) of Some m \<Rightarrow> Some m | None \<Rightarrow> stamp_in cs)"

text \<open>
  \<^verbatim>\<open>strptime("%Y%m%d%H%M%S")\<close> of fourteen digits: the civil fields, refused out of range. The
  seconds of the stamp are whole; \<^verbatim>\<open>strptime\<close> reads the second 60 and 61 as a field and then
  \<^verbatim>\<open>datetime\<close> refuses it.
\<close>

definition civil_stamp :: "string \<Rightarrow> string \<Rightarrow> (civil \<times> int) option" where
  "civil_stamp day time =
     (let y = digits_value (take 4 day); m = digits_value (take 2 (drop 4 day)); d = digits_value (drop 6 day);
          hh = digits_value (take 2 time); mi = digits_value (take 2 (drop 2 time)); ss = digits_value (drop 4 time) in
      if 1 \<le> y \<and> 1 \<le> m \<and> m \<le> 12 \<and> 1 \<le> d \<and> d \<le> month_days y m \<and> hh \<le> 23 \<and> mi \<le> 59 \<and> ss \<le> 59
      then Some (\<lparr> c_year = y, c_month = m, c_day = d, c_hour = hh, c_minute = mi \<rparr>, ss) else None)"

definition backup_time_from_name :: "(int \<Rightarrow> int) \<Rightarrow> string \<Rightarrow> int option" where
  "backup_time_from_name local name =
     (case stamp_in name of
        None \<Rightarrow> None
      | Some (day, time, utc) \<Rightarrow>
          (case civil_stamp day time of
             None \<Rightarrow> None
           | Some (c, ss) \<Rightarrow> Some (if utc then wall_seconds c ss else local (wall_seconds c ss))))"

subsection \<open>Choosing a chain\<close>

record 'a candidate =
  item :: 'a
  database :: string
  kind :: string
  timestamp :: rat

datatype chain_line = No_full string | Chain_of string nat nat nat

record 'a chain_choice =
  selected :: "'a list"
  unresolved :: "string list"
  chain_lines :: "chain_line list"

definition reaches :: "rat option \<Rightarrow> rat \<Rightarrow> bool" where
  "reaches until t = (case until of None \<Rightarrow> True | Some u \<Rightarrow> t \<le> u)"

fun max_stamp :: "'a candidate list \<Rightarrow> 'a candidate option" where
  "max_stamp [] = None"
| "max_stamp (c # cs) = Some (max_by timestamp c cs)"

definition full_of :: "'a candidate list \<Rightarrow> rat option \<Rightarrow> 'a candidate option" where
  "full_of files until =
     max_stamp (filter (\<lambda>c. kind c = ''FULL'' \<and> reaches until (timestamp c)) files)"

definition diff_of :: "'a candidate list \<Rightarrow> rat option \<Rightarrow> 'a candidate \<Rightarrow> 'a candidate option" where
  "diff_of files until full =
     max_stamp (filter (\<lambda>c. kind c = ''DIFF'' \<and> timestamp full \<le> timestamp c \<and> reaches until (timestamp c)) files)"

fun upto_moment :: "rat \<Rightarrow> 'a candidate list \<Rightarrow> 'a candidate list" where
  "upto_moment u [] = []"
| "upto_moment u (c # cs) = c # (if u \<le> timestamp c then [] else upto_moment u cs)"

definition logs_of :: "'a candidate list \<Rightarrow> rat option \<Rightarrow> rat \<Rightarrow> 'a candidate list" where
  "logs_of files until base =
     (let logs = sort_key timestamp (filter (\<lambda>c. kind c = ''LOG'' \<and> base \<le> timestamp c) files) in
      case until of None \<Rightarrow> logs | Some u \<Rightarrow> upto_moment u logs)"

definition chain_parts ::
  "'a candidate list \<Rightarrow> rat option \<Rightarrow> ('a candidate \<times> 'a candidate option \<times> 'a candidate list) option" where
  "chain_parts files until =
     (case full_of files until of
        None \<Rightarrow> None
      | Some full \<Rightarrow>
          let diff = diff_of files until full;
              base = timestamp (case diff of None \<Rightarrow> full | Some c \<Rightarrow> c)
          in Some (full, diff, logs_of files until base))"

definition chain_of :: "'a candidate \<times> 'a candidate option \<times> 'a candidate list \<Rightarrow> 'a candidate list" where
  "chain_of p = (case p of (full, diff, logs) \<Rightarrow> [full] @ (case diff of None \<Rightarrow> [] | Some c \<Rightarrow> [c]) @ logs)"

definition database_name :: "'a candidate list \<Rightarrow> string" where
  "database_name files =
     (let n = database (hd files) in if n = [] then ''(no database folder)'' else n)"

record 'a chain_state =
  chosen :: "'a candidate list"
  without_chain :: "string list"
  told :: "chain_line list"

definition choose_database ::
  "rat option \<Rightarrow> 'a chain_state \<Rightarrow> 'a candidate list \<Rightarrow> 'a chain_state" where
  "choose_database until s files =
     (let name = database_name files in
      case chain_parts files until of
        None \<Rightarrow> s\<lparr> without_chain := without_chain s @ [name], told := told s @ [No_full name] \<rparr>
      | Some (full, diff, logs) \<Rightarrow>
          s\<lparr> chosen := chosen s @ chain_of (full, diff, logs),
             told := told s @ [Chain_of name (if diff = None then 0 else 1) (length logs) (length files)] \<rparr>)"

definition groups :: "'a candidate list \<Rightarrow> (string \<times> 'a candidate list) list" where
  "groups candidates = group_by (\<lambda>c. lower (database c)) candidates"

definition restore_chain :: "'a candidate list \<Rightarrow> rat option \<Rightarrow> 'a chain_choice" where
  "restore_chain candidates until =
     (let by_database = groups candidates;
          s = foldl (\<lambda>s key. choose_database until s (the (map_of by_database key)))
                \<lparr> chosen = [], without_chain = [], told = [] \<rparr> (sorted_keys by_database)
      in \<lparr> selected = map item (sort_key (\<lambda>c. (timestamp c, lower (database c))) (chosen s)),
           unresolved = without_chain s, chain_lines = told s \<rparr>)"

subsection \<open>backup_level.py\<close>

datatype level_error = No_levels string | No_such_level string string "string list"

definition BACKUP_LEVEL_BY_ENGINE :: "(string \<times> (string \<times> string) list) list" where
  "BACKUP_LEVEL_BY_ENGINE =
     [(''oracle'', [(''full'', ''0''), (''diff'', ''1'')]),
      (''postgresql'', [(''full'', ''full''), (''diff'', ''incr'')]),
      (''sqlserver'', [(''full'', ''full''), (''diff'', ''diff''), (''log'', ''log'')]),
      (''mysql'', [(''full'', ''full''), (''diff'', ''incr'')])]"

definition backup_level_for :: "string \<Rightarrow> string \<Rightarrow> level_error + string" where
  "backup_level_for db_type backup_type =
     (let engine = lower (strip db_type); wanted = lower (strip backup_type) in
      case map_of BACKUP_LEVEL_BY_ENGINE engine of
        None \<Rightarrow> Inl (No_levels db_type)
      | Some levels \<Rightarrow>
          (case map_of levels wanted of
             None \<Rightarrow> Inl (No_such_level engine wanted (sorted_keys levels))
           | Some l \<Rightarrow> Inr l))"

subsection \<open>drill_tiers.py\<close>

definition TIERS :: "(string \<times> instant) list" where
  "TIERS = [(''daily'', sec (26 * 3600)), (''weekly'', sec (7 * 86400 + 12 * 3600)), (''monthly'', sec (32 * 86400))]"

datatype tier_error = Not_a_tier pyval

datatype drill = Drill_ok | Drill_overdue | Drill_never | Drill_untiered

definition parse_tier :: "pyval \<Rightarrow> tier_error + string option" where
  "parse_tier v =
     (if is_absent v then Inr None
      else let t = lower (strip (py_str v)) in
           if map_of TIERS t = None then Inl (Not_a_tier v) else Inr (Some t))"

definition deadline :: "string option \<Rightarrow> instant option" where
  "deadline tier = map_of TIERS (lower (case tier of None \<Rightarrow> [] | Some t \<Rightarrow> t))"

definition drill_state :: "string option \<Rightarrow> instant option \<Rightarrow> instant \<Rightarrow> drill" where
  "drill_state tier last_success now =
     (case deadline tier of
        None \<Rightarrow> Drill_untiered
      | Some longest \<Rightarrow>
          (case last_success of
             None \<Rightarrow> Drill_never
           | Some t \<Rightarrow> if now - t \<le> longest then Drill_ok else Drill_overdue))"

lemma parsed_tier_has_deadline: "parse_tier v = Inr (Some t) \<Longrightarrow> deadline (Some t) \<noteq> None"
  by (auto simp: parse_tier_def deadline_def Let_def split: if_splits)

lemma tiered_drill_is_judged: "parse_tier v = Inr (Some t) \<Longrightarrow> drill_state (Some t) s now \<noteq> Drill_untiered"
  using parsed_tier_has_deadline [of v t] by (auto simp: drill_state_def split: option.splits)

lemma drill_ok_within_deadline:
  "drill_state tier s now = Drill_ok \<longleftrightarrow>
     (\<exists>longest t. deadline tier = Some longest \<and> s = Some t \<and> now \<le> t + longest)"
  by (auto simp: drill_state_def split: option.splits)

subsection \<open>What a restore needs\<close>

text \<open>
  The specification, over the set of files of one database and with no order of choice: a chain is
  the newest FULL that reaches back before the moment, the newest DIFF between it and the moment
  when there is one, and LOGs in time order from that baseline on. No LOG in between is left out,
  and only the closing LOG may reach or pass the moment.
\<close>

definition usable_full :: "'a candidate set \<Rightarrow> rat option \<Rightarrow> 'a candidate set" where
  "usable_full files until = {c \<in> files. kind c = ''FULL'' \<and> reaches until (timestamp c)}"

definition usable_diff :: "'a candidate set \<Rightarrow> rat option \<Rightarrow> rat \<Rightarrow> 'a candidate set" where
  "usable_diff files until t = {c \<in> files. kind c = ''DIFF'' \<and> t \<le> timestamp c \<and> reaches until (timestamp c)}"

definition logs_since :: "'a candidate set \<Rightarrow> rat \<Rightarrow> 'a candidate set" where
  "logs_since files t = {c \<in> files. kind c = ''LOG'' \<and> t \<le> timestamp c}"

definition newest_in :: "'a candidate \<Rightarrow> 'a candidate set \<Rightarrow> bool" where
  "newest_in c S = (c \<in> S \<and> (\<forall>x\<in>S. timestamp x \<le> timestamp c))"

definition log_run :: "'a candidate set \<Rightarrow> rat option \<Rightarrow> 'a candidate list \<Rightarrow> bool" where
  "log_run L until logs =
     (set logs \<subseteq> L \<and> sorted (map timestamp logs) \<and>
      (case until of
         None \<Rightarrow> L \<subseteq> set logs
       | Some u \<Rightarrow> (\<forall>c\<in>set (butlast logs). timestamp c < u) \<and>
                   (\<forall>c\<in>L. c \<in> set logs \<or> (\<exists>l\<in>set logs. u \<le> timestamp l \<and> timestamp l \<le> timestamp c))))"

definition chain_spec :: "'a candidate set \<Rightarrow> rat option \<Rightarrow> 'a candidate list \<Rightarrow> bool" where
  "chain_spec files until cs =
     (if usable_full files until = {} then cs = []
      else \<exists>full diffs logs. cs = full # diffs @ logs \<and>
             newest_in full (usable_full files until) \<and>
             (if usable_diff files until (timestamp full) = {} then diffs = []
              else \<exists>d. diffs = [d] \<and> newest_in d (usable_diff files until (timestamp full))) \<and>
             log_run (logs_since files (timestamp (last (full # diffs)))) until logs)"

lemma max_stamp_newest: "max_stamp cs = Some c \<Longrightarrow> newest_in c (set cs)"
proof (cases cs)
  case (Cons b xs)
  assume "max_stamp cs = Some c"
  with Cons show ?thesis
    using max_by_in [of timestamp b xs] max_by_ge [where f = timestamp and b = b and xs = xs]
    by (auto simp: newest_in_def)
qed simp

lemma max_stamp_None [simp]: "max_stamp cs = None \<longleftrightarrow> cs = []"
  by (cases cs) auto

lemma upto_moment_run:
  assumes "sorted (map timestamp ls)"
  shows "set (upto_moment u ls) \<subseteq> set ls \<and> sorted (map timestamp (upto_moment u ls)) \<and>
         (\<forall>c\<in>set (butlast (upto_moment u ls)). timestamp c < u) \<and>
         (\<forall>c\<in>set ls. c \<in> set (upto_moment u ls) \<or>
            (\<exists>l\<in>set (upto_moment u ls). u \<le> timestamp l \<and> timestamp l \<le> timestamp c))"
  using assms by (induction u ls rule: upto_moment.induct) auto

lemma logs_of_run: "log_run (logs_since (set files) t) until (logs_of files until t)"
proof -
  have s: "sorted (map timestamp (sort_key timestamp xs))" for xs :: "'a candidate list"
    by simp
  show ?thesis
    using upto_moment_run [OF s, of _ "filter (\<lambda>c. kind c = ''LOG'' \<and> t \<le> timestamp c) files"]
    by (auto simp: log_run_def logs_of_def logs_since_def Let_def split: option.splits)
qed


lemma chain_parts_none: "chain_parts files until = None \<longleftrightarrow> usable_full (set files) until = {}"
proof -
  have "chain_parts files until = None \<longleftrightarrow> full_of files until = None"
    by (simp add: chain_parts_def Let_def split: option.splits)
  then show ?thesis
    by (auto simp: full_of_def usable_full_def filter_empty_conv)
qed

lemma full_of_newest: "full_of files until = Some full \<Longrightarrow> newest_in full (usable_full (set files) until)"
  by (auto simp: full_of_def usable_full_def dest: max_stamp_newest)

lemma diff_of_newest:
  "diff_of files until full = Some d \<Longrightarrow> newest_in d (usable_diff (set files) until (timestamp full))"
  "diff_of files until full = None \<longleftrightarrow> usable_diff (set files) until (timestamp full) = {}"
  by (auto simp: diff_of_def usable_diff_def filter_empty_conv dest: max_stamp_newest)

lemma chain_parts_spec:
  "chain_spec (set files) until (case chain_parts files until of None \<Rightarrow> [] | Some p \<Rightarrow> chain_of p)"
proof (cases "full_of files until")
  case None
  then show ?thesis
    using chain_parts_none [of files until] by (simp add: chain_spec_def chain_parts_def)
next
  case (Some full)
  note newest = full_of_newest [OF Some]
  then have "usable_full (set files) until \<noteq> {}"
    by (auto simp: newest_in_def)
  note spec = this newest
  show ?thesis
  proof (cases "diff_of files until full")
    case None
    with spec Some diff_of_newest(2) [of files until full] show ?thesis
      by (simp add: chain_spec_def chain_parts_def chain_of_def logs_of_run)
  next
    case (Some d)
    note d = diff_of_newest(1) [OF this]
    then have "usable_diff (set files) until (timestamp full) \<noteq> {}"
      by (auto simp: newest_in_def)
    with d spec \<open>full_of files until = Some full\<close> Some show ?thesis
      by (simp add: chain_spec_def chain_parts_def chain_of_def logs_of_run exI [of _ "[d]"])
  qed
qed

lemma logs_of_sorted:
  "sorted (map timestamp (logs_of files until t))"
  "c \<in> set (logs_of files until t) \<Longrightarrow> c \<in> set files \<and> t \<le> timestamp c"
  using logs_of_run [of files t until] by (auto simp: log_run_def logs_since_def)

lemma chain_of_sorted:
  assumes "chain_parts files until = Some p"
  shows "sorted (map timestamp (chain_of p)) \<and> set (chain_of p) \<subseteq> set files"
proof -
  obtain full where full: "full_of files until = Some full"
    using assms by (auto simp: chain_parts_def split: option.splits)
  note full_props = full_of_newest [OF full, unfolded newest_in_def usable_full_def]
  show ?thesis
  proof (cases "diff_of files until full")
    case None
    then show ?thesis
      using assms full full_props logs_of_sorted [where files = files and until = until and t = "timestamp full"]
      by (auto simp: chain_parts_def chain_of_def)
  next
    case (Some d)
    then show ?thesis
      using assms full full_props logs_of_sorted [where files = files and until = until and t = "timestamp d"]
        diff_of_newest(1) [OF Some, unfolded newest_in_def usable_diff_def]
      by (auto simp: chain_parts_def chain_of_def) (meson order.trans)
  qed
qed

subsection \<open>Every database at once\<close>

definition files_of :: "'a candidate list \<Rightarrow> string \<Rightarrow> 'a candidate list" where
  "files_of candidates key = filter (\<lambda>c. lower (database c) = key) candidates"

definition chain_for :: "'a candidate list \<Rightarrow> rat option \<Rightarrow> string \<Rightarrow> 'a candidate list" where
  "chain_for candidates until key =
     (case chain_parts (files_of candidates key) until of None \<Rightarrow> [] | Some p \<Rightarrow> chain_of p)"

lemma choose_database_fields:
  "chosen (choose_database until s files) = chosen s @
     (case chain_parts files until of None \<Rightarrow> [] | Some p \<Rightarrow> chain_of p)"
  "without_chain (choose_database until s files) = without_chain s @
     (if chain_parts files until = None then [database_name files] else [])"
  by (auto simp: choose_database_def Let_def split: option.splits)

lemma choose_fold:
  "chosen (foldl (\<lambda>s key. choose_database until s (f key)) s keys) =
     chosen s @ concat (map (\<lambda>key. case chain_parts (f key) until of None \<Rightarrow> [] | Some p \<Rightarrow> chain_of p) keys)"
  "without_chain (foldl (\<lambda>s key. choose_database until s (f key)) s keys) =
     without_chain s @ map (\<lambda>key. database_name (f key)) (filter (\<lambda>key. chain_parts (f key) until = None) keys)"
  by (induction keys arbitrary: s) (simp_all add: choose_database_fields)

lemma group_key_files:
  "key \<in> set (sorted_keys (groups candidates)) \<longleftrightarrow> files_of candidates key \<noteq> []"
  "key \<in> set (sorted_keys (groups candidates)) \<Longrightarrow> the (map_of (groups candidates) key) = files_of candidates key"
  by (auto simp: set_sorted_keys groups_def map_of_group_by files_of_def filter_empty_conv split: if_splits)

lemma filter_concat_key:
  assumes "\<And>k x. x \<in> set (f k) \<Longrightarrow> g x = k" and "distinct ks"
  shows "filter (\<lambda>x. g x = key) (concat (map f ks)) = (if key \<in> set ks then f key else [])"
  using assms(2)
proof (induction ks)
  case (Cons k ks)
  have "filter (\<lambda>x. g x = key) (f k) = (if k = key then f key else [])"
    using assms(1) by (auto simp: filter_id_conv filter_empty_conv)
  with Cons show ?case by auto
qed simp

definition chosen_files :: "'a candidate list \<Rightarrow> rat option \<Rightarrow> 'a candidate list" where
  "chosen_files candidates until =
     sort_key (\<lambda>c. (timestamp c, lower (database c)))
       (concat (map (chain_for candidates until) (sorted_keys (groups candidates))))"

lemma restore_chain_fields:
  "selected (restore_chain candidates until) = map item (chosen_files candidates until)"
  "unresolved (restore_chain candidates until) =
     map (\<lambda>key. database_name (files_of candidates key))
       (filter (\<lambda>key. usable_full (set (files_of candidates key)) until = {}) (sorted_keys (groups candidates)))"
proof -
  let ?ks = "sorted_keys (groups candidates)"
  have f: "foldl (\<lambda>s key. choose_database until s (the (map_of (groups candidates) key))) s ?ks =
           foldl (\<lambda>s key. choose_database until s (files_of candidates key)) s ?ks" for s
    by (rule foldl_cong) (simp_all add: group_key_files(2))
  show "selected (restore_chain candidates until) = map item (chosen_files candidates until)"
    unfolding restore_chain_def Let_def f unfolding choose_fold by (simp add: chosen_files_def chain_for_def [abs_def])
  show "unresolved (restore_chain candidates until) =
     map (\<lambda>key. database_name (files_of candidates key))
       (filter (\<lambda>key. usable_full (set (files_of candidates key)) until = {}) ?ks)"
    unfolding restore_chain_def Let_def f unfolding choose_fold by (simp add: chain_parts_none)
qed

lemma chain_for_files:
  "set (chain_for candidates until key) \<subseteq> set (files_of candidates key)"
  "sorted (map timestamp (chain_for candidates until key))"
  by (cases "chain_parts (files_of candidates key) until"; simp add: chain_for_def chain_of_sorted)+

lemma chain_for_in: "x \<in> set (chain_for candidates until key) \<Longrightarrow> x \<in> set candidates \<and> lower (database x) = key"
  using chain_for_files [of candidates until key] by (auto simp: files_of_def)

lemma chosen_files_of_database:
  "filter (\<lambda>c. lower (database c) = key) (chosen_files candidates until) = chain_for candidates until key"
proof -
  let ?f = "\<lambda>c. (timestamp c, lower (database c))"
  have ks: "distinct (sorted_keys (groups candidates))"
    by (simp add: sorted_keys_distinct groups_def distinct_group_by)
  have none: "chain_for candidates until key = []" if "key \<notin> set (sorted_keys (groups candidates))"
    using that by (simp add: group_key_files chain_for_def chain_parts_def full_of_def)
  have "filter (\<lambda>c. lower (database c) = key) (chosen_files candidates until) =
        sort_key ?f (chain_for candidates until key)"
    unfolding chosen_files_def filter_sort
    by (subst filter_concat_key [OF _ ks]) (use chain_for_in none in auto)
  moreover have "sorted (map ?f (chain_for candidates until key))"
  proof -
    have "map ?f (chain_for candidates until key) = map (\<lambda>c. (timestamp c, key)) (chain_for candidates until key)"
      using chain_for_in by auto
    moreover have "sorted (map timestamp (chain_for candidates until key))"
      by (rule chain_for_files)
    ultimately show ?thesis
      unfolding sorted_map by (elim sorted_wrt_mono_rel [rotated]) (use chain_for_in in \<open>force simp: less_eq_prod_def\<close>)
  qed
  ultimately show ?thesis
    by (simp add: sort_key_id_if_sorted)
qed

text \<open>C4: The narrowed copy refines the specification of a restore. What restore_chain selects is, for
  each database on its own, exactly a chain of the specification: the newest FULL at or before the
  moment, the newest DIFF after it, and every LOG from that baseline up to and including the first
  that reaches the moment, in time order; a database with no usable FULL contributes nothing and is
  named in unresolved, and no other database is. The selection as a whole is oldest first.
\<close>
theorem restore_chain_refines_spec:
  "\<exists>cs. selected (restore_chain candidates until) = map item cs \<and> sorted (map timestamp cs) \<and>
        (\<forall>key. chain_spec (set (files_of candidates key)) until (filter (\<lambda>c. lower (database c) = key) cs)) \<and>
        set (unresolved (restore_chain candidates until)) =
          {database_name (files_of candidates key) | key.
             files_of candidates key \<noteq> [] \<and> usable_full (set (files_of candidates key)) until = {}}"
proof (intro exI conjI allI)
  show "selected (restore_chain candidates until) = map item (chosen_files candidates until)"
    by (rule restore_chain_fields)
  have "sorted (map (\<lambda>c. (timestamp c, lower (database c))) (chosen_files candidates until))"
    by (simp add: chosen_files_def)
  then show "sorted (map timestamp (chosen_files candidates until))"
    unfolding sorted_map by (rule sorted_wrt_mono_rel [rotated]) (auto simp: less_eq_prod_def)
  show "chain_spec (set (files_of candidates key)) until
          (filter (\<lambda>c. lower (database c) = key) (chosen_files candidates until))" for key
    unfolding chosen_files_of_database chain_for_def by (rule chain_parts_spec)
  show "set (unresolved (restore_chain candidates until)) =
          {database_name (files_of candidates key) | key.
             files_of candidates key \<noteq> [] \<and> usable_full (set (files_of candidates key)) until = {}}"
    unfolding restore_chain_fields set_map set_filter group_key_files(1) by blast
qed


end
