(* ===== verification/HealthModel.thy ===== *)
theory HealthModel
  imports Coerce "HOL-Library.Product_Lexorder" "HOL-Library.Multiset"
begin

section \<open>What is true about a target now\<close>

text \<open>
  Models \<^verbatim>\<open>dbabrain/lib/health_model.py\<close>: the severity of a current row, the newest collection of
  each metric, and the grouping of findings both report pages render.

  A finding's optional fields are texts, empty where the key is absent: the module reads each with
  \<^verbatim>\<open>get(...) or default\<close>. \<open>collectedAt\<close> stays a value, an epoch or a text. \<^verbatim>\<open>SEVERITY_RANK[s]\<close>
  raises \<^verbatim>\<open>KeyError\<close> on a word it does not rank, the \<open>Inl\<close> of \<open>group_findings\<close>.
\<close>

subsection \<open>Severities\<close>

definition CRITICAL_STATUSES :: "string list" where
  "CRITICAL_STATUSES = [''CRITICAL'', ''ERROR'']"

definition WARNING_STATUSES :: "string list" where
  "WARNING_STATUSES = [''WARNING'', ''WARN'', ''UNKNOWN'', ''NO_DATA'']"

definition SEVERITY_RANK :: "(string \<times> int) list" where
  "SEVERITY_RANK = [(''CRITICAL'', 3), (''WARNING'', 2), (''OK'', 1), (''UNKNOWN'', 0)]"

definition COLLECTOR_ITEM :: string where
  "COLLECTOR_ITEM = ''__collector__''"

definition severity_of :: "string \<Rightarrow> string" where
  "severity_of status =
     (let u = upper status in
      if u \<in> set CRITICAL_STATUSES then ''CRITICAL''
      else if u \<in> set WARNING_STATUSES then ''WARNING''
      else if u = [] then ''UNKNOWN'' else ''OK'')"

definition REPORT_JUDGED_CODES :: "string list" where
  "REPORT_JUDGED_CODES = [''PERFORMANCE_IO_LATENCY'', ''PAGE_LIFE_EXPECTANCY'']"

definition report_judged_severity :: "string \<Rightarrow> rat option \<Rightarrow> string" where
  "report_judged_severity code value =
     (case value of
        None \<Rightarrow> ''OK''
      | Some v \<Rightarrow>
          if code = ''PERFORMANCE_IO_LATENCY'' then
            (if 50 \<le> v then ''CRITICAL'' else if 20 \<le> v then ''WARNING'' else ''OK'')
          else if code = ''PAGE_LIFE_EXPECTANCY'' then
            (if 0 < v \<and> v < 300 then ''CRITICAL'' else if 0 < v \<and> v < 2000 then ''WARNING'' else ''OK'')
          else ''OK'')"

definition current_severity :: "string \<Rightarrow> string \<Rightarrow> rat option \<Rightarrow> string" where
  "current_severity code status value =
     (if code \<in> set REPORT_JUDGED_CODES then report_judged_severity code value else severity_of status)"

definition rank_or_0 :: "string \<Rightarrow> int" where
  "rank_or_0 s = (case map_of SEVERITY_RANK s of None \<Rightarrow> 0 | Some r \<Rightarrow> r)"

text \<open>
  \<^verbatim>\<open>downgraded_from\<close>: the note is searched by the regular expression engine, the argument \<open>note_in\<close>,
  which answers the two status words of the first match.
\<close>

definition downgraded_from :: "(string \<Rightarrow> (string \<times> string) option) \<Rightarrow> string \<Rightarrow> string" where
  "downgraded_from note_in message =
     (case note_in message of
        None \<Rightarrow> []
      | Some (a, b) \<Rightarrow>
          let was = severity_of a; now = severity_of b in
          if rank_or_0 now < rank_or_0 was then was else [])"

subsection \<open>The newest collection\<close>

text \<open>The two keys a row is read by, as the texts \<^verbatim>\<open>str(row.get(key) or "")\<close>.\<close>

definition row_text :: "string \<Rightarrow> pydict \<Rightarrow> string" where
  "row_text key row = str_or (get row key)"

definition newest_get :: "(string \<times> string) list \<Rightarrow> string \<Rightarrow> string" where
  "newest_get newest code = (case map_of newest code of None \<Rightarrow> [] | Some t \<Rightarrow> t)"

definition snapshot_at :: "string \<Rightarrow> string \<Rightarrow> pydict list \<Rightarrow> (string \<times> string) list" where
  "snapshot_at code_key time_key rows =
     foldl (\<lambda>newest row.
         let code = row_text code_key row; stamp = row_text time_key row in
         if newest_get newest code < stamp then upd code stamp newest else newest) [] rows"

definition latest_snapshot :: "string \<Rightarrow> string \<Rightarrow> pydict list \<Rightarrow> pydict list" where
  "latest_snapshot code_key time_key rows =
     (let newest = snapshot_at code_key time_key rows in
      filter (\<lambda>row. row_text time_key row = newest_get newest (row_text code_key row)) rows)"

subsection \<open>Ages\<close>

definition two_digits :: "string \<Rightarrow> nat \<Rightarrow> bool" where
  "two_digits s i = (i + 2 \<le> length s \<and> is_digit (s ! i) \<and> is_digit (s ! (i + 1)))"

text \<open>\<^verbatim>\<open>\s*(\d{4})-(\d{2})-(\d{2})(?:[ T](\d{2}):(\d{2}))?\<close> at the start: year, month, day, hour, minute.\<close>

definition stamp_fields :: "string \<Rightarrow> civil option" where
  "stamp_fields t =
     (let s = dropWhile is_ws t in
      if two_digits s 0 \<and> two_digits s 2 \<and> 4 < length s \<and> s ! 4 = CHR ''-'' \<and> two_digits s 5 \<and>
         7 < length s \<and> s ! 7 = CHR ''-'' \<and> two_digits s 8
      then let timed = (two_digits s 11 \<and> (s ! 10 = CHR '' '' \<or> s ! 10 = CHR ''T'') \<and>
                        two_digits s 14 \<and> s ! 13 = CHR '':'') in
           Some \<lparr> c_year = digits_value (take 4 s), c_month = digits_value (take 2 (drop 5 s)),
                  c_day = digits_value (take 2 (drop 8 s)),
                  c_hour = (if timed then digits_value (take 2 (drop 11 s)) else 0),
                  c_minute = (if timed then digits_value (take 2 (drop 14 s)) else 0) \<rparr>
      else None)"

definition real_moment :: "civil \<Rightarrow> bool" where
  "real_moment c =
     (1 \<le> c_year c \<and> 1 \<le> c_month c \<and> c_month c \<le> 12 \<and> 1 \<le> c_day c \<and>
      c_day c \<le> month_days (c_year c) (c_month c) \<and> c_hour c \<le> 23 \<and> c_minute c \<le> 59)"

definition age_hint :: "string \<Rightarrow> int \<Rightarrow> string" where
  "age_hint t now =
     (case stamp_fields t of
        None \<Rightarrow> []
      | Some c \<Rightarrow>
          if \<not> real_moment c then []
          else let days = (of_int (now - wall_seconds c 0) :: rat) / 86400 in
               if days < 0 then []
               else if days < 1 then show_int (round_half_even (days * 24)) @ ''h ago''
               else show_int (round_half_even days) @ '' days ago'')"

subsection \<open>Grouping\<close>

record finding =
  f_code :: string
  f_label :: string
  f_item :: string
  f_value :: string
  f_severity :: string
  f_message :: string
  f_collected :: pyval
  f_action :: string
  f_last_text :: string

record group_item =
  g_item :: string
  g_value :: string
  g_age :: string
  g_item_severity :: string
  g_detail :: string
  g_collected :: pyval

record finding_group =
  g_code :: string
  g_label :: string
  g_severity :: string
  g_action :: string
  g_items :: "group_item list"
  g_count :: nat
  g_headline :: string
  g_newest :: pyval

datatype key_error = Key_error string

definition CHECK_DETAIL :: string where
  "CHECK_DETAIL = ''Check the metric detail below.''"

definition COLLECTOR_FAILURE_ACTION :: string where
  "COLLECTOR_FAILURE_ACTION =
     ''Nothing was read, so this says nothing about the server: fix what the error names - the credential or its auth type, the host's access, a permission or the network path - and the next run fills it in.''"

definition EM_DASH :: string where
  "EM_DASH = [CHR 0xE2, CHR 0x80, CHR 0x94]"

definition DOT :: string where
  "DOT = [CHR '' '', CHR 0xC2, CHR 0xB7, CHR '' '']"

definition or_else :: "string \<Rightarrow> string \<Rightarrow> string" where
  "or_else s t = (if s = [] then t else s)"

definition rank :: "string \<Rightarrow> key_error + int" where
  "rank s = (case map_of SEVERITY_RANK s of None \<Rightarrow> Inl (Key_error s) | Some r \<Rightarrow> Inr r)"

definition fresh_group :: "finding \<Rightarrow> finding_group" where
  "fresh_group f = \<lparr> g_code = f_code f, g_label = or_else (f_label f) (f_code f), g_severity = f_severity f,
     g_action = or_else (f_action f) CHECK_DETAIL, g_items = [], g_count = 0, g_headline = [], g_newest = PNone \<rparr>"

definition item_of :: "int \<Rightarrow> finding \<Rightarrow> group_item" where
  "item_of now f = \<lparr> g_item = f_item f, g_value = or_else (f_value f) EM_DASH,
     g_age = age_hint (f_last_text f) now, g_item_severity = f_severity f, g_detail = f_message f,
     g_collected = f_collected f \<rparr>"

definition is_problem :: "finding \<Rightarrow> bool" where
  "is_problem f = (f_severity f \<notin> {''OK'', ''UNKNOWN'', []})"

definition add_finding ::
  "int \<Rightarrow> (string \<times> finding_group) list \<Rightarrow> finding \<Rightarrow> key_error + (string \<times> finding_group) list" where
  "add_finding now gs f =
     (if \<not> is_problem f then Inr gs
      else let g = (case map_of gs (f_code f) of None \<Rightarrow> fresh_group f | Some g \<Rightarrow> g) in
           rbind (rank (f_severity f)) (\<lambda>r. rbind (rank (g_severity g)) (\<lambda>r'.
             let g = (if r' < r then g\<lparr>g_severity := f_severity f\<rparr> else g) in
             Inr (upd (f_code f) (g\<lparr>g_items := g_items g @ [item_of now f]\<rparr>) gs))))"

fun add_findings ::
  "int \<Rightarrow> (string \<times> finding_group) list \<Rightarrow> finding list \<Rightarrow> key_error + (string \<times> finding_group) list" where
  "add_findings now gs [] = Inr gs"
| "add_findings now gs (f # fs) = rbind (add_finding now gs f) (\<lambda>gs'. add_findings now gs' fs)"

text \<open>\<^verbatim>\<open>max(stamps, key=str)\<close> over the moments that are known.\<close>

definition newest_stamp :: "group_item list \<Rightarrow> pyval" where
  "newest_stamp items =
     (case filter (\<lambda>v. v \<noteq> PNone) (map g_collected items) of
        [] \<Rightarrow> PNone
      | v # vs \<Rightarrow> max_by py_str v vs)"

definition headline :: "group_item list \<Rightarrow> string" where
  "headline items =
     (let worst = hd items; n = length items;
          h = (if n = 1 then g_item worst @ DOT @ g_value worst
               else show_nat n @ '' items'' @ DOT @ ''worst: '' @ g_item worst @ DOT @ g_value worst)
      in if g_age worst = [] then h else h @ '' ('' @ g_age worst @ '')'')"

definition finish_group :: "finding_group \<Rightarrow> finding_group" where
  "finish_group g =
     (let items = sort_key (\<lambda>r. (- rank_or_0 (g_item_severity r), g_item r)) (g_items g) in
      g\<lparr> g_items := items, g_count := length items,
         g_action := (if list_all (\<lambda>r. g_item r = COLLECTOR_ITEM) items then COLLECTOR_FAILURE_ACTION else g_action g),
         g_headline := headline items, g_newest := newest_stamp items \<rparr>)"

definition group_findings :: "finding list \<Rightarrow> int \<Rightarrow> key_error + finding_group list" where
  "group_findings findings now =
     rbind (add_findings now [] findings) (\<lambda>gs.
       Inr (sort_key (\<lambda>g. (- rank_or_0 (g_severity g), - int (g_count g), g_label g))
              (map (\<lambda>(_, g). finish_group g) gs)))"

subsection \<open>The newest collection is the current state\<close>

lemma newest_get_upd: "newest_get (upd c t d) k = (if k = c then t else newest_get d k)"
  by (simp add: newest_get_def)

lemma snapshot_at_newest:
  "newest_get (snapshot_at code_key time_key rows) c =
     foldl max [] (map (row_text time_key) (filter (\<lambda>r. row_text code_key r = c) rows))"
proof -
  define step where "step = (\<lambda>newest row.
         let code = row_text code_key row; stamp = row_text time_key row in
         if newest_get newest code < stamp then upd code stamp newest else newest)"
  have "newest_get (foldl step d rows) c =
        foldl max (newest_get d c) (map (row_text time_key) (filter (\<lambda>r. row_text code_key r = c) rows))" for d
  proof (induction rows arbitrary: d)
    case (Cons r rows)
    have "newest_get (step d r) c =
          (if row_text code_key r = c then max (newest_get d c) (row_text time_key r) else newest_get d c)"
      by (auto simp: step_def Let_def newest_get_upd max_def not_less)
    with Cons show ?case by simp
  qed simp
  moreover have "snapshot_at code_key time_key rows = foldl step [] rows"
    by (simp add: snapshot_at_def step_def)
  ultimately show ?thesis
    by (simp add: newest_get_def [of "[]"])
qed

lemma foldl_max_le:
  fixes a :: "'a::linorder"
  shows "foldl max a xs \<le> b \<longleftrightarrow> a \<le> b \<and> (\<forall>x\<in>set xs. x \<le> b)"
  by (induction xs arbitrary: a) auto

lemma foldl_max_in:
  fixes a :: "'a::linorder"
  shows "foldl max a xs \<in> insert a (set xs)"
  by (induction xs arbitrary: a) (auto simp: max_def)

text \<open>The current state of a metric is exactly its newest collection. A row is kept by
  latest_snapshot when, and only when, no row of the same metric was collected later, so an item
  that its metric's next collection did not produce is never shown as current.
\<close>
theorem latest_snapshot_is_newest_collection:
  "row \<in> set (latest_snapshot code_key time_key rows) \<longleftrightarrow>
     row \<in> set rows \<and>
     row_text time_key row =
       Max (row_text time_key ` {r \<in> set rows. row_text code_key r = row_text code_key row})"
proof (cases "row \<in> set rows")
  case True
  define S where "S = row_text time_key ` {r \<in> set rows. row_text code_key r = row_text code_key row}"
  define m where "m = newest_get (snapshot_at code_key time_key rows) (row_text code_key row)"
  define L where "L = map (row_text time_key) (filter (\<lambda>r. row_text code_key r = row_text code_key row) rows)"
  have L: "set L = S" "m = foldl max [] L"
    by (auto simp: L_def S_def m_def snapshot_at_newest)
  have S: "finite S" "row_text time_key row \<in> S"
    using True by (auto simp: S_def)
  have up: "x \<le> m" if "x \<in> S" for x
    using foldl_max_le [of "[]" L m] that L by simp
  have "m = [] \<or> m \<in> S"
    using foldl_max_in [of "[]" L] L by simp
  then have "m = Max S"
  proof
    assume "m = []"
    with up S have "row_text time_key row = m" by (metis Nil_le_Cons antisym neq_Nil_conv)
    with up S show ?thesis by (metis Max_eqI)
  next
    assume "m \<in> S"
    with up S show ?thesis by (metis Max_eqI)
  qed
  with True show ?thesis
    by (simp add: latest_snapshot_def Let_def m_def S_def)
qed (simp add: latest_snapshot_def Let_def)

subsection \<open>Grouping loses nothing\<close>

interpretation severity: ranked rank_or_0 .

definition problems_of :: "string \<Rightarrow> finding list \<Rightarrow> finding list" where
  "problems_of c fs = filter (\<lambda>f. is_problem f \<and> f_code f = c) fs"

fun group_spec :: "int \<Rightarrow> finding list \<Rightarrow> finding_group option" where
  "group_spec now [] = None"
| "group_spec now (f # fs) = Some ((fresh_group f)
     \<lparr> g_severity := severity.worst (f_severity f) (map f_severity fs), g_items := map (item_of now) (f # fs) \<rparr>)"


lemma rank_Inr: "rank s = Inr r \<longleftrightarrow> map_of SEVERITY_RANK s = Some r"
  by (simp add: rank_def split: option.splits)

lemma rank_or_0_rank: "rank s = Inr r \<Longrightarrow> rank_or_0 s = r"
  by (simp add: rank_Inr rank_or_0_def)

lemma problems_of_snoc:
  "problems_of c (fs @ [f]) = problems_of c fs @ (if is_problem f \<and> f_code f = c then [f] else [])"
  by (simp add: problems_of_def)

lemma group_spec_snoc:
  "group_spec now (fs @ [f]) = Some (let g = (case group_spec now fs of None \<Rightarrow> fresh_group f | Some g \<Rightarrow> g) in
     g\<lparr> g_severity := severity.worse (g_severity g) (f_severity f), g_items := g_items g @ [item_of now f] \<rparr>)"
  by (cases fs) (auto simp: Let_def fresh_group_def severity.worst_def severity.worse_def)

lemma add_finding_spec:
  assumes "add_finding now gs f = Inr gs'" and "\<And>c. map_of gs c = group_spec now (problems_of c fs)"
  shows "map_of gs' c = group_spec now (problems_of c (fs @ [f]))"
proof (cases "is_problem f")
  case False
  then show ?thesis
    using assms by (simp add: add_finding_def problems_of_snoc)
next
  case True
  define g where "g = (case map_of gs (f_code f) of None \<Rightarrow> fresh_group f | Some g \<Rightarrow> g)"
  from assms(1) True obtain r r' where r: "rank (f_severity f) = Inr r" "rank (g_severity g) = Inr r'"
    and gs': "gs' = upd (f_code f) ((if r' < r then g\<lparr>g_severity := f_severity f\<rparr> else g)
                 \<lparr>g_items := g_items g @ [item_of now f]\<rparr>) gs"
    by (auto simp: add_finding_def Let_def rbind_eq_Inr g_def [symmetric] split: if_splits)
  show ?thesis
    using r [THEN rank_or_0_rank] assms(2) [of c] True
    by (auto simp: gs' problems_of_snoc group_spec_snoc Let_def severity.worse_def g_def assms(2))
qed

lemma distinct_add_finding:
  "add_finding now gs f = Inr gs' \<Longrightarrow> distinct (map fst gs) \<Longrightarrow> distinct (map fst gs')"
  by (auto simp: add_finding_def Let_def rbind_eq_Inr distinct_upd split: if_splits)

lemma add_findings_spec:
  assumes "add_findings now gs fs = Inr gs'" and "distinct (map fst gs)"
    and "\<And>c. map_of gs c = group_spec now (problems_of c before)"
  shows "distinct (map fst gs') \<and> (\<forall>c. map_of gs' c = group_spec now (problems_of c (before @ fs)))"
  using assms
proof (induction fs arbitrary: gs before)
  case (Cons f fs)
  then obtain gs1 where gs1: "add_finding now gs f = Inr gs1" "add_findings now gs1 fs = Inr gs'"
    by (auto simp: rbind_eq_Inr)
  have "distinct (map fst gs') \<and> (\<forall>c. map_of gs' c = group_spec now (problems_of c ((before @ [f]) @ fs)))"
    by (rule Cons.IH [OF gs1(2)])
      (use distinct_add_finding [OF gs1(1)] add_finding_spec [OF gs1(1) Cons.prems(3)] Cons.prems in auto)
  then show ?case by simp
qed simp

lemma finish_group_fields [simp]:
  "g_code (finish_group g) = g_code g" "g_severity (finish_group g) = g_severity g"
  "mset (g_items (finish_group g)) = mset (g_items g)" "g_count (finish_group g) = length (g_items g)"
  by (simp_all add: finish_group_def Let_def)

lemma finish_group_items:
  "g_items (finish_group g) = sort_key (\<lambda>r. (- rank_or_0 (g_item_severity r), g_item r)) (g_items g)"
  by (simp add: finish_group_def Let_def)

lemma sort_key_hd_le:
  "x \<in> set xs \<Longrightarrow> f (hd (sort_key f xs)) \<le> f x"
proof -
  assume "x \<in> set xs"
  then have x: "x \<in> set (sort_key f xs)" by simp
  show ?thesis
    using sorted_sort_key [of f xs] x by (cases "sort_key f xs") (auto simp del: sorted_sort_key set_sort)
qed

definition worst_rank :: "finding list \<Rightarrow> int" where
  "worst_rank fs = Max (rank_or_0 ` f_severity ` set fs)"

lemma group_spec_fields:
  assumes "group_spec now fs = Some g"
  shows "fs \<noteq> [] \<and> g_items g = map (item_of now) fs \<and> rank_or_0 (g_severity g) = worst_rank fs \<and>
         g_code g = f_code (hd fs)"
  using assms
  by (cases fs) (auto simp: severity.worst_eq_Max worst_rank_def fresh_group_def image_image)

lemma finished_group:
  assumes "group_spec now fs = Some g"
  shows "mset (g_items (finish_group g)) = image_mset (item_of now) (mset fs) \<and>
         g_count (finish_group g) = length fs \<and>
         rank_or_0 (g_severity (finish_group g)) = worst_rank fs \<and>
         rank_or_0 (g_item_severity (hd (g_items (finish_group g)))) = rank_or_0 (g_severity (finish_group g))"
proof -
  let ?key = "\<lambda>r. (- rank_or_0 (g_item_severity r), g_item r)"
  let ?items = "sort_key ?key (map (item_of now) fs)"
  note spec = group_spec_fields [OF assms]
  have top: "rank_or_0 (f_severity f) \<le> rank_or_0 (g_item_severity (hd ?items))" if "f \<in> set fs" for f
    using sort_key_hd_le [of "item_of now f" "map (item_of now) fs" ?key] that
    by (auto simp: less_eq_prod_def item_of_def)
  have "?items \<noteq> []"
    using spec by (metis length_0_conv length_map length_sort)
  then have "hd ?items \<in> item_of now ` set fs"
    by (metis hd_in_set set_map set_sort)
  then obtain f where f: "f \<in> set fs" "hd ?items = item_of now f" by blast
  have "rank_or_0 (g_item_severity (hd ?items)) = worst_rank fs"
    unfolding worst_rank_def by (rule Max_eqI [symmetric]) (use top f in \<open>auto simp: item_of_def\<close>)
  with spec show ?thesis
    by (simp add: finish_group_items)
qed

text \<open>Grouping the findings of a target loses nothing and hides no severity. When it answers, there
  is one group for each metric with a problem and no other; the group's items are the problem
  findings of that metric, each as often as it was found, and their number is its count; the
  group's severity is the worst among them and its first item, the one the headline names, has it;
  and the groups come worst first.
\<close>
theorem groups_lose_nothing:
  assumes "group_findings fs now = Inr gs"
  shows "distinct (map g_code gs) \<and> set (map g_code gs) = f_code ` {f \<in> set fs. is_problem f} \<and>
         (\<forall>g\<in>set gs. mset (g_items g) = image_mset (item_of now) (mset (problems_of (g_code g) fs)) \<and>
            g_count g = length (problems_of (g_code g) fs) \<and>
            rank_or_0 (g_severity g) = worst_rank (problems_of (g_code g) fs) \<and>
            rank_or_0 (g_item_severity (hd (g_items g))) = rank_or_0 (g_severity g)) \<and>
         sorted_wrt (\<lambda>a b. rank_or_0 (g_severity b) \<le> rank_or_0 (g_severity a)) gs"
proof -
  obtain raw where raw: "add_findings now [] fs = Inr raw"
    and gs: "gs = sort_key (\<lambda>g. (- rank_or_0 (g_severity g), - int (g_count g), g_label g))
                    (map (\<lambda>(_, g). finish_group g) raw)"
    using assms by (auto simp: group_findings_def rbind_eq_Inr)
  have spec: "distinct (map fst raw)" "map_of raw c = group_spec now (problems_of c fs)" for c
    using add_findings_spec [OF raw, of "[]"] by (simp_all add: problems_of_def)
  have member: "group_spec now (problems_of c fs) = Some g \<and> g_code g = c" if "(c, g) \<in> set raw" for c g
  proof -
    have s: "group_spec now (problems_of c fs) = Some g"
      using spec that by (metis map_of_eq_Some_iff)
    moreover have "f_code f = c" if "f \<in> set (problems_of c fs)" for f
      using that by (simp add: problems_of_def)
    ultimately show ?thesis
      using group_spec_fields [OF s] by simp
  qed
  have codes: "map g_code (map (\<lambda>(_, g). finish_group g) raw) = map fst raw"
    using member by auto
  have "distinct (map g_code (map (\<lambda>(_, g). finish_group g) raw))"
    unfolding codes by (rule spec)
  then have 1: "distinct (map g_code gs)"
    unfolding gs by (rule mset_eq_imp_distinct_iff [THEN iffD1, rotated]) (simp add: multiset.map_comp)
  have "fst ` set raw = {c. group_spec now (problems_of c fs) \<noteq> None}"
    by (auto simp: spec(2) [symmetric] dom_map_of_conv_image_fst [symmetric] dom_def)
  also have "\<dots> = f_code ` {f \<in> set fs. is_problem f}"
  proof -
    have "group_spec now ps \<noteq> None \<longleftrightarrow> ps \<noteq> []" for ps by (cases ps) auto
    then show ?thesis by (auto simp: problems_of_def filter_empty_conv)
  qed
  finally have keys: "fst ` set raw = f_code ` {f \<in> set fs. is_problem f}" .
  have "set (map g_code gs) = set (map g_code (map (\<lambda>(_, g). finish_group g) raw))"
    unfolding gs list.set_map set_sort ..
  also have "\<dots> = fst ` set raw"
    unfolding codes by simp
  finally have 2: "set (map g_code gs) = f_code ` {f \<in> set fs. is_problem f}"
    unfolding keys .
  have 3: "mset (g_items g) = image_mset (item_of now) (mset (problems_of (g_code g) fs)) \<and>
            g_count g = length (problems_of (g_code g) fs) \<and>
            rank_or_0 (g_severity g) = worst_rank (problems_of (g_code g) fs) \<and>
            rank_or_0 (g_item_severity (hd (g_items g))) = rank_or_0 (g_severity g)" if "g \<in> set gs" for g
  proof -
    from that obtain c g0 where "(c, g0) \<in> set raw" and g: "g = finish_group g0"
      by (auto simp: gs)
    from member [OF this(1)] have "group_spec now (problems_of (g_code g) fs) = Some g0"
      by (simp add: g)
    from finished_group [OF this] show ?thesis by (simp add: g)
  qed
  have "sorted (map (\<lambda>g. (- rank_or_0 (g_severity g), - int (g_count g), g_label g)) gs)"
    unfolding gs by (rule sorted_sort_key)
  then have 4: "sorted_wrt (\<lambda>a b. rank_or_0 (g_severity b) \<le> rank_or_0 (g_severity a)) gs"
    unfolding sorted_map by (rule sorted_wrt_mono_rel [rotated]) (auto simp: less_eq_prod_def)
  from 1 2 3 4 show ?thesis by blast
qed

definition two_findings :: "finding list" where
  "two_findings =
     [\<lparr> f_code = ''IO'', f_label = [], f_item = ''d1'', f_value = ''20'', f_severity = ''WARNING'', f_message = [],
        f_collected = PInt 5, f_action = [], f_last_text = [] \<rparr>,
      \<lparr> f_code = ''IO'', f_label = [], f_item = ''d2'', f_value = ''95'', f_severity = ''CRITICAL'', f_message = [],
        f_collected = PInt 6, f_action = [], f_last_text = [] \<rparr>]"


theorem groups_lose_nothing_witness:
  "\<exists>gs. group_findings two_findings 0 = Inr gs \<and> distinct (map g_code gs) \<and> set (map g_code gs) = {''IO''} \<and>
        sorted_wrt (\<lambda>a b. rank_or_0 (g_severity b) \<le> rank_or_0 (g_severity a)) gs"
proof -
  have "\<not> isl (group_findings two_findings 0)"
    by code_simp
  then obtain gs where gs: "group_findings two_findings 0 = Inr gs"
    by (cases "group_findings two_findings 0") auto
  have "list_all is_problem two_findings"
    by code_simp
  then have "{f \<in> set two_findings. is_problem f} = set two_findings"
    by (auto simp: list_all_iff)
  then have "f_code ` {f \<in> set two_findings. is_problem f} = {''IO''}"
    by (simp add: two_findings_def)
  with groups_lose_nothing [OF gs] gs show ?thesis
    by auto
qed

end
