(* ===== verification/BackupPolicy.thy ===== *)
theory BackupPolicy
  imports Coerce "HOL-Library.Product_Lexorder"
begin

section \<open>Is each database protected?\<close>

text \<open>
  Models \<^verbatim>\<open>dbabrain/lib/backup_policy.py\<close>: the evidence gathered from metric rows per database and
  backup type, the rule a policy document states for each, the verdict per type, per database and
  per server, and the verdict when no policy is configured. The field reader is the one of
  \<^verbatim>\<open>dbabrain/lib/field_names.py\<close>.

  Arguments: \<open>fl\<close> is \<^verbatim>\<open>float\<close> on text and \<open>fromiso\<close> the ISO parser of the standard library. A policy
  document is an object whose blocks are objects and lists, as its loader requires. The raises of
  the module are the two constructors of \<open>bp_error\<close>: a limit that is not a number, and a finish date
  with a zone subtracted from the naive clock. A reason is the sentence as the code writes it.
\<close>

datatype bp_error = Not_a_number pyval | Mixed_zones string

datatype btype = FULL | DIFF | LOG

datatype bstate = CRITICAL | WARNING | OK | NOT_REQUIRED | UNKNOWN

definition BACKUP_TYPES :: "btype list" where
  "BACKUP_TYPES = [FULL, DIFF, LOG]"

fun type_name :: "btype \<Rightarrow> string" where
  "type_name FULL = ''FULL''"
| "type_name DIFF = ''DIFF''"
| "type_name LOG = ''LOG''"

definition BACKUP_LAST_RESULT_CODES :: "string list" where
  "BACKUP_LAST_RESULT_CODES = [''BACKUP_LAST_RESULT'', ''POSTGRES_BACKUP_LAST_RESULT'']"

definition TYPE_ALIASES :: "(string \<times> btype) list" where
  "TYPE_ALIASES = [(''D'', FULL), (''DATABASE'', FULL), (''FULL'', FULL), (''I'', DIFF), (''DIFF'', DIFF),
     (''DIFFERENTIAL'', DIFF), (''L'', LOG), (''LOG'', LOG)]"

fun severity_rank :: "bstate \<Rightarrow> int" where
  "severity_rank CRITICAL = 3"
| "severity_rank WARNING = 2"
| "severity_rank OK = 1"
| "severity_rank NOT_REQUIRED = 0"
| "severity_rank UNKNOWN = 0"

subsection \<open>The rule a policy states\<close>

definition RENAMES_backup_policy_override :: "(string \<times> string) list" where
  "RENAMES_backup_policy_override = [(''database'', ''database_name'')]"

definition read :: "pydict \<Rightarrow> (string \<times> string) list \<Rightarrow> string \<Rightarrow> pyval \<Rightarrow> pyval" where
  "read record renames standard dflt =
     (case map_of record standard of
        Some v \<Rightarrow> v
      | None \<Rightarrow>
          (case find (\<lambda>(legacy, target). target = standard \<and> has_key record legacy) renames of
             Some (legacy, _) \<Rightarrow> get record legacy
           | None \<Rightarrow> dflt))"

definition block :: "pydict \<Rightarrow> string \<Rightarrow> pydict" where
  "block d k = as_dict (get d k)"

definition wanted :: "pyval \<Rightarrow> string" where
  "wanted v = lower (strip (str_or v))"

definition override_matches :: "string \<Rightarrow> string \<Rightarrow> pydict \<Rightarrow> bool" where
  "override_matches server_id database override =
     (let wanted_server = wanted (get override ''server_id'');
          wanted_db = wanted (read override RENAMES_backup_policy_override ''database_name'' (PStr [])) in
      (wanted_server = [] \<or> wanted_server = lower (strip server_id)) \<and>
      (wanted_db = [] \<or> wanted_db = lower (strip database)))"

definition overrides :: "pydict \<Rightarrow> pydict list" where
  "overrides policy = map as_dict (as_list (get policy ''overrides''))"

definition first_override :: "pydict \<Rightarrow> string \<Rightarrow> string \<Rightarrow> pydict option" where
  "first_override policy server_id database = find (override_matches server_id database) (overrides policy)"

definition type_rule :: "pydict \<Rightarrow> string \<Rightarrow> string \<Rightarrow> btype \<Rightarrow> pydict" where
  "type_rule policy server_id database t =
     (let rule = dict_of (block (block (block policy ''defaults'') ''types'') (type_name t)) in
      case first_override policy server_id database of
        None \<Rightarrow> rule
      | Some override \<Rightarrow> update_with rule (block (block override ''types'') (type_name t)))"

definition data_backup_rule :: "pydict \<Rightarrow> string \<Rightarrow> string \<Rightarrow> pydict option" where
  "data_backup_rule policy server_id database =
     (let dr = get (block policy ''defaults'') ''data_backup'';
          rule = (if dr = PNone then None else Some (dict_of (as_dict dr))) in
      case first_override policy server_id database of
        None \<Rightarrow> rule
      | Some override \<Rightarrow>
          if \<not> has_key override ''data_backup'' then rule
          else if get override ''data_backup'' = PNone then None
          else Some (update_with (case rule of None \<Rightarrow> [] | Some r \<Rightarrow> r) (block override ''data_backup'')))"

definition is_required :: "pydict \<Rightarrow> string \<Rightarrow> bool" where
  "is_required rule recovery_model =
     (let models = get rule ''required_for_recovery_models'' in
      if models \<noteq> PNone
      then upper (strip recovery_model) \<in> (\<lambda>m. upper (py_str m)) ` set (as_list models)
      else truthy (get rule ''required''))"

definition policy_is_configured :: "pydict \<Rightarrow> bool" where
  "policy_is_configured policy =
     (let defaults = block policy ''defaults'' in
      truthy (get defaults ''types'') \<or> truthy (get defaults ''data_backup'') \<or>
      list_ex (\<lambda>o1. truthy (get o1 ''types'') \<or> truthy (get o1 ''data_backup'')) (overrides policy))"

subsection \<open>Evidence\<close>

definition parse_kv :: "string \<Rightarrow> (string \<times> string) list" where
  "parse_kv message =
     dict_of (List.map_filter (\<lambda>part. map_option (\<lambda>(k, v). (strip k, strip v)) (partition_on (CHR ''='') part))
       (split_on (CHR '','') message))"

definition is_null :: "string \<Rightarrow> bool" where
  "is_null s = (upper s \<in> {''NULL'', ''NONE''})"

definition round1 :: "rat \<Rightarrow> rat" where
  "round1 x = of_int (round_half_even (x * 10)) / 10"

definition age_hours_of :: "iso_parser \<Rightarrow> string \<Rightarrow> int \<Rightarrow> bp_error + rat option" where
  "age_hours_of fromiso finish now =
     (if finish = [] \<or> is_null finish then Inr None
      else case fromiso (filter (\<lambda>c. c \<noteq> CHR ''Z'') (strip finish)) of
             None \<Rightarrow> Inr None
           | Some (wall, Some off) \<Rightarrow> Inl (Mixed_zones finish)
           | Some (wall, None) \<Rightarrow> Inr (Some (round1 (of_int (now - wall) / 3600000000))))"

record slot =
  latest_finish :: string
  age_hours :: "rat option"
  seen :: bool

record evidence =
  recovery_model :: string
  slots :: "btype \<Rightarrow> slot"
  as_of :: string
  fallback_age_hours :: "rat option"
  fallback_status :: string

definition empty_slot :: slot where
  "empty_slot = \<lparr> latest_finish = [], age_hours = None, seen = False \<rparr>"

definition empty_evidence :: evidence where
  "empty_evidence = \<lparr> recovery_model = [], slots = (\<lambda>_. empty_slot), as_of = [],
     fallback_age_hours = None, fallback_status = [] \<rparr>"

definition entry :: "(string \<times> evidence) list \<Rightarrow> string \<Rightarrow> evidence" where
  "entry ev database = (case map_of ev database of None \<Rightarrow> empty_evidence | Some e \<Rightarrow> e)"

fun before_text :: "string \<Rightarrow> string \<Rightarrow> string" where
  "before_text sep [] = []"
| "before_text sep (c # cs) = (if startswith (c # cs) sep then [] else c # before_text sep cs)"

definition field_text :: "(string \<times> string) list \<Rightarrow> string \<Rightarrow> string" where
  "field_text kv k = (case map_of kv k of None \<Rightarrow> [] | Some v \<Rightarrow> v)"

definition row_text :: "pydict \<Rightarrow> string \<Rightarrow> string" where
  "row_text row k = str_or (get row k)"

definition seen_on :: "string \<Rightarrow> string \<Rightarrow> evidence \<Rightarrow> evidence" where
  "seen_on model collected e =
     e\<lparr> recovery_model := (if model = [] then recovery_model e else model), as_of := max (as_of e) collected \<rparr>"

definition newer_slot :: "string \<Rightarrow> rat option \<Rightarrow> slot \<Rightarrow> slot" where
  "newer_slot finish age s =
     (let s = s\<lparr> seen := True \<rparr> in
      if finish \<noteq> [] \<and> (latest_finish s = [] \<or> latest_finish s < finish)
      then s\<lparr> latest_finish := finish, age_hours := age \<rparr>
      else if age_hours s = None then s\<lparr> age_hours := age \<rparr> else s)"

definition row_age :: "iso_parser \<Rightarrow> float_parser \<Rightarrow> int \<Rightarrow> pydict \<Rightarrow> string \<Rightarrow> bp_error + rat option" where
  "row_age fromiso fl now row finish =
     (case as_float fl (get row ''metric_value'') None of
        Some a \<Rightarrow> if 0 \<le> a then Inr (Some a) else age_hours_of fromiso finish now
      | None \<Rightarrow> age_hours_of fromiso finish now)"

definition result_row ::
  "iso_parser \<Rightarrow> float_parser \<Rightarrow> int \<Rightarrow> (string \<times> evidence) list \<Rightarrow> pydict \<Rightarrow> bp_error + (string \<times> evidence) list" where
  "result_row fromiso fl now ev row =
     (let kv = parse_kv (row_text row ''message'');
          database = (if field_text kv ''database'' \<noteq> [] then field_text kv ''database''
                      else strip (before_text '' / '' (row_text row ''metric_item''))) in
      if database = [] then Inr ev
      else let e = seen_on (field_text kv ''recovery_model'') (row_text row ''collected_at'') (entry ev database) in
           case map_of TYPE_ALIASES (upper (field_text kv ''backup_type'')) of
             None \<Rightarrow> Inr (upd database e ev)
           | Some t \<Rightarrow>
               let raw = field_text kv ''backup_finish_date''; finish = (if is_null raw then [] else raw) in
               rbind (row_age fromiso fl now row finish) (\<lambda>age.
                 Inr (upd database (e\<lparr> slots := (slots e)(t := newer_slot finish age (slots e t)) \<rparr>) ev)))"

definition age_row :: "float_parser \<Rightarrow> (string \<times> evidence) list \<Rightarrow> pydict \<Rightarrow> (string \<times> evidence) list" where
  "age_row fl ev row =
     (let item = row_text row ''metric_item''; e = seen_on [] (row_text row ''collected_at'') (entry ev item) in
      upd item (e\<lparr> fallback_age_hours := as_float fl (get row ''metric_value'') None,
                   fallback_status := row_text row ''status'' \<rparr>) ev)"

definition evidence_row ::
  "iso_parser \<Rightarrow> float_parser \<Rightarrow> int \<Rightarrow> (string \<times> evidence) list \<Rightarrow> pydict \<Rightarrow> bp_error + (string \<times> evidence) list" where
  "evidence_row fromiso fl now ev row =
     (let code = row_text row ''metric_code'' in
      if code \<in> set BACKUP_LAST_RESULT_CODES then result_row fromiso fl now ev row
      else if code = ''BACKUP_AGE'' \<and> row_text row ''metric_item'' \<noteq> [] then Inr (age_row fl ev row)
      else Inr ev)"

fun collect_rows ::
  "iso_parser \<Rightarrow> float_parser \<Rightarrow> int \<Rightarrow> (string \<times> evidence) list \<Rightarrow> pydict list \<Rightarrow> bp_error + (string \<times> evidence) list" where
  "collect_rows fromiso fl now ev [] = Inr ev"
| "collect_rows fromiso fl now ev (row # rows) =
     rbind (evidence_row fromiso fl now ev row) (\<lambda>ev'. collect_rows fromiso fl now ev' rows)"

definition collect_evidence ::
  "iso_parser \<Rightarrow> float_parser \<Rightarrow> int \<Rightarrow> pydict list \<Rightarrow> bp_error + (string \<times> evidence) list" where
  "collect_evidence fromiso fl now rows = collect_rows fromiso fl now [] rows"

subsection \<open>The verdict\<close>

definition age_text :: "rat \<Rightarrow> string" where
  "age_text hours =
     (if hours < 48 then show_int (round_half_even hours) @ ''h''
      else show_int (round_half_even (hours / 24)) @ ''d'')"

definition py_float :: "float_parser \<Rightarrow> pyval \<Rightarrow> bp_error + rat" where
  "py_float fl v = (case as_float fl v None of None \<Rightarrow> Inl (Not_a_number v) | Some r \<Rightarrow> Inr r)"

record type_verdict =
  tv_state :: bstate
  tv_required :: "bool option"
  tv_age :: "rat option"
  tv_finish :: string
  tv_warn :: pyval
  tv_critical :: pyval

record data_verdict =
  dv_state :: bstate
  dv_required :: bool
  dv_age :: "rat option"
  dv_of_types :: "string list"
  dv_from_type :: "string option"
  dv_finish :: string
  dv_warn :: pyval
  dv_critical :: pyval

record db_verdict =
  dbname :: string
  db_recovery :: string
  db_status :: bstate
  db_reason :: string
  db_types :: "(btype \<times> type_verdict) list"
  db_as_of :: string
  db_data :: "data_verdict option"

definition judge_type :: "float_parser \<Rightarrow> pydict \<Rightarrow> btype \<Rightarrow> bool \<Rightarrow> rat option \<Rightarrow> bp_error + bstate \<times> string list" where
  "judge_type fl rule t required age =
     (if \<not> required then Inr (NOT_REQUIRED, [])
      else case age of
             None \<Rightarrow> Inr (CRITICAL, [''no '' @ type_name t @ '' backup on record''])
           | Some a \<Rightarrow>
               let old = type_name t @ '' '' @ age_text a @ '' old'' in
               rbind (py_float fl (get_or rule ''critical_hours'' (PInt 48))) (\<lambda>crit.
                 if crit \<le> a then Inr (CRITICAL, [old])
                 else rbind (py_float fl (get_or rule ''warn_hours'' (PInt 24))) (\<lambda>warn.
                        if warn \<le> a then Inr (WARNING, [old]) else Inr (OK, []))))"

definition type_age :: "evidence \<Rightarrow> btype \<Rightarrow> rat option" where
  "type_age e t =
     (let age = age_hours (slots e t) in if age = None \<and> t = FULL then fallback_age_hours e else age)"

definition evaluate_type ::
  "float_parser \<Rightarrow> pydict \<Rightarrow> string \<Rightarrow> string \<Rightarrow> evidence \<Rightarrow> btype \<Rightarrow> bp_error + (btype \<times> type_verdict) \<times> string list" where
  "evaluate_type fl policy server_id database e t =
     (let rule = type_rule policy server_id database t;
          age = type_age e t;
          required = is_required rule (recovery_model e) in
      rbind (judge_type fl rule t required age) (\<lambda>(state, reasons).
        Inr ((t, \<lparr> tv_state = state, tv_required = Some required, tv_age = age, tv_finish = latest_finish (slots e t),
                  tv_warn = get rule ''warn_hours'', tv_critical = get rule ''critical_hours'' \<rparr>), reasons)))"

definition of_types_of :: "pydict \<Rightarrow> string list" where
  "of_types_of rule =
     (let v = get rule ''of_types'' in if truthy v then map py_str (as_list v) else [''FULL'', ''DIFF''])"

definition data_candidates :: "(btype \<times> type_verdict) list \<Rightarrow> string list \<Rightarrow> (rat \<times> string \<times> string) list" where
  "data_candidates types of_types =
     List.map_filter (\<lambda>name.
         case find (\<lambda>(t, v). type_name t = name) types of
           None \<Rightarrow> None
         | Some (t, v) \<Rightarrow> map_option (\<lambda>a. (a, name, tv_finish v)) (tv_age v)) of_types"

definition past_limit :: "float_parser \<Rightarrow> pyval \<Rightarrow> rat \<Rightarrow> bp_error + bool" where
  "past_limit fl v a = (if v = PNone then Inr False else rbind (py_float fl v) (\<lambda>h. Inr (h \<le> a)))"

definition judge_data ::
  "float_parser \<Rightarrow> pydict \<Rightarrow> bool \<Rightarrow> string \<Rightarrow> rat option \<Rightarrow> bp_error + bstate \<times> string list" where
  "judge_data fl rule required label age =
     (if \<not> required then Inr (NOT_REQUIRED, [])
      else case age of
             None \<Rightarrow> Inr (CRITICAL, [''no '' @ label @ '' backup on record''])
           | Some a \<Rightarrow>
               let old = ''data backup ('' @ label @ '') '' @ age_text a @ '' old'' in
               rbind (past_limit fl (get rule ''critical_hours'') a) (\<lambda>crit.
                 if crit then Inr (CRITICAL, [old])
                 else rbind (past_limit fl (get rule ''warn_hours'') a) (\<lambda>warn.
                        if warn then Inr (WARNING, [old]) else Inr (OK, []))))"

definition evaluate_data ::
  "float_parser \<Rightarrow> pydict \<Rightarrow> string \<Rightarrow> (btype \<times> type_verdict) list \<Rightarrow> bp_error + data_verdict \<times> string list" where
  "evaluate_data fl rule recovery types =
     (let of_types = of_types_of rule;
          required = is_required rule recovery;
          best = (case sort_key (\<lambda>(a, t, _). (a, t)) (data_candidates types of_types) of
                    [] \<Rightarrow> None | c # _ \<Rightarrow> Some c);
          age = map_option fst best in
      rbind (judge_data fl rule required (join '' or '' of_types) age) (\<lambda>(state, reasons).
        Inr (\<lparr> dv_state = state, dv_required = required, dv_age = age, dv_of_types = of_types,
               dv_from_type = map_option (\<lambda>(_, t, _). t) best,
               dv_finish = (case best of None \<Rightarrow> [] | Some (_, _, f) \<Rightarrow> f),
               dv_warn = get rule ''warn_hours'', dv_critical = get rule ''critical_hours'' \<rparr>, reasons)))"

definition worse_state :: "bstate \<Rightarrow> bstate \<Rightarrow> bstate" where
  "worse_state w s = (if severity_rank w < severity_rank s then s else w)"

definition evaluate_database ::
  "float_parser \<Rightarrow> pydict \<Rightarrow> string \<Rightarrow> string \<times> evidence \<Rightarrow> bp_error + db_verdict" where
  "evaluate_database fl policy server_id p =
     (case p of (database, e) \<Rightarrow>
        rbind (map_res (evaluate_type fl policy server_id database e) BACKUP_TYPES) (\<lambda>vs.
          let types = map fst vs;
              worst = foldl worse_state OK (map (\<lambda>(_, v). tv_state v) types);
              reasons = concat (map snd vs);
              finish = (\<lambda>status reasons data. \<lparr> dbname = database, db_recovery = recovery_model e,
                 db_status = status, db_reason = join ''; '' reasons, db_types = types, db_as_of = as_of e,
                 db_data = data \<rparr>) in
          case data_backup_rule policy server_id database of
            None \<Rightarrow> Inr (finish worst reasons None)
          | Some rule \<Rightarrow>
              rbind (evaluate_data fl rule (recovery_model e) types) (\<lambda>(d, more).
                Inr (finish (worse_state worst (dv_state d)) (reasons @ more) (Some d)))))"

record type_summary =
  ts_required :: nat
  ts_compliant :: nat
  ts_state :: string
  ts_worst_age :: "rat option"

record bp_summary =
  bp_status :: bstate
  bp_configured :: bool
  bp_compliant :: nat
  bp_eligible :: nat
  bp_reason :: string
  bp_by_type :: "(btype \<times> type_summary) list"
  bp_collected :: "string option"
  bp_worst :: "string list"
  bp_data :: "type_summary option"

definition max_opt :: "rat list \<Rightarrow> rat option" where
  "max_opt xs = (case xs of [] \<Rightarrow> None | a # as \<Rightarrow> Some (max_by (\<lambda>x. x) a as))"

definition group_summary :: "('a \<Rightarrow> bool) \<Rightarrow> ('a \<Rightarrow> bstate) \<Rightarrow> ('a \<Rightarrow> rat option) \<Rightarrow> 'a list \<Rightarrow> type_summary" where
  "group_summary required state age records =
     (let req = filter required records; good = filter (\<lambda>r. state r = OK) req in
      \<lparr> ts_required = length req, ts_compliant = length good,
        ts_state = (if req = [] then ''NOT_REQUIRED'' else if length good = length req then ''OK'' else ''VIOLATED''),
        ts_worst_age = max_opt (List.map_filter age req) \<rparr>)"

definition types_get :: "db_verdict \<Rightarrow> btype \<Rightarrow> type_verdict" where
  "types_get r t = the (map_of (db_types r) t)"

definition failing_databases :: "db_verdict list \<Rightarrow> db_verdict list" where
  "failing_databases dbs =
     sort_key (\<lambda>r. (- severity_rank (db_status r), dbname r))
       (filter (\<lambda>r. db_status r = CRITICAL \<or> db_status r = WARNING) dbs)"

definition latest_text :: "string list \<Rightarrow> string" where
  "latest_text ts = (case ts of [] \<Rightarrow> [] | t # rest \<Rightarrow> max_by (\<lambda>x. x) t rest)"

definition MDASH :: string where
  "MDASH = [CHR '' '', CHR 0xE2, CHR 0x80, CHR 0x94, CHR '' '']"

definition summarize_policy :: "db_verdict list \<Rightarrow> bp_summary" where
  "summarize_policy dbs =
     (if dbs = [] then \<lparr> bp_status = UNKNOWN, bp_configured = True, bp_compliant = 0, bp_eligible = 0,
        bp_reason = [], bp_by_type = [], bp_collected = None, bp_worst = [], bp_data = None \<rparr>
      else let failing = failing_databases dbs; n = length dbs in
        \<lparr> bp_status = foldl worse_state OK (map db_status dbs), bp_configured = True,
          bp_compliant = length (filter (\<lambda>r. db_status r = OK) dbs), bp_eligible = n,
          bp_reason = (case failing of [] \<Rightarrow> []
             | f # _ \<Rightarrow> show_nat (length failing) @ '' of '' @ show_nat n @ '' database(s) outside policy'' @ MDASH @
                        dbname f @ '': '' @ db_reason f),
          bp_by_type = map (\<lambda>t. (t, group_summary (\<lambda>r. tv_required (types_get r t) = Some True)
             (\<lambda>r. tv_state (types_get r t)) (\<lambda>r. tv_age (types_get r t)) dbs)) BACKUP_TYPES,
          bp_collected = Some (latest_text (map db_as_of dbs)),
          bp_worst = take 8 (map dbname failing),
          bp_data = (if list_all (\<lambda>r. db_data r = None) dbs then None
             else Some (group_summary dv_required dv_state dv_age (List.map_filter db_data dbs))) \<rparr>)"

definition unconfigured_verdict :: "string \<times> evidence \<Rightarrow> db_verdict" where
  "unconfigured_verdict p =
     (case p of (name, e) \<Rightarrow>
        \<lparr> dbname = name, db_recovery = recovery_model e, db_status = UNKNOWN,
          db_reason = ''no backup policy configured'',
          db_types = map (\<lambda>t. (t, \<lparr> tv_state = UNKNOWN, tv_required = None, tv_age = age_hours (slots e t),
             tv_finish = latest_finish (slots e t), tv_warn = PNone, tv_critical = PNone \<rparr>)) BACKUP_TYPES,
          db_as_of = as_of e, db_data = None \<rparr>)"

definition NOT_CONFIGURED_REASON :: "nat \<Rightarrow> string" where
  "NOT_CONFIGURED_REASON n =
     ''no backup policy configured - data/backup_policy.json is absent or carries no rule, so '' @ show_nat n @
     '' database(s) with backup evidence are unjudged, not compliant''"

definition unconfigured :: "(string \<times> evidence) list \<Rightarrow> db_verdict list \<times> bp_summary" where
  "unconfigured eligible =
     (let dbs = map unconfigured_verdict eligible; n = length dbs in
      (dbs, \<lparr> bp_status = UNKNOWN, bp_configured = False, bp_compliant = 0, bp_eligible = n,
        bp_reason = (if dbs = [] then [] else NOT_CONFIGURED_REASON n),
        bp_by_type = map (\<lambda>t. (t, \<lparr> ts_required = 0, ts_compliant = 0, ts_state = ''UNKNOWN'', ts_worst_age = None \<rparr>))
          BACKUP_TYPES,
        bp_collected = Some (latest_text (map db_as_of dbs)), bp_worst = [], bp_data = None \<rparr>))"

definition excluded_names :: "pydict \<Rightarrow> string set" where
  "excluded_names policy = (\<lambda>v. lower (py_str v)) ` set (as_list (get policy ''exclude_databases''))"

definition eligible_databases :: "pydict \<Rightarrow> (string \<times> evidence) list \<Rightarrow> (string \<times> evidence) list" where
  "eligible_databases policy ev =
     filter (\<lambda>(name, _). lower name \<notin> excluded_names policy) (map (\<lambda>k. (k, entry ev k)) (sorted_keys ev))"

definition evaluate_backup_policy ::
  "iso_parser \<Rightarrow> float_parser \<Rightarrow> pydict list \<Rightarrow> string \<Rightarrow> pydict \<Rightarrow> int \<Rightarrow> bp_error + db_verdict list \<times> bp_summary" where
  "evaluate_backup_policy fromiso fl rows server_id policy now =
     rbind (collect_evidence fromiso fl now rows) (\<lambda>ev.
       let eligible = eligible_databases policy ev in
       if \<not> policy_is_configured policy then Inr (unconfigured eligible)
       else rbind (map_res (evaluate_database fl policy server_id) eligible) (\<lambda>dbs. Inr (dbs, summarize_policy dbs)))"

definition title_case :: "string \<Rightarrow> string" where
  "title_case s = (case s of [] \<Rightarrow> [] | c # cs \<Rightarrow> upper_char c # lower cs)"

definition coverage_text :: "bp_summary \<Rightarrow> string" where
  "coverage_text s =
     (if \<not> bp_configured s then ''No policy configured''
      else let present = filter (\<lambda>t. case map_of (bp_by_type s) t of None \<Rightarrow> False | Some x \<Rightarrow> ts_required x \<noteq> 0) BACKUP_TYPES;
               optional = filter (\<lambda>t. case map_of (bp_by_type s) t of None \<Rightarrow> False
                                      | Some x \<Rightarrow> ts_state x = ''NOT_REQUIRED'') BACKUP_TYPES in
           if present = [] then ''No policy match''
           else join ''+'' (map (\<lambda>t. title_case (type_name t)) present) @
                (if optional = [] then []
                 else [CHR '' '', CHR 0xC2, CHR 0xB7, CHR '' ''] @ join '', '' (map type_name optional) @ '' not required''))"


subsection \<open>A database reported within policy is protected\<close>

interpretation policy_state: ranked severity_rank .

lemma worse_state_ranked: "worse_state = policy_state.worse"
  by (simp add: fun_eq_iff worse_state_def policy_state.worse_def)

lemma worst_state_eq: "foldl worse_state w ss = policy_state.worst w ss"
  by (simp add: worse_state_ranked policy_state.worst_def)

text \<open>What it means for an age to be within the limits of a rule.\<close>

definition within_type_limits :: "float_parser \<Rightarrow> pydict \<Rightarrow> rat option \<Rightarrow> bool" where
  "within_type_limits fl rule age =
     (case (age, py_float fl (get_or rule ''critical_hours'' (PInt 48)), py_float fl (get_or rule ''warn_hours'' (PInt 24))) of
        (Some a, Inr crit, Inr warn) \<Rightarrow> a < crit \<and> a < warn
      | _ \<Rightarrow> False)"

definition within_data_limits :: "float_parser \<Rightarrow> pydict \<Rightarrow> rat option \<Rightarrow> bool" where
  "within_data_limits fl rule age =
     (case age of
        None \<Rightarrow> False
      | Some a \<Rightarrow> past_limit fl (get rule ''critical_hours'') a = Inr False \<and>
                  past_limit fl (get rule ''warn_hours'') a = Inr False)"

lemma judge_type_ok:
  "judge_type fl rule t required age = Inr (s, rs) \<Longrightarrow> severity_rank s \<le> 1 \<Longrightarrow> required \<Longrightarrow> within_type_limits fl rule age"
  by (auto simp: judge_type_def within_type_limits_def rbind_eq_Inr Let_def split: option.splits if_splits)

lemma judge_data_ok:
  "judge_data fl rule required label age = Inr (s, rs) \<Longrightarrow> severity_rank s \<le> 1 \<Longrightarrow> required \<Longrightarrow> within_data_limits fl rule age"
  by (auto simp: judge_data_def within_data_limits_def rbind_eq_Inr Let_def split: option.splits if_splits)

lemma evaluate_type_ok:
  assumes "evaluate_type fl policy server_id database e t = Inr ((t', v), rs)"
  shows "t' = t \<and> tv_age v = type_age e t \<and>
         (severity_rank (tv_state v) \<le> 1 \<longrightarrow> tv_required v = Some True \<longrightarrow>
            within_type_limits fl (type_rule policy server_id database t) (tv_age v))"
  using assms judge_type_ok by (auto simp: evaluate_type_def Let_def rbind_eq_Inr split: prod.splits)

lemma evaluate_data_ok:
  assumes "evaluate_data fl rule recovery types = Inr (d, rs)"
  shows "severity_rank (dv_state d) \<le> 1 \<longrightarrow> dv_required d \<longrightarrow> within_data_limits fl rule (dv_age d)"
  using assms judge_data_ok by (auto simp: evaluate_data_def Let_def rbind_eq_Inr split: prod.splits)

lemma worse_le: "severity_rank (worse_state a b) \<le> n \<longleftrightarrow> severity_rank a \<le> n \<and> severity_rank b \<le> n"
  by (auto simp: worse_state_def)

lemma foldl_worse_le:
  "severity_rank (foldl worse_state w ss) \<le> n \<longleftrightarrow> severity_rank w \<le> n \<and> (\<forall>s\<in>set ss. severity_rank s \<le> n)"
  by (induction ss arbitrary: w) (auto simp: worse_le)

definition protected_db :: "float_parser \<Rightarrow> pydict \<Rightarrow> string \<Rightarrow> db_verdict \<Rightarrow> bool" where
  "protected_db fl policy server_id r =
     ((\<forall>t v. (t, v) \<in> set (db_types r) \<longrightarrow> tv_required v = Some True \<longrightarrow>
         within_type_limits fl (type_rule policy server_id (dbname r) t) (tv_age v)) \<and>
      (\<forall>d rule. db_data r = Some d \<longrightarrow> data_backup_rule policy server_id (dbname r) = Some rule \<longrightarrow> dv_required d \<longrightarrow>
         within_data_limits fl rule (dv_age d)))"

lemma evaluate_type_name:
  "evaluate_type fl policy server_id database e t = Inr v \<Longrightarrow> fst (fst v) = t"
  by (metis evaluate_type_ok prod.collapse)

lemma evaluate_types:
  assumes "map_res (evaluate_type fl policy server_id database e) ts = Inr vs"
  shows "map fst (map fst vs) = ts"
    and "(t, v) \<in> set (map fst vs) \<Longrightarrow> \<exists>rs. evaluate_type fl policy server_id database e t = Inr ((t, v), rs)"
proof -
  have all: "list_all2 (\<lambda>t v. evaluate_type fl policy server_id database e t = Inr v) ts vs"
    using assms by (simp add: map_res_Inr)
  then show "map fst (map fst vs) = ts"
    by (induction rule: list_all2_induct) (simp_all add: evaluate_type_name)
  show "\<exists>rs. evaluate_type fl policy server_id database e t = Inr ((t, v), rs)" if tv: "(t, v) \<in> set (map fst vs)"
  proof -
    obtain rs where "((t, v), rs) \<in> set vs"
      using tv by force
    then obtain u where "evaluate_type fl policy server_id database e u = Inr ((t, v), rs)"
      using all by (auto simp: list_all2_conv_all_nth in_set_conv_nth)
    moreover from evaluate_type_name [OF this] have "u = t" by simp
    ultimately show ?thesis by blast
  qed
qed

lemma evaluate_database_cases:
  assumes "evaluate_database fl policy server_id (database, e) = Inr r"
  obtains vs where "map_res (evaluate_type fl policy server_id database e) BACKUP_TYPES = Inr vs"
    and "dbname r = database" and "db_types r = map fst vs"
    and "db_data r = None \<and> data_backup_rule policy server_id database = None \<and>
           db_status r = foldl worse_state OK (map (\<lambda>(_, v). tv_state v) (db_types r)) \<or>
         (\<exists>rule d more. data_backup_rule policy server_id database = Some rule \<and> db_data r = Some d \<and>
           evaluate_data fl rule (recovery_model e) (db_types r) = Inr (d, more) \<and>
           db_status r = worse_state (foldl worse_state OK (map (\<lambda>(_, v). tv_state v) (db_types r))) (dv_state d))"
  using assms by (auto simp: evaluate_database_def rbind_eq_Inr Let_def split: option.splits prod.splits)

lemma evaluate_database_ok:
  assumes "evaluate_database fl policy server_id (database, e) = Inr r" and "db_status r = OK"
  shows "protected_db fl policy server_id r"
proof -
  obtain vs where vs: "map_res (evaluate_type fl policy server_id database e) BACKUP_TYPES = Inr vs"
    and r: "dbname r = database" "db_types r = map fst vs"
    and cases: "db_data r = None \<and> data_backup_rule policy server_id database = None \<and>
           db_status r = foldl worse_state OK (map (\<lambda>(_, v). tv_state v) (db_types r)) \<or>
         (\<exists>rule d more. data_backup_rule policy server_id database = Some rule \<and> db_data r = Some d \<and>
           evaluate_data fl rule (recovery_model e) (db_types r) = Inr (d, more) \<and>
           db_status r = worse_state (foldl worse_state OK (map (\<lambda>(_, v). tv_state v) (db_types r))) (dv_state d))"
    by (rule evaluate_database_cases [OF assms(1)])
  have "severity_rank (db_status r) \<le> 1"
    by (simp add: assms(2))
  then have low: "severity_rank (foldl worse_state OK (map (\<lambda>(_, v). tv_state v) (db_types r))) \<le> 1"
    and data: "\<And>d. db_data r = Some d \<Longrightarrow> severity_rank (dv_state d) \<le> 1"
    using cases by (auto simp: worse_le)
  have types: "within_type_limits fl (type_rule policy server_id database t) (tv_age v)"
    if tv: "(t, v) \<in> set (db_types r)" and req: "tv_required v = Some True" for t v
  proof -
    obtain rs where "evaluate_type fl policy server_id database e t = Inr ((t, v), rs)"
      using evaluate_types(2) [OF vs] tv r by metis
    moreover have "severity_rank (tv_state v) \<le> 1"
      using low tv unfolding foldl_worse_le by force
    ultimately show ?thesis
      using evaluate_type_ok req by blast
  qed
  have "within_data_limits fl rule (dv_age d)"
    if "db_data r = Some d" "data_backup_rule policy server_id database = Some rule" "dv_required d" for d rule
    using cases that data [OF that(1)] evaluate_data_ok by fastforce
  with types show ?thesis
    by (simp add: protected_db_def r)
qed


definition erp_rows :: "pydict list" where
  "erp_rows =
     [[(''metric_code'', PStr ''BACKUP_LAST_RESULT''), (''metric_value'', PInt 5),
       (''message'', PStr ''database=erp,recovery_model=FULL,backup_type=D'')]]"

definition erp_policy :: pydict where
  "erp_policy = [(''defaults'', PDict [(''types'', PDict [(''FULL'', PDict [(''required'', PBool True)])])])]"

definition first_verdict :: "bp_error + db_verdict list \<times> bp_summary \<Rightarrow> db_verdict option" where
  "first_verdict res = (case res of Inr (r # _, _) \<Rightarrow> Some r | _ \<Rightarrow> None)"

lemma first_verdict_SomeD: "first_verdict res = Some r \<Longrightarrow> \<exists>rest s. res = Inr (r # rest, s)"
  by (auto simp: first_verdict_def split: sum.splits list.splits)


text \<open>No policy is never a pass. With a document that carries no rule, whatever the evidence, the
  verdict counts no database as compliant: each eligible database is UNKNOWN, they are all still
  counted as eligible, and the server's status is UNKNOWN.
\<close>
theorem no_policy_is_never_a_pass:
  assumes "evaluate_backup_policy fromiso fl rows server_id policy now = Inr (dbs, s)"
    and "\<not> policy_is_configured policy"
  shows "bp_compliant s = 0 \<and> bp_status s = UNKNOWN \<and> \<not> bp_configured s \<and> bp_eligible s = length dbs \<and>
         (\<forall>r\<in>set dbs. db_status r = UNKNOWN) \<and> coverage_text s = ''No policy configured''"
  using assms
  by (auto simp: evaluate_backup_policy_def rbind_eq_Inr Let_def unconfigured_def unconfigured_verdict_def
      coverage_text_def split: prod.splits)

theorem no_policy_is_never_a_pass_witness:
  "\<exists>dbs s. evaluate_backup_policy (\<lambda>_. None) (\<lambda>_. None) erp_rows ''srv'' [] 0 = Inr (dbs, s) \<and>
     \<not> policy_is_configured [] \<and> bp_compliant s = 0 \<and> bp_eligible s = length dbs \<and> dbs \<noteq> []"
proof -
  have c: "\<not> policy_is_configured []"
    by code_simp
  have "first_verdict (evaluate_backup_policy (\<lambda>_. None) (\<lambda>_. None) erp_rows ''srv'' [] 0) \<noteq> None"
    by code_simp
  then obtain r rest s where e: "evaluate_backup_policy (\<lambda>_. None) (\<lambda>_. None) erp_rows ''srv'' [] 0 = Inr (r # rest, s)"
    by (auto dest: first_verdict_SomeD)
  from no_policy_is_never_a_pass [OF e c] e c show ?thesis
    by (intro exI [of _ "r # rest"] exI [of _ s]) simp
qed

end
