(* ===== verification/Offload.thy ===== *)
theory Offload
  imports Integrity
begin

section \<open>Where a backup goes after it is written\<close>

text \<open>
  Models \<^verbatim>\<open>dbabrain/lib/offload.py\<close>: the offload fields every backup entry states and
  \<^verbatim>\<open>restore_from\<close> of every restore entry, their parser with every refusal, the repository's
  retention by level and the upgrade that writes the missing fields into a document.
\<close>

subsection \<open>The fields\<close>

definition SCANNERS :: "string list" where
  "SCANNERS = [''none'', ''clamav'']"

definition RESTORE_FROM :: "string list" where
  "RESTORE_FROM = [''server'', ''repository'']"

definition STATED_RESTORE_FROM :: string where
  "STATED_RESTORE_FROM = ''server''"

definition OFFLOAD_FIELDS :: pydict where
  "OFFLOAD_FIELDS =
     [(''offload_enabled'', PBool False), (''offload_server_id'', PStr []), (''offload_folder'', PStr []),
      (''offload_copy_max_retry'', PInt 3), (''offload_scan'', PStr ''none''), (''offload_delete_source'', PBool False),
      (''offload_source_share'', PStr []), (''offload_source_username'', PStr []),
      (''offload_source_password_ref'', PStr []),
      (''offload_retention_full'', PInt 0), (''offload_retention_diff'', PInt 0), (''offload_retention_log'', PInt 0),
      (''offload_files_per_pass'', PInt 100), (''offload_copy_retry_interval_seconds'', PInt 30),
      (''offload_retry_interval_seconds'', PInt 3600), (''offload_run_timeout_seconds'', PInt 86400),
      (''offload_copy_timeout_seconds'', PInt 86400), (''offload_hash_timeout_seconds'', PInt 21600),
      (''offload_stall_seconds'', PInt 300)]"

definition RUN_FIELD_RANGES :: "(string \<times> int \<times> int option) list" where
  "RUN_FIELD_RANGES =
     [(''offload_files_per_pass'', 1, Some 10000), (''offload_copy_retry_interval_seconds'', 0, Some 3600),
      (''offload_retry_interval_seconds'', 0, None), (''offload_run_timeout_seconds'', 60, None),
      (''offload_copy_timeout_seconds'', 60, None), (''offload_hash_timeout_seconds'', 60, None),
      (''offload_stall_seconds'', 10, Some 86400)]"

definition RETENTION_FIELD_OF_LEVEL :: "(string \<times> string) list" where
  "RETENTION_FIELD_OF_LEVEL =
     [(''full'', ''offload_retention_full''), (''diff'', ''offload_retention_diff''), (''log'', ''offload_retention_log'')]"

datatype offload_error =
    Fields_missing "string list"
  | Not_a_flag string pyval
  | Not_text string pyval
  | Retry_out_of_range pyval
  | Bad_retention string pyval
  | Bad_run_field string pyval
  | Unknown_scanner pyval
  | Repository_unnamed "string list"
  | Share_without_login
  | Oracle_owns_its_pieces
  | Delete_without_offload
  | Offload_unstated
  | Unknown_restore_from pyval
  | Restore_from_unstated

record backup_offload =
  enabled :: bool
  server_id :: string
  folder :: string
  copy_max_retry :: int
  scan :: string
  delete_source :: bool
  source_share :: string
  source_username :: string
  source_password_ref :: string
  retention_levels :: "int list"
  run_values :: "int list"

text \<open>
  The record keeps the three retention windows and the seven run values as lists in the order of
  \<open>RETENTION_FIELD_OF_LEVEL\<close> and \<open>RUN_FIELD_RANGES\<close>, whose names the source builds the fields from.
\<close>

definition retention_of :: "backup_offload \<Rightarrow> string \<Rightarrow> int" where
  "retention_of b file_type =
     (let level = (case map_of LEVEL_OF_FILE_TYPE (upper file_type) of None \<Rightarrow> ''full'' | Some l \<Rightarrow> l) in
      the (map_of (zip (map fst RETENTION_FIELD_OF_LEVEL) (retention_levels b)) level))"

definition as_record :: "backup_offload \<Rightarrow> pydict" where
  "as_record b =
     [(''offload_enabled'', PBool (enabled b)), (''offload_server_id'', PStr (server_id b)),
      (''offload_folder'', PStr (folder b)), (''offload_copy_max_retry'', PInt (copy_max_retry b)),
      (''offload_scan'', PStr (scan b)), (''offload_delete_source'', PBool (delete_source b)),
      (''offload_source_share'', PStr (source_share b)), (''offload_source_username'', PStr (source_username b)),
      (''offload_source_password_ref'', PStr (source_password_ref b))] @
     zip (map snd RETENTION_FIELD_OF_LEVEL) (map PInt (retention_levels b)) @
     zip (map fst RUN_FIELD_RANGES) (map PInt (run_values b))"

subsection \<open>Parsing\<close>

definition flag_field :: "pydict \<Rightarrow> string \<Rightarrow> offload_error + bool" where
  "flag_field raw name = (case get raw name of PBool b \<Rightarrow> Inr b | v \<Rightarrow> Inl (Not_a_flag name v))"

definition text_field :: "pydict \<Rightarrow> string \<Rightarrow> offload_error + string" where
  "text_field raw name = (case get raw name of PStr s \<Rightarrow> Inr (strip s) | v \<Rightarrow> Inl (Not_text name v))"

definition whole_field :: "pydict \<Rightarrow> string \<Rightarrow> int \<Rightarrow> int option \<Rightarrow> (pyval \<Rightarrow> offload_error) \<Rightarrow> offload_error + int" where
  "whole_field raw name low high err =
     (case get raw name of
        PInt i \<Rightarrow> if low \<le> i \<and> (case high of None \<Rightarrow> True | Some h \<Rightarrow> i \<le> h) then Inr i else Inl (err (PInt i))
      | v \<Rightarrow> Inl (err v))"

definition scan_field :: "pydict \<Rightarrow> offload_error + string" where
  "scan_field raw =
     rbind (text_field raw ''offload_scan'') (\<lambda>s.
       if lower s \<in> set SCANNERS then Inr (lower s) else Inl (Unknown_scanner (get raw ''offload_scan'')))"

definition read_offload :: "pydict \<Rightarrow> offload_error + backup_offload" where
  "read_offload raw =
     rbind (whole_field raw ''offload_copy_max_retry'' 0 (Some MAX_COPY_MAX_RETRY) Retry_out_of_range) (\<lambda>retry.
     rbind (map_res (\<lambda>(_, name). whole_field raw name 0 None (Bad_retention name)) RETENTION_FIELD_OF_LEVEL) (\<lambda>retention.
     rbind (map_res (\<lambda>(name, low, high). whole_field raw name low high (Bad_run_field name)) RUN_FIELD_RANGES) (\<lambda>run.
     rbind (scan_field raw) (\<lambda>scanner.
     rbind (flag_field raw ''offload_enabled'') (\<lambda>on.
     rbind (text_field raw ''offload_server_id'') (\<lambda>server.
     rbind (text_field raw ''offload_folder'') (\<lambda>dir.
     rbind (flag_field raw ''offload_delete_source'') (\<lambda>del.
     rbind (text_field raw ''offload_source_share'') (\<lambda>share.
     rbind (text_field raw ''offload_source_username'') (\<lambda>user.
     rbind (text_field raw ''offload_source_password_ref'') (\<lambda>ref.
       Inr \<lparr> enabled = on, server_id = server, folder = dir, copy_max_retry = retry, scan = scanner,
             delete_source = del, source_share = share, source_username = user, source_password_ref = ref,
             retention_levels = retention, run_values = run \<rparr>)))))))))))"

definition is_oracle :: "string \<Rightarrow> bool" where
  "is_oracle db_type = (lower (strip db_type) = ''oracle'')"

definition check_offload :: "backup_offload \<Rightarrow> string \<Rightarrow> offload_error + unit" where
  "check_offload b db_type =
     rbind (if enabled b then
              (let unnamed = (if server_id b = [] then [''offload_server_id''] else []) @
                             (if folder b = [] then [''offload_folder''] else []) in
               if unnamed \<noteq> [] then Inl (Repository_unnamed unnamed)
               else check (source_share b = [] \<or> (source_username b \<noteq> [] \<and> source_password_ref b \<noteq> []))
                      Share_without_login)
            else Inr ()) (\<lambda>_.
     rbind (check (\<not> (delete_source b \<and> is_oracle db_type)) Oracle_owns_its_pieces) (\<lambda>_.
       check (\<not> (delete_source b \<and> \<not> enabled b)) Delete_without_offload))"

definition parse_backup_offload :: "pydict \<Rightarrow> string \<Rightarrow> offload_error + backup_offload option" where
  "parse_backup_offload raw db_type =
     (let present = filter (has_key raw) (map fst OFFLOAD_FIELDS);
          missing = filter (\<lambda>n. \<not> has_key raw n) (map fst OFFLOAD_FIELDS) in
      if present = [] then Inr None
      else if missing \<noteq> [] then Inl (Fields_missing missing)
      else rbind (read_offload raw) (\<lambda>b. rbind (check_offload b db_type) (\<lambda>_. Inr (Some b))))"

definition require_backup_offload :: "backup_offload option \<Rightarrow> offload_error + backup_offload" where
  "require_backup_offload b = (case b of None \<Rightarrow> Inl Offload_unstated | Some x \<Rightarrow> Inr x)"

definition parse_restore_from :: "pydict \<Rightarrow> offload_error + string option" where
  "parse_restore_from raw =
     (case get raw ''restore_from'' of
        PNone \<Rightarrow> Inr None
      | PStr s \<Rightarrow> if lower (strip s) \<in> set RESTORE_FROM then Inr (Some (lower (strip s)))
                  else Inl (Unknown_restore_from (PStr s))
      | v \<Rightarrow> Inl (Unknown_restore_from v))"

definition require_restore_from :: "string option \<Rightarrow> offload_error + string" where
  "require_restore_from v = (case v of None \<Rightarrow> Inl Restore_from_unstated | Some x \<Rightarrow> Inr x)"

subsection \<open>The upgrade\<close>

definition state_backup_entry :: "pydict \<Rightarrow> pydict \<times> nat" where
  "state_backup_entry entry =
     (let added = filter (\<lambda>(n, _). \<not> has_key entry n) OFFLOAD_FIELDS in
      (update_with entry added, length added))"

definition state_restore_entry :: "pydict \<Rightarrow> pydict" where
  "state_restore_entry entry =
     (if has_key entry ''restore_from'' then entry
      else upd ''restore_from'' (PStr STATED_RESTORE_FROM) entry)"

definition on_entries :: "string \<Rightarrow> (pydict \<Rightarrow> pydict) \<Rightarrow> pydict \<Rightarrow> pydict" where
  "on_entries key f section =
     (case get section key of
        PList xs \<Rightarrow> upd key (PList (map (\<lambda>v. case v of PDict e \<Rightarrow> PDict (f e) | _ \<Rightarrow> v) xs)) section
      | _ \<Rightarrow> section)"

datatype offload_change = Offload_stated string nat | Restore_from_stated string

definition entry_label :: "string \<Rightarrow> string \<Rightarrow> nat \<Rightarrow> pydict \<Rightarrow> string" where
  "entry_label key section_name i entry =
     (let v = get entry key in if truthy v then py_str v else section_name @ ''['' @ show_nat i @ '']'')"

definition section_changes :: "pydict \<Rightarrow> offload_change list" where
  "section_changes section =
     concat (map (\<lambda>(i, v). case v of
          PDict e \<Rightarrow> let n = snd (state_backup_entry e) in
                     if n = 0 then [] else [Offload_stated (entry_label ''backup_id'' ''backups'' i e) n]
        | _ \<Rightarrow> []) (enumerate 0 (as_list (get section ''backups'')))) @
     concat (map (\<lambda>(i, v). case v of
          PDict e \<Rightarrow> if has_key e ''restore_from'' then []
                     else [Restore_from_stated (entry_label ''restore_id'' ''restores'' i e)]
        | _ \<Rightarrow> []) (enumerate 0 (as_list (get section ''restores''))))"

definition state_offload :: "pyval \<Rightarrow> pyval \<times> offload_change list" where
  "state_offload document =
     (case document of
        PDict doc \<Rightarrow>
          (case get doc ''backup_restore'' of
             PDict section \<Rightarrow>
               (PDict (upd ''backup_restore''
                  (PDict (on_entries ''restores'' state_restore_entry
                    (on_entries ''backups'' (\<lambda>e. fst (state_backup_entry e)) section))) doc),
                section_changes section)
           | _ \<Rightarrow> (document, []))
      | _ \<Rightarrow> (document, []))"

subsection \<open>What a parsed block guarantees\<close>

definition in_range :: "int \<Rightarrow> string \<times> int \<times> int option \<Rightarrow> bool" where
  "in_range i r = (case r of (_, low, high) \<Rightarrow> low \<le> i \<and> (case high of None \<Rightarrow> True | Some h \<Rightarrow> i \<le> h))"

definition wf_offload :: "string \<Rightarrow> backup_offload \<Rightarrow> bool" where
  "wf_offload db_type b =
     (0 \<le> copy_max_retry b \<and> copy_max_retry b \<le> MAX_COPY_MAX_RETRY \<and> scan b \<in> set SCANNERS \<and>
      strip (server_id b) = server_id b \<and> strip (folder b) = folder b \<and> strip (source_share b) = source_share b \<and>
      strip (source_username b) = source_username b \<and> strip (source_password_ref b) = source_password_ref b \<and>
      length (retention_levels b) = 3 \<and> list_all (\<lambda>i. 0 \<le> i) (retention_levels b) \<and>
      list_all2 (\<lambda>r i. in_range i r) RUN_FIELD_RANGES (run_values b) \<and>
      (enabled b \<longrightarrow> server_id b \<noteq> [] \<and> folder b \<noteq> [] \<and>
         (source_share b = [] \<or> source_username b \<noteq> [] \<and> source_password_ref b \<noteq> [])) \<and>
      (delete_source b \<longrightarrow> enabled b \<and> \<not> is_oracle db_type))"

lemma whole_field_Inr:
  "whole_field raw name low high err = Inr i \<longleftrightarrow>
     get raw name = PInt i \<and> low \<le> i \<and> (case high of None \<Rightarrow> True | Some h \<Rightarrow> i \<le> h)"
  by (auto simp: whole_field_def split: pyval.splits option.splits)

lemma text_field_Inr: "text_field raw name = Inr t \<longleftrightarrow> (\<exists>s. get raw name = PStr s \<and> t = strip s)"
  by (auto simp: text_field_def split: pyval.splits)

lemma flag_field_Inr: "flag_field raw name = Inr b \<longleftrightarrow> get raw name = PBool b"
  by (auto simp: flag_field_def split: pyval.splits)

lemma scan_field_Inr:
  "scan_field raw = Inr t \<longleftrightarrow> (\<exists>s. get raw ''offload_scan'' = PStr s \<and> t = lower (strip s) \<and> t \<in> set SCANNERS)"
  by (auto simp: scan_field_def rbind_eq_Inr text_field_Inr)

lemmas field_Inr = whole_field_Inr text_field_Inr flag_field_Inr scan_field_Inr

lemma run_values_in_range:
  assumes "map_res (\<lambda>(name, low, high). whole_field raw name low high (Bad_run_field name)) rs = Inr run"
  shows "list_all2 (\<lambda>r i. in_range i r) rs run"
proof -
  have "list_all2 (\<lambda>(name, low, high) i. whole_field raw name low high (Bad_run_field name) = Inr i) rs run"
    using assms by (simp add: map_res_Inr split_def)
  then show ?thesis
    by (rule list_all2_mono) (auto simp: in_range_def whole_field_Inr)
qed

lemma read_offload_wf:
  assumes "read_offload raw = Inr b" and "check_offload b db_type = Inr u"
  shows "wf_offload db_type b"
proof -
  have "length (retention_levels b) = 3 \<and> list_all (\<lambda>i. 0 \<le> i) (retention_levels b)"
    using assms(1) by (auto simp: read_offload_def rbind_eq_Inr RETENTION_FIELD_OF_LEVEL_def
        whole_field_Inr)
  moreover have "list_all2 (\<lambda>r i. in_range i r) RUN_FIELD_RANGES (run_values b)"
    using assms(1) by (auto simp: read_offload_def rbind_eq_Inr dest!: run_values_in_range)
  moreover have "0 \<le> copy_max_retry b \<and> copy_max_retry b \<le> MAX_COPY_MAX_RETRY \<and> scan b \<in> set SCANNERS \<and>
      strip (server_id b) = server_id b \<and> strip (folder b) = folder b \<and> strip (source_share b) = source_share b \<and>
      strip (source_username b) = source_username b \<and> strip (source_password_ref b) = source_password_ref b"
    using assms(1) by (auto simp: read_offload_def rbind_eq_Inr field_Inr)
  moreover have "(enabled b \<longrightarrow> server_id b \<noteq> [] \<and> folder b \<noteq> [] \<and>
         (source_share b = [] \<or> source_username b \<noteq> [] \<and> source_password_ref b \<noteq> [])) \<and>
      (delete_source b \<longrightarrow> enabled b \<and> \<not> is_oracle db_type)"
    using assms(2) by (auto simp: check_offload_def rbind_eq_Inr Let_def split: if_splits)
  ultimately show ?thesis
    unfolding wf_offload_def by blast
qed

lemma check_offload_wf: "wf_offload db_type b \<Longrightarrow> check_offload b db_type = Inr ()"
  by (auto simp: wf_offload_def check_offload_def check_def Let_def)

lemma list3: "length xs = 3 \<Longrightarrow> \<exists>a b c. xs = [a, b, c]"
  by (auto simp: numeral_3_eq_3 length_Suc_conv)

lemma read_as_record:
  assumes "wf_offload db_type b"
  shows "read_offload (as_record b) = Inr b"
proof -
  obtain f d l where r: "retention_levels b = [f, d, l]" "0 \<le> f" "0 \<le> d" "0 \<le> l"
    using assms list3 [of "retention_levels b"] by (auto simp: wf_offload_def)
  obtain v1 v2 v3 v4 v5 v6 v7 where v: "run_values b = [v1, v2, v3, v4, v5, v6, v7]"
    and ranges: "1 \<le> v1 \<and> v1 \<le> 10000 \<and> 0 \<le> v2 \<and> v2 \<le> 3600 \<and> 0 \<le> v3 \<and> 60 \<le> v4 \<and> 60 \<le> v5 \<and> 60 \<le> v6 \<and>
                 10 \<le> v7 \<and> v7 \<le> 86400"
    using assms by (auto simp: wf_offload_def RUN_FIELD_RANGES_def list_all2_Cons1 in_range_def)
  have s: "lower (strip (scan b)) = scan b"
    using assms by (auto simp: wf_offload_def SCANNERS_def strip_no_ws is_ws_def lower_def lower_char_def)
  have look: "get (as_record b) ''offload_copy_max_retry'' = PInt (copy_max_retry b)"
    "get (as_record b) ''offload_scan'' = PStr (scan b)"
    "get (as_record b) ''offload_enabled'' = PBool (enabled b)"
    "get (as_record b) ''offload_server_id'' = PStr (server_id b)"
    "get (as_record b) ''offload_folder'' = PStr (folder b)"
    "get (as_record b) ''offload_delete_source'' = PBool (delete_source b)"
    "get (as_record b) ''offload_source_share'' = PStr (source_share b)"
    "get (as_record b) ''offload_source_username'' = PStr (source_username b)"
    "get (as_record b) ''offload_source_password_ref'' = PStr (source_password_ref b)"
    by (simp_all add: as_record_def get_def)
  have ret: "map_res (\<lambda>(_, name). whole_field (as_record b) name 0 None (Bad_retention name)) RETENTION_FIELD_OF_LEVEL =
             Inr (retention_levels b)"
    unfolding map_res_Inr r(1) using r
    by (simp add: RETENTION_FIELD_OF_LEVEL_def whole_field_Inr as_record_def get_def)
  have run: "map_res (\<lambda>(name, low, high). whole_field (as_record b) name low high (Bad_run_field name)) RUN_FIELD_RANGES =
             Inr (run_values b)"
    unfolding map_res_Inr v using r v ranges
    by (simp add: RUN_FIELD_RANGES_def whole_field_Inr as_record_def get_def RETENTION_FIELD_OF_LEVEL_def)
  show ?thesis
    using assms unfolding read_offload_def ret run
    by (simp add: look whole_field_def scan_field_def text_field_def flag_field_def s wf_offload_def)
qed

lemma as_record_states_all: "wf_offload db_type b \<Longrightarrow> list_all (has_key (as_record b)) (map fst OFFLOAD_FIELDS)"
proof -
  assume wf: "wf_offload db_type b"
  obtain f d l where r: "retention_levels b = [f, d, l]"
    using wf list3 [of "retention_levels b"] by (auto simp: wf_offload_def)
  obtain v1 v2 v3 v4 v5 v6 v7 where v: "run_values b = [v1, v2, v3, v4, v5, v6, v7]"
    using wf by (auto simp: wf_offload_def RUN_FIELD_RANGES_def list_all2_Cons1)
  show ?thesis
    by (simp add: OFFLOAD_FIELDS_def has_key_def as_record_def r v RUN_FIELD_RANGES_def RETENTION_FIELD_OF_LEVEL_def)
qed

lemma parse_as_offload_record: "wf_offload db_type b \<Longrightarrow> parse_backup_offload (as_record b) db_type = Inr (Some b)"
proof -
  assume wf: "wf_offload db_type b"
  have all: "has_key (as_record b) n" if "n \<in> set (map fst OFFLOAD_FIELDS)" for n
    using as_record_states_all [OF wf] that by (auto simp: list_all_iff)
  then have missing: "filter (\<lambda>n. \<not> has_key (as_record b) n) (map fst OFFLOAD_FIELDS) = []"
    by (simp only: filter_empty_conv) blast
  have "''offload_enabled'' \<in> set (map fst OFFLOAD_FIELDS)"
    by (simp add: OFFLOAD_FIELDS_def)
  with all have present: "filter (has_key (as_record b)) (map fst OFFLOAD_FIELDS) \<noteq> []"
    by (metis (no_types, lifting) filter_empty_conv)
  show ?thesis
    unfolding parse_backup_offload_def Let_def missing using present
    by (simp add: read_as_record [OF wf] check_offload_wf [OF wf])
qed

text \<open>C9: An accepted offload block is well formed and safe. Whatever entry is given, a block that
  parses names the repository and its folder when offload is on, reads a share only with a login,
  deletes source files only when offload is on and never on Oracle, keeps every number within the
  range stated for it and every text without surrounding space; and writing it back as the record
  it came from parses to the same block.
\<close>
theorem accepted_offload_is_safe:
  assumes "parse_backup_offload raw db_type = Inr (Some b)"
  shows "wf_offload db_type b \<and> parse_backup_offload (as_record b) db_type = Inr (Some b)"
proof -
  have "wf_offload db_type b"
    using assms read_offload_wf by (auto simp: parse_backup_offload_def Let_def rbind_eq_Inr split: if_splits)
  then show ?thesis
    by (simp add: parse_as_offload_record)
qed

definition repository_entry :: pydict where
  "repository_entry = update_with OFFLOAD_FIELDS [(''offload_enabled'', PBool True), (''offload_server_id'', PStr ''repo''),
     (''offload_folder'', PStr '' /srv/copies ''), (''offload_delete_source'', PBool True)]"

theorem accepted_offload_is_safe_witness:
  "\<exists>b. parse_backup_offload repository_entry ''sqlserver'' = Inr (Some b) \<and> wf_offload ''sqlserver'' b \<and>
       parse_backup_offload (as_record b) ''sqlserver'' = Inr (Some b)"
proof -
  have "(case parse_backup_offload repository_entry ''sqlserver'' of Inr (Some b) \<Rightarrow> True | _ \<Rightarrow> False)"
    by code_simp
  then obtain b where "parse_backup_offload repository_entry ''sqlserver'' = Inr (Some b)"
    by (auto split: sum.splits option.splits)
  with accepted_offload_is_safe [OF this] show ?thesis by blast
qed

subsection \<open>The upgrade changes no flow\<close>

lemma map_of_filter_keys: "map_of (filter (\<lambda>(n, _). P n) ds) k = (if P k then map_of ds k else None)"
  by (induction ds) auto

lemma map_of_rev_distinct: "distinct (map fst xs) \<Longrightarrow> map_of (rev xs) = map_of xs"
  by (subst map_of_inject_set) (simp_all flip: rev_map)

lemma stated_entry_lookup:
  "map_of (fst (state_backup_entry e)) k =
     (case map_of e k of Some v \<Rightarrow> Some v | None \<Rightarrow> map_of OFFLOAD_FIELDS k)"
proof -
  have fields: "map_of (rev OFFLOAD_FIELDS) = map_of OFFLOAD_FIELDS"
    by (rule map_of_rev_distinct) (simp add: OFFLOAD_FIELDS_def)
  show ?thesis
    by (auto simp: state_backup_entry_def Let_def map_of_update_with rev_filter map_add_def map_of_filter_keys
        fields has_key_def split: option.splits)
qed

lemma state_backup_entry_keeps: "has_key e k \<Longrightarrow> get (fst (state_backup_entry e)) k = get e k"
  by (auto simp: get_def has_key_def stated_entry_lookup)

lemma state_backup_entry_states: "n \<in> set (map fst OFFLOAD_FIELDS) \<Longrightarrow> has_key (fst (state_backup_entry e)) n"
  by (auto simp: has_key_def stated_entry_lookup dest: weak_map_of_SomeI split: option.splits)

lemma state_backup_entry_fixed: "state_backup_entry (fst (state_backup_entry e)) = (fst (state_backup_entry e), 0)"
proof -
  have "filter (\<lambda>(n, _). \<not> has_key (fst (state_backup_entry e)) n) OFFLOAD_FIELDS = []"
    using state_backup_entry_states [of _ e] by (force simp: filter_empty_conv)
  then show ?thesis
    by (simp add: state_backup_entry_def [of "fst _"] update_with_def)
qed

definition offload_off :: backup_offload where
  "offload_off = \<lparr> enabled = False, server_id = [], folder = [], copy_max_retry = 3, scan = ''none'',
     delete_source = False, source_share = [], source_username = [], source_password_ref = [],
     retention_levels = [0, 0, 0], run_values = [100, 30, 3600, 86400, 86400, 21600, 300] \<rparr>"

lemma offload_off_record: "as_record offload_off = OFFLOAD_FIELDS"
  by (simp add: as_record_def offload_off_def OFFLOAD_FIELDS_def RETENTION_FIELD_OF_LEVEL_def RUN_FIELD_RANGES_def)

lemma wf_offload_off: "wf_offload db_type offload_off"
  by (simp add: wf_offload_def offload_off_def MAX_COPY_MAX_RETRY_def SCANNERS_def RUN_FIELD_RANGES_def in_range_def)

text \<open>An entry is parsed through the offload fields alone.\<close>

lemma field_cong:
  assumes "map_of raw n = map_of raw' n"
  shows "flag_field raw n = flag_field raw' n" "text_field raw n = text_field raw' n"
    "whole_field raw n low high err = whole_field raw' n low high err" "has_key raw n = has_key raw' n"
  using assms by (simp_all add: flag_field_def text_field_def whole_field_def has_key_def get_def)

lemma read_offload_cong:
  assumes "\<And>n. n \<in> set (map fst OFFLOAD_FIELDS) \<Longrightarrow> map_of raw n = map_of raw' n"
  shows "read_offload raw = read_offload raw'"
proof -
  note c = field_cong [OF assms]
  have "map_res (\<lambda>(_, name). whole_field raw name 0 None (Bad_retention name)) RETENTION_FIELD_OF_LEVEL =
        map_res (\<lambda>(_, name). whole_field raw' name 0 None (Bad_retention name)) RETENTION_FIELD_OF_LEVEL"
    by (simp add: RETENTION_FIELD_OF_LEVEL_def c(3) OFFLOAD_FIELDS_def)
  moreover have "map_res (\<lambda>(name, low, high). whole_field raw name low high (Bad_run_field name)) RUN_FIELD_RANGES =
        map_res (\<lambda>(name, low, high). whole_field raw' name low high (Bad_run_field name)) RUN_FIELD_RANGES"
    by (simp add: RUN_FIELD_RANGES_def c(3) OFFLOAD_FIELDS_def)
  moreover have "scan_field raw = scan_field raw'"
  proof -
    have scan: "''offload_scan'' \<in> set (map fst OFFLOAD_FIELDS)" by (simp add: OFFLOAD_FIELDS_def)
    then have "get raw ''offload_scan'' = get raw' ''offload_scan''"
      using assms by (simp add: get_def)
    then show ?thesis
      by (simp only: scan_field_def c(2) [OF scan])
  qed
  ultimately show ?thesis
    unfolding read_offload_def by (simp add: c(1-3) OFFLOAD_FIELDS_def)
qed

text \<open>The upgrade keeps the flow an entry had. It changes no field an entry states, running it a
  second time changes nothing, and an entry written before offload existed - one that states none
  of the fields - then parses as offload off: nothing is copied anywhere and nothing is deleted.
\<close>
theorem offload_upgrade_keeps_the_flow:
  assumes "\<And>n. n \<in> set (map fst OFFLOAD_FIELDS) \<Longrightarrow> \<not> has_key e n"
  shows "parse_backup_offload (fst (state_backup_entry e)) db_type = Inr (Some offload_off) \<and>
         state_backup_entry (fst (state_backup_entry e)) = (fst (state_backup_entry e), 0) \<and>
         (\<forall>k. has_key e k \<longrightarrow> get (fst (state_backup_entry e)) k = get e k)"
proof -
  have same: "map_of (fst (state_backup_entry e)) n = map_of OFFLOAD_FIELDS n" if "n \<in> set (map fst OFFLOAD_FIELDS)" for n
    using assms [OF that] by (simp add: stated_entry_lookup has_key_def)
  have keys: "filter (has_key (fst (state_backup_entry e))) (map fst OFFLOAD_FIELDS) =
              filter (has_key OFFLOAD_FIELDS) (map fst OFFLOAD_FIELDS)"
    "filter (\<lambda>n. \<not> has_key (fst (state_backup_entry e)) n) (map fst OFFLOAD_FIELDS) =
              filter (\<lambda>n. \<not> has_key OFFLOAD_FIELDS n) (map fst OFFLOAD_FIELDS)"
    by (rule filter_cong; use same in \<open>simp add: has_key_def\<close>)+
  have "parse_backup_offload (fst (state_backup_entry e)) db_type = parse_backup_offload OFFLOAD_FIELDS db_type"
    unfolding parse_backup_offload_def Let_def keys by (simp only: read_offload_cong [of _ OFFLOAD_FIELDS, OF same])
  also have "\<dots> = Inr (Some offload_off)"
    using parse_as_offload_record [OF wf_offload_off] by (simp add: offload_off_record)
  finally show ?thesis
    using state_backup_entry_fixed state_backup_entry_keeps by blast
qed

theorem offload_upgrade_keeps_the_flow_witness:
  "parse_backup_offload (fst (state_backup_entry [(''backup_id'', PStr ''b1'')])) ''oracle'' = Inr (Some offload_off)"
proof -
  have "\<not> has_key [(''backup_id'', PStr ''b1'')] n" if "n \<in> set (map fst OFFLOAD_FIELDS)" for n
    using that by (auto simp: OFFLOAD_FIELDS_def has_key_def)
  from offload_upgrade_keeps_the_flow [OF this] show ?thesis by blast
qed


end
