(* ===== verification/Workflow.thy ===== *)
theory Workflow
  imports Coerce
begin

section \<open>One step of a chat workflow\<close>

text \<open>
  Models \<^verbatim>\<open>dbabrain/lib/workflow_steps.py\<close>: what a reply means at a step of a conversation command
  (a control word or an answer), when a step may be skipped, which steps a branch reaches, and what
  going back must forget. A step is the object of the command document; the answers so far are the
  list of arguments, indexed by the step's \<^verbatim>\<open>position\<close>. \<^verbatim>\<open>int(position)\<close> and the index raise, the \<open>Inl\<close>
  of a result; a negative index counts from the end, as it does in the language.
\<close>

datatype step_error = Bad_position pyval | Index_error int

datatype control = CONTROL_BACK | CONTROL_SKIP | CONTROL_CANCEL

definition LEFT :: string where "LEFT = [CHR 0xE2, CHR 0xAC, CHR 0x85]"
definition NEXT :: string where "NEXT = [CHR 0xE2, CHR 0x8F, CHR 0xAD]"
definition STOP :: string where "STOP = [CHR 0xF0, CHR 0x9F, CHR 0x9A, CHR 0xAB]"
definition CROSS :: string where "CROSS = [CHR 0xE2, CHR 0x9D, CHR 0x8C]"
definition VS16 :: string where "VS16 = [CHR 0xEF, CHR 0xB8, CHR 0x8F]"

definition CONTROL_LABELS :: "(string \<times> control) list" where
  "CONTROL_LABELS =
     [(''back'', CONTROL_BACK), (LEFT @ VS16 @ '' back'', CONTROL_BACK), (LEFT @ '' back'', CONTROL_BACK),
      (''skip'', CONTROL_SKIP), (NEXT @ VS16 @ '' skip'', CONTROL_SKIP), (NEXT @ '' skip'', CONTROL_SKIP),
      (''cancel'', CONTROL_CANCEL), (STOP @ '' cancel'', CONTROL_CANCEL), (CROSS @ '' cancel'', CONTROL_CANCEL)]"

definition BACK_LABEL :: string where "BACK_LABEL = LEFT @ VS16 @ '' Back''"
definition SKIP_LABEL :: string where "SKIP_LABEL = NEXT @ VS16 @ '' Skip''"
definition CANCEL_LABEL :: string where "CANCEL_LABEL = STOP @ '' Cancel''"

definition DEFAULT_SKIP_VALUE :: string where
  "DEFAULT_SKIP_VALUE = ''-''"

subsection \<open>Options and control words\<close>

record step_option =
  opt_label :: string
  opt_value :: string

definition option_of :: "pyval \<Rightarrow> step_option option" where
  "option_of v =
     (case v of
        PStr s \<Rightarrow> if strip s = [] then None else Some \<lparr> opt_label = strip s, opt_value = strip s \<rparr>
      | PDict d \<Rightarrow>
          (let value = strip (py_str (get_or d ''value'' (PStr []))) in
           if value = [] then None
           else Some \<lparr> opt_label = strip (let l = get d ''label'' in if truthy l then py_str l else value), opt_value = value \<rparr>)
      | _ \<Rightarrow> None)"

definition option_list :: "pydict \<Rightarrow> step_option list" where
  "option_list step = (case get step ''options'' of PList items \<Rightarrow> List.map_filter option_of items | _ \<Rightarrow> [])"

definition lstrip_slash :: "string \<Rightarrow> string" where
  "lstrip_slash = dropWhile (\<lambda>c. c = CHR ''/'')"

definition resolve_control :: "string \<Rightarrow> pydict option \<Rightarrow> control option" where
  "resolve_control reply step =
     (let candidate = lstrip_slash (lower (strip reply)) in
      if candidate = [] then None
      else case map_of CONTROL_LABELS candidate of
             None \<Rightarrow> None
           | Some k \<Rightarrow>
               (case step of
                  Some st \<Rightarrow> if candidate \<in> (\<lambda>opt. lower (strip (opt_value opt))) ` set (option_list st) then None else Some k
                | None \<Rightarrow> Some k))"

definition is_secret :: "pydict \<Rightarrow> bool" where
  "is_secret step = (truthy (get step ''secret'') \<or> str_or (get step ''input_type'') = ''secret'')"

definition required_flag :: "pydict \<Rightarrow> bool" where
  "required_flag step = truthy (get_or step ''required'' (PBool True))"

definition is_skippable :: "pydict \<Rightarrow> bool" where
  "is_skippable step = (case get step ''allow_skip'' of PBool b \<Rightarrow> b | _ \<Rightarrow> \<not> required_flag step)"

definition is_asked_when_optional :: "pydict \<Rightarrow> bool" where
  "is_asked_when_optional step = (get step ''allow_skip'' = PBool True \<and> \<not> required_flag step)"

definition skip_value :: "pydict \<Rightarrow> string" where
  "skip_value step = (let v = get step ''skip_value'' in if v \<noteq> PNone then py_str v else DEFAULT_SKIP_VALUE)"

definition accepts_free_text :: "pydict \<Rightarrow> bool" where
  "accepts_free_text step = (case get step ''allow_text_input'' of PBool b \<Rightarrow> b | _ \<Rightarrow> True)"

subsection \<open>Answers and branches\<close>

definition position :: "pydict \<Rightarrow> step_error + int" where
  "position step =
     (let v = get_or step ''position'' (PInt 1) in case py_int v of None \<Rightarrow> Inl (Bad_position v) | Some i \<Rightarrow> Inr i)"

definition py_index :: "'a list \<Rightarrow> int \<Rightarrow> step_error + nat" where
  "py_index xs i =
     (let j = (if i < 0 then i + int (length xs) else i) in
      if 0 \<le> j \<and> j < int (length xs) then Inr (nat j) else Inl (Index_error i))"

definition arg_at :: "string list \<Rightarrow> int \<Rightarrow> step_error + string" where
  "arg_at args p =
     (if p \<le> int (length args) then rbind (py_index args (p - 1)) (\<lambda>i. Inr (strip (args ! i))) else Inr [])"

definition step_name :: "pydict \<Rightarrow> string" where
  "step_name step = strip (str_or (get step ''name''))"

fun answers_from :: "(string \<times> string) list \<Rightarrow> pydict list \<Rightarrow> string list \<Rightarrow> step_error + (string \<times> string) list" where
  "answers_from acc [] args = Inr acc"
| "answers_from acc (step # steps) args =
     (if step_name step = [] then answers_from acc steps args
      else rbind (position step) (\<lambda>p. rbind (arg_at args p) (\<lambda>v.
             answers_from (upd (step_name step) v acc) steps args)))"

definition answers_by_name :: "pydict list \<Rightarrow> string list \<Rightarrow> step_error + (string \<times> string) list" where
  "answers_by_name steps args = answers_from [] steps args"

definition texts_of :: "pyval list \<Rightarrow> string set" where
  "texts_of vs = py_str ` set vs"

definition controlling :: "pydict \<Rightarrow> string option" where
  "controlling step =
     (case get step ''ask_when'' of
        PDict rule \<Rightarrow> (let name = strip (str_or (get rule ''parameter'')) in if name = [] then None else Some name)
      | _ \<Rightarrow> None)"

definition rule_holds :: "pydict \<Rightarrow> string \<Rightarrow> bool" where
  "rule_holds rule value =
     (if has_key rule ''equals'' then value = py_str (get rule ''equals'')
      else if has_key rule ''not_equals'' then value \<noteq> py_str (get rule ''not_equals'')
      else if has_key rule ''in'' then (case get rule ''in'' of PList vs \<Rightarrow> value \<in> texts_of vs | _ \<Rightarrow> False)
      else if has_key rule ''not_in'' then (case get rule ''not_in'' of PList vs \<Rightarrow> value \<notin> texts_of vs | _ \<Rightarrow> False)
      else True)"

definition ask_when_holds :: "pydict \<Rightarrow> (string \<times> string) list \<Rightarrow> bool" where
  "ask_when_holds step answers =
     (case controlling step of
        None \<Rightarrow> True
      | Some name \<Rightarrow>
          (case map_of answers name of
             None \<Rightarrow> False
           | Some v \<Rightarrow> strip v \<noteq> [] \<and> rule_holds (as_dict (get step ''ask_when'')) (strip v)))"

definition clear_step :: "pydict list \<Rightarrow> string list \<Rightarrow> pydict \<Rightarrow> step_error + string list" where
  "clear_step steps cleared step =
     rbind (position step) (\<lambda>p.
       if int (length cleared) < p then Inr cleared
       else rbind (answers_by_name steps cleared) (\<lambda>answers.
              if ask_when_holds step answers then Inr cleared
              else rbind (py_index cleared (p - 1)) (\<lambda>i. Inr (cleared[i := []]))))"

fun clear_steps :: "pydict list \<Rightarrow> string list \<Rightarrow> pydict list \<Rightarrow> step_error + string list" where
  "clear_steps steps cleared [] = Inr cleared"
| "clear_steps steps cleared (step # rest) = rbind (clear_step steps cleared step) (\<lambda>c. clear_steps steps c rest)"

definition clear_unreachable_answers :: "pydict list \<Rightarrow> string list \<Rightarrow> step_error + string list" where
  "clear_unreachable_answers steps args = clear_steps steps args steps"

subsection \<open>The keyboard\<close>

fun pairs_of :: "'a list \<Rightarrow> 'a list list" where
  "pairs_of [] = []"
| "pairs_of [a] = [[a]]"
| "pairs_of (a # b # xs) = [a, b] # pairs_of xs"

record keyboard =
  rows :: "string list list"
  resize_keyboard :: bool
  one_time_keyboard :: bool
  selective :: bool

definition control_row :: "pydict \<Rightarrow> bool \<Rightarrow> string list" where
  "control_row step can_go_back =
     (if can_go_back then [BACK_LABEL] else []) @ (if is_skippable step then [SKIP_LABEL] else []) @ [CANCEL_LABEL]"

definition keyboard_for :: "pydict \<Rightarrow> bool \<Rightarrow> keyboard" where
  "keyboard_for step can_go_back =
     (let options = option_list step in
      \<lparr> rows = (if options \<noteq> [] \<and> \<not> is_secret step then pairs_of (map opt_label options) else []) @
               [control_row step can_go_back],
        resize_keyboard = True, one_time_keyboard = True, selective = True \<rparr>)"

definition control_hint :: "pydict \<Rightarrow> bool \<Rightarrow> string" where
  "control_hint step can_go_back =
     ''Type '' @ join '' / '' ((if can_go_back then [''back''] else []) @
       (if is_skippable step then [''skip''] else []) @ [''cancel'']) @ '' at any point.''"

lemma concat_pairs_of [simp]: "concat (pairs_of xs) = xs"
  by (induction xs rule: pairs_of.induct) auto

lemma secret_options_never_shown: "is_secret step \<Longrightarrow> rows (keyboard_for step b) = [control_row step b]"
  by (simp add: keyboard_for_def Let_def)

lemma every_prompt_can_cancel: "CANCEL_LABEL \<in> set (last (rows (keyboard_for step b)))"
  by (simp add: keyboard_for_def control_row_def Let_def)

lemma buttons_are_control_words:
  "resolve_control BACK_LABEL None = Some CONTROL_BACK" "resolve_control SKIP_LABEL None = Some CONTROL_SKIP"
  "resolve_control CANCEL_LABEL None = Some CONTROL_CANCEL"
  by code_simp+

subsection \<open>Going back forgets the abandoned branch\<close>

definition pos :: "pydict \<Rightarrow> nat" where
  "pos step = (case position step of Inr p \<Rightarrow> nat p | Inl _ \<Rightarrow> 0)"

definition placed :: "pydict \<Rightarrow> bool" where
  "placed step = (case position step of Inr p \<Rightarrow> 1 \<le> p | Inl _ \<Rightarrow> False)"

definition value_of :: "string list \<Rightarrow> pydict \<Rightarrow> string" where
  "value_of args step = (if pos step \<le> length args then strip (args ! (pos step - 1)) else [])"

text \<open>
  A command whose steps can be walked in order: every step has a place of its own and a name of its
  own, and a branch condition reads a step that comes before.
\<close>

fun branches_back :: "string list \<Rightarrow> pydict list \<Rightarrow> bool" where
  "branches_back names [] = True"
| "branches_back names (step # rest) =
     ((case controlling step of None \<Rightarrow> True | Some n \<Rightarrow> n \<in> set names) \<and> branches_back (step_name step # names) rest)"

definition wf_workflow :: "pydict list \<Rightarrow> bool" where
  "wf_workflow steps =
     (list_all placed steps \<and> distinct (map pos steps) \<and> distinct (map step_name steps) \<and>
      list_all (\<lambda>s. step_name s \<noteq> []) steps \<and> branches_back [] steps)"

lemma placed_pos: "placed step \<Longrightarrow> position step = Inr (int (pos step)) \<and> 1 \<le> pos step"
  by (auto simp: placed_def pos_def split: sum.splits)

lemma arg_at_value: "placed step \<Longrightarrow> arg_at args (int (pos step)) = Inr (value_of args step)"
  using placed_pos [of step]
  by (auto simp: arg_at_def value_of_def py_index_def Let_def nat_diff_distrib)

lemma answers_from_total:
  assumes "list_all placed steps" "list_all (\<lambda>s. step_name s \<noteq> []) steps"
  shows "answers_from acc steps args = Inr (update_with acc (map (\<lambda>s. (step_name s, value_of args s)) steps))"
  using assms
  by (induction steps arbitrary: acc) (simp_all add: placed_pos arg_at_value update_with_def)

definition answers_of :: "pydict list \<Rightarrow> string list \<Rightarrow> (string \<times> string) list" where
  "answers_of steps args = dict_of (map (\<lambda>s. (step_name s, value_of args s)) steps)"

lemma answers_by_name_total: "wf_workflow steps \<Longrightarrow> answers_by_name steps args = Inr (answers_of steps args)"
  by (simp add: wf_workflow_def answers_by_name_def answers_of_def dict_of_update_with answers_from_total)

lemma answers_of_step:
  "wf_workflow steps \<Longrightarrow> s \<in> set steps \<Longrightarrow> map_of (answers_of steps args) (step_name s) = Some (value_of args s)"
proof -
  assume wf: "wf_workflow steps" and s: "s \<in> set steps"
  let ?kv = "map (\<lambda>s. (step_name s, value_of args s)) steps"
  have "distinct (map fst (rev ?kv))"
    using wf by (simp add: wf_workflow_def comp_def rev_map [symmetric])
  then show ?thesis
    using s by (simp add: answers_of_def map_of_dict_of)
qed

lemma ask_when_holds_cong:
  assumes "\<And>n. controlling step = Some n \<Longrightarrow> map_of A n = map_of B n"
  shows "ask_when_holds step A = ask_when_holds step B"
  using assms by (auto simp: ask_when_holds_def split: option.splits)

definition clear_spec :: "pydict list \<Rightarrow> string list \<Rightarrow> pydict \<Rightarrow> string list" where
  "clear_spec steps c step =
     (if pos step \<le> length c \<and> \<not> ask_when_holds step (answers_of steps c) then c[pos step - 1 := []] else c)"

lemma clear_step_total: "wf_workflow steps \<Longrightarrow> placed step \<Longrightarrow> clear_step steps c step = Inr (clear_spec steps c step)"
  using placed_pos [of step]
  by (auto simp: clear_step_def clear_spec_def answers_by_name_total py_index_def Let_def nat_diff_distrib)

lemma length_clear_spec [simp]: "length (clear_spec steps c step) = length c"
  by (simp add: clear_spec_def)

lemma value_of_clear_other:
  "placed s \<Longrightarrow> placed t \<Longrightarrow> pos s \<noteq> pos t \<Longrightarrow> value_of (clear_spec steps c t) s = value_of c s"
  using placed_pos [of s] placed_pos [of t] by (auto simp: value_of_def clear_spec_def nth_list_update)

lemma value_of_clear_same:
  "placed s \<Longrightarrow> value_of (clear_spec steps c s) s =
     (if ask_when_holds s (answers_of steps c) then value_of c s else [])"
  using placed_pos [of s] by (auto simp: value_of_def clear_spec_def)

lemma branches_back_split:
  "branches_back names (before @ s # rest) \<Longrightarrow> controlling s = Some n \<Longrightarrow> n \<in> set names \<union> step_name ` set before"
  by (induction names before rule: branches_back.induct) auto

text \<open>The condition of a step is settled by the steps before it.\<close>

lemma holds_settled:
  assumes wf: "wf_workflow steps" and steps: "steps = before @ s # rest"
    and same: "\<And>t. t \<in> set before \<Longrightarrow> value_of c t = value_of c' t"
  shows "ask_when_holds s (answers_of steps c) = ask_when_holds s (answers_of steps c')"
proof (rule ask_when_holds_cong)
  fix n
  assume "controlling s = Some n"
  then obtain t where t: "t \<in> set before" "n = step_name t"
    using branches_back_split [of "[]" before s rest n] wf steps by (auto simp: wf_workflow_def)
  then have "t \<in> set steps" by (simp add: steps)
  from answers_of_step [OF wf this] same [OF t(1)] t(2)
  show "map_of (answers_of steps c) n = map_of (answers_of steps c') n" by simp
qed

lemma wf_workflow_step: "wf_workflow steps \<Longrightarrow> s \<in> set steps \<Longrightarrow> placed s"
  by (simp add: wf_workflow_def list_all_iff)

lemma wf_workflow_pos:
  "wf_workflow (before @ s # rest) \<Longrightarrow> t \<in> set before \<union> set rest \<Longrightarrow> pos t \<noteq> pos s"
  unfolding wf_workflow_def by (auto simp: image_iff)

lemma clear_steps_spec:
  assumes wf: "wf_workflow steps" and steps: "steps = before @ rest" and len: "length c = length args"
    and cleared: "\<And>s. s \<in> set before \<Longrightarrow> value_of c s = (if ask_when_holds s (answers_of steps c) then value_of args s else [])"
    and kept: "\<And>s. s \<in> set rest \<Longrightarrow> value_of c s = value_of args s"
  shows "\<exists>c'. clear_steps steps c rest = Inr c' \<and> length c' = length args \<and>
    (\<forall>s\<in>set steps. value_of c' s = (if ask_when_holds s (answers_of steps c') then value_of args s else []))"
  using steps len cleared kept
proof (induction rest arbitrary: before c)
  case (Cons s rest)
  define c1 where "c1 = clear_spec steps c s"
  have s: "placed s" and all: "\<And>t. t \<in> set steps \<Longrightarrow> placed t"
    using wf_workflow_step [OF wf] Cons.prems(1) by auto
  have apart: "pos t \<noteq> pos s" if "t \<in> set before \<union> set rest" for t
    using wf_workflow_pos [of before s rest] wf Cons.prems(1) that by simp
  have other: "value_of c1 t = value_of c t" if "t \<in> set before \<union> set rest" for t
    unfolding c1_def using value_of_clear_other [OF all s apart [OF that]] that Cons.prems(1) by auto
  have holds: "ask_when_holds t (answers_of steps c1) = ask_when_holds t (answers_of steps c)"
    if t: "t \<in> set (before @ [s])" for t
  proof -
    obtain pre post where sp: "before @ [s] = pre @ t # post"
      using t by (meson split_list)
    then have "steps = pre @ t # post @ rest" "set pre \<subseteq> set before"
      using Cons.prems(1) by (simp, cases post rule: rev_cases, auto)
    then show ?thesis
      using holds_settled [OF wf, of pre t "post @ rest" c1 c] other by blast
  qed
  have "\<exists>c'. clear_steps steps c1 rest = Inr c' \<and> length c' = length args \<and>
      (\<forall>s\<in>set steps. value_of c' s = (if ask_when_holds s (answers_of steps c') then value_of args s else []))"
  proof (rule Cons.IH)
    show "steps = (before @ [s]) @ rest" "length c1 = length args"
      using Cons.prems(1,2) by (simp_all add: c1_def)
    show "value_of c1 t = (if ask_when_holds t (answers_of steps c1) then value_of args t else [])"
      if "t \<in> set (before @ [s])" for t
    proof (cases "t = s")
      case True
      then show ?thesis
        using holds [OF that] value_of_clear_same [OF s, of steps c] Cons.prems(4) [of s] by (simp add: c1_def)
    next
      case False
      then have "t \<in> set before" using that by simp
      then show ?thesis
        using holds [OF that] other [of t] Cons.prems(3) [of t] by simp
    qed
    show "value_of c1 t = value_of args t" if "t \<in> set rest" for t
      using other [of t] Cons.prems(4) [of t] that by simp
  qed
  then show ?case
    by (simp add: clear_step_total [OF wf s] c1_def)
qed simp

text \<open>Going back never hands an abandoned answer on. For a command whose branch conditions read
  earlier steps, clearing the answers always answers, keeps the number of arguments, and leaves each
  step with exactly its own answer when the branch now chosen reaches it, and with nothing when it
  does not - judged on the answers that remain, so that an answer that only an abandoned branch
  reached is gone together with everything that depended on it.
\<close>
theorem abandoned_answers_are_forgotten:
  assumes "wf_workflow steps"
  shows "\<exists>cleared answers. clear_unreachable_answers steps args = Inr cleared \<and> length cleared = length args \<and>
           answers_by_name steps cleared = Inr answers \<and>
           (\<forall>step\<in>set steps. value_of cleared step = (if ask_when_holds step answers then value_of args step else []))"
  using clear_steps_spec [OF assms, of "[]" steps args args] answers_by_name_total [OF assms]
  by (auto simp: clear_unreachable_answers_def)

definition ssh_steps :: "pydict list" where
  "ssh_steps =
     [[(''name'', PStr ''auth''), (''position'', PInt 1)],
      [(''name'', PStr ''secret''), (''position'', PInt 2),
       (''ask_when'', PDict [(''parameter'', PStr ''auth''), (''equals'', PStr ''password'')])]]"

theorem abandoned_answers_are_forgotten_witness:
  "wf_workflow ssh_steps \<and>
   (\<exists>cleared. clear_unreachable_answers ssh_steps [''key_file'', ''hunter2''] = Inr cleared \<and> length cleared = 2)"
proof -
  have "wf_workflow ssh_steps"
    by code_simp
  with abandoned_answers_are_forgotten [OF this, of "[''key_file'', ''hunter2'']"] show ?thesis
    by auto
qed


end
