(* ===== verification/Confirm.thy ===== *)
theory Confirm
  imports Coerce
begin

section \<open>Asking a human before what cannot be undone\<close>

text \<open>
  Models \<^verbatim>\<open>dbabrain/lib/confirmation_ladder.py\<close> (how hard an operation is to confirm) and
  \<^verbatim>\<open>dbabrain/common/confirm.py\<close> (the gate every dangerous operation passes). The ladder the package
  ships is a file, the argument \<open>ladder\<close>; the terminal is the list of the lines a person types, each
  question taking the next one, and the empty text when nobody answers before the deadline. A
  ladder document is an object whose \<^verbatim>\<open>operations\<close> and \<^verbatim>\<open>levels\<close> are objects. A gate's sentence is a
  datatype that carries the values it prints; the banner is not modelled.
\<close>

subsection \<open>confirmation_ladder.py\<close>

datatype confirm_error =
    Rules_not_object pyval
  | Confirmations_not_number pyval
  | Confirmations_negative int
  | Level_not_number pyval
  | Ladder_missing
  | Operation_unnamed
  | Prompt_missing
  | Answer_not_a_choice pyval
  | Tries_not_number pyval

record op_rules =
  level :: int
  confirmations :: int
  challenge :: string
  effects :: "string list"

definition STRICTEST :: op_rules where
  "STRICTEST = \<lparr> level = 100, confirmations = 2, challenge = ''target_id'', effects = [] \<rparr>"

definition text_list :: "pyval \<Rightarrow> string list" where
  "text_list v = map py_str (as_list v)"

definition number :: "(pyval \<Rightarrow> confirm_error) \<Rightarrow> pyval \<Rightarrow> confirm_error + int" where
  "number err v = (case py_int v of None \<Rightarrow> Inl (err v) | Some i \<Rightarrow> Inr i)"

definition operation_rules :: "pyval \<Rightarrow> string \<Rightarrow> confirm_error + op_rules" where
  "operation_rules document operation =
     (case document of
        PDict doc \<Rightarrow>
          (case get (as_dict (get doc ''operations'')) operation of
             PDict entry \<Rightarrow>
               (let lv = get_or entry ''level'' (PInt 100) in
                case get (as_dict (get doc ''levels'')) (py_str lv) of
                  PDict rules \<Rightarrow>
                    rbind (number Level_not_number lv) (\<lambda>l.
                    rbind (number Confirmations_not_number (get_or rules ''confirmations'' (PInt 2))) (\<lambda>c.
                      Inr \<lparr> level = l, confirmations = c, challenge = str_or (get rules ''challenge''),
                            effects = text_list (get entry ''effects'') \<rparr>))
                | _ \<Rightarrow> Inr STRICTEST)
           | _ \<Rightarrow> Inr STRICTEST)
      | _ \<Rightarrow> Inr STRICTEST)"

definition rules_from_request :: "pyval \<Rightarrow> confirm_error + op_rules option" where
  "rules_from_request raw =
     (case raw of
        PNone \<Rightarrow> Inr None
      | PDict d \<Rightarrow>
          if d = [] then Inr None
          else rbind (number Confirmations_not_number (get_or d ''confirmations'' (PInt 2))) (\<lambda>c.
               if c < 0 then Inl (Confirmations_negative c)
               else rbind (number Level_not_number (get_or d ''level'' (PInt 100))) (\<lambda>l.
                 Inr (Some \<lparr> level = l, confirmations = c, challenge = str_or (get d ''challenge''),
                             effects = text_list (get d ''effects'') \<rparr>)))
      | v \<Rightarrow> Inl (Rules_not_object v))"

subsection \<open>The cost of an operation\<close>

datatype ladder_file = Ladder_absent | Ladder_unreadable | Ladder pyval

fun load_operation :: "ladder_file \<Rightarrow> string \<Rightarrow> confirm_error + op_rules" where
  "load_operation Ladder_absent operation = Inl Ladder_missing"
| "load_operation Ladder_unreadable operation = Inr STRICTEST"
| "load_operation (Ladder document) operation = operation_rules document operation"

definition fromkeys :: "string list \<Rightarrow> string list" where
  "fromkeys xs = rev (remdups (rev xs))"

definition harder :: "op_rules \<Rightarrow> op_rules \<Rightarrow> op_rules" where
  "harder shipped stated =
     \<lparr> level = max (level stated) (level shipped),
       confirmations = max (confirmations stated) (confirmations shipped),
       challenge = (if challenge shipped \<noteq> [] then challenge shipped else challenge stated),
       effects = fromkeys (effects shipped @ effects stated) \<rparr>"

definition rules_for :: "ladder_file \<Rightarrow> pydict \<Rightarrow> string \<Rightarrow> confirm_error + op_rules" where
  "rules_for ladder request operation =
     rbind (rules_from_request (get request ''rules'')) (\<lambda>stated.
     rbind (load_operation ladder operation) (\<lambda>shipped.
       Inr (case stated of None \<Rightarrow> shipped | Some s \<Rightarrow> harder shipped s)))"

subsection \<open>The gate\<close>

datatype answer_source = Prompt | Request

datatype gate_detail =
    No_intent
  | Assumed_yes
  | No_terminal nat nat string
  | No_answer nat nat string
  | Wrong_answer nat nat string string string
  | Confirmed string nat "answer_source list" string

record gate =
  gate_name :: string
  gate_ok :: bool
  detail :: gate_detail

record authorization =
  authorized :: bool
  auth_by :: "answer_source list"
  auth_at :: string

record gate_report =
  gates :: "gate list"
  fact :: "authorization option"

definition CONFIRM_WORD :: string where
  "CONFIRM_WORD = ''yes''"

record confirm_step =
  field :: string
  expected :: string

definition confirm_steps :: "int \<Rightarrow> string \<Rightarrow> string \<Rightarrow> confirm_step list" where
  "confirm_steps n chal target =
     [\<lparr> field = ''confirm'', expected = CONFIRM_WORD \<rparr>] @
     (if 2 \<le> n then [\<lparr> field = ''confirm_target'', expected = strip (if chal \<noteq> [] then chal else target) \<rparr>] else [])"

text \<open>A bare boolean is intent, not an answer; only text can have been typed.\<close>

definition supplied :: "pydict \<Rightarrow> string \<Rightarrow> string" where
  "supplied request name = (case get request name of PStr s \<Rightarrow> strip s | _ \<Rightarrow> [])"

fun ask :: "string list \<Rightarrow> string \<times> string list" where
  "ask [] = ([], [])"
| "ask (line # lines) = (strip line, lines)"

fun walk_steps ::
  "pydict \<Rightarrow> bool \<Rightarrow> nat \<Rightarrow> nat \<Rightarrow> answer_source list \<Rightarrow> string list \<Rightarrow> confirm_step list \<Rightarrow>
     (gate_detail + answer_source list) \<times> string list" where
  "walk_steps request interactive total_steps index sources lines [] = (Inr sources, lines)"
| "walk_steps request interactive total_steps index sources lines (step # steps) =
     (let given = supplied request (field step) in
      if given = [] \<and> \<not> interactive then (Inl (No_terminal index total_steps (field step)), lines)
      else let (answer, lines', source) =
                 (if given = [] then (case ask lines of (a, l) \<Rightarrow> (a, l, Prompt)) else (given, lines, Request)) in
           if source = Prompt \<and> answer = [] then (Inl (No_answer index total_steps (field step)), lines')
           else if lower answer \<noteq> lower (expected step)
           then (Inl (Wrong_answer index total_steps (field step) (expected step) answer), lines')
           else walk_steps request interactive total_steps (Suc index) (sources @ [source]) lines' steps)"

definition add_gate :: "string \<Rightarrow> bool \<Rightarrow> gate_detail \<Rightarrow> authorization \<Rightarrow> gate_report \<Rightarrow> gate_report" where
  "add_gate name good d a r =
     r\<lparr> gates := gates r @ [\<lparr> gate_name = name, gate_ok = good, detail = d \<rparr>], fact := Some a \<rparr>"

definition channel_of :: "pydict \<Rightarrow> string" where
  "channel_of request = (case get request ''authorized_by'' of PDict d \<Rightarrow> strip (str_or (get d ''channel'')) | _ \<Rightarrow> [])"

definition require_confirmation ::
  "string \<Rightarrow> bool \<Rightarrow> string list \<Rightarrow> gate_report \<Rightarrow> pydict \<Rightarrow> string \<Rightarrow> int \<Rightarrow> string \<Rightarrow> string \<Rightarrow>
     bool \<times> gate_report \<times> string list" where
  "require_confirmation decided_at interactive lines report request target n chal name =
     (if \<not> truthy (get request ''confirm'') then
        (False, add_gate name False No_intent \<lparr> authorized = False, auth_by = [], auth_at = decided_at \<rparr> report, lines)
      else if truthy (get request ''assume_yes'') then
        (True, add_gate name True Assumed_yes \<lparr> authorized = True, auth_by = [], auth_at = decided_at \<rparr> report, lines)
      else let steps = confirm_steps n chal target in
           case walk_steps request interactive (length steps) 1 [] lines steps of
             (Inl d, lines') \<Rightarrow>
               (False, add_gate name False d \<lparr> authorized = False, auth_by = [], auth_at = decided_at \<rparr> report, lines')
           | (Inr sources, lines') \<Rightarrow>
               (True, add_gate name True (Confirmed decided_at (length steps) sources (channel_of request))
                        \<lparr> authorized = True, auth_by = sources, auth_at = decided_at \<rparr> report, lines'))"

definition authorize_operation ::
  "ladder_file \<Rightarrow> string \<Rightarrow> bool \<Rightarrow> string list \<Rightarrow> gate_report \<Rightarrow> pydict \<Rightarrow> string \<Rightarrow> string \<Rightarrow> string \<Rightarrow>
     confirm_error + bool \<times> gate_report \<times> string list" where
  "authorize_operation ladder decided_at interactive lines report request operation target_id target_label =
     rbind (rules_for ladder request operation) (\<lambda>rules.
       Inr (require_confirmation decided_at interactive lines report request target_label (confirmations rules)
              target_id ''confirm''))"

definition authorize_request ::
  "ladder_file \<Rightarrow> string \<Rightarrow> bool \<Rightarrow> string list \<Rightarrow> pydict \<Rightarrow> confirm_error + gate_report" where
  "authorize_request ladder decided_at interactive lines request =
     (let operation = strip (str_or (get request ''operation''));
          target_id = strip (str_or (get request ''target_id''));
          named = strip (str_or (get request ''target_label''));
          label = (if named \<noteq> [] then named else if target_id \<noteq> [] then target_id else operation) in
      if operation = [] then Inl Operation_unnamed
      else rbind (authorize_operation ladder decided_at interactive lines \<lparr> gates = [], fact = None \<rparr> request
                    operation target_id label) (\<lambda>(_, report, _). Inr report))"

subsection \<open>A question of its own\<close>

record asked =
  asked_interactive :: bool
  asked_answer :: string
  asked_source :: string

definition accepted :: "string list \<Rightarrow> string \<Rightarrow> string option" where
  "accepted choices reply =
     (let answer = strip reply in
      if choices = [] then Some answer
      else if lower answer \<in> set choices then Some (lower answer) else None)"

fun ask_tries :: "string list \<Rightarrow> nat \<Rightarrow> string list \<Rightarrow> string" where
  "ask_tries choices 0 lines = []"
| "ask_tries choices (Suc n) lines =
     (case ask lines of (typed, lines') \<Rightarrow>
        if typed = [] then []
        else case accepted choices typed of Some a \<Rightarrow> a | None \<Rightarrow> ask_tries choices n lines')"

definition ask_request :: "bool \<Rightarrow> string list \<Rightarrow> pydict \<Rightarrow> confirm_error + asked" where
  "ask_request interactive lines request =
     (let choices = filter (\<lambda>s. s \<noteq> []) (map (\<lambda>v. lower (strip (py_str v))) (as_list (get request ''choices''))) in
      if strip (str_or (get request ''prompt'')) = [] then Inl Prompt_missing
      else rbind (number Tries_not_number (let t = get request ''tries'' in if truthy t then t else PInt 1)) (\<lambda>tries.
        if has_key request ''answer'' then
          (case accepted choices (str_or (get request ''answer'')) of
             None \<Rightarrow> Inl (Answer_not_a_choice (get request ''answer''))
           | Some a \<Rightarrow> Inr \<lparr> asked_interactive = False, asked_answer = a, asked_source = ''request'' \<rparr>)
        else if \<not> interactive then
          Inr \<lparr> asked_interactive = False, asked_answer = [], asked_source = ''none'' \<rparr>
        else Inr \<lparr> asked_interactive = True, asked_answer = ask_tries choices (nat (max 1 tries)) lines,
                   asked_source = ''terminal'' \<rparr>))"

subsection \<open>What an authorization proves\<close>

lemma walk_steps_answers:
  assumes "walk_steps request interactive m i sources lines steps = (Inr out, lines')"
  shows "list_all (\<lambda>step. lower (supplied request (field step)) = lower (expected step) \<or>
           supplied request (field step) = [] \<and> interactive \<and>
             (\<exists>line\<in>set lines. lower (strip line) = lower (expected step))) steps \<and>
         length out = length sources + length steps"
  using assms
proof (induction request interactive m i sources lines steps rule: walk_steps.induct)
  case (2 request interactive m i sources lines step steps)
  show ?case
  proof (cases "supplied request (field step) = []")
    case False
    then show ?thesis
      using 2 by (auto simp: Let_def split: if_splits)
  next
    case True
    then obtain a l where al: "ask lines = (a, l)" "interactive" "a \<noteq> []" "lower a = lower (expected step)"
      "walk_steps request interactive m (Suc i) (sources @ [Prompt]) l steps = (Inr out, lines')"
      using 2(2) by (auto simp: Let_def split: if_splits prod.splits)
    then obtain line where "lines = line # l" "a = strip line"
      by (cases lines) auto
    with al True 2(1) [OF refl, of "(a, l, Prompt)" a "(l, Prompt)" l Prompt] show ?thesis
      by (auto simp: list_all_iff)
  qed
qed simp

definition answered :: "pydict \<Rightarrow> bool \<Rightarrow> string list \<Rightarrow> string \<Rightarrow> string \<Rightarrow> bool" where
  "answered request interactive lines name want =
     (lower (supplied request name) = lower want \<or>
      supplied request name = [] \<and> interactive \<and> list_ex (\<lambda>line. lower (strip line) = lower want) lines)"

lemma require_confirmation_gate:
  assumes "require_confirmation decided_at interactive lines report request target n chal name = (good, report', lines')"
  shows "\<exists>d. gates report' = gates report @ [\<lparr> gate_name = name, gate_ok = good, detail = d \<rparr>] \<and>
             map_option authorized (fact report') = Some good"
  using assms
  by (auto simp: require_confirmation_def add_gate_def Let_def split: if_splits prod.splits sum.splits)

lemma require_confirmation_answers:
  assumes "require_confirmation decided_at interactive lines report request target n chal name = (True, report', lines')"
    and "\<not> truthy (get request ''assume_yes'')"
  shows "truthy (get request ''confirm'') \<and> answered request interactive lines ''confirm'' CONFIRM_WORD \<and>
         (2 \<le> n \<longrightarrow> answered request interactive lines ''confirm_target'' (strip (if chal \<noteq> [] then chal else target)))"
proof -
  let ?steps = "confirm_steps n chal target"
  have intent: "truthy (get request ''confirm'')"
    using assms(1) by (auto simp: require_confirmation_def split: if_splits)
  then obtain out l where "walk_steps request interactive (length ?steps) 1 [] lines ?steps = (Inr out, l)"
    using assms by (auto simp: require_confirmation_def Let_def split: prod.splits sum.splits)
  from walk_steps_answers [OF this] intent show ?thesis
    by (auto simp: confirm_steps_def answered_def list_ex_iff split: if_splits)
qed

lemma rules_for_harder:
  assumes "rules_for ladder request operation = Inr rules" and "load_operation ladder operation = Inr shipped"
  shows "level shipped \<le> level rules \<and> confirmations shipped \<le> confirmations rules \<and>
         set (effects shipped) \<subseteq> set (effects rules) \<and> (challenge shipped \<noteq> [] \<longrightarrow> challenge rules = challenge shipped)"
  using assms by (auto simp: rules_for_def rbind_eq_Inr harder_def fromkeys_def split: option.splits)

lemma unpriced_is_strictest:
  "(\<And>e. get (as_dict (get doc ''operations'')) operation \<noteq> PDict e) \<Longrightarrow> operation_rules (PDict doc) operation = Inr STRICTEST"
  by (auto simp: operation_rules_def split: pyval.splits)


definition restart_request :: pydict where
  "restart_request = [(''confirm'', PStr ''YES''), (''confirm_target'', PStr ''db1''),
     (''rules'', PDict [(''confirmations'', PInt 0)])]"


lemma ask_tries_is_a_choice: "choices \<noteq> [] \<Longrightarrow> ask_tries choices n lines \<in> insert [] (set choices)"
  by (induction choices n lines rule: ask_tries.induct) (auto simp: accepted_def Let_def split: prod.splits option.splits)


end
