(* ===== verification/Access.thy ===== *)
theory Access
  imports Coerce
begin

section \<open>How to reach a host and a database\<close>

text \<open>
  Models \<^verbatim>\<open>dbabrain/lib/cmd_access.py\<close> (the \<^verbatim>\<open>cmd_access\<close> block of a host, its platform, and the OS
  credential it names) and \<^verbatim>\<open>dbabrain/lib/sql_access.py\<close> (the \<^verbatim>\<open>sql_access\<close> block of a target and the
  spelling of engines). The inventory item, the blocks and the credential groups are the objects of
  the configuration; file names are those of a POSIX node.
\<close>

datatype access_error =
    Unsupported_platform string
  | Cmd_access_not_object
  | Unsupported_method string
  | Port_not_number pyval
  | Credential_required string
  | Credential_not_found string
  | Sql_access_not_object
  | Sql_method_unsupported string
  | Bridge_url_required

definition text_of :: "pydict \<Rightarrow> string \<Rightarrow> string" where
  "text_of d k = strip (str_or (get d k))"

definition word_of :: "pydict \<Rightarrow> string \<Rightarrow> string" where
  "word_of d k = lower (text_of d k)"

subsection \<open>cmd_access.py\<close>

definition SUPPORTED_PLATFORMS :: "string list" where
  "SUPPORTED_PLATFORMS = [''windows'', ''linux'']"

definition SUPPORTED_CMD_ACCESS_METHODS :: "string list" where
  "SUPPORTED_CMD_ACCESS_METHODS = [''local'', ''ssh'', ''winrm'']"

definition is_key_name :: "string \<Rightarrow> bool" where
  "is_key_name key_file =
     (let t = strip key_file in t \<noteq> [] \<and> CHR ''/'' \<notin> set t \<and> t \<noteq> ''.'')"

definition infer_platform_from_os :: "string \<Rightarrow> string" where
  "infer_platform_from_os os_text =
     (let n = lower (strip os_text) in
      if startswith n ''windows'' then ''windows'' else if startswith n ''linux'' then ''linux'' else [])"

definition resolve_platform :: "pydict \<Rightarrow> access_error + string" where
  "resolve_platform item =
     (let stated = word_of item ''platform'';
          platform = (if stated = [] then infer_platform_from_os (str_or (get item ''os'')) else stated) in
      if platform \<noteq> [] \<and> platform \<notin> set SUPPORTED_PLATFORMS then Inl (Unsupported_platform platform) else Inr platform)"

definition port_or :: "pydict \<Rightarrow> int \<Rightarrow> access_error + int" where
  "port_or raw dflt =
     (let v = get raw ''port'' in
      if \<not> truthy v then Inr dflt else case py_int v of None \<Rightarrow> Inl (Port_not_number v) | Some p \<Rightarrow> Inr p)"

definition enabled_flag :: "pydict \<Rightarrow> bool" where
  "enabled_flag raw = truthy (get_or raw ''enabled'' (PBool True))"

definition base_block :: "pydict \<Rightarrow> string \<Rightarrow> string \<Rightarrow> pydict" where
  "base_block raw platform host =
     upd ''platform'' (PStr platform)
     (upd ''shell'' (PStr (word_of raw ''shell''))
     (upd ''host'' (PStr (strip (if truthy (get raw ''host'') then py_str (get raw ''host'') else host)))
     (upd ''method'' (PStr (word_of raw ''method''))
     (upd ''enabled'' (PBool (enabled_flag raw)) (dict_of raw)))))"

definition auth_type_of :: "pydict \<Rightarrow> string" where
  "auth_type_of raw = lower (strip (let v = get raw ''auth_type'' in if truthy v then py_str v else ''key''))"

definition resolve_cmd_access :: "pydict \<Rightarrow> string \<Rightarrow> string \<Rightarrow> access_error + pydict" where
  "resolve_cmd_access item platform host =
     (let v = get item ''cmd_access'' in
      if is_absent v then Inr []
      else case v of
             PDict raw \<Rightarrow>
               let meth = word_of raw ''method''; resolved = base_block raw platform host in
               if enabled_flag raw \<and> meth \<notin> set SUPPORTED_CMD_ACCESS_METHODS then Inl (Unsupported_method meth)
               else if meth = ''winrm'' then
                 rbind (port_or raw 5985) (\<lambda>p.
                   Inr (upd ''ssl'' (PBool (as_bool (get raw ''ssl'') False)) (upd ''port'' (PInt p) resolved)))
               else if meth = ''ssh'' then
                 rbind (port_or raw 22) (\<lambda>p.
                   let r = upd ''auth_type'' (PStr (auth_type_of raw)) (upd ''port'' (PInt p) resolved);
                       key = text_of raw ''key_file'' in
                   Inr (if key = [] then r else upd ''key_file'' (PStr key) r))
               else Inr resolved
           | _ \<Rightarrow> Inl Cmd_access_not_object)"

definition inline_login :: "pydict \<Rightarrow> bool" where
  "inline_login block =
     (text_of block ''username'' \<noteq> [] \<and> (truthy (get block ''password'') \<or> truthy (get block ''password_ref'')))"

definition inline_credential :: "pydict \<Rightarrow> pydict" where
  "inline_credential block =
     (let user = text_of block ''username'' in
      [(''credential_name'', PStr (''inline:'' @ user)), (''username'', PStr user)] @
      List.map_filter (\<lambda>k. if truthy (get block k) then Some (k, get block k) else None)
        [''password'', ''password_ref'', ''passphrase''])"

definition group_serves :: "pydict \<Rightarrow> pydict \<Rightarrow> bool" where
  "group_serves block g =
     (let host = text_of g ''host'' in host = [] \<or> text_of block ''host'' \<in> {[], host})"

definition named_credentials :: "pydict \<Rightarrow> string \<Rightarrow> pydict list \<Rightarrow> pydict list" where
  "named_credentials block name gs =
     concat (map (\<lambda>g. if group_serves block g
                      then filter (\<lambda>c. str_or (get c ''credential_name'') = name) (map as_dict (as_list (get g ''credentials'')))
                      else []) gs)"

definition resolve_cmd_credential :: "pydict \<Rightarrow> pydict list \<Rightarrow> access_error + pydict option" where
  "resolve_cmd_credential block gs =
     (let meth = lower (str_or (get block ''method'')); name = text_of block ''credential_name'' in
      if block = [] \<or> \<not> enabled_flag block then Inr None
      else if meth = ''local'' then Inr None
      else if name = [] \<and> inline_login block then Inr (Some (inline_credential block))
      else if name = [] then
        (if meth = ''ssh'' \<and> auth_type_of block \<noteq> ''password'' then Inr None else Inl (Credential_required meth))
      else case named_credentials block name gs of [] \<Rightarrow> Inl (Credential_not_found name) | c # _ \<Rightarrow> Inr (Some c))"

subsection \<open>sql_access.py\<close>

definition SUPPORTED_SQL_ACCESS_METHODS :: "string list" where
  "SUPPORTED_SQL_ACCESS_METHODS = [''direct'', ''api'', ''subprocess'']"

definition is_host_only :: "pyval \<Rightarrow> bool" where
  "is_host_only db_type = (lower (strip (str_or db_type)) \<in> {[], ''host''})"

definition sql_method :: "pydict \<Rightarrow> string" where
  "sql_method raw = lower (strip (let v = get raw ''method'' in if truthy v then py_str v else ''direct''))"

definition normalize_sql_access :: "pyval \<Rightarrow> access_error + pydict" where
  "normalize_sql_access v =
     (if is_absent v then Inr [(''method'', PStr ''direct'')]
      else case v of
             PDict raw \<Rightarrow>
               let meth = sql_method raw in
               if meth \<notin> set SUPPORTED_SQL_ACCESS_METHODS then Inl (Sql_method_unsupported meth)
               else if meth = ''api'' \<and> text_of raw ''bridge_url'' = [] then Inl Bridge_url_required
               else Inr (upd ''method'' (PStr meth) (dict_of raw))
           | _ \<Rightarrow> Inl Sql_access_not_object)"

definition SECRET_REF_FIELDS :: "string list" where
  "SECRET_REF_FIELDS = [''secret_ref'', ''connect_ref'']"

definition secret_refs :: "pyval \<Rightarrow> (string \<times> string) list" where
  "secret_refs v =
     (case v of
        PDict raw \<Rightarrow> List.map_filter (\<lambda>f. if text_of raw f = [] then None else Some (f, text_of raw f)) SECRET_REF_FIELDS
      | _ \<Rightarrow> [])"

definition is_legacy :: "pyval \<Rightarrow> bool" where
  "is_legacy v = (case v of PDict raw \<Rightarrow> sql_method raw \<in> {''api'', ''subprocess''} | _ \<Rightarrow> False)"

definition DB_TYPE_ALIASES :: "(string \<times> string) list" where
  "DB_TYPE_ALIASES =
     [(''mssql'', ''sqlserver''), (''sql_server'', ''sqlserver''), (''sqlsvr'', ''sqlserver''),
      (''postgres'', ''postgresql''), (''pgsql'', ''postgresql''), (''pg'', ''postgresql''), (''mariadb'', ''mysql''),
      (''oracle-xe'', ''oracle''), (''oraclexe'', ''oracle'')]"

definition normalize_db_type :: "string \<Rightarrow> string" where
  "normalize_db_type db_type =
     (let v = lower (strip db_type) in case map_of DB_TYPE_ALIASES v of None \<Rightarrow> v | Some e \<Rightarrow> e)"

subsection \<open>An OS login is never guessed\<close>

definition credentials_of :: "pydict \<Rightarrow> pydict list" where
  "credentials_of g = map as_dict (as_list (get g ''credentials''))"

lemma named_credentials_member:
  "c \<in> set (named_credentials block name gs) \<longleftrightarrow>
     (\<exists>g\<in>set gs. group_serves block g \<and> c \<in> set (credentials_of g) \<and> str_or (get c ''credential_name'') = name)"
  by (auto simp: named_credentials_def credentials_of_def)

text \<open>An OS login is never guessed. When the credential of a block is resolved, no credential at all
  means that there is no block, that it is disabled, that the command runs on this machine, or that
  SSH uses the node's own key; a credential is either the login the block itself carries, when it
  names none, or an entry of a group that serves this host and has exactly the name the block asks
  for. Every other block is an error.
\<close>
theorem os_login_is_never_guessed:
  "case resolve_cmd_credential block gs of
     Inr None \<Rightarrow> block = [] \<or> \<not> enabled_flag block \<or> lower (str_or (get block ''method'')) = ''local'' \<or>
       (lower (str_or (get block ''method'')) = ''ssh'' \<and> auth_type_of block \<noteq> ''password'' \<and> text_of block ''credential_name'' = [])
   | Inr (Some c) \<Rightarrow>
       (if text_of block ''credential_name'' = [] then inline_login block \<and> c = inline_credential block
        else \<exists>g\<in>set gs. group_serves block g \<and> c \<in> set (credentials_of g) \<and>
               str_or (get c ''credential_name'') = text_of block ''credential_name'')
   | Inl e \<Rightarrow> block \<noteq> [] \<and> enabled_flag block \<and> lower (str_or (get block ''method'')) \<noteq> ''local''"
proof (cases "named_credentials block (text_of block ''credential_name'') gs")
  case Nil
  then show ?thesis
    by (auto simp: resolve_cmd_credential_def Let_def)
next
  case (Cons c cs)
  then have "c \<in> set (named_credentials block (text_of block ''credential_name'') gs)" by simp
  then show ?thesis
    unfolding named_credentials_member using Cons
    by (auto simp: resolve_cmd_credential_def Let_def)
qed

lemma strip_lower: "strip (lower s) = lower (strip s)"
proof -
  have "is_ws \<circ> lower_char = is_ws" by (simp add: fun_eq_iff)
  then show ?thesis
    by (simp add: strip_def lower_def dropWhile_map rev_map)
qed

lemma alias_targets: "map_of DB_TYPE_ALIASES v = Some e \<Longrightarrow> map_of DB_TYPE_ALIASES e = None \<and> lower (strip e) = e"
proof -
  have "list_all (\<lambda>(k, e). map_of DB_TYPE_ALIASES e = None \<and> lower (strip e) = e) DB_TYPE_ALIASES"
    by code_simp
  moreover assume "map_of DB_TYPE_ALIASES v = Some e"
  ultimately show ?thesis
    by (auto simp: list_all_iff dest!: map_of_SomeD)
qed

lemma normalize_db_type_idem: "normalize_db_type (normalize_db_type s) = normalize_db_type s"
  using alias_targets [of "lower (strip s)"]
  by (cases "map_of DB_TYPE_ALIASES (lower (strip s))") (simp_all add: normalize_db_type_def Let_def strip_lower)

lemma supported_words: "m \<in> set SUPPORTED_SQL_ACCESS_METHODS \<Longrightarrow> lower (strip m) = m \<and> m \<noteq> []"
proof -
  have "list_all (\<lambda>m. lower (strip m) = m \<and> m \<noteq> []) SUPPORTED_SQL_ACCESS_METHODS"
    by code_simp
  then show "m \<in> set SUPPORTED_SQL_ACCESS_METHODS \<Longrightarrow> lower (strip m) = m \<and> m \<noteq> []"
    by (simp add: list_all_iff)
qed

lemma sql_method_upd: "m \<in> set SUPPORTED_SQL_ACCESS_METHODS \<Longrightarrow> sql_method (upd ''method'' (PStr m) d) = m"
  using supported_words [of m] by (simp add: sql_method_def get_def)

text \<open>A normalized block keeps the transport the written one asked for.\<close>

lemma normalized_method:
  assumes "normalize_sql_access v = Inr d"
  shows "sql_method d \<in> set SUPPORTED_SQL_ACCESS_METHODS \<and> (is_legacy (PDict d) \<longleftrightarrow> is_legacy v)"
proof (cases v)
  case (PDict raw)
  then show ?thesis
    using assms sql_method_upd [of "sql_method raw" "dict_of raw"]
    by (auto simp: normalize_sql_access_def is_absent_def eq_text_def Let_def is_legacy_def split: if_splits)
next
  case PNone
  then show ?thesis
    using assms sql_method_upd [of "''direct''" "[]"]
    by (simp add: normalize_sql_access_def is_absent_def is_legacy_def SUPPORTED_SQL_ACCESS_METHODS_def)
next
  case (PStr t)
  then show ?thesis
    using assms sql_method_upd [of "''direct''" "[]"]
    by (auto simp: normalize_sql_access_def is_absent_def eq_text_def is_legacy_def SUPPORTED_SQL_ACCESS_METHODS_def split: if_splits)
qed (use assms in \<open>simp_all add: normalize_sql_access_def is_absent_def eq_text_def\<close>)


definition key_login :: pydict where
  "key_login = [(''enabled'', PBool True), (''method'', PStr ''ssh'')]"

theorem os_login_is_never_guessed_witness:
  "resolve_cmd_credential key_login [] = Inr None \<and> auth_type_of key_login \<noteq> ''password'' \<and>
   text_of key_login ''credential_name'' = []"
proof -
  have "resolve_cmd_credential key_login [] = Inr None" "key_login \<noteq> []" "enabled_flag key_login"
    "lower (str_or (get key_login ''method'')) \<noteq> ''local''" by code_simp+
  with os_login_is_never_guessed [of key_login "[]"] show ?thesis by simp
qed

end
