(* ===== verification/SqlLex.thy ===== *)
theory SqlLex
  imports Coerce "HOL-Library.Sublist"
begin

section \<open>Reading SQL text\<close>

text \<open>
  Models the lexical half of \<^verbatim>\<open>dbabrain/lib/sql_text.py\<close>: the cutting of a script into code, comments and
  quoted text (\<^verbatim>\<open>_code_pieces\<close>), the splitting of a PostgreSQL script into statements, and the
  binding of \<^verbatim>\<open>:name\<close> placeholders. A position in the text is the pair of the text before it, reversed,
  and the text from it on; the loops of the source over an index are recursions on the rest. Letters and
  digits are the ASCII ones.

  What the two cutting loops share is the locale \<open>scanner\<close>: a step that recognises a comment or a quoted
  text takes at least one character and no more than there are. \<open>pg_tokens\<close> is the reference the
  statement splitter is compared with.
\<close>

subsection \<open>Characters\<close>

definition NL :: char where
  "NL = CHR 0x0A"

definition QUOTE :: char where
  "QUOTE = CHR 0x27"

definition DQUOTE :: char where
  "DQUOTE = CHR 0x22"

definition BACKSLASH :: char where
  "BACKSLASH = CHR 0x5C"

definition is_alpha :: "char \<Rightarrow> bool" where
  "is_alpha c = (let n = (of_char (lower_char c) :: nat) in 97 \<le> n \<and> n \<le> 122)"

definition is_alnum :: "char \<Rightarrow> bool" where
  "is_alnum c = (is_alpha c \<or> is_digit c)"

text \<open>\<^verbatim>\<open>[A-Za-z0-9_]\<close> and \<^verbatim>\<open>[A-Za-z0-9_$#]\<close>\<close>

definition is_ident :: "char \<Rightarrow> bool" where
  "is_ident c = (is_alnum c \<or> c = CHR ''_'')"

definition is_name :: "char \<Rightarrow> bool" where
  "is_name c = (is_ident c \<or> c = CHR ''$'' \<or> c = CHR ''#'')"

definition word_before :: "(char \<Rightarrow> bool) \<Rightarrow> string \<Rightarrow> bool" where
  "word_before word prev = (case prev of [] \<Rightarrow> False | c # _ \<Rightarrow> word c)"

subsection \<open>Where a comment or a quoted text ends\<close>

text \<open>The characters up to and with the first \<open>pat\<close>, or all of them.\<close>

fun through :: "string \<Rightarrow> string \<Rightarrow> nat" where
  "through pat [] = 0"
| "through pat (c # cs) = (if startswith (c # cs) pat then length pat else Suc (through pat cs))"

fun quote_len :: "char \<Rightarrow> bool \<Rightarrow> string \<Rightarrow> nat" where
  "quote_len q backslash [] = 0"
| "quote_len q backslash [c] = 1"
| "quote_len q backslash (c # d # cs) =
     (if backslash \<and> c = BACKSLASH then 2 + quote_len q backslash cs
      else if c = q then (if d = q then 2 + quote_len q backslash cs else 1)
      else 1 + quote_len q backslash (d # cs))"

fun block_len :: "nat \<Rightarrow> string \<Rightarrow> nat" where
  "block_len depth [] = 0"
| "block_len depth [c] = (if depth = 0 then 0 else 1)"
| "block_len depth (c # d # cs) =
     (if depth = 0 then 0
      else if c = CHR ''/'' \<and> d = CHR ''*'' then 2 + block_len (depth + 1) cs
      else if c = CHR ''*'' \<and> d = CHR ''/'' then 2 + block_len (depth - 1) cs
      else 1 + block_len depth (d # cs))"

definition line_len :: "string \<Rightarrow> nat" where
  "line_len rest = length (takeWhile (\<lambda>c. c \<noteq> NL) rest)"

text \<open>\<^verbatim>\<open>_DOLLAR_TAG_RE.match\<close> at a dollar sign.\<close>

definition dollar_tag :: "string \<Rightarrow> string option" where
  "dollar_tag rest =
     (let name = takeWhile is_ident (drop 1 rest) in
      if startswith (drop (1 + length name) rest) ''$'' \<and> (name = [] \<or> \<not> is_digit (hd name))
      then Some (''$'' @ name @ ''$'') else None)"

definition dollar_len :: "string \<Rightarrow> nat option" where
  "dollar_len rest =
     map_option (\<lambda>tag. length tag + through tag (drop (length tag) rest)) (dollar_tag rest)"

subsection \<open>Code, comments and quoted text\<close>

datatype piece_kind = CODE | COMMENT | QUOTED

definition Q_QUOTE_CLOSE :: "char \<Rightarrow> char" where
  "Q_QUOTE_CLOSE c =
     (if c = CHR ''['' then CHR '']'' else if c = CHR ''('' then CHR '')''
      else if c = CHR ''{'' then CHR ''}'' else if c = CHR ''<'' then CHR ''>'' else c)"

definition starts_q_quote :: "string \<Rightarrow> string \<Rightarrow> bool" where
  "starts_q_quote prev rest =
     (startswith (lower rest) (''q'' @ [QUOTE]) \<and> 2 < length rest \<and>
      (\<not> word_before is_name prev \<or> (lower (take 1 prev) = ''n'' \<and> \<not> word_before is_name (drop 1 prev))))"

definition escape_string :: "(char \<Rightarrow> bool) \<Rightarrow> string \<Rightarrow> bool" where
  "escape_string word prev = (lower (take 1 prev) = ''e'' \<and> \<not> word_before word (drop 1 prev))"

text \<open>What \<^verbatim>\<open>_code_pieces\<close> takes at a position: a comment or a quoted text and its length, or a character of code.\<close>

definition code_special :: "string \<Rightarrow> string \<Rightarrow> string \<Rightarrow> (piece_kind \<times> nat) option" where
  "code_special engine prev rest =
     (if startswith rest ''--'' then Some (COMMENT, line_len rest)
      else if startswith rest ''/*'' then Some (COMMENT, 2 + through ''*/'' (drop 2 rest))
      else if engine = ''oracle'' \<and> starts_q_quote prev rest
      then Some (QUOTED, 3 + through [Q_QUOTE_CLOSE (rest ! 2), QUOTE] (drop 3 rest))
      else if startswith rest [QUOTE]
      then Some (QUOTED, 1 + quote_len QUOTE (engine = ''postgresql'' \<and> escape_string is_name prev) (drop 1 rest))
      else if startswith rest [DQUOTE] then Some (QUOTED, 1 + quote_len DQUOTE False (drop 1 rest))
      else if engine = ''postgresql'' \<and> startswith rest ''$'' \<and> \<not> word_before is_name prev
      then map_option (\<lambda>n. (QUOTED, n)) (dollar_len rest)
      else None)"

text \<open>The same decision in \<^verbatim>\<open>split_postgresql_statements\<close>: block comments nest, and \<open>#\<close> is no letter of a word.\<close>

definition is_pg_word :: "char \<Rightarrow> bool" where
  "is_pg_word c = (is_ident c \<or> c = CHR ''$'')"

definition pg_special :: "string \<Rightarrow> string \<Rightarrow> (piece_kind \<times> nat) option" where
  "pg_special prev rest =
     (if startswith rest ''--'' then Some (COMMENT, line_len rest)
      else if startswith rest ''/*'' then Some (COMMENT, 2 + block_len 1 (drop 2 rest))
      else if startswith rest [QUOTE] then Some (QUOTED, 1 + quote_len QUOTE (escape_string is_pg_word prev) (drop 1 rest))
      else if startswith rest [DQUOTE] then Some (QUOTED, 1 + quote_len DQUOTE False (drop 1 rest))
      else if startswith rest ''$'' \<and> \<not> word_before is_pg_word prev
      then map_option (\<lambda>n. (QUOTED, n)) (dollar_len rest)
      else None)"

subsection \<open>Scanners\<close>

lemma through_le: "through pat s \<le> length s"
proof (induction s)
  case (Cons c cs)
  have "startswith t p \<Longrightarrow> length p \<le> length t" for t p :: string by (auto simp: startswith_iff)
  with Cons show ?case by force
qed simp

lemma quote_len_le: "quote_len q b s \<le> length s"
  by (induction q b s rule: quote_len.induct) auto

lemma block_len_le: "block_len d s \<le> length s"
  by (induction d s rule: block_len.induct) auto

lemma line_len_le: "line_len s \<le> length s"
  by (simp add: line_len_def length_takeWhile_le)

lemma dollar_tag_prefix: "dollar_tag rest = Some tag \<Longrightarrow> startswith rest ''$'' \<Longrightarrow> startswith rest tag \<and> 2 \<le> length tag"
proof -
  assume tag: "dollar_tag rest = Some tag" and "startswith rest ''$''"
  then obtain cs where rest: "rest = CHR ''$'' # cs" by (auto simp: startswith_iff)
  let ?n = "takeWhile is_ident cs"
  from tag rest have "startswith (drop (length ?n) cs) ''$''" "tag = ''$'' @ ?n @ ''$''"
    by (auto simp: dollar_tag_def Let_def split: if_splits)
  moreover have "drop (length ?n) cs = dropWhile is_ident cs" by (simp add: dropWhile_eq_drop)
  ultimately show ?thesis
    by (auto simp: startswith_iff rest) (metis append_assoc append_Cons append_Nil takeWhile_dropWhile_id)
qed

lemma dollar_len_le: "dollar_len rest = Some n \<Longrightarrow> startswith rest ''$'' \<Longrightarrow> 0 < n \<and> n \<le> length rest"
proof -
  assume "dollar_len rest = Some n" "startswith rest ''$''"
  then obtain tag where tag: "dollar_tag rest = Some tag" "n = length tag + through tag (drop (length tag) rest)"
    by (auto simp: dollar_len_def)
  from dollar_tag_prefix [OF tag(1) \<open>startswith rest ''$''\<close>] through_le [of tag "drop (length tag) rest"] tag(2)
  show ?thesis by (auto simp: startswith_iff)
qed

locale scanner =
  fixes special :: "string \<Rightarrow> string \<Rightarrow> (piece_kind \<times> nat) option"
  assumes takes_some: "special prev rest = Some (k, n) \<Longrightarrow> 0 < n \<and> n \<le> length rest"
begin

lemma takes_less: "special prev rest = Some (k, n) \<Longrightarrow> length (drop n rest) < length rest"
  using takes_some by fastforce

lemma takes_prefix: "special prev rest = Some (k, n) \<Longrightarrow> take n rest @ drop n rest = rest \<and> take n rest \<noteq> []"
  using takes_some by fastforce

end

lemma startswith_length: "startswith s p \<Longrightarrow> length p \<le> length s"
  by (auto simp: startswith_iff)

definition takes_well :: "string \<Rightarrow> nat \<Rightarrow> bool" where
  "takes_well rest n = (0 < n \<and> n \<le> length rest)"

lemma takes_well_intros:
  "startswith rest ''--'' \<Longrightarrow> takes_well rest (line_len rest)"
  "startswith rest ''/*'' \<Longrightarrow> takes_well rest (2 + through pat (drop 2 rest))"
  "startswith rest ''/*'' \<Longrightarrow> takes_well rest (2 + block_len d (drop 2 rest))"
  "2 < length rest \<Longrightarrow> takes_well rest (3 + through pat (drop 3 rest))"
  "startswith rest [q] \<Longrightarrow> takes_well rest (1 + quote_len q' b (drop 1 rest))"
  "startswith rest ''$'' \<Longrightarrow> dollar_len rest = Some n \<Longrightarrow> takes_well rest n"
proof -
  show "startswith rest ''--'' \<Longrightarrow> takes_well rest (line_len rest)"
    using line_len_le by (auto simp: takes_well_def startswith_iff line_len_def NL_def)
  show "startswith rest ''$'' \<Longrightarrow> dollar_len rest = Some n \<Longrightarrow> takes_well rest n"
    using dollar_len_le by (simp add: takes_well_def)
qed (use startswith_length [of rest "''/*''"] startswith_length [of rest "[q]"] through_le [of pat "drop 2 rest"]
    through_le [of pat "drop 3 rest"] block_len_le [of d "drop 2 rest"] quote_len_le [of q' b "drop 1 rest"]
  in \<open>auto simp: takes_well_def\<close>)

lemmas special_cases = option.inject prod.inject map_option_eq_Some option.distinct

interpretation code_scanner: scanner "code_special engine" for engine
proof
  fix prev rest k n
  assume "code_special engine prev rest = Some (k, n)"
  then have "takes_well rest n"
    by (auto simp only: code_special_def starts_q_quote_def special_cases split: if_splits intro!: takes_well_intros)
  then show "0 < n \<and> n \<le> length rest" by (simp add: takes_well_def)
qed

interpretation pg_scanner: scanner pg_special
proof
  fix prev rest k n
  assume "pg_special prev rest = Some (k, n)"
  then have "takes_well rest n"
    by (auto simp only: pg_special_def special_cases split: if_splits intro!: takes_well_intros)
  then show "0 < n \<and> n \<le> length rest" by (simp add: takes_well_def)
qed


subsection \<open>The two loops\<close>

definition flush :: "string \<Rightarrow> (piece_kind \<times> string) list" where
  "flush code = (if code = [] then [] else [(CODE, code)])"

function pieces_loop :: "string \<Rightarrow> string \<Rightarrow> string \<Rightarrow> string \<Rightarrow> (piece_kind \<times> string) list" where
  "pieces_loop engine prev code [] = flush code"
| "pieces_loop engine prev code (c # cs) =
     (case code_special engine prev (c # cs) of
        Some (k, n) \<Rightarrow> flush code @ (k, take n (c # cs)) #
          pieces_loop engine (rev (take n (c # cs)) @ prev) [] (drop n (c # cs))
      | None \<Rightarrow> pieces_loop engine (c # prev) (code @ [c]) cs)"
  by pat_completeness auto
termination
  by (relation "measure (\<lambda>(engine, prev, code, rest). length rest)") (auto dest: code_scanner.takes_less)

definition code_pieces :: "string \<Rightarrow> string \<Rightarrow> (piece_kind \<times> string) list" where
  "code_pieces source db_type = pieces_loop (lower (strip db_type)) [] [] source"

function split_loop :: "string \<Rightarrow> string \<Rightarrow> bool \<Rightarrow> string \<Rightarrow> string list" where
  "split_loop prev buf has_code [] = (if has_code then [strip buf] else [])"
| "split_loop prev buf has_code (c # cs) =
     (case pg_special prev (c # cs) of
        Some (k, n) \<Rightarrow>
          split_loop (rev (take n (c # cs)) @ prev) (buf @ take n (c # cs)) (has_code \<or> k = QUOTED) (drop n (c # cs))
      | None \<Rightarrow>
          if c = CHR '';'' then (if has_code then [strip buf] else []) @ split_loop (c # prev) [] False cs
          else split_loop (c # prev) (buf @ [c]) (has_code \<or> \<not> is_ws c) cs)"
  by pat_completeness auto
termination
  by (relation "measure (\<lambda>(prev, buf, has_code, rest). length rest)") (auto dest: pg_scanner.takes_less)

definition split_postgresql_statements :: "string \<Rightarrow> string list" where
  "split_postgresql_statements source = split_loop [] [] False source"

declare pieces_loop.simps(2) [simp del] split_loop.simps(2) [simp del]

text \<open>The pieces, in order, are the text.\<close>

lemma pieces_loop_text: "concat (map snd (pieces_loop engine prev code rest)) = code @ rest"
proof (induction engine prev code rest rule: pieces_loop.induct)
  case (2 engine prev code c cs)
  then show ?case
    using code_scanner.takes_prefix [of engine prev "c # cs"]
    by (auto simp: pieces_loop.simps(2) flush_def split: option.splits)
qed (simp add: flush_def)

subsection \<open>Statements, by their tokens\<close>

text \<open>
  The reference of the splitter: the tokens of a script - a comment, a quoted text, or one character
  of code - cut at the semicolons that are code; the parts that hold code, without the white space
  around them.
\<close>

function pg_tokens :: "string \<Rightarrow> string \<Rightarrow> (piece_kind \<times> string) list" where
  "pg_tokens prev [] = []"
| "pg_tokens prev (c # cs) =
     (case pg_special prev (c # cs) of
        Some (k, n) \<Rightarrow> (k, take n (c # cs)) # pg_tokens (rev (take n (c # cs)) @ prev) (drop n (c # cs))
      | None \<Rightarrow> (CODE, [c]) # pg_tokens (c # prev) cs)"
  by pat_completeness auto
termination
  by (relation "measure (\<lambda>(prev, rest). length rest)") (auto dest: pg_scanner.takes_less)

declare pg_tokens.simps(2) [simp del]

definition SEMICOLON :: "piece_kind \<times> string" where
  "SEMICOLON = (CODE, '';'')"

fun parts_at :: "'a \<Rightarrow> 'a list \<Rightarrow> 'a list list" where
  "parts_at sep [] = [[]]"
| "parts_at sep (x # xs) =
     (if x = sep then [] # parts_at sep xs
      else (case parts_at sep xs of [] \<Rightarrow> [[x]] | p # ps \<Rightarrow> (x # p) # ps))"

definition is_code :: "piece_kind \<times> string \<Rightarrow> bool" where
  "is_code t = (fst t = QUOTED \<or> (fst t = CODE \<and> \<not> list_all is_ws (snd t)))"

definition token_text :: "(piece_kind \<times> string) list \<Rightarrow> string" where
  "token_text ts = concat (map snd ts)"

definition statements_of :: "(piece_kind \<times> string) list list \<Rightarrow> string list" where
  "statements_of parts = map (strip \<circ> token_text) (filter (list_ex is_code) parts)"

lemma pg_tokens_text: "token_text (pg_tokens prev rest) = rest"
proof (induction prev rest rule: pg_tokens.induct)
  case (2 prev c cs)
  then show ?case
    using pg_scanner.takes_prefix [of prev "c # cs"]
    by (auto simp: pg_tokens.simps(2) token_text_def split: option.splits)
qed (simp add: token_text_def)

lemma parts_at_nonempty [simp]: "parts_at sep xs \<noteq> []"
  by (induction xs) (auto split: list.splits)

definition prepend :: "'a list \<Rightarrow> 'a list list \<Rightarrow> 'a list list" where
  "prepend ys parts = (ys @ hd parts) # tl parts"

lemma parts_at_prepend:
  "sep \<notin> set ys \<Longrightarrow> prepend ys (parts_at sep xs) = parts_at sep (ys @ xs)"
proof (induction ys)
  case Nil
  then show ?case by (simp add: prepend_def)
next
  case (Cons y ys)
  then have "parts_at sep (ys @ xs) = prepend ys (parts_at sep xs)" by simp
  with Cons.prems show ?case by (auto simp: prepend_def)
qed

lemma is_code_kind: "k \<noteq> CODE \<Longrightarrow> is_code (k, s) = (k = QUOTED)"
  by (simp add: is_code_def)

lemma split_loop_parts:
  assumes "SEMICOLON \<notin> set ts" "buf = token_text ts" "has_code = list_ex is_code ts"
  shows "split_loop prev buf has_code rest = statements_of (parts_at SEMICOLON (ts @ pg_tokens prev rest))"
  using assms
proof (induction prev buf has_code rest arbitrary: ts rule: split_loop.induct)
  case (1 prev buf has_code)
  have "parts_at SEMICOLON ts = [ts]"
    using parts_at_prepend [OF "1.prems"(1), of "[]"] by (simp add: prepend_def)
  with 1 show ?case by (simp add: statements_of_def)
next
  case (2 prev buf has_code c cs)
  show ?case
  proof (cases "pg_special prev (c # cs)")
    case (Some kn)
    obtain k n where kn: "kn = (k, n)" by (cases kn)
    have "k \<noteq> CODE" using Some kn by (auto simp: pg_special_def split: if_splits)
    then have "SEMICOLON \<notin> set (ts @ [(k, take n (c # cs))])" "buf @ take n (c # cs) = token_text (ts @ [(k, take n (c # cs))])"
      "(has_code \<or> k = QUOTED) = list_ex is_code (ts @ [(k, take n (c # cs))])"
      using "2.prems" by (auto simp: SEMICOLON_def token_text_def is_code_kind)
    note step = "2.IH"(3) [OF Some kn [symmetric] this]
    have "split_loop prev buf has_code (c # cs) =
        split_loop (rev (take n (c # cs)) @ prev) (buf @ take n (c # cs)) (has_code \<or> k = QUOTED) (drop n (c # cs))"
      using Some kn by (simp add: split_loop.simps(2))
    then have "split_loop prev buf has_code (c # cs) =
        statements_of (parts_at SEMICOLON ((ts @ [(k, take n (c # cs))]) @ pg_tokens (rev (take n (c # cs)) @ prev) (drop n (c # cs))))"
      unfolding step .
    with Some kn show ?thesis by (simp add: pg_tokens.simps(2))
  next
    case None
    show ?thesis
    proof (cases "c = CHR '';''")
      case True
      have "parts_at SEMICOLON (ts @ SEMICOLON # pg_tokens (c # prev) cs) = ts # parts_at SEMICOLON (pg_tokens (c # prev) cs)"
        using parts_at_prepend [OF "2.prems"(1), of "SEMICOLON # pg_tokens (c # prev) cs"] by (simp add: prepend_def)
      with None True 2 "2.IH"(1) [OF None True, of "[]"] show ?thesis
        by (simp add: split_loop.simps(2) pg_tokens.simps(2) SEMICOLON_def [symmetric] statements_of_def token_text_def)
    next
      case False
      with None 2 "2.IH"(2) [OF None False, of "ts @ [(CODE, [c])]"] show ?thesis
        by (simp add: split_loop.simps(2) pg_tokens.simps(2) SEMICOLON_def token_text_def is_code_def)
    qed
  qed
qed



subsection \<open>Named placeholders\<close>

text \<open>\<^verbatim>\<open>_NAMED_BIND_RE\<close> over a piece of code: the text as single characters and \<^verbatim>\<open>:name\<close> placeholders.\<close>

datatype seg = Lit char | Bind string

fun seg_text :: "seg \<Rightarrow> string" where
  "seg_text (Lit c) = [c]"
| "seg_text (Bind name) = '':'' @ name"

function segs :: "string \<Rightarrow> string \<Rightarrow> seg list" where
  "segs prev [] = []"
| "segs prev (c # cs) =
     (let name = takeWhile is_name cs in
      if c = CHR '':'' \<and> \<not> word_before (\<lambda>x. is_name x \<or> x = CHR '':'') prev \<and>
         name \<noteq> [] \<and> (is_alpha (hd name) \<or> hd name = CHR ''_'')
      then Bind name # segs (rev name @ c # prev) (drop (length name) cs)
      else Lit c # segs (c # prev) cs)"
  by pat_completeness auto
termination
  by (relation "measure (\<lambda>(prev, rest). length rest)") auto

declare segs.simps(2) [simp del]

fun bind_name :: "seg \<Rightarrow> string option" where
  "bind_name (Lit c) = None"
| "bind_name (Bind name) = Some (lower name)"

definition chunk_binds :: "piece_kind \<times> string \<Rightarrow> string list" where
  "chunk_binds p = (if fst p = CODE then List.map_filter bind_name (segs [] (snd p)) else [])"

definition named_placeholders :: "string \<Rightarrow> string \<Rightarrow> string set" where
  "named_placeholders source db_type = set (concat (map chunk_binds (code_pieces source db_type)))"

datatype sql_error = Style_not_written string string | Placeholder_clash

definition NAMED_STYLES :: "(string \<times> string) list" where
  "NAMED_STYLES = [(''oracle'', ''numeric''), (''postgresql'', ''format''), (''postgresql'', ''qmark'')]"

text \<open>The closure variables of the rewriting: the values bound so far and, on PostgreSQL, their names.\<close>

record binding =
  bound :: "pyval list"
  numbered :: "string list"

fun index_of :: "'a \<Rightarrow> 'a list \<Rightarrow> nat" where
  "index_of x [] = 0"
| "index_of x (y # ys) = (if x = y then 0 else Suc (index_of x ys))"

fun write_seg :: "string \<Rightarrow> (string \<times> pyval) list \<Rightarrow> seg \<Rightarrow> binding \<Rightarrow> string \<times> binding" where
  "write_seg engine wanted (Lit c) b = ([c], b)"
| "write_seg engine wanted (Bind name) b =
     (case map_of wanted (lower name) of
        None \<Rightarrow> (seg_text (Bind name), b)
      | Some v \<Rightarrow>
          if engine = ''postgresql'' then
            let b' = (if lower name \<in> set (numbered b) then b
                      else b\<lparr>numbered := numbered b @ [lower name], bound := bound b @ [v]\<rparr>) in
            (''$'' @ show_nat (index_of (lower name) (numbered b') + 1), b')
          else (let b' = b\<lparr>bound := bound b @ [v]\<rparr> in ('':'' @ show_nat (length (bound b')), b')))"

fun write_segs :: "string \<Rightarrow> (string \<times> pyval) list \<Rightarrow> seg list \<Rightarrow> binding \<Rightarrow> string \<times> binding" where
  "write_segs engine wanted [] b = ([], b)"
| "write_segs engine wanted (s # ss) b =
     (let (t, b') = write_seg engine wanted s b; (ts, b'') = write_segs engine wanted ss b' in (t @ ts, b''))"

definition double_percent :: "string \<Rightarrow> string" where
  "double_percent s = concat (map (\<lambda>c. if c = CHR ''%'' then ''%%'' else [c]) s)"

fun write_pieces ::
  "string \<Rightarrow> string \<Rightarrow> (string \<times> pyval) list \<Rightarrow> (piece_kind \<times> string) list \<Rightarrow> binding \<Rightarrow> sql_error + (string \<times> binding)" where
  "write_pieces engine style wanted [] b = Inr ([], b)"
| "write_pieces engine style wanted ((k, chunk) # ps) b =
     (if k = QUOTED then rbind (write_pieces engine style wanted ps b) (\<lambda>(t, b'). Inr (chunk @ t, b'))
      else if style = ''qmark'' \<and> CHR ''?'' \<in> set chunk \<and> \<not> startswith chunk ''--'' then Inl Placeholder_clash
      else
        let chunk' = (if style = ''format'' then double_percent chunk else chunk);
            (t, b') = (if k = CODE then write_segs engine wanted (segs [] chunk') b else (chunk', b)) in
        rbind (write_pieces engine style wanted ps b') (\<lambda>(ts, b''). Inr (t @ ts, b'')))"

definition bind_named_values ::
  "string \<Rightarrow> (string \<times> pyval) list \<Rightarrow> string \<Rightarrow> string \<Rightarrow> sql_error + (string \<times> pyval list)" where
  "bind_named_values statement values db_type style =
     (let engine = lower (strip db_type);
          wanted = dict_of (map (\<lambda>(name, v). (lower name, v)) values);
          pieces = code_pieces statement engine in
      if \<not> list_ex (\<lambda>p. list_ex (\<lambda>n. map_of wanted n \<noteq> None) (chunk_binds p)) pieces then Inr (statement, [])
      else if (engine, style) \<notin> set NAMED_STYLES then Inl (Style_not_written engine style)
      else rbind (write_pieces engine style wanted pieces \<lparr>bound = [], numbered = []\<rparr>) (\<lambda>(t, b). Inr (t, bound b)))"

subsection \<open>What binding keeps\<close>

lemma segs_text: "concat (map seg_text (segs prev s)) = s"
proof (induction prev s rule: segs.induct)
  case (2 prev c cs)
  have "takeWhile is_name cs @ drop (length (takeWhile is_name cs)) cs = cs"
    by (metis dropWhile_eq_drop takeWhile_dropWhile_id)
  with 2 show ?case by (auto simp: segs.simps(2) Let_def)
qed simp

text \<open>Two dicts with the same keys: what is written is the same and only the values differ.\<close>

definition same_keys :: "(string \<times> 'v) list \<Rightarrow> (string \<times> 'w) list \<Rightarrow> bool" where
  "same_keys d e = (\<forall>k. (map_of d k = None) = (map_of e k = None))"

definition alike :: "binding \<Rightarrow> binding \<Rightarrow> bool" where
  "alike b b' = (numbered b = numbered b' \<and> length (bound b) = length (bound b'))"

lemma write_seg_alike:
  assumes "same_keys w w'" "alike b b'"
  shows "fst (write_seg engine w s b) = fst (write_seg engine w' s b') \<and>
    alike (snd (write_seg engine w s b)) (snd (write_seg engine w' s b'))"
proof (cases s)
  case (Bind name)
  have "(map_of w (lower name) = None) = (map_of w' (lower name) = None)" using assms(1) by (simp add: same_keys_def)
  with assms(2) Bind show ?thesis by (auto simp: alike_def Let_def split: option.splits)
qed (use assms(2) in simp)

lemma write_segs_alike:
  assumes "same_keys w w'" "alike b b'"
  shows "fst (write_segs engine w ss b) = fst (write_segs engine w' ss b') \<and>
    alike (snd (write_segs engine w ss b)) (snd (write_segs engine w' ss b'))"
  using assms(2)
proof (induction ss arbitrary: b b')
  case (Cons s ss)
  with write_seg_alike [OF assms(1) Cons.prems, of engine s] show ?case
    by (fastforce simp: Let_def split: prod.splits)
qed simp

definition result_alike :: "sql_error + string \<times> binding \<Rightarrow> sql_error + string \<times> binding \<Rightarrow> bool" where
  "result_alike r r' =
     (case (r, r') of (Inl e, Inl e') \<Rightarrow> e = e' | (Inr (t, b), Inr (t', b')) \<Rightarrow> t = t' \<and> alike b b' | _ \<Rightarrow> False)"

lemma result_alike_bind:
  assumes "result_alike r r'"
  shows "result_alike (rbind r (\<lambda>(t, b). Inr (u @ t, b))) (rbind r' (\<lambda>(t, b). Inr (u @ t, b)))"
  using assms by (cases r; cases r') (auto simp: result_alike_def)

lemma write_pieces_alike:
  assumes "same_keys w w'" "alike b b'"
  shows "result_alike (write_pieces engine style w ps b) (write_pieces engine style w' ps b')"
  using assms(2)
proof (induction ps arbitrary: b b')
  case (Cons p ps)
  obtain k chunk where p: "p = (k, chunk)" by (cases p)
  let ?c = "if style = ''format'' then double_percent chunk else chunk"
  let ?t = "if k = CODE then write_segs engine w (segs [] ?c) b else (?c, b)"
  let ?t' = "if k = CODE then write_segs engine w' (segs [] ?c) b' else (?c, b')"
  have "fst ?t = fst ?t'" "alike (snd ?t) (snd ?t')"
    using write_segs_alike [OF assms(1) Cons.prems, of engine "segs [] ?c"] Cons.prems by auto
  with Cons.IH [OF Cons.prems] Cons.IH [of "snd ?t" "snd ?t'"] show ?case
    by (auto simp: p Let_def result_alike_def [of "Inl e" for e] split_beta intro!: result_alike_bind)
qed (simp add: result_alike_def)


lemma dict_of_None:
  fixes f :: "string \<Rightarrow> string"
  shows "map_of (dict_of (map (\<lambda>(n, v). (f n, v)) d)) k = None \<longleftrightarrow> k \<notin> f ` set (map fst d)"
  by (force simp: map_of_dict_of map_of_eq_None_iff image_iff)

lemma same_keys_dict:
  fixes f :: "string \<Rightarrow> string"
  assumes "map fst d = map fst e"
  shows "same_keys (dict_of (map (\<lambda>(n, v). (f n, v)) d)) (dict_of (map (\<lambda>(n, v). (f n, v)) e))"
  unfolding same_keys_def dict_of_None assms by simp

text \<open>A value bound to a placeholder never becomes SQL text: whatever values the same names are given,
  the statement sent to the driver is the same text, or the call is refused the same way.\<close>

theorem bound_values_stay_out_of_the_text:
  assumes "map fst values = map fst values'"
  shows "map_sum id fst (bind_named_values statement values db_type style) =
    map_sum id fst (bind_named_values statement values' db_type style)"
proof -
  let ?w = "dict_of (map (\<lambda>(n, v). (lower n, v)) values)" and ?w' = "dict_of (map (\<lambda>(n, v). (lower n, v)) values')"
  have keys: "same_keys ?w ?w'" by (rule same_keys_dict [OF assms])
  let ?e = "lower (strip db_type)" and ?b = "\<lparr>bound = [], numbered = []\<rparr>"
  have "result_alike (write_pieces ?e style ?w (code_pieces statement ?e) ?b) (write_pieces ?e style ?w' (code_pieces statement ?e) ?b)"
    by (rule write_pieces_alike [OF keys]) (simp add: alike_def)
  then have "map_sum id fst (rbind (write_pieces ?e style ?w (code_pieces statement ?e) ?b) (\<lambda>(t, b). Inr (t, bound b))) =
      map_sum id fst (rbind (write_pieces ?e style ?w' (code_pieces statement ?e) ?b) (\<lambda>(t, b). Inr (t, bound b)))"
    by (auto simp: result_alike_def rbind_def split: sum.splits prod.splits)
  moreover have "(map_of ?w n \<noteq> None) = (map_of ?w' n \<noteq> None)" for n using keys by (simp add: same_keys_def)
  ultimately show ?thesis by (simp add: bind_named_values_def Let_def)
qed

theorem bound_values_stay_out_of_the_text_witness:
  "map_sum id fst (bind_named_values ''= :a'' [(''a'', PStr ''1; DROP TABLE t'')] ''oracle'' ''numeric'') =
   map_sum id fst (bind_named_values ''= :a'' [(''a'', PInt 1)] ''oracle'' ''numeric'') \<and>
   bind_named_values ''= :a'' [(''a'', PInt 1)] ''oracle'' ''numeric'' = Inr (''= :1'', [PInt 1])"
proof
  show "map_sum id fst (bind_named_values ''= :a'' [(''a'', PStr ''1; DROP TABLE t'')] ''oracle'' ''numeric'') =
      map_sum id fst (bind_named_values ''= :a'' [(''a'', PInt 1)] ''oracle'' ''numeric'')"
    by (rule bound_values_stay_out_of_the_text) simp
qed code_simp

subsection \<open>One number per name on PostgreSQL\<close>

lemma segs_prev: "take 1 p = take 1 p' \<Longrightarrow> segs p s = segs p' s"
proof (induction p s arbitrary: p' rule: segs.induct)
  case (2 prev c cs)
  have same: "word_before w prev = word_before w p'" for w
    using "2.prems" by (cases prev; cases p') (simp_all add: word_before_def)
  let ?n = "takeWhile is_name cs"
  have "?n \<noteq> [] \<Longrightarrow> take 1 (rev ?n @ c # prev) = take 1 (rev ?n @ c # p')" by (cases "rev ?n") auto
  then show ?case
    using same "2.IH"(1) [of ?n "rev ?n @ c # p'"] "2.IH"(2) [of ?n "c # p'"] by (auto simp: segs.simps(2) Let_def)
qed simp

lemma double_percent_simps [simp]:
  "double_percent [] = []" "double_percent (c # cs) = (if c = CHR ''%'' then ''%%'' @ double_percent cs else c # double_percent cs)"
  by (simp_all add: double_percent_def)

lemma double_percent_name:
  "takeWhile is_name (double_percent cs) = takeWhile is_name cs \<and>
   drop (length (takeWhile is_name cs)) (double_percent cs) = double_percent (drop (length (takeWhile is_name cs)) cs)"
proof (induction cs)
  case (Cons c cs)
  have "\<not> is_name CHR ''%''" by code_simp
  with Cons show ?case by auto
qed simp

lemma binds_double_percent:
  "List.map_filter bind_name (segs prev (double_percent s)) = List.map_filter bind_name (segs prev s)"
proof (induction prev s rule: segs.induct)
  case (2 prev c cs)
  let ?n = "takeWhile is_name cs"
  show ?case
  proof (cases "c = CHR ''%''")
    case True
    have "segs (CHR ''%'' # CHR ''%'' # prev) (double_percent cs) = segs (CHR ''%'' # prev) (double_percent cs)"
      by (rule segs_prev) simp
    with True "2.IH"(2) [of ?n] show ?thesis by (simp add: segs.simps(2) map_filter_simps)
  next
    case False
    with 2 double_percent_name [of cs] show ?thesis
      by (auto simp: segs.simps(2) Let_def map_filter_simps)
  qed
qed simp

text \<open>
  The reference of the rewriting on PostgreSQL: given the names in the order of their numbers, every
  piece is written by itself.
\<close>

fun numbered_seg :: "string list \<Rightarrow> seg \<Rightarrow> string" where
  "numbered_seg names (Lit c) = [c]"
| "numbered_seg names (Bind name) =
     (if lower name \<in> set names then ''$'' @ show_nat (index_of (lower name) names + 1) else seg_text (Bind name))"

definition numbered_piece :: "string \<Rightarrow> string list \<Rightarrow> piece_kind \<times> string \<Rightarrow> string" where
  "numbered_piece style names p =
     (let s = (if style = ''format'' then double_percent (snd p) else snd p) in
      case fst p of QUOTED \<Rightarrow> snd p | COMMENT \<Rightarrow> s | CODE \<Rightarrow> concat (map (numbered_seg names) (segs [] s)))"

definition names_match :: "(string \<times> pyval) list \<Rightarrow> binding \<Rightarrow> bool" where
  "names_match wanted b =
     (distinct (numbered b) \<and> map Some (bound b) = map (map_of wanted) (numbered b))"

text \<open>One step on PostgreSQL numbers the name if it is wanted and new, and never renumbers.\<close>

definition numbers_on :: "(string \<times> pyval) list \<Rightarrow> string list \<Rightarrow> binding \<Rightarrow> binding \<Rightarrow> bool" where
  "numbers_on wanted names b b' =
     (names_match wanted b' \<and> prefix (numbered b) (numbered b') \<and>
      set (numbered b') = set (numbered b) \<union> set names \<inter> dom (map_of wanted))"

lemma numbers_on_refl: "names_match wanted b \<Longrightarrow> numbers_on wanted [] b b"
  by (simp add: numbers_on_def)

lemma numbers_on_trans:
  "numbers_on wanted ns b b' \<Longrightarrow> numbers_on wanted ns' b' b'' \<Longrightarrow> numbers_on wanted (ns @ ns') b b''"
  unfolding numbers_on_def set_append Int_Un_distrib2 by (metis prefix_order.trans sup_assoc)

lemma numbers_on_match: "numbers_on wanted ns b b' \<Longrightarrow> names_match wanted b'"
  by (simp add: numbers_on_def)

lemma index_of_prefix: "x \<in> set xs \<Longrightarrow> prefix xs ys \<Longrightarrow> index_of x ys = index_of x xs"
  by (induction xs ys rule: list_induct2') auto

lemma names_wanted: "names_match wanted b \<Longrightarrow> map_of wanted n = None \<Longrightarrow> n \<notin> set (numbered b)"
proof
  assume "names_match wanted b" "n \<in> set (numbered b)" "map_of wanted n = None"
  then have "None \<in> set (map (map_of wanted) (numbered b))" by force
  moreover have "map (map_of wanted) (numbered b) = map Some (bound b)"
    using \<open>names_match wanted b\<close> by (simp add: names_match_def)
  ultimately show False by auto
qed

lemma write_seg_numbers:
  assumes "names_match wanted b"
  shows "numbers_on wanted (List.map_filter bind_name [s]) b (snd (write_seg ''postgresql'' wanted s b))"
proof (cases s)
  case (Bind name)
  show ?thesis
  proof (cases "map_of wanted (lower name)")
    case None
    with assms Bind show ?thesis by (auto simp: numbers_on_def map_filter_simps)
  next
    case (Some v)
    with assms Bind show ?thesis
      by (auto simp: numbers_on_def names_match_def map_filter_simps Let_def)
  qed
qed (use assms numbers_on_refl in \<open>simp add: map_filter_simps\<close>)

lemma write_seg_text:
  assumes "names_match wanted b" "numbers_on wanted ns (snd (write_seg ''postgresql'' wanted s b)) b'"
  shows "fst (write_seg ''postgresql'' wanted s b) = numbered_seg (numbered b') s"
proof (cases s)
  case (Bind name)
  let ?b = "snd (write_seg ''postgresql'' wanted s b)"
  have pre: "prefix (numbered ?b) (numbered b')" "names_match wanted b'"
    using assms(2) by (simp_all add: numbers_on_def)
  show ?thesis
  proof (cases "map_of wanted (lower name)")
    case None
    with names_wanted [OF pre(2) None] Bind show ?thesis by simp
  next
    case (Some v)
    then have "lower name \<in> set (numbered ?b)" by (auto simp: Bind Let_def)
    moreover from this pre(1) have "lower name \<in> set (numbered b')" by (auto simp: prefix_def)
    moreover note index_of_prefix [OF calculation(1) pre(1)]
    ultimately show ?thesis using Some by (auto simp: Bind Let_def)
  qed
qed simp

lemma map_filter_Cons_append: "List.map_filter f (x # xs) = List.map_filter f [x] @ List.map_filter f xs"
  by (simp add: map_filter_simps split: option.split)

lemma write_segs_numbers:
  assumes "names_match wanted b"
  shows "numbers_on wanted (List.map_filter bind_name ss) b (snd (write_segs ''postgresql'' wanted ss b))"
  using assms
proof (induction ss arbitrary: b)
  case (Cons s ss)
  note step = write_seg_numbers [OF Cons.prems, of s]
  from numbers_on_trans [OF step Cons.IH [OF numbers_on_match [OF step]]] show ?case
    unfolding map_filter_Cons_append [of _ s ss] by (simp only: write_segs.simps split_beta Let_def snd_conv)
qed (simp add: numbers_on_refl map_filter_simps)

lemma write_segs_text:
  assumes "names_match wanted b" "numbers_on wanted ns (snd (write_segs ''postgresql'' wanted ss b)) b'"
  shows "fst (write_segs ''postgresql'' wanted ss b) = concat (map (numbered_seg (numbered b')) ss)"
  using assms
proof (induction ss arbitrary: b)
  case (Cons s ss)
  let ?c = "snd (write_seg ''postgresql'' wanted s b)"
  have c: "names_match wanted ?c" by (rule numbers_on_match [OF write_seg_numbers [OF Cons.prems(1)]])
  have rest: "numbers_on wanted ns (snd (write_segs ''postgresql'' wanted ss ?c)) b'"
    using Cons.prems(2) by (simp add: split_beta Let_def)
  have "fst (write_seg ''postgresql'' wanted s b) = numbered_seg (numbered b') s"
    by (rule write_seg_text [OF Cons.prems(1) numbers_on_trans [OF write_segs_numbers [OF c] rest]])
  with Cons.IH [OF c rest] show ?case by (simp add: split_beta Let_def)
qed simp

lemma write_pieces_numbers:
  assumes "names_match wanted b" "write_pieces ''postgresql'' style wanted ps b = Inr (t, b')"
  shows "numbers_on wanted (concat (map chunk_binds ps)) b b' \<and>
    t = concat (map (numbered_piece style (numbered b')) ps)"
  using assms
proof (induction ps arbitrary: b t)
  case Nil
  then show ?case by (simp add: numbers_on_refl)
next
  case (Cons p ps)
  obtain k chunk where p: "p = (k, chunk)" by (cases p)
  let ?s = "if style = ''format'' then double_percent chunk else chunk"
  let ?r = "write_segs ''postgresql'' wanted (segs [] ?s) b"
  show ?case
  proof (cases "k = CODE")
    case True
    obtain ts where rest: "write_pieces ''postgresql'' style wanted ps (snd ?r) = Inr (ts, b')" "t = fst ?r @ ts"
      using Cons.prems(2) True by (auto simp: p Let_def split_beta rbind_eq_Inr split: if_splits)
    note first = write_segs_numbers [OF Cons.prems(1), of "segs [] ?s"]
    note IH = Cons.IH [OF numbers_on_match [OF first] rest(1)]
    have "List.map_filter bind_name (segs [] ?s) = chunk_binds p"
      by (simp add: p True chunk_binds_def binds_double_percent)
    moreover have "fst ?r = numbered_piece style (numbered b') p"
      using write_segs_text [OF Cons.prems(1) IH [THEN conjunct1]] by (simp add: p True numbered_piece_def Let_def)
    ultimately show ?thesis
      using numbers_on_trans [OF first IH [THEN conjunct1]] IH rest(2) by simp
  next
    case False
    obtain ts where rest: "write_pieces ''postgresql'' style wanted ps b = Inr (ts, b')" "t = numbered_piece style (numbered b') p @ ts"
      using Cons.prems(2) False
      by (cases k) (auto simp: p Let_def numbered_piece_def rbind_eq_Inr split: if_splits)
    with Cons.IH [OF Cons.prems(1) rest(1)] False show ?thesis by (simp add: p chunk_binds_def)
  qed
qed

lemma postgresql_engine: "lower (strip ''postgresql'') = ''postgresql''"
  by code_simp

text \<open>C27: On PostgreSQL a rewritten statement binds one number per name. The names are exactly the statement's
  placeholders that have a value, each once; the values to bind are theirs, in that order; and every
  placeholder in code with a value is written as its name's number, quoted text is copied as it is.\<close>

theorem postgresql_numbers_each_name_once:
  assumes "bind_named_values statement values db_type style = Inr (t, vs)" "lower (strip db_type) = ''postgresql''"
  shows "\<exists>names. distinct names \<and>
    set names = named_placeholders statement db_type \<inter> lower ` fst ` set values \<and>
    map Some vs = map (map_of (dict_of (map (\<lambda>(n, v). (lower n, v)) values))) names \<and>
    t = (if names = [] then statement
         else concat (map (numbered_piece style names) (code_pieces statement db_type)))"
proof -
  let ?w = "dict_of (map (\<lambda>(n, v). (lower n, v)) values)" and ?ps = "code_pieces statement db_type"
  have pieces: "code_pieces statement ''postgresql'' = ?ps"
    using postgresql_engine by (simp add: code_pieces_def assms(2))
  have keys: "dom (map_of ?w) = lower ` fst ` set values"
    by (auto simp: dom_def dict_of_None image_image simp del: not_None_eq)
  show ?thesis
  proof (cases "list_ex (\<lambda>p. list_ex (\<lambda>n. map_of ?w n \<noteq> None) (chunk_binds p)) ?ps")
    case False
    then have "named_placeholders statement db_type \<inter> dom (map_of ?w) = {}"
      by (auto simp: named_placeholders_def list_ex_iff)
    with False assms(1) show ?thesis
      by (intro exI [of _ "[]"]) (simp add: bind_named_values_def Let_def assms(2) pieces keys)
  next
    case True
    obtain b where b: "write_pieces ''postgresql'' style ?w ?ps \<lparr>bound = [], numbered = []\<rparr> = Inr (t, b)" "vs = bound b"
      using assms(1) True by (auto simp: bind_named_values_def Let_def pieces assms(2) rbind_eq_Inr split: if_splits)
    have "names_match ?w \<lparr>bound = [], numbered = []\<rparr>" by (simp add: names_match_def)
    from write_pieces_numbers [OF this b(1)]
    have result: "names_match ?w b" "set (numbered b) = named_placeholders statement db_type \<inter> dom (map_of ?w)"
        "t = concat (map (numbered_piece style (numbered b)) ?ps)"
      by (simp_all add: numbers_on_def named_placeholders_def)
    from True have "named_placeholders statement db_type \<inter> dom (map_of ?w) \<noteq> {}"
      by (auto simp: named_placeholders_def list_ex_iff)
    with result(2) have "numbered b \<noteq> []" by (metis list.set(1))
    with result b(2) show ?thesis
      by (intro exI [of _ "numbered b"]) (simp add: names_match_def keys)
  qed
qed

theorem postgresql_numbers_each_name_once_witness:
  "\<exists>names. distinct names \<and>
    set names = named_placeholders '':a+:b-:A'' ''postgresql'' \<inter> lower ` fst ` set [(''a'', PInt 1), (''B'', PInt 2)] \<and>
    map Some [PInt 1, PInt 2] = map (map_of (dict_of (map (\<lambda>(n, v). (lower n, v)) [(''a'', PInt 1), (''B'', PInt 2)]))) names \<and>
    ''$1+$2-$1'' = (if names = [] then '':a+:b-:A''
      else concat (map (numbered_piece ''qmark'' names) (code_pieces '':a+:b-:A'' ''postgresql'')))"
  by (rule postgresql_numbers_each_name_once) (code_simp, rule postgresql_engine)

subsection \<open>Nested comments\<close>

text \<open>
  Comments of PostgreSQL nest, and the splitter reads them so: the whole text below is one comment, no
  statement. The pieces end the comment at the first close, and a placeholder in the comment is code.
\<close>

theorem nested_comment_has_a_placeholder:
  "pg_tokens [] ''/* a /* b */ :x */'' = [(COMMENT, ''/* a /* b */ :x */'')] \<and>
   split_postgresql_statements ''/* a /* b */ :x */'' = [] \<and>
   named_placeholders ''/* a /* b */ :x */'' ''postgresql'' = {''x''}"
  by (intro conjI) code_simp+

end
