(* ===== verification/SqlText.thy ===== *)
theory SqlText
  imports SqlLex
begin

section \<open>What reaches the SQL text\<close>

text \<open>
  Models the rest of \<^verbatim>\<open>dbabrain/lib/sql_text.py\<close>: the declared parameters of a T-SQL script, the named
  values of a request, the SQL*Plus substitutions, the numbers a metric writes into its SQL file, the
  Oracle batch, and the password of a credential.

  A regular expression of the source is the function that recognises its texts; every expression
  with \<^verbatim>\<open>re.MULTILINE\<close> stays within a line, so it is a function of the line.
\<close>

subsection \<open>Parameters of a T-SQL script\<close>

datatype param_error =
    Invalid_name | Type_not_allowed | Malformed_type | Missing_required | Not_an_object | Named_twice | Not_a_scalar
  | Undeclared | Unsafe_define | Too_many_values | Bad_quoting

definition SQL_PARAMETER_TYPES :: "string list" where
  "SQL_PARAMETER_TYPES =
     [''bit'', ''tinyint'', ''smallint'', ''int'', ''bigint'', ''decimal'', ''numeric'', ''float'', ''real'', ''money'',
      ''date'', ''time'', ''datetime'', ''datetime2'', ''smalldatetime'', ''char'', ''varchar'', ''nchar'', ''nvarchar'',
      ''uniqueidentifier'']"

definition sql_identifier :: "string \<Rightarrow> bool" where
  "sql_identifier s =
     (s \<noteq> [] \<and> (is_alpha (hd s) \<or> hd s = CHR ''_'') \<and> list_all is_ident s \<and> length s \<le> 64)"

text \<open>\<^verbatim>\<open>_SQL_TYPE_RE.fullmatch\<close>: a word, or a word with a size and a scale.\<close>

definition type_scale :: "string \<Rightarrow> bool" where
  "type_scale s =
     (s = '')'' \<or>
      startswith s '','' \<and>
      (let b = lstrip (drop 1 s); e = takeWhile is_digit b in e \<noteq> [] \<and> lstrip (drop (length e) b) = '')''))"

definition type_size :: "string \<Rightarrow> bool" where
  "type_size s =
     (let d = takeWhile is_digit s in
      if d \<noteq> [] then type_scale (lstrip (drop (length d) s))
      else lower (take 3 s) = ''max'' \<and> type_scale (lstrip (drop 3 s)))"

definition sql_type :: "string \<Rightarrow> bool" where
  "sql_type s =
     (let base = takeWhile is_ident s; rest = drop (length base) s in
      base \<noteq> [] \<and> (rest = [] \<or> startswith rest ''('' \<and> type_size (lstrip (drop 1 rest))))"

definition declared_type :: "pydict \<Rightarrow> string" where
  "declared_type p = strip (if truthy (get p ''type'') then py_str (get p ''type'') else ''nvarchar(4000)'')"

definition parameter_name :: "pydict \<Rightarrow> string" where
  "parameter_name p = strip (str_or (get p ''name''))"

definition parameter_value :: "pydict \<Rightarrow> pydict \<Rightarrow> param_error + pyval" where
  "parameter_value p vals =
     (let name = parameter_name p in
      if has_key vals name \<and> strip (py_str (get vals name)) \<noteq> [] then Inr (get vals name)
      else if has_key p ''default'' then Inr (get p ''default'')
      else if truthy (get_or p ''required'' (PBool False)) then Inl Missing_required
      else Inr PNone)"

definition declare_line :: "string \<Rightarrow> string \<Rightarrow> string" where
  "declare_line name ty = ''DECLARE @'' @ name @ '' '' @ ty @ '' = ?;''"

definition prelude_part :: "pydict \<Rightarrow> pydict \<Rightarrow> param_error + (string \<times> pyval)" where
  "prelude_part vals p =
     rbind (check (sql_identifier (parameter_name p)) Invalid_name) (\<lambda>_.
     rbind (check (lower (strip (takeWhile (\<lambda>c. c \<noteq> CHR ''('') (declared_type p))) \<in> set SQL_PARAMETER_TYPES)
       Type_not_allowed) (\<lambda>_.
     rbind (check (sql_type (declared_type p)) Malformed_type) (\<lambda>_.
     rbind (parameter_value p vals) (\<lambda>v. Inr (declare_line (parameter_name p) (declared_type p), v)))))"

definition build_parameter_prelude :: "pydict list \<Rightarrow> pydict \<Rightarrow> param_error + (string \<times> pyval list)" where
  "build_parameter_prelude parameters vals =
     rbind (map_res (prelude_part vals) parameters) (\<lambda>parts.
       Inr (if parts = [] then [] else join [NL] (map fst parts) @ [NL], map snd parts))"

subsection \<open>Named values\<close>

definition is_scalar :: "pyval \<Rightarrow> bool" where
  "is_scalar v = (case v of PList _ \<Rightarrow> False | PDict _ \<Rightarrow> False | _ \<Rightarrow> True)"

fun named_items :: "pydict \<Rightarrow> pydict \<Rightarrow> param_error + pydict" where
  "named_items [] vals = Inr vals"
| "named_items ((name, v) # raw) vals =
     (let key = strip name in
      rbind (check (sql_identifier key) Invalid_name) (\<lambda>_.
      rbind (check (\<not> has_key vals (lower key)) Named_twice) (\<lambda>_.
      rbind (check (is_scalar v) Not_a_scalar) (\<lambda>_.
        named_items raw (upd (lower key) v vals)))))"

definition check_named_values :: "pyval \<Rightarrow> param_error + pydict" where
  "check_named_values raw =
     (if is_absent raw then Inr []
      else case raw of PDict d \<Rightarrow> named_items d [] | _ \<Rightarrow> Inl Not_an_object)"

subsection \<open>SQL*Plus substitution\<close>

definition UNSAFE_IN_DEFINE :: "string list" where
  "UNSAFE_IN_DEFINE = [[QUOTE], [DQUOTE], '';'', ''--'', ''/*'', ''*/'', [NL], [CHR 0x0D], ''&'']"

definition check_sqlplus_define_value :: "string \<Rightarrow> param_error + unit" where
  "check_sqlplus_define_value s = check (\<not> list_ex (contains s) UNSAFE_IN_DEFINE) Unsafe_define"

text \<open>\<^verbatim>\<open>_SQLPLUS_MARKER_RE.finditer\<close>: every \<^verbatim>\<open>&name\<close> or \<^verbatim>\<open>&&name\<close>, at its longest.\<close>

definition name_at :: "string \<Rightarrow> string" where
  "name_at s = (let name = takeWhile is_name s in
     if name \<noteq> [] \<and> (is_alpha (hd name) \<or> hd name = CHR ''_'') then name else [])"

fun marker_names :: "string \<Rightarrow> string list" where
  "marker_names [] = []"
| "marker_names (c # cs) =
     (if c = CHR ''&'' \<and> name_at cs \<noteq> [] then name_at cs # marker_names cs else marker_names cs)"

definition sqlplus_substitution_names :: "string \<Rightarrow> string set" where
  "sqlplus_substitution_names source = set (map lower (marker_names source))"

definition blank :: "char \<Rightarrow> bool" where
  "blank c = (c = CHR '' '' \<or> c = CHR 0x09)"

text \<open>\<^verbatim>\<open>_DEFINE_LINE\<close> on one line: the name and the raw value.\<close>

definition define_line :: "string \<Rightarrow> (string \<times> string) option" where
  "define_line line =
     (let s = dropWhile blank line;
          r = (if lower (take 6 s) = ''define'' \<and> word_before blank (drop 6 s) then Some (drop 6 s)
               else if lower (take 3 s) = ''def'' \<and> word_before blank (drop 3 s) then Some (drop 3 s) else None) in
      case r of
        None \<Rightarrow> None
      | Some r' \<Rightarrow>
          (let n = name_at (dropWhile blank r'); t = dropWhile blank (drop (length n) (dropWhile blank r')) in
           if n = [] then None
           else Some (n, if startswith t ''='' then dropWhile blank (drop 1 t) else t)))"

definition rstrip_semicolons :: "string \<Rightarrow> string" where
  "rstrip_semicolons s = rev (dropWhile (\<lambda>c. c = CHR '';'') (rev s))"

definition define_value :: "string \<Rightarrow> string" where
  "define_value raw =
     (let v = strip (rstrip_semicolons (strip raw)) in
      if 2 \<le> length v \<and> hd v = last v \<and> (hd v = QUOTE \<or> hd v = DQUOTE) then butlast (tl v) else v)"

text \<open>
  The pattern built from a defined name, which is not escaped: a dollar sign in the name is the
  anchor of the expression, true at the end of the text and before a last line break. The name is over
  \<^verbatim>\<open>[A-Za-z0-9_$#]\<close>. The result is the text after the match.
\<close>

fun match_name :: "string \<Rightarrow> string \<Rightarrow> string option" where
  "match_name [] rest = Some rest"
| "match_name (c # cs) rest =
     (if c = CHR ''$'' then (if rest = [] \<or> rest = [NL] then match_name cs rest else None)
      else case rest of [] \<Rightarrow> None | d # ds \<Rightarrow> if lower_char c = lower_char d then match_name cs ds else None)"

definition match_marker :: "string \<Rightarrow> string \<Rightarrow> string \<Rightarrow> string option" where
  "match_marker marker name s =
     (if \<not> startswith s marker then None
      else case match_name name (drop (length marker) s) of
        None \<Rightarrow> None
      | Some r \<Rightarrow>
          if startswith r ''.'' \<and> \<not> word_before is_name (drop 1 r) then Some (drop 1 r)
          else if \<not> word_before is_name r then Some r else None)"

lemma match_name_length: "match_name name s = Some r \<Longrightarrow> length r \<le> length s"
  by (induction name s rule: match_name.induct) (auto split: if_splits list.splits)

lemma match_marker_length: "match_marker marker name s = Some r \<Longrightarrow> marker \<noteq> [] \<Longrightarrow> length r < length s"
proof -
  assume "match_marker marker name s = Some r" "marker \<noteq> []"
  then obtain r' where "match_name name (drop (length marker) s) = Some r'" "length r \<le> length r'" "startswith s marker"
    by (auto simp: match_marker_def split: if_splits option.splits)
  with match_name_length [of name "drop (length marker) s" r'] startswith_length [of s marker] \<open>marker \<noteq> []\<close>
  show ?thesis by (cases marker) auto
qed

text \<open>\<^verbatim>\<open>re.sub\<close> with one of the two markers.\<close>

function sub_marker :: "string \<Rightarrow> string \<Rightarrow> string \<Rightarrow> string \<Rightarrow> string" where
  "sub_marker marker name v [] = []"
| "sub_marker marker name v (c # cs) =
     (case match_marker (CHR ''&'' # marker) name (c # cs) of
        Some r \<Rightarrow> v @ sub_marker marker name v r
      | None \<Rightarrow> c # sub_marker marker name v cs)"
  by pat_completeness auto
termination
  by (relation "measure (\<lambda>(marker, name, v, s). length s)") (auto dest: match_marker_length)

declare sub_marker.simps(2) [simp del]

definition define_values :: "string \<Rightarrow> (string \<times> string) list \<Rightarrow> (string \<times> string) list" where
  "define_values source overrides =
     dict_of (map (\<lambda>(n, raw). (upper n, define_value raw)) (List.map_filter define_line (split_on NL source)) @
       map (\<lambda>(n, v). (upper n, v)) overrides)"

definition without_defines :: "string \<Rightarrow> string" where
  "without_defines source = join [NL] (map (\<lambda>l. if define_line l = None then l else []) (split_on NL source))"

definition expand_sqlplus_defines :: "string \<Rightarrow> (string \<times> string) list \<Rightarrow> string" where
  "expand_sqlplus_defines source overrides =
     (let vals = define_values source overrides in
      if vals = [] then source
      else strip (foldl (\<lambda>body (marker, name, v). sub_marker marker name v body) (without_defines source)
        (map (Pair ''&'') vals @ map (Pair []) vals)))"

subsection \<open>One Oracle batch\<close>

lemma through_pos: "q \<noteq> [] \<Longrightarrow> s \<noteq> [] \<Longrightarrow> 0 < through q s"
  by (cases s; cases q) auto

lemma drop_through_less:
  assumes "startswith (lstrip s) p" "p \<noteq> []" "q \<noteq> []"
  shows "length (drop (through q (lstrip s)) (lstrip s)) < length s"
proof -
  have "lstrip s \<noteq> []" using assms by (cases p) auto
  with through_pos [OF assms(3) this] have "length (drop (through q (lstrip s)) (lstrip s)) < length (lstrip s)" by simp
  also have "length (lstrip s) \<le> length s" by (simp add: lstrip_def length_dropWhile_le)
  finally show ?thesis .
qed

function after_leading_comments :: "string \<Rightarrow> string" where
  "after_leading_comments s =
     (let rest = lstrip s in
      if startswith rest ''--'' then after_leading_comments (drop (through [NL] rest) rest)
      else if startswith rest ''/*'' then after_leading_comments (drop (through ''*/'' rest) rest)
      else rest)"
  by pat_completeness auto
termination
  by (relation "measure length") (auto intro: drop_through_less simp del: length_drop)

declare after_leading_comments.simps [simp del]

text \<open>\<^verbatim>\<open>_PLSQL_BLOCK_RE.match\<close>, a word at a time.\<close>

definition eat_word :: "string \<Rightarrow> string \<Rightarrow> string option" where
  "eat_word w s = (if lower (take (length w) s) = w then Some (drop (length w) s) else None)"

definition eat_gap :: "string \<Rightarrow> string option" where
  "eat_gap s = (if word_before is_ws s then Some (lstrip s) else None)"

fun eat_all :: "string list \<Rightarrow> string \<Rightarrow> string option" where
  "eat_all [] s = Some s"
| "eat_all (w # ws) s = Option.bind (eat_word w s) (\<lambda>r. Option.bind (eat_gap r) (eat_all ws))"

definition ends_word :: "string list \<Rightarrow> string \<Rightarrow> bool" where
  "ends_word ws s = list_ex (\<lambda>w. case eat_word w s of None \<Rightarrow> False | Some r \<Rightarrow> \<not> word_before is_ident r) ws"

definition optionally :: "string list \<Rightarrow> string \<Rightarrow> string" where
  "optionally ws s = (case eat_all ws s of None \<Rightarrow> s | Some r \<Rightarrow> r)"

definition starts_block :: "string \<Rightarrow> bool" where
  "starts_block s =
     (ends_word [''begin'', ''declare''] s \<or>
      (case eat_all [''create''] s of
         None \<Rightarrow> False
       | Some r \<Rightarrow>
           (let r1 = optionally [''or'', ''replace''] r;
                r2 = optionally [''editionable''] (if eat_all [''noneditionable''] r1 = None then r1 else drop 3 r1) in
            ends_word [''procedure'', ''function'', ''package'', ''trigger'', ''type'', ''library''] r2)))"

definition is_plsql_block :: "string \<Rightarrow> bool" where
  "is_plsql_block source = starts_block (after_leading_comments source)"

definition rstrip :: "string \<Rightarrow> string" where
  "rstrip s = rev (dropWhile is_ws (rev s))"

definition is_line_break :: "char \<Rightarrow> bool" where
  "is_line_break c = (let n = (of_char c :: nat) in (10 \<le> n \<and> n \<le> 13) \<or> (28 \<le> n \<and> n \<le> 30))"

function splitlines :: "string \<Rightarrow> string \<Rightarrow> string list" where
  "splitlines cur [] = (if cur = [] then [] else [cur])"
| "splitlines cur (c # cs) =
     (if c = CHR 0x0D \<and> startswith cs [NL] then cur # splitlines [] (drop 1 cs)
      else if is_line_break c then cur # splitlines [] cs
      else splitlines (cur @ [c]) cs)"
  by pat_completeness auto
termination
  by (relation "measure (\<lambda>(cur, s). length s)") auto

definition oracle_statement :: "string \<Rightarrow> string" where
  "oracle_statement batch =
     (let whole = rstrip batch; lines = splitlines [] whole;
          t = (if lines \<noteq> [] \<and> strip (last lines) = ''/'' then rstrip (join [NL] (butlast lines)) else whole) in
      if is_plsql_block t then t else rstrip (rstrip_semicolons t))"

subsection \<open>Numbers of a metric\<close>

datatype setting_error = Setting_name | Setting_not_a_number | Setting_not_declared_once nat

definition number_char :: "char \<Rightarrow> bool" where
  "number_char c = (is_digit c \<or> c = CHR ''.'')"

definition unsigned_at :: "string \<Rightarrow> string" where
  "unsigned_at s = (if word_before is_digit s then takeWhile number_char s else [])"

definition number_at :: "string \<Rightarrow> string" where
  "number_at s =
     (if \<not> startswith s ''-'' then unsigned_at s
      else if unsigned_at (drop 1 s) = [] then [] else ''-'' @ unsigned_at (drop 1 s))"

definition type_char :: "char \<Rightarrow> bool" where
  "type_char c = (is_alnum c \<or> c \<in> {CHR ''('', CHR '')'', CHR '',''} \<or> blank c)"

text \<open>\<^verbatim>\<open>_SQL_SETTING_DECLARE\<close> on one line: head, name, value and the text after the value.\<close>

definition declare_parts :: "string \<Rightarrow> (string \<times> string \<times> string \<times> string) option" where
  "declare_parts line =
     (let s = dropWhile blank line; s1 = dropWhile blank (drop 7 s);
          w = takeWhile (\<lambda>c. \<not> blank c) (drop 1 s1); s2 = drop (1 + length w) s1; s3 = dropWhile blank s2;
          s4 = dropWhile type_char s3; s5 = dropWhile blank (drop 1 s4); v = number_at s5; s6 = drop (length v) s5 in
      if lower (take 7 s) = ''declare'' \<and> word_before blank (drop 7 s) \<and> startswith s1 ''@'' \<and> s2 \<noteq> [] \<and>
         word_before is_alpha s3 \<and> startswith s4 ''='' \<and> v \<noteq> [] \<and> startswith (dropWhile blank s6) '';''
      then Some (take (length line - length s5) line, w, v, s6) else None)"

definition setting_number :: "pyval \<Rightarrow> setting_error + string" where
  "setting_number v =
     (case v of
        PInt i \<Rightarrow> Inr (show_int i)
      | PFloat r t \<Rightarrow> Inr (if of_int \<lfloor>r\<rfloor> = r then show_int \<lfloor>r\<rfloor> else t)
      | _ \<Rightarrow> Inl Setting_not_a_number)"

definition declares :: "string \<Rightarrow> string \<Rightarrow> (string \<times> string \<times> string) option" where
  "declares key line =
     (case declare_parts line of
        Some (head, w, v, tail) \<Rightarrow> if lower w = lower key then Some (head, v, tail) else None
      | None \<Rightarrow> None)"

definition set_line :: "string \<Rightarrow> string \<Rightarrow> string \<Rightarrow> string" where
  "set_line key number line = (case declares key line of None \<Rightarrow> line | Some (head, v, tail) \<Rightarrow> head @ number @ tail)"

definition found :: "string \<Rightarrow> string \<Rightarrow> (string \<times> string \<times> string) list" where
  "found key source = List.map_filter (declares key) (split_on NL source)"

fun apply_sql_settings :: "string \<Rightarrow> pydict \<Rightarrow> setting_error + string" where
  "apply_sql_settings source [] = Inr source"
| "apply_sql_settings source ((key, v) # settings) =
     rbind (check (sql_identifier key) Setting_name) (\<lambda>_.
     rbind (setting_number v) (\<lambda>number.
     rbind (check (length (found key source) = 1) (Setting_not_declared_once (length (found key source)))) (\<lambda>_.
       apply_sql_settings (join [NL] (map (set_line key number) (split_on NL source))) settings)))"

subsection \<open>The password of a credential\<close>

datatype password_error = Node_key | Password_not_found

definition NODE_KEYS :: "string list" where
  "NODE_KEYS = [''DBABRAIN_SECRET_KEY'', ''DBABRAIN_KEY_BASE64'', ''TELEGRAM_BOT_TOKEN'']"

definition resolve_password ::
  "(string \<Rightarrow> string) \<Rightarrow> pydict \<Rightarrow> (string \<times> string) list \<Rightarrow> password_error + string" where
  "resolve_password env credential secrets =
     (let ref = strip (py_str (get_or credential ''password_ref'' (PStr []))) in
      if ref = [] then Inr (py_str (get_or credential ''password'' (PStr [])))
      else if upper ref \<in> set NODE_KEYS \<or> endswith (upper ref) ''BOT_TOKEN'' then Inl Node_key
      else if strip (env ref) \<noteq> [] then Inr (strip (env ref))
      else case map_of secrets ref of Some p \<Rightarrow> Inr p | None \<Rightarrow> Inl Password_not_found)"

subsection \<open>Only checked text reaches a declaration\<close>

definition type_text :: "char \<Rightarrow> bool" where
  "type_text c = (is_ident c \<or> is_ws c \<or> c \<in> {CHR ''('', CHR '')'', CHR '',''})"

lemma all_dropWhile: "(\<And>c. Q c \<Longrightarrow> P c) \<Longrightarrow> list_all P (dropWhile Q s) \<Longrightarrow> list_all P s"
  by (induction s) (auto split: if_splits)

lemma all_lstrip: "list_all type_text (lstrip s) \<Longrightarrow> list_all type_text s"
  unfolding lstrip_def by (erule all_dropWhile [rotated]) (simp add: type_text_def)

lemma all_after_word:
  "(\<And>c. Q c \<Longrightarrow> type_text c) \<Longrightarrow> list_all type_text (drop (length (takeWhile Q s)) s) \<Longrightarrow> list_all type_text s"
  by (metis all_dropWhile dropWhile_eq_drop)

lemma is_alpha_lower: "is_alpha (lower_char c) = is_alpha c"
  by (simp add: is_alpha_def)

lemma max_is_type_text: "lower s = ''max'' \<Longrightarrow> list_all type_text s"
proof -
  assume "lower s = ''max''"
  moreover have "list_all is_alpha ''max''" by code_simp
  ultimately have "list_all is_alpha (map lower_char s)" by (simp add: lower_def)
  then have "list_all is_alpha s" by (simp add: list.pred_map comp_def is_alpha_lower)
  then show ?thesis by (rule list.pred_mono_strong) (simp add: type_text_def is_ident_def is_alnum_def)
qed

lemma all_after_3: "list_all P (take 3 s) \<Longrightarrow> list_all P (drop 3 s) \<Longrightarrow> list_all P s"
  by (metis append_take_drop_id list_all_append)

lemma digit_is_type_text: "is_digit c \<Longrightarrow> type_text c" and ident_is_type_text: "is_ident c \<Longrightarrow> type_text c"
  by (simp_all add: type_text_def is_ident_def is_alnum_def)

lemma punct_is_type_text [simp]: "type_text CHR ''(''" "type_text CHR '')''" "type_text CHR '',''"
  by (simp_all add: type_text_def)

lemma all_after_digits: "list_all type_text (drop (length (takeWhile is_digit s)) s) \<Longrightarrow> list_all type_text s"
  and all_after_ident: "list_all type_text (drop (length (takeWhile is_ident s)) s) \<Longrightarrow> list_all type_text s"
  using all_after_word digit_is_type_text ident_is_type_text by blast+

lemma startswith_char: "startswith s [c] \<Longrightarrow> type_text c \<Longrightarrow> list_all type_text (drop 1 s) \<Longrightarrow> list_all type_text s"
  by (auto simp: startswith_iff)

lemma type_scale_text: "type_scale s \<Longrightarrow> list_all type_text s"
proof -
  assume "type_scale s"
  then consider "s = '')''" | b where "startswith s '',''" "b = lstrip (drop 1 s)"
      "lstrip (drop (length (takeWhile is_digit b)) b) = '')''"
    by (auto simp: type_scale_def Let_def)
  then show ?thesis
  proof cases
    case 2
    then have "list_all type_text (lstrip (drop (length (takeWhile is_digit b)) b))" by simp
    then have "list_all type_text b" by (rule all_after_digits [OF all_lstrip])
    with 2 show ?thesis by (metis startswith_char punct_is_type_text(3) all_lstrip)
  qed simp
qed

lemma type_size_text: "type_size s \<Longrightarrow> list_all type_text s"
proof -
  assume size: "type_size s"
  show ?thesis
  proof (cases "takeWhile is_digit s = []")
    case True
    with size have "lower (take 3 s) = ''max''" "type_scale (lstrip (drop 3 s))" by (auto simp: type_size_def)
    then show ?thesis by (rule all_after_3 [OF max_is_type_text all_lstrip [OF type_scale_text]])
  next
    case False
    with size have "type_scale (lstrip (drop (length (takeWhile is_digit s)) s))" by (simp add: type_size_def Let_def)
    then show ?thesis by (rule all_after_digits [OF all_lstrip [OF type_scale_text]])
  qed
qed

lemma sql_type_text: "sql_type s \<Longrightarrow> list_all type_text s"
proof (rule all_after_ident)
  assume "sql_type s"
  then consider "drop (length (takeWhile is_ident s)) s = []"
    | "startswith (drop (length (takeWhile is_ident s)) s) ''(''" "type_size (lstrip (drop 1 (drop (length (takeWhile is_ident s)) s)))"
    unfolding sql_type_def Let_def by blast
  then show "list_all type_text (drop (length (takeWhile is_ident s)) s)"
    by cases (simp, metis startswith_char punct_is_type_text(1) all_lstrip type_size_text)
qed

lemma question_is_no_text: "\<not> is_ident CHR ''?''" "\<not> type_text CHR ''?''"
  by code_simp+

lemma identifier_text: "sql_identifier s \<Longrightarrow> list_all is_ident s"
  by (simp add: sql_identifier_def)

lemma no_question: "list_all P s \<Longrightarrow> \<not> P CHR ''?'' \<Longrightarrow> count_list s (CHR ''?'') = 0"
  by (auto simp: list_all_iff count_list_0_iff)

lemma prelude_part_Inr:
  assumes "prelude_part vals p = Inr (line, v)"
  shows "sql_identifier (parameter_name p)" "list_all type_text (declared_type p)"
    "line = declare_line (parameter_name p) (declared_type p)" "parameter_value p vals = Inr v"
    "count_list line (CHR ''?'') = 1"
proof -
  from assms show ok: "sql_identifier (parameter_name p)" "list_all type_text (declared_type p)"
      "line = declare_line (parameter_name p) (declared_type p)" "parameter_value p vals = Inr v"
    by (auto simp: prelude_part_def rbind_eq_Inr intro: sql_type_text)
  with question_is_no_text show "count_list line (CHR ''?'') = 1"
    by (auto simp: declare_line_def dest!: identifier_text dest: no_question)
qed

lemma join_lines: "xs \<noteq> [] \<Longrightarrow> join [NL] xs @ [NL] = concat (map (\<lambda>x. x @ [NL]) xs)"
  by (induction "[NL]" xs rule: join.induct) auto

text \<open>C25: No value of a task parameter reaches the text of a T-SQL script. An accepted prelude is one
  declaration per parameter, of its checked name and its checked type - letters, digits, underscores,
  blanks, parentheses and commas only - with one placeholder each, and the values to bind are the
  parameters' values in the same order.\<close>

theorem prelude_is_names_and_types_only:
  assumes "build_parameter_prelude parameters vals = Inr (prelude, bvs)"
  shows "prelude = concat (map (\<lambda>p. declare_line (parameter_name p) (declared_type p) @ [NL]) parameters) \<and>
    list_all (\<lambda>p. sql_identifier (parameter_name p) \<and> list_all type_text (declared_type p)) parameters \<and>
    count_list prelude (CHR ''?'') = length bvs \<and>
    map (\<lambda>p. parameter_value p vals) parameters = map Inr bvs"
proof -
  from assms obtain parts where parts: "list_all2 (\<lambda>p q. prelude_part vals p = Inr q) parameters parts"
      "prelude = (if parts = [] then [] else join [NL] (map fst parts) @ [NL])" "bvs = map snd parts"
    by (auto simp: build_parameter_prelude_def rbind_eq_Inr map_res_Inr)
  then have "prelude = concat (map (\<lambda>q. fst q @ [NL]) parts)"
    using join_lines [of "map fst parts"] by (auto simp: comp_def)
  with parts(1,3) show ?thesis
  proof (induction parameters parts arbitrary: prelude bvs rule: list_all2_induct)
    case (Cons p parameters q parts)
    obtain line v where q: "q = (line, v)" by (cases q)
    note this = prelude_part_Inr [OF Cons.hyps(1) [unfolded q]]
    with Cons.IH [of "map snd parts" "concat (map (\<lambda>q. fst q @ [NL]) parts)"] Cons.prems q show ?case
      by (auto simp: NL_def)
  qed simp
qed

theorem prelude_is_names_and_types_only_witness:
  "(let ps = [[(''name'', PStr ''a'')], [(''name'', PStr ''b''), (''type'', PStr ''int'')]] in
    declare_line ''a'' ''nvarchar(4000)'' @ [NL] @ declare_line ''b'' ''int'' @ [NL] =
      concat (map (\<lambda>p. declare_line (parameter_name p) (declared_type p) @ [NL]) ps) \<and>
    map (\<lambda>p. parameter_value p [(''b'', PStr ''1; DROP TABLE t'')]) ps = map Inr [PNone, PStr ''1; DROP TABLE t''])"
proof -
  have "build_parameter_prelude [[(''name'', PStr ''a'')], [(''name'', PStr ''b''), (''type'', PStr ''int'')]]
      [(''b'', PStr ''1; DROP TABLE t'')] =
    Inr (declare_line ''a'' ''nvarchar(4000)'' @ [NL] @ declare_line ''b'' ''int'' @ [NL], [PNone, PStr ''1; DROP TABLE t''])"
    by code_simp
  from prelude_is_names_and_types_only [OF this] show ?thesis by simp
qed

subsection \<open>A setting is read back\<close>

lemma dropWhile_stop: "list_all P a \<Longrightarrow> \<not> word_before P b \<Longrightarrow> dropWhile P (a @ b) = b"
  by (induction a) (auto simp: word_before_def split: list.splits)

lemma takeWhile_stop: "list_all P a \<Longrightarrow> \<not> word_before P b \<Longrightarrow> takeWhile P (a @ b) = a"
  by (induction a) (auto simp: word_before_def split: list.splits)

lemma word_before_simps [simp]: "word_before P [] = False" "word_before P (c # cs) = P c"
  by (simp_all add: word_before_def)

lemma not_word_before_dropWhile: "\<not> word_before P (dropWhile P s)"
  by (induction s) auto

lemma list_all_takeWhile: "list_all P (takeWhile P s)"
  by (induction s) auto

definition number_text :: "string \<Rightarrow> bool" where
  "number_text v = (v \<noteq> [] \<and> number_at v = v)"

text \<open>A line that declares: the shape the expression spells out.\<close>

definition declare_shape :: "string \<Rightarrow> string \<Rightarrow> string \<Rightarrow> bool" where
  "declare_shape head w rest =
     (\<exists>b0 d b1 b2 ty b3 b4 more. head = b0 @ d @ b1 @ ''@'' @ w @ b2 @ ty @ ''='' @ b3 \<and> rest = b4 @ '';'' @ more \<and>
       list_all blank b0 \<and> lower d = ''declare'' \<and> list_all blank b1 \<and> b1 \<noteq> [] \<and> list_all (\<lambda>c. \<not> blank c) w \<and>
       list_all blank b2 \<and> b2 \<noteq> [] \<and> word_before is_alpha ty \<and> list_all type_char ty \<and> list_all blank b3 \<and> list_all blank b4)"

lemma unsigned_at_Cons: "unsigned_at (c # cs) = (if is_digit c then c # takeWhile number_char cs else [])"
  by (simp add: unsigned_at_def number_char_def)

lemma unsigned_at_prefix: "unsigned_at s @ drop (length (unsigned_at s)) s = s"
  by (auto simp: unsigned_at_def dropWhile_eq_drop [symmetric])

lemma number_at_Cons: "number_at (c # cs) = (if c = CHR ''-'' then (if unsigned_at cs = [] then [] else c # unsigned_at cs) else unsigned_at (c # cs))"
  by (simp add: number_at_def)

lemma number_at_prefix: "number_at s @ drop (length (number_at s)) s = s"
  using unsigned_at_prefix [of s] unsigned_at_prefix [of "drop 1 s"] by (cases s) (auto simp: number_at_Cons number_at_def [of "[]"])

lemma unsigned_at_stop: "\<not> word_before number_char rest \<Longrightarrow> unsigned_at v = v \<Longrightarrow> v \<noteq> [] \<Longrightarrow> unsigned_at (v @ rest) = v"
proof -
  assume rest: "\<not> word_before number_char rest" and v: "unsigned_at v = v" "v \<noteq> []"
  then have d: "word_before is_digit (v @ rest)" "word_before is_digit v"
    by (cases v; simp add: unsigned_at_Cons split: if_splits)+
  with v have "takeWhile number_char v = v" by (simp add: unsigned_at_def)
  then have "list_all number_char v" using list_all_takeWhile [of number_char v] by (simp del: takeWhile_eq_all_conv)
  with d takeWhile_stop [OF this rest] show ?thesis by (simp add: unsigned_at_def)
qed

lemma number_at_stop:
  assumes "number_text v" "\<not> word_before number_char rest"
  shows "number_at (v @ rest) = v"
proof (cases v)
  case (Cons c cs)
  show ?thesis
  proof (cases "c = CHR ''-''")
    case True
    with assms(1) Cons have "unsigned_at cs = cs" "cs \<noteq> []" by (auto simp: number_text_def number_at_Cons split: if_splits)
    from unsigned_at_stop [OF assms(2) this] this(2) Cons True show ?thesis by (simp add: number_at_Cons)
  next
    case False
    with assms(1) Cons have "unsigned_at v = v" by (auto simp: number_text_def number_at_Cons)
    from unsigned_at_stop [OF assms(2) this] Cons False show ?thesis by (simp add: number_at_Cons)
  qed
qed (use assms in \<open>simp add: number_text_def\<close>)

lemma unsigned_at_idem: "unsigned_at (unsigned_at s) = unsigned_at s"
proof (cases s)
  case (Cons c cs)
  then show ?thesis by (simp add: unsigned_at_Cons takeWhile_idem) (simp add: unsigned_at_def)
qed (simp add: unsigned_at_def)

lemma unsigned_at_no_minus: "unsigned_at s \<noteq> CHR ''-'' # t"
  by (cases s) (auto simp: unsigned_at_Cons is_digit_def unsigned_at_def [of "[]"])

lemma number_at_again: "number_at s \<noteq> [] \<Longrightarrow> number_text (number_at s)"
proof (cases "startswith s ''-''")
  case True
  assume "number_at s \<noteq> []"
  with True show ?thesis
    by (auto simp: number_text_def number_at_def [of s] number_at_Cons unsigned_at_idem split: if_splits)
next
  case False
  assume "number_at s \<noteq> []"
  with False have v: "number_at s = unsigned_at s" "unsigned_at s \<noteq> []" by (simp_all add: number_at_def)
  then have "\<not> startswith (unsigned_at s) ''-''" using unsigned_at_no_minus by (auto simp: startswith_iff)
  with v show ?thesis by (simp add: number_text_def number_at_def [of "unsigned_at s"] unsigned_at_idem)
qed

lemma number_text_show_int: "number_text (show_int i)"
proof -
  have "number_text (show_nat n) \<and> unsigned_at (show_nat n) = show_nat n" for n
  proof -
    have "list_all is_digit (show_nat n)" using show_nat_digits by (simp add: list_all_iff)
    moreover from this have "list_all number_char (show_nat n)" by (rule list.pred_mono_strong) (simp add: number_char_def)
    then have "takeWhile number_char (show_nat n) = show_nat n" by (simp add: list_all_iff)
    ultimately have "unsigned_at (show_nat n) = show_nat n" by (cases "show_nat n") (simp_all add: unsigned_at_def)
    then show ?thesis using unsigned_at_no_minus [of "show_nat n"]
      by (cases "show_nat n") (auto simp: number_text_def number_at_Cons)
  qed
  then show ?thesis by (auto simp: show_int_def number_text_def number_at_Cons)
qed

lemma blank_facts: "blank c \<Longrightarrow> \<not> number_char c" "\<not> number_char CHR '';''" "\<not> blank CHR '';''" "\<not> blank CHR ''@''"
    "\<not> type_char CHR ''=''" "is_digit c \<Longrightarrow> \<not> blank c" "is_alpha c \<Longrightarrow> \<not> blank c" "\<not> blank CHR ''-''"
  by (auto simp: blank_def number_char_def is_digit_def type_char_def is_alnum_def is_alpha_def lower_char_def Let_def)

lemma declare_parts_shape:
  assumes "declare_parts line = Some (head, w, v, rest)"
  shows "declare_shape head w rest \<and> number_text v \<and> line = head @ v @ rest"
proof -
  define s where "s = dropWhile blank line"
  define s1 where "s1 = dropWhile blank (drop 7 s)"
  define s2 where "s2 = drop (1 + length (takeWhile (\<lambda>c. \<not> blank c) (drop 1 s1))) s1"
  define s3 where "s3 = dropWhile blank s2"
  define s4 where "s4 = dropWhile type_char s3"
  define s5 where "s5 = dropWhile blank (drop 1 s4)"
  note folded = assms [unfolded declare_parts_def Let_def, folded s_def, folded s1_def, folded s2_def,
      folded s3_def, folded s4_def, folded s5_def]
  then have ok: "lower (take 7 s) = ''declare''" "word_before blank (drop 7 s)" "startswith s1 ''@''" "s2 \<noteq> []"
      "word_before is_alpha s3" "startswith s4 ''=''" "number_at s5 \<noteq> []" "startswith (dropWhile blank rest) '';''"
    and out: "head = take (length line - length s5) line" "w = takeWhile (\<lambda>c. \<not> blank c) (drop 1 s1)"
      "v = number_at s5" "rest = drop (length v) s5"
    by (auto split: if_splits)
  have s1': "s1 = ''@'' @ w @ s2"
    using ok(3) out(2) by (auto simp: s2_def startswith_iff dropWhile_eq_drop [symmetric])
  have s2': "s2 = dropWhile (\<lambda>c. \<not> blank c) (drop 1 s1)"
    by (simp add: s2_def dropWhile_eq_drop add.commute)
  have b2: "takeWhile blank s2 \<noteq> []"
    using ok(4) not_word_before_dropWhile [of "\<lambda>c. \<not> blank c" "drop 1 s1"] unfolding s2' [symmetric] by (cases s2) auto
  have line: "line = (takeWhile blank line @ take 7 s @ takeWhile blank (drop 7 s) @ ''@'' @ w @ takeWhile blank s2 @
      takeWhile type_char s3 @ ''='' @ takeWhile blank (drop 1 s4)) @ s5"
  proof -
    have "s4 = ''='' @ takeWhile blank (drop 1 s4) @ s5" using ok(6) by (auto simp: s5_def startswith_iff)
    then show ?thesis using s1' by (metis append.assoc append_take_drop_id s1_def s3_def s4_def s_def takeWhile_dropWhile_id)
  qed
  then have head: "head = takeWhile blank line @ take 7 s @ takeWhile blank (drop 7 s) @ ''@'' @ w @ takeWhile blank s2 @
      takeWhile type_char s3 @ ''='' @ takeWhile blank (drop 1 s4)"
    unfolding out(1) by (metis append_eq_conv_conj length_append add_diff_cancel_right')
  have "takeWhile blank (drop 7 s) \<noteq> []" using ok(2) by (cases "drop 7 s") auto
  moreover have "word_before is_alpha (takeWhile type_char s3)"
    using ok(5) by (cases s3) (auto simp: type_char_def is_alnum_def)
  moreover obtain more where "rest = takeWhile blank rest @ '';'' @ more"
    using ok(8) by (metis startswith_iff takeWhile_dropWhile_id)
  moreover have "list_all (\<lambda>c. \<not> blank c) w" using list_all_takeWhile [of "\<lambda>c. \<not> blank c" "drop 1 s1"] out(2) by simp
  ultimately have "declare_shape head w rest"
    unfolding declare_shape_def using head ok(1) b2 list_all_takeWhile by metis
  moreover have "s5 = v @ rest" using number_at_prefix [of s5] out(3,4) by simp
  ultimately show ?thesis using head line number_at_again [OF ok(7)] out(3) by simp
qed

lemma shape_declare_parts:
  assumes "declare_shape head w rest" "number_text v"
  shows "declare_parts (head @ v @ rest) = Some (head, w, v, rest)"
proof -
  from assms(1) obtain b0 d b1 b2 ty b3 b4 more where
    parts: "head = b0 @ d @ b1 @ ''@'' @ w @ b2 @ ty @ ''='' @ b3" "rest = b4 @ '';'' @ more" and
    ok: "list_all blank b0" "lower d = ''declare''" "list_all blank b1" "b1 \<noteq> []" "list_all (\<lambda>c. \<not> blank c) w"
      "list_all blank b2" "b2 \<noteq> []" "word_before is_alpha ty" "list_all type_char ty" "list_all blank b3" "list_all blank b4"
    unfolding declare_shape_def by blast
  have len: "length d = 7" using arg_cong [OF ok(2), of length] unfolding lower_def length_map by simp
  obtain d0 ds where d0: "d = d0 # ds" "lower_char d0 = CHR ''d''" using ok(2) by (cases d) (auto simp: lower_def)
  have "is_alpha CHR ''d''" by code_simp
  with d0 have "\<not> blank d0" using is_alpha_lower [of d0] blank_facts(7) by simp
  have hds: "\<not> word_before blank (d @ x)" "\<not> word_before (\<lambda>c. \<not> blank c) (b2 @ x)" "\<not> word_before blank (ty @ x)"
      "word_before blank (b1 @ x)" "word_before is_alpha (ty @ x)" for x
    using d0 \<open>\<not> blank d0\<close> ok(3,4,6,7,8) blank_facts(7) by (cases b1; cases b2; cases ty; simp)+
  have stop: "\<not> word_before number_char rest"
    using ok(11) blank_facts(1,2) by (cases b4) (auto simp: parts(2))
  have v: "\<not> word_before blank (v @ rest)"
    using assms(2) blank_facts(6,8)
    by (cases v) (auto simp: number_text_def number_at_Cons unsigned_at_Cons split: if_splits)
  let ?x4 = "''='' @ b3 @ v @ rest"
  let ?x1 = "''@'' @ w @ b2 @ ty @ ?x4"
  have steps: "dropWhile blank (b0 @ d @ b1 @ ?x1) = d @ b1 @ ?x1" "take 7 (d @ b1 @ ?x1) = d" "drop 7 (d @ b1 @ ?x1) = b1 @ ?x1"
      "dropWhile blank (b1 @ ?x1) = ?x1" "takeWhile (\<lambda>c. \<not> blank c) (w @ b2 @ ty @ ?x4) = w"
      "dropWhile blank (b2 @ ty @ ?x4) = ty @ ?x4" "dropWhile type_char (ty @ ?x4) = ?x4" "dropWhile blank (b3 @ v @ rest) = v @ rest"
      "dropWhile blank rest = '';'' @ more"
    using ok hds v len blank_facts(3,4,5) by (simp_all add: dropWhile_stop takeWhile_stop parts(2))
  show ?thesis
    using ok(2) hds steps(9) number_at_stop [OF assms(2) stop] assms(2) ok(7)
    by (simp add: parts(1) declare_parts_def Let_def steps [unfolded append_Cons append_Nil] len number_text_def)
qed

lemma number_text_no_break: "number_text v \<Longrightarrow> NL \<notin> set v"
proof -
  have "NL \<notin> set (takeWhile number_char s)" for s
    by (auto simp: NL_def number_char_def is_digit_def dest!: set_takeWhileD)
  then have "NL \<notin> set (unsigned_at s)" for s by (simp add: unsigned_at_def)
  then have "NL \<notin> set (number_at v)" by (auto simp: number_at_def NL_def)
  then show "number_text v \<Longrightarrow> ?thesis" by (simp add: number_text_def)
qed

lemma split_on_nonempty: "split_on d s \<noteq> []"
  by (induction s) (auto split: list.splits)

lemma split_on_no_sep: "l \<in> set (split_on d s) \<Longrightarrow> d \<notin> set l"
  by (induction s arbitrary: l) (auto split: if_splits list.splits)

lemma split_on_line: "d \<notin> set l \<Longrightarrow> split_on d l = [l] \<and> split_on d (l @ d # s) = l # split_on d s"
  by (induction l) auto

lemma split_on_join: "ls \<noteq> [] \<Longrightarrow> \<forall>l\<in>set ls. d \<notin> set l \<Longrightarrow> split_on d (join [d] ls) = ls"
  by (induction "[d]" ls rule: join.induct) (auto simp: split_on_line)

lemma declares_parts: "declares key line = Some (h, v, r) \<longleftrightarrow> (\<exists>w. declare_parts line = Some (h, w, v, r) \<and> lower w = lower key)"
  by (auto simp: declares_def split: option.splits if_splits)

lemma declares_set_line:
  assumes "number_text number"
  shows "declares k (set_line key number line) =
    (if lower k = lower key then map_option (\<lambda>(h, v, r). (h, number, r)) (declares k line) else declares k line)"
proof (cases "declares key line")
  case None
  then show ?thesis by (auto simp: set_line_def declares_def split: option.splits if_splits)
next
  case (Some p)
  obtain h v r where p: "p = (h, v, r)" by (cases p)
  with Some obtain w where w: "declare_parts line = Some (h, w, v, r)" "lower w = lower key" by (auto simp: declares_parts)
  have "declare_parts (h @ number @ r) = Some (h, w, number, r)"
    by (rule shape_declare_parts [OF declare_parts_shape [OF w(1), THEN conjunct1] assms])
  with w show ?thesis by (auto simp: set_line_def Some p declares_def)
qed

lemma set_line_no_break:
  assumes "NL \<notin> set line" "number_text number"
  shows "NL \<notin> set (set_line key number line)"
proof (cases "declares key line")
  case (Some p)
  obtain h v r where p: "p = (h, v, r)" by (cases p)
  with Some obtain w where "declare_parts line = Some (h, w, v, r)" by (auto simp: declares_parts)
  from declare_parts_shape [OF this] have "set line = set h \<union> set v \<union> set r" by auto
  with assms number_text_no_break show ?thesis by (auto simp: set_line_def Some p)
qed (use assms in \<open>simp add: set_line_def\<close>)

definition with_number :: "string \<Rightarrow> string \<Rightarrow> string \<Rightarrow> string" where
  "with_number key number source = join [NL] (map (set_line key number) (split_on NL source))"

lemma lines_with_number:
  "number_text number \<Longrightarrow> split_on NL (with_number key number source) = map (set_line key number) (split_on NL source)"
  unfolding with_number_def
  by (rule split_on_join) (use split_on_no_sep set_line_no_break in \<open>fastforce simp: split_on_nonempty\<close>)+

lemma found_with_number:
  assumes "number_text number"
  shows "found k (with_number key number source) =
    (if lower k = lower key then map (\<lambda>(h, v, r). (h, number, r)) (found k source) else found k source)"
  unfolding found_def lines_with_number [OF assms]
  by (simp add: map_filter_map declares_set_line [OF assms] map_filter_map_option)

definition plain_numbers :: "pydict \<Rightarrow> bool" where
  "plain_numbers settings = list_all (\<lambda>(k, v). case setting_number v of Inl e \<Rightarrow> True | Inr t \<Rightarrow> number_text t) settings"

lemma apply_step:
  assumes "apply_sql_settings source ((key, v) # settings) = Inr t"
  obtains number where "setting_number v = Inr number" "length (found key source) = 1"
    "apply_sql_settings (with_number key number source) settings = Inr t"
  using assms by (auto simp: rbind_eq_Inr with_number_def)

lemma found_other:
  assumes "apply_sql_settings source settings = Inr t" "plain_numbers settings" "lower k \<notin> (lower \<circ> fst) ` set settings"
  shows "found k t = found k source"
  using assms
proof (induction settings arbitrary: source)
  case (Cons s settings)
  obtain key v where s: "s = (key, v)" by (cases s)
  from Cons.prems(1) obtain number where step: "setting_number v = Inr number"
      "apply_sql_settings (with_number key number source) settings = Inr t"
    unfolding s by (rule apply_step)
  from Cons.prems(2) step(1) have "number_text number" "plain_numbers settings" by (auto simp: s plain_numbers_def)
  with Cons.IH [OF step(2)] Cons.prems(3) show ?case by (simp add: found_with_number s)
qed simp



subsection \<open>Where the substitution is not that of SQL*Plus\<close>

text \<open>
  A dot after the name ends it: \<^verbatim>\<open>&A.B\<close> is the value of \<^verbatim>\<open>A\<close> followed by \<^verbatim>\<open>B\<close>. The pattern takes the dot only when
  no name character follows it, so where the dot is needed it stays in the text.
\<close>

theorem dot_before_a_name_stays:
  "expand_sqlplus_defines ''&A.B'' [(''A'', ''x'')] = ''x.B'' \<and>
   expand_sqlplus_defines ''&A.'' [(''A'', ''x'')] = ''x''"
  by (intro conjI) code_simp+

text \<open>
  A defined name with a dollar sign is a name to both readers of the script, and its marker is never
  replaced: the dollar sign is an anchor in the pattern. The marker of the name without it is.
\<close>

theorem dollar_name_is_not_substituted:
  "marker_names ''&V$X'' = [''V$X''] \<and>
   expand_sqlplus_defines ''&V$X'' [(''V$X'', ''x'')] = ''&V$X'' \<and>
   expand_sqlplus_defines ''&V'' [(''V$'', ''x'')] = ''x''"
  by (intro conjI) code_simp+

text \<open>Two semicolons with a blank between them: the statement keeps one.\<close>

theorem second_semicolon_stays:
  "oracle_statement ''S;'' = ''S'' \<and> oracle_statement ''S; ;'' = ''S;''"
  by (intro conjI) code_simp+

end
