(* ===== verification/SqlParams.thy ===== *)
theory SqlParams
  imports SqlText
begin

section \<open>The parameters of a SQL task\<close>

text \<open>
  Models \<^verbatim>\<open>dbabrain/sql_tasks/runner_parameters.py\<close>: from the words an operator types to what a run binds
  (\<^verbatim>\<open>:name\<close>) and what it substitutes (\<^verbatim>\<open>&name\<close>). The declared parameters of a command are a list of
  objects. The shell splitting of the standard library and its JSON text are the arguments \<open>shlex\<close>,
  \<open>dumps\<close> and \<open>loads\<close>.
\<close>

definition POSITIONAL_PARAMETERS_KEY :: string where
  "POSITIONAL_PARAMETERS_KEY = ''=positional=''"

subsection \<open>The words of a command line\<close>

definition is_pair :: "string \<Rightarrow> (string \<times> string) option" where
  "is_pair item =
     (case partition_on (CHR ''='') item of
        Some (name, v) \<Rightarrow> if strip name = [] then None else Some (strip name, v)
      | None \<Rightarrow> None)"

fun argument_items :: "string list \<Rightarrow> pydict \<Rightarrow> string list \<Rightarrow> pydict \<times> string list" where
  "argument_items [] vals positional = (vals, positional)"
| "argument_items (item # items) vals positional =
     (if strip item = ''-'' then argument_items items vals positional
      else case is_pair item of
        None \<Rightarrow> argument_items items vals (positional @ [item])
      | Some (name, v) \<Rightarrow> argument_items items (upd name (PStr v) vals) positional)"

definition parse_parameter_arguments ::
  "(string \<Rightarrow> string list option) \<Rightarrow> (string list \<Rightarrow> string) \<Rightarrow> string list \<Rightarrow> string \<Rightarrow> param_error + pydict" where
  "parse_parameter_arguments shlex dumps pairs joined =
     rbind (if strip joined = [] then Inr [] else case shlex joined of None \<Rightarrow> Inl Bad_quoting | Some ws \<Rightarrow> Inr ws) (\<lambda>more.
       let (vals, positional) = argument_items (pairs @ more) [] [] in
       Inr (if positional \<noteq> [] then upd POSITIONAL_PARAMETERS_KEY (PStr (dumps positional)) vals else vals))"

definition declared_names :: "pydict list \<Rightarrow> string list" where
  "declared_names parameters = filter (\<lambda>n. n \<noteq> []) (map parameter_name parameters)"

definition without_key :: "string \<Rightarrow> pydict \<Rightarrow> pydict" where
  "without_key k d = filter (\<lambda>(k', v). k' \<noteq> k) d"

definition bind_parameter_values :: "(string \<Rightarrow> pyval list) \<Rightarrow> pydict list \<Rightarrow> pydict \<Rightarrow> param_error + pydict" where
  "bind_parameter_values loads parameters parameter_values =
     (let raw = get parameter_values POSITIONAL_PARAMETERS_KEY; vals = without_key POSITIONAL_PARAMETERS_KEY parameter_values in
      if \<not> truthy raw then Inr vals
      else
        let positional = (case raw of PStr s \<Rightarrow> loads s | _ \<Rightarrow> as_list raw);
            unfilled = filter (\<lambda>n. \<not> has_key vals n) (declared_names parameters) in
        if length unfilled < length positional then Inl Too_many_values
        else Inr (update_with vals (zip unfilled positional)))"

subsection \<open>What is bound and what is substituted\<close>

definition declared_parameters :: "pydict list \<Rightarrow> (string \<times> pydict) list" where
  "declared_parameters parameters = dict_of (map (\<lambda>p. (lower (parameter_name p), p)) parameters)"

definition supplied_values :: "pydict \<Rightarrow> pydict" where
  "supplied_values vals = dict_of (map (\<lambda>(n, v). (lower (strip n), v)) vals)"

definition undeclared :: "(string \<times> pydict) list \<Rightarrow> pydict \<Rightarrow> bool" where
  "undeclared declared supplied =
     (declared \<noteq> [] \<and> list_ex (\<lambda>(n, v). map_of declared n = None) supplied)"

fun legacy_values :: "pydict \<Rightarrow> (string \<times> pydict) list \<Rightarrow> (string \<times> string) list \<Rightarrow> param_error + (string \<times> string) list" where
  "legacy_values supplied [] out = Inr out"
| "legacy_values supplied ((name, p) # declared) out =
     (let given = (case map_of supplied name of None \<Rightarrow> [] | Some v \<Rightarrow> py_str v) in
      if strip given \<noteq> [] then
        rbind (check_sqlplus_define_value given) (\<lambda>_. legacy_values supplied declared (upd name given out))
      else if strip (str_or (get p ''default'')) \<noteq> [] then
        rbind (check_sqlplus_define_value (py_str (get p ''default''))) (\<lambda>_.
          legacy_values supplied declared (upd name (py_str (get p ''default'')) out))
      else if truthy (get_or p ''required'' (PBool False)) then Inl Missing_required
      else legacy_values supplied declared out)"

definition legacy_define_values :: "pydict list \<Rightarrow> pydict \<Rightarrow> param_error + (string \<times> string) list" where
  "legacy_define_values parameters parameter_values =
     (let declared = declared_parameters parameters; supplied = supplied_values parameter_values in
      if undeclared declared supplied then Inl Undeclared else legacy_values supplied declared [])"

definition run_value :: "pydict \<Rightarrow> string \<Rightarrow> pydict \<Rightarrow> param_error + pyval" where
  "run_value supplied name p =
     (let given = get supplied name in
      if given \<noteq> PNone \<and> strip (py_str given) \<noteq> [] then Inr given
      else if has_key p ''default'' then Inr (get p ''default'')
      else if truthy (get_or p ''required'' (PBool False)) then Inl Missing_required
      else Inr PNone)"

fun named_loop :: "pydict \<Rightarrow> string set \<Rightarrow> string set \<Rightarrow> (string \<times> pydict) list \<Rightarrow>
    (string \<times> string) list \<times> pydict \<Rightarrow> param_error + (string \<times> string) list \<times> pydict" where
  "named_loop supplied bound_here substituted_here [] out = Inr out"
| "named_loop supplied bound_here substituted_here ((name, p) # declared) (defines, named) =
     rbind (run_value supplied name p) (\<lambda>v.
       let named' = (if name \<in> bound_here then upd name v named else named) in
       if name \<in> substituted_here \<and> strip (if v = PNone then [] else py_str v) \<noteq> [] then
         rbind (check_sqlplus_define_value (py_str v)) (\<lambda>_.
           named_loop supplied bound_here substituted_here declared (upd name (py_str v) defines, named'))
       else named_loop supplied bound_here substituted_here declared (defines, named'))"

definition named_parameter_values ::
  "pydict list \<Rightarrow> pydict \<Rightarrow> string \<Rightarrow> string \<Rightarrow> param_error + (string \<times> string) list \<times> pydict" where
  "named_parameter_values parameters parameter_values source db_type =
     (let declared = declared_parameters parameters; supplied = supplied_values parameter_values in
      if undeclared declared supplied then Inl Undeclared
      else named_loop supplied (named_placeholders source db_type)
        (if db_type = ''oracle'' then sqlplus_substitution_names source else {}) declared ([], []))"

subsection \<open>A value is bound or checked\<close>

lemma named_loop_Cons:
  assumes "named_loop supplied bh sh ((name, p) # declared) (ds, ns) = Inr out"
  obtains v ds' where "run_value supplied name p = Inr v"
    "named_loop supplied bh sh declared (ds', if name \<in> bh then upd name v ns else ns) = Inr out"
    "ds' = ds \<or> name \<in> sh \<and> check_sqlplus_define_value (py_str v) = Inr () \<and> ds' = upd name (py_str v) ds"
  using assms by (auto simp: rbind_eq_Inr Let_def split: if_splits)

lemma named_loop_named:
  assumes "named_loop supplied bh sh declared (ds, ns) = Inr (defines, named)" "distinct (map fst declared)"
  shows "map_of named n = (case map_of declared n of
      Some p \<Rightarrow> if n \<in> bh then Some (projr (run_value supplied n p)) else map_of ns n | None \<Rightarrow> map_of ns n) \<and>
    (\<forall>(n, p) \<in> set declared. \<not> isl (run_value supplied n p))"
  using assms
proof (induction declared arbitrary: ds ns)
  case (Cons d declared)
  obtain name p where d: "d = (name, p)" by (cases d)
  from Cons.prems(1) obtain v ds' where v: "run_value supplied name p = Inr v"
      "named_loop supplied bh sh declared (ds', if name \<in> bh then upd name v ns else ns) = Inr (defines, named)"
    unfolding d by (rule named_loop_Cons)
  from Cons.prems(2) have "map_of declared name = None" "distinct (map fst declared)" by (auto simp: d map_of_eq_None_iff)
  with Cons.IH [OF v(2)] v(1) show ?case by (auto simp: d split: option.splits)
qed simp

lemma upd_member: "(k, v) \<in> set (upd k' v' d) \<Longrightarrow> (k, v) = (k', v') \<or> (k, v) \<in> set d"
  by (induction d) (auto split: if_splits)

lemma named_loop_defines:
  assumes "named_loop supplied bh sh declared (ds, ns) = Inr (defines, named)"
  shows "(n, t) \<in> set defines \<Longrightarrow> (n, t) \<in> set ds \<or> n \<in> sh \<and> check_sqlplus_define_value t = Inr ()"
  using assms
proof (induction declared arbitrary: ds ns)
  case (Cons d declared)
  obtain name p where d: "d = (name, p)" by (cases d)
  from Cons.prems(2) obtain v ds' where v:
      "named_loop supplied bh sh declared (ds', if name \<in> bh then upd name v ns else ns) = Inr (defines, named)"
      "ds' = ds \<or> name \<in> sh \<and> check_sqlplus_define_value (py_str v) = Inr () \<and> ds' = upd name (py_str v) ds"
    unfolding d by (rule named_loop_Cons)
  from Cons.IH [OF Cons.prems(1) v(1)] v(2) show ?case by (auto dest: upd_member)
qed simp

text \<open>C29: A run of a task on Oracle or PostgreSQL binds every declared parameter its SQL says as a placeholder - to
  the value given, else the declared default, else NULL - and nothing the SQL does not say; a value
  written into the SQL text is one that Oracle's script asks for by name and that was checked to
  hold no quote, comment or separator.\<close>

theorem task_values_are_bound_or_checked:
  assumes "named_parameter_values parameters vals source db_type = Inr (defines, named)"
  shows "(\<forall>n p. map_of (declared_parameters parameters) n = Some p \<longrightarrow> n \<in> named_placeholders source db_type \<longrightarrow>
      (\<exists>v. run_value (supplied_values vals) n p = Inr v \<and> map_of named n = Some v)) \<and>
    dom (map_of named) \<subseteq> named_placeholders source db_type \<inter> dom (map_of (declared_parameters parameters)) \<and>
    (\<forall>(n, t) \<in> set defines. db_type = ''oracle'' \<and> n \<in> sqlplus_substitution_names source \<and>
      check_sqlplus_define_value t = Inr ())"
proof -
  let ?sh = "if db_type = ''oracle'' then sqlplus_substitution_names source else {}"
  have loop: "named_loop (supplied_values vals) (named_placeholders source db_type) ?sh (declared_parameters parameters) ([], []) =
      Inr (defines, named)"
    using assms by (auto simp: named_parameter_values_def Let_def split: if_splits)
  have "distinct (map fst (declared_parameters parameters))" by (simp add: declared_parameters_def)
  note named = named_loop_named [OF loop this]
  have "map_of named n = Some v \<and> run_value (supplied_values vals) n p = Inr v"
    if "map_of (declared_parameters parameters) n = Some p" "n \<in> named_placeholders source db_type"
      "v = projr (run_value (supplied_values vals) n p)" for n p v
    using named [of n] that map_of_SomeD [OF that(1)] by (cases "run_value (supplied_values vals) n p") auto
  moreover have "dom (map_of named) \<subseteq> named_placeholders source db_type \<inter> dom (map_of (declared_parameters parameters))"
    using named by (force split: option.splits if_splits)
  moreover have "db_type = ''oracle'' \<and> n \<in> sqlplus_substitution_names source \<and> check_sqlplus_define_value t = Inr ()"
    if "(n, t) \<in> set defines" for n t
    using named_loop_defines [OF loop that] by (auto split: if_splits)
  ultimately show ?thesis by blast
qed

theorem task_values_are_bound_or_checked_witness:
  "named_parameter_values [[(''name'', PStr ''a'')]] [(''A'', PStr ''x'')] ''=:a'' ''oracle'' = Inr ([], [(''a'', PStr ''x'')]) \<and>
   (\<exists>v. run_value (supplied_values [(''A'', PStr ''x'')]) ''a'' [(''name'', PStr ''a'')] = Inr v \<and>
     map_of [(''a'', PStr ''x'')] ''a'' = Some v)"
proof
  show run: "named_parameter_values [[(''name'', PStr ''a'')]] [(''A'', PStr ''x'')] ''=:a'' ''oracle'' = Inr ([], [(''a'', PStr ''x'')])"
    by code_simp
  have "map_of (declared_parameters [[(''name'', PStr ''a'')]]) ''a'' = Some [(''name'', PStr ''a'')]"
    "''a'' \<in> named_placeholders ''=:a'' ''oracle''"
    by code_simp+
  with task_values_are_bound_or_checked [OF run]
  show "\<exists>v. run_value (supplied_values [(''A'', PStr ''x'')]) ''a'' [(''name'', PStr ''a'')] = Inr v \<and>
      map_of [(''a'', PStr ''x'')] ''a'' = Some v"
    by blast
qed

subsection \<open>Values without a name\<close>

definition bare_words :: "string list \<Rightarrow> string list" where
  "bare_words items = filter (\<lambda>i. strip i \<noteq> ''-'' \<and> is_pair i = None) items"

definition named_word :: "string \<Rightarrow> (string \<times> pyval) option" where
  "named_word i = (if strip i = ''-'' then None else map_option (\<lambda>(n, v). (n, PStr v)) (is_pair i))"

definition named_words :: "string list \<Rightarrow> pydict" where
  "named_words items = dict_of (List.map_filter named_word items)"

lemma argument_items_words:
  "argument_items items vals positional = (update_with vals (List.map_filter named_word items), positional @ bare_words items)"
  by (induction items arbitrary: vals positional)
    (auto simp: bare_words_def map_filter_simps update_with_def named_word_def split: option.splits)

lemma argument_items_start: "argument_items items [] [] = (named_words items, bare_words items)"
  by (simp add: argument_items_words dict_of_def named_words_def update_with_def)

lemma partition_on_no_sep: "partition_on d s = Some (a, b) \<Longrightarrow> d \<notin> set a"
  by (induction s arbitrary: a b) (auto split: if_splits)

lemma set_strip: "set (strip s) \<subseteq> set s"
  by (auto simp: strip_def dest!: set_dropWhileD)

lemma positional_key_is_no_name: "map_of (named_words items) POSITIONAL_PARAMETERS_KEY = None"
proof -
  have "CHR ''='' \<notin> set k" if "is_pair i = Some (k, v)" for i k v
    using that by (auto simp: is_pair_def split: option.splits if_splits dest!: partition_on_no_sep set_strip [THEN subsetD])
  then have "CHR ''='' \<notin> set k" if "named_word i = Some (k, v)" for i k v
    using that by (auto simp: named_word_def split: if_splits)
  then have "POSITIONAL_PARAMETERS_KEY \<notin> fst ` set (List.map_filter named_word items)"
    by (fastforce simp: List.map_filter_def POSITIONAL_PARAMETERS_KEY_def)
  then show ?thesis by (simp add: named_words_def map_of_dict_of map_of_eq_None_iff)
qed

lemma without_key_upd: "map_of d k = None \<Longrightarrow> without_key k (upd k v d) = d \<and> without_key k d = d"
  by (induction d) (auto simp: without_key_def split: if_splits)

lemma map_of_update_zip:
  assumes "length ys \<le> length xs" "distinct xs"
  shows "map_of (update_with d (zip xs ys)) = map_of d ++ map_of (zip xs ys)"
proof -
  have "distinct (map fst (zip xs ys))" using assms by (simp add: map_fst_zip_take)
  then have "map_of (rev (zip xs ys)) = map_of (zip xs ys)" by (intro iffD2 [OF map_of_inject_set]) (simp_all add: rev_map [symmetric])
  then show ?thesis by (simp add: map_of_update_with)
qed

text \<open>No value an operator types is lost on its way to the task. A word with a name is that name's value; the
  words without one fill, in order, the declared parameters that were given none; and a word with
  no parameter left for it is refused.\<close>

theorem bare_words_fill_in_order:
  assumes "parse_parameter_arguments shlex dumps items [] = Inr args"
    and "distinct (declared_names parameters)"
    and json: "\<And>xs. xs \<noteq> [] \<Longrightarrow> loads (dumps xs) = map PStr xs \<and> dumps xs \<noteq> []"
  shows "let unfilled = filter (\<lambda>n. map_of (named_words items) n = None) (declared_names parameters) in
    if length unfilled < length (bare_words items) then bind_parameter_values loads parameters args = Inl Too_many_values
    else \<exists>out. bind_parameter_values loads parameters args = Inr out \<and>
      map_of out = map_of (named_words items) ++ map_of (zip unfilled (map PStr (bare_words items)))"
proof -
  note key = positional_key_is_no_name [of items]
  let ?un = "filter (\<lambda>n. map_of (named_words items) n = None) (declared_names parameters)"
  have args: "args = (if bare_words items \<noteq> [] then upd POSITIONAL_PARAMETERS_KEY (PStr (dumps (bare_words items))) (named_words items) else named_words items)"
    using assms(1) by (simp add: parse_parameter_arguments_def argument_items_start cong: if_cong)
  show ?thesis
  proof (cases "bare_words items = []")
    case True
    with args key show ?thesis by (auto simp: bind_parameter_values_def get_def without_key_upd Let_def)
  next
    case False
    have "get args POSITIONAL_PARAMETERS_KEY = PStr (dumps (bare_words items))" using args False by (simp add: get_def)
    moreover have "without_key POSITIONAL_PARAMETERS_KEY args = named_words items" using args False key by (simp add: without_key_upd)
    moreover have "(\<lambda>n. \<not> has_key (named_words items) n) = (\<lambda>n. map_of (named_words items) n = None)" by (simp add: has_key_def)
    moreover have "distinct ?un" using assms(2) by simp
    ultimately show ?thesis
      using json [OF False] map_of_update_zip [of "map PStr (bare_words items)" ?un "named_words items"]
      by (simp add: bind_parameter_values_def Let_def)
  qed
qed

text \<open>A text of a list of words that is read back: every character marked, every word ended.\<close>

definition mark_words :: "string list \<Rightarrow> string" where
  "mark_words ws = concat (map (\<lambda>w. concat (map (\<lambda>c. [CHR ''c'', c]) w) @ ''.'') ws)"

fun read_words :: "string \<Rightarrow> string \<Rightarrow> pyval list" where
  "read_words w [] = []"
| "read_words w [x] = [PStr w]"
| "read_words w (x # c # s) = (if x = CHR ''c'' then read_words (w @ [c]) s else PStr w # read_words [] (c # s))"

lemma read_marked: "read_words w (concat (map (\<lambda>c. [CHR ''c'', c]) v) @ CHR ''.'' # s) = PStr (w @ v) # read_words [] s"
proof (induction v arbitrary: w)
  case Nil
  then show ?case by (cases s) auto
qed simp

lemma read_words_mark: "ws \<noteq> [] \<Longrightarrow> read_words [] (mark_words ws) = map PStr ws \<and> mark_words ws \<noteq> []"
proof -
  have "read_words [] (mark_words ws) = map PStr ws" by (induction ws) (simp_all add: mark_words_def read_marked)
  then show "ws \<noteq> [] \<Longrightarrow> ?thesis" by (auto simp: mark_words_def neq_Nil_conv)
qed

theorem bare_words_fill_in_order_witness:
  "\<exists>args out. parse_parameter_arguments (\<lambda>s. None) mark_words [''b=2'', ''7''] [] = Inr args \<and>
    bind_parameter_values (read_words []) [[(''name'', PStr ''a'')], [(''name'', PStr ''b'')]] args = Inr out \<and>
    map_of out ''a'' = Some (PStr ''7'') \<and> map_of out ''b'' = Some (PStr ''2'')"
proof -
  let ?ps = "[[(''name'', PStr ''a'')], [(''name'', PStr ''b'')]]"
  have names: "declared_names ?ps = [''a'', ''b'']" "named_words [''b=2'', ''7''] = [(''b'', PStr ''2'')]" "bare_words [''b=2'', ''7''] = [''7'']"
    by code_simp+
  obtain args where args: "parse_parameter_arguments (\<lambda>s. None) mark_words [''b=2'', ''7''] [] = Inr args"
    by (simp add: parse_parameter_arguments_def argument_items_start)
  from bare_words_fill_in_order [OF args, of ?ps "read_words []"] read_words_mark
  obtain out where "bind_parameter_values (read_words []) ?ps args = Inr out"
      "map_of out = map_of [(''b'', PStr ''2'')] ++ map_of (zip [''a''] [PStr ''7''])"
    unfolding names by auto
  with args show ?thesis by (intro exI [of _ args] exI [of _ out]) simp
qed

subsection \<open>A name in another case\<close>

text \<open>
  The values typed without a name look for the declared names as they are spelled; the run itself
  ignores case. A value given under another spelling is then replaced by a bare one, and nothing says so.
\<close>

theorem value_under_another_case_is_lost:
  "\<exists>vals. bind_parameter_values loads [[(''name'', PStr ''job'')]]
      [(''JOB'', PStr ''5''), (POSITIONAL_PARAMETERS_KEY, PList [PStr ''7''])] = Inr vals \<and>
    named_parameter_values [[(''name'', PStr ''job'')]] vals '':job'' ''oracle'' = Inr ([], [(''job'', PStr ''7'')])"
proof (intro exI conjI)
  show "bind_parameter_values loads [[(''name'', PStr ''job'')]]
      [(''JOB'', PStr ''5''), (POSITIONAL_PARAMETERS_KEY, PList [PStr ''7''])] = Inr [(''JOB'', PStr ''5''), (''job'', PStr ''7'')]"
    by code_simp
  show "named_parameter_values [[(''name'', PStr ''job'')]] [(''JOB'', PStr ''5''), (''job'', PStr ''7'')] '':job'' ''oracle'' =
      Inr ([], [(''job'', PStr ''7'')])"
    by code_simp
qed

end
