(* ===== verification/DaemonLife.thy ===== *)
theory DaemonLife
  imports Scheduler
begin

section \<open>The life of a daemon\<close>

text \<open>
  Models the rest of the control of \<^verbatim>\<open>dbabrain/jobs/daemon.py\<close>: the recovery of open rows at start-up
  (\<^verbatim>\<open>recover_stale_running_jobs\<close>), the closing of its own rows at a stop (\<^verbatim>\<open>close_running_on_shutdown\<close>),
  the throttled sweep of old rows and the loop of \<^verbatim>\<open>main\<close> around the scan of \<open>Scheduler\<close>.

  The world is the one of the scan. What is outside is the record \<open>outside\<close> of the scan and, for the
  recovery, which processes of this host are alive. The metadata of a row is the decoded document.
\<close>

subsection \<open>Recovery at start-up\<close>

record recovery =
  closed_rows :: int
  fresh_crashes :: "(string \<times> instant \<times> int) list"
  backlog :: int

definition no_recovery :: recovery where
  "no_recovery = \<lparr>closed_rows = 0, fresh_crashes = [], backlog = 0\<rparr>"

definition STALE_RECOVERY_ALERT_MAX_AGE_SECONDS :: int where
  "STALE_RECOVERY_ALERT_MAX_AGE_SECONDS = 24 * 3600"

definition is_open :: "run_row \<Rightarrow> bool" where
  "is_open r = (lower (rw_status r) = ''running'')"

definition fetch_running_job_runs :: "daemon \<Rightarrow> run_row list" where
  "fetch_running_job_runs d = filter is_open (runs d)"

definition seconds_since :: "instant \<Rightarrow> instant \<Rightarrow> int" where
  "seconds_since now t = (let us = now - t in if 0 \<le> us then us div 1000000 else - ((- us) div 1000000))"

definition row_verdict :: "outside \<Rightarrow> (int \<Rightarrow> bool) \<Rightarrow> app_command \<Rightarrow> int \<Rightarrow> run_row \<Rightarrow> reap_verdict" where
  "row_verdict env alive c elapsed r =
     (let owner = claim_owner (rw_metadata r) (strip (rw_host r)) in
      startup_verdict (rw_metadata r) (o_host env) (of_int elapsed)
        (if timeout_disabled c then 0 else of_int (timeout_seconds c))
        (case fst owner of Some pid \<Rightarrow> (if snd owner = o_host env then Some (alive pid) else None) | None \<Rightarrow> None)
        FOREIGN_HOST_GRACE_SECONDS (o_node env) (strip (rw_host r)))"

text \<open>A row of a command that is no longer configured, left by this node's daemon.\<close>

definition left_by_removed :: "outside \<Rightarrow> run_row \<Rightarrow> bool" where
  "left_by_removed env r =
     (let claimed_by = claim_node (rw_metadata r); code = strip (rw_job_code r) in
      \<not> (claimed_by \<noteq> [] \<and> claimed_by \<noteq> o_node env) \<and> code \<noteq> [] \<and> str_or (get (rw_metadata r) ''app_command_id'') = code)"

definition close_removed :: "outside \<Rightarrow> run_row \<Rightarrow> (daemon, exn, unit) act" where
  "close_removed env r =
     update_job_run (o_update env (rw_log_id r)) (rw_log_id r) ''error'' ''timeout''
       (''App command '' @ strip (rw_job_code r) @
        '' recovered from a RUNNING state on daemon startup: it is no longer in app_commands.json.'')
       (o_scan_clock env) None [(''stale_recovery'', PBool True), (''app_command_removed'', PBool True)]"

definition close_stale :: "outside \<Rightarrow> app_command \<Rightarrow> int \<Rightarrow> run_row \<Rightarrow> (daemon, exn, unit) act" where
  "close_stale env c elapsed r =
     update_job_run (o_update env (rw_log_id r)) (rw_log_id r) ''error'' ''timeout''
       (''App command '' @ strip (rw_job_code r) @ '' recovered from stale RUNNING state on daemon startup after '' @
        show_int elapsed @ ''s (timeout='' @ show_int (timeout_seconds c) @ ''s).'')
       (o_scan_clock env) None
       (app_command_metadata c [(''stale_recovery'', PBool True), (''elapsed_seconds'', PInt elapsed),
          (''timeout_seconds'', PInt (timeout_seconds c))])"

definition counted :: "app_command \<Rightarrow> instant \<Rightarrow> int \<Rightarrow> recovery \<Rightarrow> recovery" where
  "counted c started elapsed acc =
     (let acc' = acc\<lparr>closed_rows := closed_rows acc + 1\<rparr> in
      if \<not> timeout_disabled c \<and> elapsed \<le> STALE_RECOVERY_ALERT_MAX_AGE_SECONDS
      then acc'\<lparr>fresh_crashes := fresh_crashes acc @ [(ac_id c, started, elapsed div 60)]\<rparr> else acc'\<lparr>backlog := backlog acc + 1\<rparr>)"

definition recover_one ::
  "outside \<Rightarrow> (int \<Rightarrow> bool) \<Rightarrow> string option \<Rightarrow> app_command list \<Rightarrow> recovery \<Rightarrow> run_row \<Rightarrow> (daemon, exn, recovery) act" where
  "recover_one env alive role cs acc r =
     (case List.find (\<lambda>c. ac_id c = strip (rw_job_code r)) cs of
        None \<Rightarrow>
          if left_by_removed env r
          then bnd (attempted (close_removed env r)) (\<lambda>res. ret (case res of Inl e \<Rightarrow> acc | Inr u \<Rightarrow> acc\<lparr>closed_rows := closed_rows acc + 1\<rparr>))
          else ret acc
      | Some c \<Rightarrow>
          if role \<noteq> None \<and> \<not> command_runs_on_node c (the role) then ret acc
          else case run_anchor (o_fromiso env) (Some (row_dict env r)) of
            None \<Rightarrow> ret acc
          | Some started \<Rightarrow>
              let elapsed = seconds_since (o_scan_clock env) started in
              if reap (row_verdict env alive c elapsed r)
              then bnd (close_stale env c elapsed r) (\<lambda>_. ret (counted c started elapsed acc))
              else ret acc)"

definition recover_stale_running_jobs ::
  "outside \<Rightarrow> (int \<Rightarrow> bool) \<Rightarrow> string option \<Rightarrow> app_command list \<Rightarrow> (daemon, exn, recovery) act" where
  "recover_stale_running_jobs env alive role cs d =
     loop (recover_one env alive role cs) no_recovery (fetch_running_job_runs d) d"

text \<open>The alert, when there is one: how many crashes are recent, the ones it names, the older rows.\<close>

definition alert_stale_recovery :: "recovery \<Rightarrow> (int \<times> (string \<times> instant \<times> int) list \<times> int) option" where
  "alert_stale_recovery t =
     (if fresh_crashes t = [] then None
      else Some (int (length (fresh_crashes t)), take 10 (fresh_crashes t), backlog t))"

subsection \<open>Shutdown\<close>

definition close_own :: "outside \<Rightarrow> string \<Rightarrow> int \<Rightarrow> string \<times> running_command \<Rightarrow> (daemon, exn, int) act" where
  "close_own env why n slot d =
     (let ru = snd slot; c = ru_command ru;
          stopped = d\<lparr>children := filter (\<lambda>(p, _). p \<noteq> ru_pid ru) (children d)\<rparr> in
      bnd (attempted (update_job_run (o_update env (ru_log_id ru)) (ru_log_id ru) ''logging'' ''timeout''
             (''App command '' @ ac_id c @ '' was interrupted: the daemon stopped ('' @ why @ ''). It resumes on the next scan.'')
             (o_scan_clock env) None (app_command_metadata c [(''shutdown'', PBool True), (''reason'', PStr why)])))
        (\<lambda>res. ret (case res of Inl e \<Rightarrow> n | Inr u \<Rightarrow> n + 1)) stopped)"

definition close_running_on_shutdown :: "outside \<Rightarrow> string \<Rightarrow> (daemon, exn, int) act" where
  "close_running_on_shutdown env why d = loop (close_own env why) 0 (running d) d"

subsection \<open>The loop of the daemon\<close>

text \<open>
  What the loop does when a pass raises: a locked SQLite file is retried for ever with a growing
  pause, a store outage within its budget, anything else ends the daemon.
\<close>

record loop_state =
  lock_retries :: int
  store_waiter :: outage_waiter

definition new_loop :: loop_state where
  "new_loop = \<lparr>lock_retries = 0, store_waiter = new_waiter\<rparr>"

definition pass_done :: "loop_state \<Rightarrow> loop_state" where
  "pass_done s = \<lparr>lock_retries = 0, store_waiter = recovered (store_waiter s)\<rparr>"

definition pass_raised :: "exn \<Rightarrow> loop_state \<Rightarrow> int option \<times> loop_state" where
  "pass_raised e s =
     (if ex_sqlite e then
        (if contains (lower (ex_text e)) ''database is locked''
         then (Some (min 30 ((lock_retries s + 1) * 2)), s\<lparr>lock_retries := lock_retries s + 1\<rparr>)
         else (None, s))
      else let (wait, w) = wait_for e (store_waiter s) in (wait, s\<lparr>store_waiter := w\<rparr>))"

datatype life = Up loop_state daemon | Down int daemon

text \<open>From the rows found at start-up to the first pass, and then a pass at a time; a stop may come between two.\<close>

definition started_life ::
  "outside \<Rightarrow> (int \<Rightarrow> bool) \<Rightarrow> string option \<Rightarrow> app_command list \<Rightarrow> daemon \<Rightarrow> life" where
  "started_life env alive role cs d =
     (case recover_stale_running_jobs env alive role cs d of
        (Inl e, d') \<Rightarrow> Down 1 d' | (Inr t, d') \<Rightarrow> Up new_loop d')"

definition pass_life :: "outside \<Rightarrow> string \<Rightarrow> app_command list \<Rightarrow> loop_state \<Rightarrow> daemon \<Rightarrow> life" where
  "pass_life env node cs s d =
     (case run_scheduler_scan env False node cs d of
        (Inr u, d') \<Rightarrow> Up (pass_done s) d'
      | (Inl e, d') \<Rightarrow> (case pass_raised e s of (None, s') \<Rightarrow> Down 1 d' | (Some wait, s') \<Rightarrow> Up s' d'))"

inductive life_step :: "string \<Rightarrow> app_command list \<Rightarrow> life \<Rightarrow> life \<Rightarrow> bool" for node cs where
  passed: "life_step node cs (Up s d) (pass_life env node cs s d)"
| others: "daemon_step cs d d' \<Longrightarrow> life_step node cs (Up s d) (Up s d')"
| stopped: "life_step node cs (Up s d) (Down 0 (snd (close_running_on_shutdown env why d)))"

inductive_cases life_stepE: "life_step node cs (Up s d) l"

subsection \<open>The sweep of old rows\<close>

definition JOB_RUNS_SWEEP_INTERVAL_SECONDS :: int where
  "JOB_RUNS_SWEEP_INTERVAL_SECONDS = 300"

text \<open>The last sweep is \<open>None\<close> before the first; \<open>archive\<close> is the answer of the store, \<open>None\<close> when it raised.\<close>

definition sweep_job_runs_history :: "int option \<Rightarrow> int \<Rightarrow> rat \<Rightarrow> rat option \<Rightarrow> int \<times> rat option" where
  "sweep_job_runs_history archive interval moment last_swept_at =
     (case last_swept_at of
        Some t \<Rightarrow> if moment - t < of_int interval then (0, last_swept_at)
                  else (case archive of None \<Rightarrow> 0 | Some moved \<Rightarrow> moved, Some moment)
      | None \<Rightarrow> (case archive of None \<Rightarrow> 0 | Some moved \<Rightarrow> moved, Some moment))"

subsection \<open>What recovery closes\<close>

definition reaped :: "outside \<Rightarrow> (int \<Rightarrow> bool) \<Rightarrow> string option \<Rightarrow> app_command list \<Rightarrow> run_row \<Rightarrow> bool" where
  "reaped env alive role cs r =
     (case List.find (\<lambda>c. ac_id c = strip (rw_job_code r)) cs of
        None \<Rightarrow> left_by_removed env r
      | Some c \<Rightarrow>
          (role = None \<or> command_runs_on_node c (the role)) \<and>
          (case run_anchor (o_fromiso env) (Some (row_dict env r)) of
             None \<Rightarrow> False
           | Some started \<Rightarrow> reap (row_verdict env alive c (seconds_since (o_scan_clock env) started) r)))"

text \<open>Row \<open>x\<close> after the update of row \<open>lid\<close>: closed as a timeout at the clock of the pass.\<close>

definition timed_out_at :: "outside \<Rightarrow> run_row \<Rightarrow> run_row \<Rightarrow> bool" where
  "timed_out_at env x x' =
     (\<exists>level msg md. x' = close_row level ''timeout'' msg (o_scan_clock env) None md x)"

definition closes :: "outside \<Rightarrow> int \<Rightarrow> bool \<Rightarrow> daemon \<Rightarrow> daemon \<Rightarrow> bool" where
  "closes env lid b d d' =
     (list_all2 (\<lambda>x x'. if b \<and> rw_log_id x = lid then timed_out_at env x x' else x' = x) (runs d) (runs d'))"

lemma timed_out_at_close [simp]: "timed_out_at env x (close_row level ''timeout'' msg (o_scan_clock env) None md x)"
  by (auto simp: timed_out_at_def)

lemma timed_out_at_facts:
  assumes "timed_out_at env x x'"
  shows "rw_log_id x' = rw_log_id x" "rw_status x' = ''timeout''" "rw_finished x' = Some (o_scan_clock env)"
    "rw_claim_key x' = rw_claim_key x" "rw_host x' = rw_host x" "rw_job_code x' = rw_job_code x" "\<not> is_open x'" "\<not> holds_claim x'"
  using assms by (auto simp: timed_out_at_def close_row_def is_open_def holds_claim_def lower_def lower_char_def)

lemma closes_refl [simp]: "closes env lid False d d"
  by (simp add: closes_def list_all2_refl)

lemma update_closes:
  assumes "update_job_run raised lid level ''timeout'' msg (o_scan_clock env) None md d = (res, d')"
  shows "closes env lid (raised = None) d d' \<and> running d' = running d \<and> children d' = children d"
  using assms by (auto simp: update_job_run_def closes_def list_all2_map2 intro!: list_all2_refl split: option.splits)

lemma recover_one_closes:
  assumes "recover_one env alive role cs acc r d = (res, d')"
  shows "closes env (rw_log_id r) (reaped env alive role cs r \<and> o_update env (rw_log_id r) = None) d d' \<and>
    running d' = running d \<and> children d' = children d"
proof (cases "List.find (\<lambda>c. ac_id c = strip (rw_job_code r)) cs")
  case None
  show ?thesis
  proof (cases "left_by_removed env r")
    case True
    obtain u d'' where up: "close_removed env r d = (u, d'')" by fastforce
    with assms None True have "d' = d''" by (simp add: recover_one_def bnd_def attempted_def ret_def)
    with update_closes [OF up [unfolded close_removed_def]] None True show ?thesis by (simp add: reaped_def)
  next
    case False
    with assms None show ?thesis by (auto simp: recover_one_def ret_def reaped_def)
  qed
next
  case (Some c)
  show ?thesis
  proof (cases "(role = None \<or> command_runs_on_node c (the role)) \<and> run_anchor (o_fromiso env) (Some (row_dict env r)) \<noteq> None")
    case True
    then obtain started where anchor: "run_anchor (o_fromiso env) (Some (row_dict env r)) = Some started" by auto
    let ?e = "seconds_since (o_scan_clock env) started"
    obtain u d'' where up: "close_stale env c ?e r d = (u, d'')" by fastforce
    note closed = update_closes [OF up [unfolded close_stale_def]]
    show ?thesis
    proof (cases "reap (row_verdict env alive c ?e r)")
      case reap: True
      with assms Some True anchor up have "d' = d''"
        by (cases u) (auto simp: recover_one_def Let_def bnd_def ret_def)
      with closed Some True anchor reap show ?thesis by (simp add: reaped_def)
    next
      case False
      with assms Some True anchor show ?thesis by (auto simp: recover_one_def Let_def ret_def reaped_def)
    qed
  next
    case False
    with assms Some show ?thesis by (auto simp: recover_one_def Let_def ret_def reaped_def split: option.splits)
  qed
qed

text \<open>A row after a pass over \<open>rs\<close>: as it was, or closed because the pass found it dead.\<close>

definition settled_by ::
  "outside \<Rightarrow> (run_row \<Rightarrow> bool) \<Rightarrow> bool \<Rightarrow> run_row list \<Rightarrow> run_row \<Rightarrow> run_row \<Rightarrow> bool" where
  "settled_by env P whole rs x x' =
     (x' = x \<and> (whole \<longrightarrow> (\<forall>r\<in>set rs. rw_log_id r = rw_log_id x \<longrightarrow> \<not> (P r \<and> o_update env (rw_log_id r) = None))) \<or>
      (\<exists>r\<in>set rs. rw_log_id r = rw_log_id x \<and> P r \<and> timed_out_at env x x'))"

lemma settled_by_step:
  assumes "if b \<and> rw_log_id x = rw_log_id r then timed_out_at env x y else y = x"
    and "b = (P r \<and> o_update env (rw_log_id r) = None)"
    and "settled_by env P whole rs y z" "rw_log_id r \<notin> rw_log_id ` set rs"
  shows "settled_by env P whole (r # rs) x z"
  using assms timed_out_at_facts(1) [of env x y]
  by (auto simp: settled_by_def image_iff split: if_splits)

lemma list_all2_compose:
  "list_all2 R xs ys \<Longrightarrow> list_all2 S ys zs \<Longrightarrow> (\<And>x y z. R x y \<Longrightarrow> S y z \<Longrightarrow> T x z) \<Longrightarrow> list_all2 T xs zs"
  by (rule list_all2_trans) auto

lemma recovery_loop_settles:
  assumes "loop (recover_one env alive role cs) acc rs d = (res, d')" "distinct (map rw_log_id rs)"
  shows "list_all2 (settled_by env (reaped env alive role cs) (\<not> isl res) rs) (runs d) (runs d')"
  using assms
proof (induction rs arbitrary: acc d)
  case Nil
  then show ?case by (auto simp: ret_def settled_by_def intro!: list_all2_refl)
next
  case (Cons r rs)
  obtain res1 d1 where one: "recover_one env alive role cs acc r d = (res1, d1)" by fastforce
  note first = recover_one_closes [OF one, THEN conjunct1, unfolded closes_def]
  show ?case
  proof (cases res1)
    case (Inl e)
    with Cons.prems(1) one have "res = Inl e" "d' = d1" by (simp_all add: bnd_def)
    with first show ?thesis
      by (auto simp: settled_by_def elim!: list_all2_mono split: if_splits)
  next
    case (Inr acc1)
    with Cons.prems(1) one have "loop (recover_one env alive role cs) acc1 rs d1 = (res, d')" by (simp add: bnd_def)
    from Cons.IH [OF this] Cons.prems(2)
    have rest: "list_all2 (settled_by env (reaped env alive role cs) (\<not> isl res) rs) (runs d1) (runs d')" by simp
    from Cons.prems(2) have "rw_log_id r \<notin> rw_log_id ` set rs" by simp
    from list_all2_compose [OF first rest settled_by_step [OF _ refl _ this]] show ?thesis .
  qed
qed

lemma recovery_settles:
  assumes "recover_stale_running_jobs env alive role cs d = (res, d')" "distinct (map rw_log_id (runs d))"
  shows "list_all2 (settled_by env (reaped env alive role cs) (\<not> isl res) (filter is_open (runs d))) (runs d) (runs d')"
  by (rule recovery_loop_settles [OF assms(1) [unfolded recover_stale_running_jobs_def fetch_running_job_runs_def]])
    (simp add: assms(2) distinct_map_filter)

lemma same_row: "distinct (map rw_log_id rs) \<Longrightarrow> x \<in> set rs \<Longrightarrow> y \<in> set rs \<Longrightarrow> rw_log_id x = rw_log_id y \<Longrightarrow> x = y"
  by (auto simp: distinct_map inj_on_def)

text \<open>A row of the table after recovery, by the verdict on it.\<close>

lemma recovered_row:
  assumes "recover_stale_running_jobs env alive role cs d = (res, d')" "distinct (map rw_log_id (runs d))" "r \<in> set (runs d)"
  shows "\<exists>r' \<in> set (runs d'). if is_open r \<and> reaped env alive role cs r \<and> o_update env (rw_log_id r) = None \<and> \<not> isl res
      then timed_out_at env r r' else r' = r \<or> is_open r \<and> reaped env alive role cs r \<and> timed_out_at env r r'"
proof -
  from recovery_settles [OF assms(1,2)] assms(3)
  obtain r' where r': "r' \<in> set (runs d')" "settled_by env (reaped env alive role cs) (\<not> isl res) (filter is_open (runs d)) r r'"
    by (metis in_set_conv_nth list_all2_conv_all_nth)
  have "x = r" if "x \<in> set (filter is_open (runs d))" "rw_log_id x = rw_log_id r" for x
    using that assms(2,3) by (intro same_row [of "runs d"]) auto
  with r' assms(3) show ?thesis by (intro bexI [of _ r']) (auto simp: settled_by_def split: if_splits)
qed

lemma verdict_here:
  assumes "claim_owner (rw_metadata r) (strip (rw_host r)) = (Some pid, o_host env)"
  shows "reap (row_verdict env alive c elapsed r) = (\<not> alive pid)"
  using assms by (simp add: row_verdict_def startup_verdict_def)

text \<open>C12: The recovery at start-up frees exactly what is dead on this host. An open row of a command of this node
  that was claimed by a process of this host is left untouched while that process is alive; when it
  is gone, the row is closed as a timeout and the command's claim is released.\<close>

theorem recovery_frees_exactly_the_dead:
  assumes "recover_stale_running_jobs env alive role cs d = (Inr t, d')" "distinct (map rw_log_id (runs d))"
    and "r \<in> set (runs d)" "is_open r" "List.find (\<lambda>c. ac_id c = strip (rw_job_code r)) cs = Some c"
    and "role = None \<or> command_runs_on_node c (the role)" "run_anchor (o_fromiso env) (Some (row_dict env r)) = Some started"
    and "claim_owner (rw_metadata r) (strip (rw_host r)) = (Some pid, o_host env)" "o_update env (rw_log_id r) = None"
  shows "if alive pid then r \<in> set (runs d')
    else \<exists>r' \<in> set (runs d'). rw_log_id r' = rw_log_id r \<and> rw_status r' = ''timeout'' \<and> \<not> holds_claim r' \<and>
      rw_finished r' = Some (o_scan_clock env)"
proof -
  have "reaped env alive role cs r = (\<not> alive pid)"
    using assms(5,6,7) by (simp add: reaped_def verdict_here [OF assms(8)])
  with recovered_row [OF assms(1,2,3)] assms(4,9) show ?thesis
    by (auto split: if_splits dest: timed_out_at_facts)
qed

text \<open>The recovery at start-up touches nothing of another node. A row that is not open, a row of a command
  another role runs, and a row another host claimed that is within its timeout and the hour of
  grace are what they were, whatever the store answers to the rest.\<close>

theorem recovery_leaves_other_nodes_alone:
  assumes "recover_stale_running_jobs env alive role cs d = (res, d')" "distinct (map rw_log_id (runs d))" "r \<in> set (runs d)"
    and "\<not> is_open r \<or>
      (\<exists>c. List.find (\<lambda>c. ac_id c = strip (rw_job_code r)) cs = Some c \<and> role \<noteq> None \<and> \<not> command_runs_on_node c (the role)) \<or>
      (\<exists>c started pid host. List.find (\<lambda>c. ac_id c = strip (rw_job_code r)) cs = Some c \<and>
        run_anchor (o_fromiso env) (Some (row_dict env r)) = Some started \<and>
        claim_owner (rw_metadata r) (strip (rw_host r)) = (Some pid, host) \<and> host \<noteq> [] \<and> host \<noteq> o_host env \<and>
        claim_node (rw_metadata r) \<noteq> o_node env \<and>
        seconds_since (o_scan_clock env) started < max (timeout_seconds c) 0 + FOREIGN_HOST_GRACE_SECONDS)"
  shows "r \<in> set (runs d')"
proof -
  have "\<not> (is_open r \<and> reaped env alive role cs r)"
    using assms(4)
  proof (elim disjE exE conjE)
    fix c started pid host
    assume c: "List.find (\<lambda>c. ac_id c = strip (rw_job_code r)) cs = Some c"
        "run_anchor (o_fromiso env) (Some (row_dict env r)) = Some started"
      and claim: "claim_owner (rw_metadata r) (strip (rw_host r)) = (Some pid, host)" "host \<noteq> []" "host \<noteq> o_host env"
        "claim_node (rw_metadata r) \<noteq> o_node env"
      and within: "seconds_since (o_scan_clock env) started < max (timeout_seconds c) 0 + FOREIGN_HOST_GRACE_SECONDS"
    have "\<not> left_by_an_earlier_host_of_this_node (rw_metadata r) host (o_host env) (o_node env)"
      using claim(4) by (simp add: left_by_an_earlier_host_of_this_node_def Let_def)
    then have "\<not> reap (row_verdict env alive c (seconds_since (o_scan_clock env) started) r)"
      using claim within
      by (auto simp: row_verdict_def startup_verdict_def reap_verdict_def owner_verdict_def Let_def max_def split: if_splits)
    with c show ?thesis by (simp add: reaped_def)
  qed (auto simp: reaped_def)
  with recovered_row [OF assms(1-3)] show ?thesis by (auto split: if_splits)
qed

subsection \<open>What a stop leaves\<close>

lemma close_own_step:
  assumes "close_own env why n slot d = (res, d')"
  shows "closes env (ru_log_id (snd slot)) (o_update env (ru_log_id (snd slot)) = None) d d' \<and> running d' = running d \<and>
    children d' = filter (\<lambda>(p, _). p \<noteq> ru_pid (snd slot)) (children d) \<and>
    res = Inr (n + (if o_update env (ru_log_id (snd slot)) = None then 1 else 0))"
  using assms unfolding close_own_def Let_def
  by (auto simp: bnd_def attempted_def ret_def update_job_run_def closes_def list_all2_map2 intro!: list_all2_refl
      split: option.splits prod.splits)

lemma timed_out_at_trans: "timed_out_at env x y \<Longrightarrow> timed_out_at env y z \<Longrightarrow> timed_out_at env x z"
  unfolding timed_out_at_def close_row_def by (elim exE) (simp, blast)

definition slots_rows :: "outside \<Rightarrow> (string \<times> running_command) list \<Rightarrow> run_row \<Rightarrow> run_row \<Rightarrow> bool" where
  "slots_rows env slots x x' =
     (if rw_log_id x \<in> (ru_log_id \<circ> snd) ` set slots \<and> o_update env (rw_log_id x) = None then timed_out_at env x x' else x' = x)"

lemma close_own_loop:
  assumes "loop (close_own env why) n slots d = (res, d')"
  shows "res = Inr (n + int (length (filter (\<lambda>s. o_update env (ru_log_id (snd s)) = None) slots))) \<and> running d' = running d \<and>
    children d' = filter (\<lambda>(p, _). p \<notin> (ru_pid \<circ> snd) ` set slots) (children d) \<and>
    list_all2 (slots_rows env slots) (runs d) (runs d')"
  using assms
proof (induction slots arbitrary: n d)
  case Nil
  then show ?case by (auto simp: ret_def slots_rows_def intro!: list_all2_refl filter_True [symmetric])
next
  case (Cons slot slots)
  let ?ok = "o_update env (ru_log_id (snd slot)) = None"
  obtain res1 d1 where one: "close_own env why n slot d = (res1, d1)" by fastforce
  note step = close_own_step [OF one, unfolded closes_def]
  with Cons.prems one have "loop (close_own env why) (n + (if ?ok then 1 else 0)) slots d1 = (res, d')" by (simp add: bnd_def)
  note rest = Cons.IH [OF this]
  have "list_all2 (slots_rows env (slot # slots)) (runs d) (runs d')"
  proof (rule list_all2_compose)
    show "list_all2 (\<lambda>x x'. if ?ok \<and> rw_log_id x = ru_log_id (snd slot) then timed_out_at env x x' else x' = x) (runs d) (runs d1)"
      using step by blast
    show "list_all2 (slots_rows env slots) (runs d1) (runs d')" using rest by blast
  next
    fix x y z
    assume "if ?ok \<and> rw_log_id x = ru_log_id (snd slot) then timed_out_at env x y else y = x" "slots_rows env slots y z"
    then show "slots_rows env (slot # slots) x z"
      using timed_out_at_trans [of env x y z] timed_out_at_facts(1) [of env x y] by (auto simp: slots_rows_def split: if_splits)
  qed
  with rest step show ?case by (auto simp: case_prod_beta intro!: filter_cong)
qed

text \<open>A stop never fails, and leaves no child and no open row of its own. Every child of the daemon's table is
  stopped; every row of it that the store lets it write is closed as a timeout, which releases its
  claim and lets the next daemon run the command again; no other row changes.\<close>

theorem stop_closes_what_it_owns:
  "\<exists>closed d'. close_running_on_shutdown env why d = (Inr closed, d') \<and>
    closed = int (length (filter (\<lambda>s. o_update env (ru_log_id (snd s)) = None) (running d))) \<and>
    children d' = filter (\<lambda>(p, _). p \<notin> (ru_pid \<circ> snd) ` set (running d)) (children d) \<and>
    list_all2 (\<lambda>r r'. if rw_log_id r \<in> (ru_log_id \<circ> snd) ` set (running d) \<and> o_update env (rw_log_id r) = None
      then rw_log_id r' = rw_log_id r \<and> rw_status r' = ''timeout'' \<and> \<not> holds_claim r' else r' = r) (runs d) (runs d')"
proof -
  obtain res d' where stop: "close_running_on_shutdown env why d = (res, d')" by fastforce
  note facts = close_own_loop [OF stop [unfolded close_running_on_shutdown_def]]
  have "list_all2 (\<lambda>r r'. if rw_log_id r \<in> (ru_log_id \<circ> snd) ` set (running d) \<and> o_update env (rw_log_id r) = None
      then rw_log_id r' = rw_log_id r \<and> rw_status r' = ''timeout'' \<and> \<not> holds_claim r' else r' = r) (runs d) (runs d')"
    by (rule list_all2_mono [of "slots_rows env (running d)"])
      (use facts in \<open>auto simp: slots_rows_def timed_out_at_facts simp del: o_apply split: if_splits\<close>)
  with facts stop show ?thesis by auto
qed

subsection \<open>Over a whole life\<close>

lemma timeout_is_no_run: "lower ''timeout'' \<noteq> ''running''"
  by (simp add: lower_def lower_char_def)

lemma recover_one_ok: "daemon_ok d \<Longrightarrow> daemon_ok (snd (recover_one env alive role cs acc r d))"
proof -
  assume ok: "daemon_ok d"
  have "daemon_ok (snd (close_removed env r d))" "daemon_ok (snd (close_stale env c e r d))" for c e
    using update_job_run_ok [of "{}" d "''timeout''"] ok timeout_is_no_run by (simp_all add: close_removed_def close_stale_def)
  with ok show ?thesis
    by (auto simp: recover_one_def Let_def bnd_def attempted_def ret_def split: option.splits prod.splits sum.splits) (metis snd_conv)+
qed

lemma close_own_ok: "daemon_ok d \<Longrightarrow> daemon_ok (snd (close_own env why n slot d))"
proof -
  assume ok: "daemon_ok d"
  have "daemon_ok (snd (update_job_run raised lid level ''timeout'' msg t dur md (d\<lparr>children := y\<rparr>)))" for raised lid level msg t dur md y
    using update_job_run_ok [of "{}" "d\<lparr>children := y\<rparr>" "''timeout''"] ok timeout_is_no_run by simp
  then show ?thesis unfolding close_own_def Let_def bnd_def attempted_def ret_def by (simp split: prod.splits) (metis snd_conv)
qed

fun daemon_of :: "life \<Rightarrow> daemon" where
  "daemon_of (Up s d) = d"
| "daemon_of (Down code d) = d"

lemma recovery_ok: "daemon_ok d \<Longrightarrow> daemon_ok (daemon_of (started_life env alive role cs d))"
  using loop_keeps [of "fetch_running_job_runs d" daemon_ok "recover_one env alive role cs" d no_recovery] recover_one_ok
  by (auto simp: started_life_def recover_stale_running_jobs_def split: prod.splits sum.splits)

lemma pass_ok: "daemon_ok d \<Longrightarrow> daemon_ok (daemon_of (pass_life env node cs s d))"
  using daemon_step_ok [OF _ daemon_step.scanned [where env = env and single_pass = False and node = node and d = d and cs = cs]]
  by (auto simp: pass_life_def split: prod.splits sum.splits option.splits)

lemma stop_ok: "daemon_ok d \<Longrightarrow> daemon_ok (snd (close_running_on_shutdown env why d))"
  unfolding close_running_on_shutdown_def by (rule loop_keeps) (auto intro: close_own_ok)

interpretation life: kept "life_step node cs" "\<lambda>l. daemon_ok (daemon_of l)" for node cs
proof
  fix l l'
  assume "daemon_ok (daemon_of l)" "life_step node cs l l'"
  then show "daemon_ok (daemon_of l')"
    by (cases l) (auto elim!: life_step.cases intro: pass_ok stop_ok daemon_step_ok)
qed


subsection \<open>Two rows at a start\<close>

text \<open>A daemon of \<^verbatim>\<open>db01\<close> comes up: one open row was claimed by process 5 of the host, one by another host.\<close>

definition morning :: outside where
  "morning = calm\<lparr>o_stamp := (\<lambda>_. ''t''), o_fromiso := (\<lambda>_. Some (sec 1000, Some 0)), o_node := ''n1''\<rparr>"

definition left_here :: run_row where
  "left_here = etl_running\<lparr>rw_metadata := [(''claim_pid'', PInt 5), (''claim_host'', PStr ''db01'')]\<rparr>"

definition left_there :: run_row where
  "left_there = etl_running\<lparr>rw_log_id := 2, rw_host := ''db02'', rw_metadata := [(''claim_pid'', PInt 5), (''claim_host'', PStr ''db02'')]\<rparr>"

definition found_open :: daemon where
  "found_open = set_runs [left_here, left_there] (idle\<lparr>next_log := 3\<rparr>)"

lemma found_open_facts:
  "runs found_open = [left_here, left_there]" "List.find (\<lambda>c. ac_id c = strip (rw_job_code left_here)) [etl_command] = Some etl_command"
  "List.find (\<lambda>c. ac_id c = strip (rw_job_code left_there)) [etl_command] = Some etl_command"
  "run_anchor (o_fromiso morning) (Some (row_dict morning left_here)) = Some (sec 1000)"
  "run_anchor (o_fromiso morning) (Some (row_dict morning left_there)) = Some (sec 1000)"
  "claim_owner (rw_metadata left_here) (strip (rw_host left_here)) = (Some 5, o_host morning)"
  "claim_owner (rw_metadata left_there) (strip (rw_host left_there)) = (Some 5, ''db02'')"
  "is_open left_here" "distinct (map rw_log_id (runs found_open))" "o_update morning l = None"
  "o_host morning = ''db01''" "claim_node (rw_metadata left_there) \<noteq> o_node morning"
  "seconds_since (o_scan_clock morning) (sec 1000) < max (timeout_seconds etl_command) 0 + FOREIGN_HOST_GRACE_SECONDS"
  by code_simp+

lemma recovery_of_two:
  "\<exists>t d'. recover_stale_running_jobs morning (\<lambda>_. False) None [etl_command] found_open = (Inr t, d')"
proof -
  have "\<not> isl (fst (recover_stale_running_jobs morning (\<lambda>_. False) None [etl_command] found_open))" by code_simp
  then show ?thesis by (metis isl_def prod.exhaust_sel sum.exhaust_sel)
qed

theorem recovery_frees_exactly_the_dead_witness:
  "\<exists>t d'. recover_stale_running_jobs morning (\<lambda>_. False) None [etl_command] found_open = (Inr t, d') \<and>
    (\<exists>r' \<in> set (runs d'). rw_log_id r' = 1 \<and> rw_status r' = ''timeout'' \<and> \<not> holds_claim r')"
proof -
  obtain t d' where run: "recover_stale_running_jobs morning (\<lambda>_. False) None [etl_command] found_open = (Inr t, d')"
    using recovery_of_two by blast
  have "left_here \<in> set (runs found_open)" by (simp add: found_open_facts(1))
  from recovery_frees_exactly_the_dead [OF run found_open_facts(9) this found_open_facts(8,2) _ found_open_facts(4,6,10)]
  have "\<exists>r' \<in> set (runs d'). rw_log_id r' = 1 \<and> rw_status r' = ''timeout'' \<and> \<not> holds_claim r'"
    by (auto simp: left_here_def etl_running_def)
  with run show ?thesis by blast
qed

theorem recovery_leaves_other_nodes_alone_witness:
  "\<exists>t d'. recover_stale_running_jobs morning (\<lambda>_. False) None [etl_command] found_open = (Inr t, d') \<and> left_there \<in> set (runs d')"
proof -
  obtain t d' where run: "recover_stale_running_jobs morning (\<lambda>_. False) None [etl_command] found_open = (Inr t, d')"
    using recovery_of_two by blast
  have "left_there \<in> set (runs found_open)" by (simp add: found_open_facts(1))
  from recovery_leaves_other_nodes_alone [OF run found_open_facts(9) this] found_open_facts(3,5,7,11,12,13)
  have "left_there \<in> set (runs d')" by auto
  with run show ?thesis by blast
qed


subsection \<open>A store that restarts during recovery\<close>

text \<open>
  The start waits out an outage only while it opens the store, and the loop only around its passes.
  Between them the recovery writes rows: an outage there, which a pass would wait out, ends the daemon.
\<close>

theorem outage_during_recovery_ends_the_daemon:
  "fst (pass_raised starting_up new_loop) = Some 2 \<and>
   (case started_life (morning\<lparr>o_update := (\<lambda>_. Some starting_up)\<rparr>) (\<lambda>_. False) None [etl_command] found_open of
      Down code d \<Rightarrow> code = 1 | Up s d \<Rightarrow> False)"
  by (intro conjI) code_simp+

end
