(* ===== verification/NetworkPolicy.thy ===== *)
theory NetworkPolicy
  imports Coerce "HOL-Library.Word" "HOL-Library.Product_Lexorder" "HOL-Library.Multiset"
begin

section \<open>Container networks and monitored addresses\<close>

text \<open>
  Models \<^verbatim>\<open>dbabrain/lib/network_policy.py\<close>: whether a container network of a host takes a monitored
  address, overlaps a routed range, or lies outside the ranges containers may use.

  An address is a word of its version's width, a network its base and prefix length; containment,
  overlap and inclusion are the bit tests and comparisons of \<^verbatim>\<open>ipaddress\<close>. Its parsers and its
  printer are the arguments \<open>parse_net\<close>, \<open>parse_ip\<close> and \<open>net_text\<close>. What the rules mean is stated over
  the sets of addresses.
\<close>

unbundle bit_operations_syntax

subsection \<open>Networks of one version\<close>

type_synonym 'a net = "'a word \<times> nat"

definition hostmask :: "nat \<Rightarrow> 'a::len word" where
  "hostmask p = mask (LENGTH('a) - p)"

fun in_net :: "'a::len word \<Rightarrow> 'a net \<Rightarrow> bool" where
  "in_net x (b, p) = (x AND NOT (hostmask p) = b)"

fun broadcast :: "'a::len net \<Rightarrow> 'a word" where
  "broadcast (b, p) = b OR hostmask p"

definition net_overlaps :: "'a::len net \<Rightarrow> 'a net \<Rightarrow> bool" where
  "net_overlaps l r = (in_net (fst l) r \<or> in_net (broadcast l) r \<or> in_net (fst r) l \<or> in_net (broadcast r) l)"

definition net_subnet_of :: "'a::len net \<Rightarrow> 'a net \<Rightarrow> bool" where
  "net_subnet_of a b = (fst b \<le> fst a \<and> broadcast a \<le> broadcast b)"

fun wf_net :: "'a::len net \<Rightarrow> bool" where
  "wf_net (b, p) = (p \<le> LENGTH('a) \<and> b AND hostmask p = 0)"

subsection \<open>Addresses and networks\<close>

datatype ip_address = IPv4Address "32 word" | IPv6Address "128 word"

datatype ip_network = IPv4Network "32 net" | IPv6Network "128 net"

fun address_in :: "ip_address \<Rightarrow> ip_network \<Rightarrow> bool" where
  "address_in (IPv4Address x) (IPv4Network n) = in_net x n"
| "address_in (IPv6Address x) (IPv6Network n) = in_net x n"
| "address_in x n = False"

fun overlaps :: "ip_network \<Rightarrow> ip_network \<Rightarrow> bool" where
  "overlaps (IPv4Network l) (IPv4Network r) = net_overlaps l r"
| "overlaps (IPv6Network l) (IPv6Network r) = net_overlaps l r"
| "overlaps l r = False"

fun subnet_of :: "ip_network \<Rightarrow> ip_network \<Rightarrow> bool" where
  "subnet_of (IPv4Network l) (IPv4Network r) = net_subnet_of l r"
| "subnet_of (IPv6Network l) (IPv6Network r) = net_subnet_of l r"
| "subnet_of l r = False"

fun wf_network :: "ip_network \<Rightarrow> bool" where
  "wf_network (IPv4Network n) = wf_net n"
| "wf_network (IPv6Network n) = wf_net n"

subsection \<open>Declarations, networks, findings\<close>

record range_declaration =
  rd_cidr :: string
  rd_owner :: string
  rd_note :: string
  rd_network :: ip_network

record reservations =
  routed_ranges :: "range_declaration list"
  container_ranges :: "range_declaration list"

record host_network =
  hn_name :: string
  hn_subnet :: string
  hn_network :: ip_network

record monitored_address =
  ma_address :: string
  ma_label :: string
  ma_parsed :: ip_address

datatype finding_kind = HIJACK | OVERLAP | UNCONFINED

record network_finding =
  nf_kind :: finding_kind
  nf_name :: string
  nf_subnet :: string
  routed_cidr :: string
  routed_owner :: string
  captured :: "monitored_address list"

fun finding_order :: "finding_kind \<Rightarrow> nat" where
  "finding_order HIJACK = 0"
| "finding_order OVERLAP = 1"
| "finding_order UNCONFINED = 2"

definition network_severity :: "network_finding \<Rightarrow> string" where
  "network_severity f = (if nf_kind f = HIJACK then ''CRITICAL'' else ''WARNING'')"

definition routed_match :: "reservations \<Rightarrow> ip_network \<Rightarrow> range_declaration option" where
  "routed_match res n = List.find (\<lambda>d. overlaps n (rd_network d)) (routed_ranges res)"

definition is_confined :: "reservations \<Rightarrow> ip_network \<Rightarrow> bool" where
  "is_confined res n = list_ex (\<lambda>d. subnet_of n (rd_network d)) (container_ranges res)"

subsection \<open>Reading\<close>

definition coerce_network :: "(string \<Rightarrow> ip_network option) \<Rightarrow> pyval \<Rightarrow> ip_network option" where
  "coerce_network parse_net v = (let t = strip (str_or v) in if t = [] then None else parse_net t)"

datatype shape_error = Not_iterable | Not_a_pair

definition parse_range ::
  "(string \<Rightarrow> ip_network option) \<Rightarrow> (ip_network \<Rightarrow> string) \<Rightarrow> pyval \<Rightarrow> range_declaration option" where
  "parse_range parse_net net_text v =
     (case v of
        PDict d \<Rightarrow> map_option (\<lambda>n. \<lparr>rd_cidr = net_text n, rd_owner = strip (str_or (get d ''owner'')),
            rd_note = strip (str_or (get d ''note'')), rd_network = n\<rparr>) (coerce_network parse_net (get d ''cidr''))
      | _ \<Rightarrow> None)"

text \<open>An object or a text in place of the list iterates over texts, of which none is a declaration; a number raises.\<close>

definition parse_ranges ::
  "(string \<Rightarrow> ip_network option) \<Rightarrow> (ip_network \<Rightarrow> string) \<Rightarrow> pyval \<Rightarrow> shape_error + range_declaration list" where
  "parse_ranges parse_net net_text raw =
     (if \<not> truthy raw then Inr []
      else case raw of
        PList vs \<Rightarrow> Inr (List.map_filter (parse_range parse_net net_text) vs)
      | PDict d \<Rightarrow> Inr [] | PStr s \<Rightarrow> Inr [] | _ \<Rightarrow> Inl Not_iterable)"

definition load_reservations ::
  "(string \<Rightarrow> ip_network option) \<Rightarrow> (ip_network \<Rightarrow> string) \<Rightarrow> pyval \<Rightarrow> shape_error + reservations" where
  "load_reservations parse_net net_text raw =
     (case raw of
        PDict d \<Rightarrow> rbind (parse_ranges parse_net net_text (get d ''routed_ranges'')) (\<lambda>routed.
          rbind (parse_ranges parse_net net_text (get d ''container_ranges'')) (\<lambda>container.
            Inr \<lparr>routed_ranges = routed, container_ranges = container\<rparr>))
      | _ \<Rightarrow> Inr \<lparr>routed_ranges = [], container_ranges = []\<rparr>)"

text \<open>\<^verbatim>\<open>name, subnet = entry\<close>\<close>

definition pair_of :: "pyval \<Rightarrow> shape_error + pyval \<times> pyval" where
  "pair_of v = (case v of PList [a, b] \<Rightarrow> Inr (a, b) | PStr [c, d] \<Rightarrow> Inr (PStr [c], PStr [d]) | _ \<Rightarrow> Inl Not_a_pair)"

definition name_and_subnet :: "pyval \<Rightarrow> shape_error + string \<times> string" where
  "name_and_subnet v =
     (case v of
        PDict d \<Rightarrow> Inr (strip (str_or (get d ''name'')), strip (str_or (get d ''subnet'')))
      | _ \<Rightarrow> rbind (pair_of v) (\<lambda>(a, b). Inr (strip (str_or a), strip (str_or b))))"

fun parse_host_networks ::
  "(string \<Rightarrow> ip_network option) \<Rightarrow> (ip_network \<Rightarrow> string) \<Rightarrow> pyval list \<Rightarrow> shape_error + host_network list" where
  "parse_host_networks parse_net net_text [] = Inr []"
| "parse_host_networks parse_net net_text (v # vs) =
     rbind (name_and_subnet v) (\<lambda>(name, subnet).
     rbind (parse_host_networks parse_net net_text vs) (\<lambda>hs.
       Inr (case coerce_network parse_net (PStr subnet) of
              None \<Rightarrow> hs | Some n \<Rightarrow> \<lparr>hn_name = name, hn_subnet = net_text n, hn_network = n\<rparr> # hs)))"

definition either :: "pyval \<Rightarrow> pyval \<Rightarrow> pyval" where
  "either v w = (if truthy v then v else w)"

definition address_and_label :: "pyval \<Rightarrow> shape_error + string \<times> string" where
  "address_and_label v =
     (case v of
        PDict d \<Rightarrow> Inr (strip (str_or (either (get d ''ip'') (get d ''address''))),
                        strip (str_or (either (get d ''server_id'') (get d ''label''))))
      | PStr s \<Rightarrow> Inr (strip s, [])
      | _ \<Rightarrow> rbind (pair_of v) (\<lambda>(a, b). Inr (strip (str_or a), strip (str_or b))))"

fun address_loop ::
  "(string \<Rightarrow> ip_address option) \<Rightarrow> pyval list \<Rightarrow> monitored_address list \<Rightarrow> string list \<Rightarrow> shape_error + monitored_address list" where
  "address_loop parse_ip [] parsed seen = Inr parsed"
| "address_loop parse_ip (v # vs) parsed seen =
     rbind (address_and_label v) (\<lambda>(address, label).
       case parse_ip address of
         None \<Rightarrow> address_loop parse_ip vs parsed seen
       | Some ip \<Rightarrow>
           if address \<in> set seen then address_loop parse_ip vs parsed seen
           else address_loop parse_ip vs (parsed @ [\<lparr>ma_address = address, ma_label = label, ma_parsed = ip\<rparr>]) (seen @ [address]))"

definition parse_monitored_addresses :: "(string \<Rightarrow> ip_address option) \<Rightarrow> pyval list \<Rightarrow> shape_error + monitored_address list" where
  "parse_monitored_addresses parse_ip entries = address_loop parse_ip entries [] []"

subsection \<open>The verdict\<close>

definition judge_network :: "monitored_address list \<Rightarrow> reservations \<Rightarrow> host_network \<Rightarrow> network_finding option" where
  "judge_network monitored res h =
     (let caught = filter (\<lambda>m. address_in (ma_parsed m) (hn_network h)) monitored;
          routed = routed_match res (hn_network h) in
      if caught \<noteq> [] then
        Some \<lparr>nf_kind = HIJACK, nf_name = hn_name h, nf_subnet = hn_subnet h,
              routed_cidr = (case routed of Some d \<Rightarrow> rd_cidr d | None \<Rightarrow> []),
              routed_owner = (case routed of Some d \<Rightarrow> rd_owner d | None \<Rightarrow> []), captured = caught\<rparr>
      else case routed of
        Some d \<Rightarrow> Some \<lparr>nf_kind = OVERLAP, nf_name = hn_name h, nf_subnet = hn_subnet h,
                        routed_cidr = rd_cidr d, routed_owner = rd_owner d, captured = []\<rparr>
      | None \<Rightarrow>
          if \<not> is_confined res (hn_network h)
          then Some \<lparr>nf_kind = UNCONFINED, nf_name = hn_name h, nf_subnet = hn_subnet h,
                     routed_cidr = [], routed_owner = [], captured = []\<rparr>
          else None)"

definition finding_key :: "network_finding \<Rightarrow> nat \<times> string" where
  "finding_key f = (finding_order (nf_kind f), nf_name f)"

definition evaluate_host :: "host_network list \<Rightarrow> monitored_address list \<Rightarrow> reservations \<Rightarrow> network_finding list" where
  "evaluate_host hs monitored res = sort_key finding_key (List.map_filter (judge_network monitored res) hs)"

subsection \<open>Networks as sets of addresses\<close>

lemma in_net_drop_bit:
  assumes "wf_net (b, p)"
  shows "in_net x (b, p) \<longleftrightarrow> drop_bit (LENGTH('a) - p) x = drop_bit (LENGTH('a) - p) (b :: 'a::len word)"
proof -
  let ?n = "LENGTH('a) - p"
  have low: "\<not> bit b i" if "i < ?n" for i
  proof -
    from assms have "bit (b AND hostmask p) i = bit (0 :: 'a word) i" by simp
    with that show ?thesis by (auto simp: hostmask_def bit_simps)
  qed
  show ?thesis
  proof
    assume "in_net x (b, p)"
    then have b: "b = x AND NOT (mask ?n)" by (simp add: hostmask_def)
    show "drop_bit ?n x = drop_bit ?n b" unfolding b by (rule bit_word_eqI) (auto simp: bit_simps dest: bit_imp_le_length)
  next
    assume eq: "drop_bit ?n x = drop_bit ?n b"
    have high: "bit x i = bit b i" if "?n \<le> i" for i
      using arg_cong [OF eq, of "\<lambda>w. bit w (i - ?n)"] that by (simp add: bit_simps)
    have "x AND NOT (mask ?n) = b"
    proof (rule bit_word_eqI)
      fix i assume "i < LENGTH('a)"
      then show "bit (x AND NOT (mask ?n)) i = bit b i" by (cases "i < ?n") (simp_all add: low high bit_simps)
    qed
    then show "in_net x (b, p)" by (simp add: hostmask_def)
  qed
qed

lemma div_interval:
  assumes "0 < n"
  shows "(x :: nat) div n = k \<longleftrightarrow> n * k \<le> x \<and> x \<le> n * k + (n - 1)"
proof
  assume "x div n = k"
  then have "x = n * k + x mod n" by (metis mult_div_mod_eq)
  moreover have "x mod n \<le> n - 1" using mod_less_divisor [OF assms, of x] by simp
  ultimately show "n * k \<le> x \<and> x \<le> n * k + (n - 1)" by linarith
next
  assume "n * k \<le> x \<and> x \<le> n * k + (n - 1)"
  with assms show "x div n = k" by (intro div_nat_eqI) (auto simp: mult.commute)
qed

lemma unat_mask_within: "n \<le> LENGTH('a) \<Longrightarrow> unat (mask n :: 'a::len word) = 2 ^ n - 1"
proof -
  assume "n \<le> LENGTH('a)"
  then have "unat (mask n :: 'a word) = mask n" by (intro bit_eqI) (auto simp: bit_unsigned_iff bit_simps)
  then show ?thesis by (simp add: mask_eq_exp_minus_1)
qed

lemma unat_drop: "unat (drop_bit n (w :: 'a::len word)) = unat w div 2 ^ n"
proof -
  have "unat (drop_bit n w) = drop_bit n (unat w)" by (rule bit_eqI) (auto simp: bit_unsigned_iff bit_simps dest: bit_imp_le_length)
  then show ?thesis by (simp add: drop_bit_eq_div)
qed

lemma in_net_interval:
  assumes "wf_net (b, p)"
  shows "in_net x (b, p) \<longleftrightarrow> b \<le> x \<and> x \<le> broadcast (b, p :: nat)"
proof -
  let ?n = "LENGTH('a) - p" and ?c = "broadcast (b, p) :: 'a word"
  let ?N = "(2 :: nat) ^ ?n"
  have "take_bit ?n b = 0" using assms by (simp add: take_bit_eq_mask hostmask_def)
  from arg_cong [OF this, of unat] have "take_bit ?n (unat b) = 0" unfolding unsigned_take_bit_eq by simp
  then have B: "unat b mod ?N = 0" by (simp add: take_bit_eq_mod)
  have "drop_bit ?n ?c = drop_bit ?n b" by (rule bit_word_eqI) (auto simp: bit_simps hostmask_def)
  from arg_cong [OF this, of unat] have C: "unat ?c div ?N = unat b div ?N" by (simp only: unat_drop)
  have "take_bit ?n ?c = mask ?n" by (rule bit_word_eqI) (auto simp: bit_simps hostmask_def)
  from arg_cong [OF this, of unat] have "take_bit ?n (unat ?c) = unat (mask ?n :: 'a word)" unfolding unsigned_take_bit_eq .
  then have "unat ?c mod ?N = unat (mask ?n :: 'a word)" by (simp add: take_bit_eq_mod)
  also have "unat (mask ?n :: 'a word) = ?N - 1" by (rule unat_mask_within) simp
  finally have M: "unat ?c mod ?N = ?N - 1" .
  have "unat b = ?N * (unat b div ?N)" using B by (metis add.right_neutral mult_div_mod_eq)
  moreover have "unat ?c = ?N * (unat b div ?N) + (?N - 1)" using C M by (metis mult_div_mod_eq)
  moreover have "unat x div ?N = k \<longleftrightarrow> ?N * k \<le> unat x \<and> unat x \<le> ?N * k + (?N - 1)" for k
    by (rule div_interval) simp
  ultimately have "unat x div ?N = unat b div ?N \<longleftrightarrow> b \<le> x \<and> x \<le> ?c"
    unfolding word_le_nat_alt by presburger
  moreover have "drop_bit ?n x = drop_bit ?n b \<longleftrightarrow> unat x div ?N = unat b div ?N"
    by (simp only: word_unat_eq_iff unat_drop)
  ultimately show ?thesis by (simp only: in_net_drop_bit [OF assms])
qed

lemma base_in_net: "wf_net n \<Longrightarrow> in_net (fst n) n"
  by (cases n) (simp add: in_net_drop_bit del: in_net.simps)

lemma broadcast_in_net: "wf_net n \<Longrightarrow> in_net (broadcast n) n"
  by (cases n) (auto simp: in_net_drop_bit hostmask_def bit_simps simp del: in_net.simps intro!: bit_word_eqI)

lemma narrower_base:
  assumes "in_net x l" "in_net x r" "snd l \<le> snd r"
  shows "in_net (fst r) l"
proof -
  obtain b p c q where n: "l = (b, p)" "r = (c, q :: nat)" by (cases l; cases r)
  then have "p \<le> q" "b = x AND NOT (hostmask p)" "c = x AND NOT (hostmask q)" using assms by auto
  then show ?thesis unfolding n by (auto simp: hostmask_def bit_simps intro!: bit_word_eqI)
qed

lemma net_overlaps_iff:
  assumes "wf_net l" "wf_net r"
  shows "net_overlaps l r \<longleftrightarrow> (\<exists>x. in_net x l \<and> in_net x r)"
proof
  assume "net_overlaps l r"
  then show "\<exists>x. in_net x l \<and> in_net x r"
    using base_in_net [OF assms(1)] broadcast_in_net [OF assms(1)] base_in_net [OF assms(2)] broadcast_in_net [OF assms(2)]
    unfolding net_overlaps_def by blast
next
  assume "\<exists>x. in_net x l \<and> in_net x r"
  then obtain x where x: "in_net x l" "in_net x r" by blast
  show "net_overlaps l r"
    using narrower_base [OF x] narrower_base [OF x(2,1)] unfolding net_overlaps_def by (meson nat_le_linear)
qed

lemma net_subnet_of_iff:
  assumes "wf_net a" "wf_net b"
  shows "net_subnet_of a b \<longleftrightarrow> (\<forall>x. in_net x a \<longrightarrow> in_net x b)"
proof -
  have i: "in_net x n \<longleftrightarrow> fst n \<le> x \<and> x \<le> broadcast n" if "wf_net n" for x and n :: "'a net"
    using that in_net_interval [of "fst n" "snd n" x] by simp
  show ?thesis
    using base_in_net [OF assms(1)] broadcast_in_net [OF assms(1)] unfolding net_subnet_of_def i [OF assms(1)] i [OF assms(2)]
    by (meson order_trans)
qed

definition addresses :: "ip_network \<Rightarrow> ip_address set" where
  "addresses n = {x. address_in x n}"

lemma overlaps_addresses:
  assumes "wf_network l" "wf_network r"
  shows "overlaps l r \<longleftrightarrow> addresses l \<inter> addresses r \<noteq> {}"
proof -
  have ip: "(\<exists>x. P x) \<longleftrightarrow> (\<exists>x. P (IPv4Address x)) \<or> (\<exists>x. P (IPv6Address x))" for P by (metis ip_address.exhaust)
  show ?thesis using assms by (cases l; cases r) (simp_all add: addresses_def net_overlaps_iff set_eq_iff ip)
qed

lemma subnet_of_addresses:
  assumes "wf_network a" "wf_network b"
  shows "subnet_of a b \<longleftrightarrow> addresses a \<subseteq> addresses b"
proof -
  have ip: "(\<forall>x. P x) \<longleftrightarrow> (\<forall>x. P (IPv4Address x)) \<and> (\<forall>x. P (IPv6Address x))" for P by (metis ip_address.exhaust)
  show ?thesis
    using assms base_in_net [where 'a = 32] base_in_net [where 'a = 128]
    by (cases a; cases b) (auto simp: addresses_def net_subnet_of_iff subset_iff ip simp del: in_net.simps wf_net.simps, blast)
qed

subsection \<open>What the findings mean\<close>

text \<open>The meaning of a verdict on one network, over addresses.\<close>

definition takes_monitored :: "monitored_address list \<Rightarrow> ip_network \<Rightarrow> bool" where
  "takes_monitored monitored n = (\<exists>m \<in> set monitored. ma_parsed m \<in> addresses n)"

definition meets_routed :: "reservations \<Rightarrow> ip_network \<Rightarrow> bool" where
  "meets_routed res n = (\<exists>d \<in> set (routed_ranges res). addresses n \<inter> addresses (rd_network d) \<noteq> {})"

definition within_containers :: "reservations \<Rightarrow> ip_network \<Rightarrow> bool" where
  "within_containers res n = (\<exists>d \<in> set (container_ranges res). addresses n \<subseteq> addresses (rd_network d))"

definition wf_reservations :: "reservations \<Rightarrow> bool" where
  "wf_reservations res = (\<forall>d \<in> set (routed_ranges res @ container_ranges res). wf_network (rd_network d))"

lemma routed_match_meets:
  assumes "wf_reservations res" "wf_network n"
  shows "routed_match res n \<noteq> None \<longleftrightarrow> meets_routed res n"
  using assms
  by (auto simp: routed_match_def meets_routed_def wf_reservations_def find_None_iff overlaps_addresses simp del: not_None_eq)

lemma is_confined_within:
  assumes "wf_reservations res" "wf_network n"
  shows "is_confined res n \<longleftrightarrow> within_containers res n"
  using assms by (auto simp: is_confined_def within_containers_def wf_reservations_def list_ex_iff subnet_of_addresses)

lemma judge_network_kind:
  assumes "wf_reservations res" "wf_network (hn_network h)"
  shows "map_option nf_kind (judge_network monitored res h) =
    (if takes_monitored monitored (hn_network h) then Some HIJACK
     else if meets_routed res (hn_network h) then Some OVERLAP
     else if \<not> within_containers res (hn_network h) then Some UNCONFINED else None)"
proof -
  have "filter (\<lambda>m. address_in (ma_parsed m) (hn_network h)) monitored \<noteq> [] \<longleftrightarrow> takes_monitored monitored (hn_network h)"
    by (auto simp: takes_monitored_def addresses_def filter_empty_conv)
  then show ?thesis
    using routed_match_meets [OF assms] is_confined_within [OF assms]
    by (auto simp: judge_network_def Let_def split: option.splits)
qed

lemma judge_network_names:
  "judge_network monitored res h = Some f \<Longrightarrow> nf_name f = hn_name h \<and> nf_subnet f = hn_subnet h \<and>
    captured f = filter (\<lambda>m. ma_parsed m \<in> addresses (hn_network h)) monitored"
  by (auto simp: judge_network_def Let_def addresses_def split: if_splits option.splits)

text \<open>The verdict on a network, by its addresses.\<close>

definition verdict_by_addresses ::
  "monitored_address list \<Rightarrow> reservations \<Rightarrow> host_network \<Rightarrow> (finding_kind \<times> string \<times> monitored_address list) option" where
  "verdict_by_addresses monitored res h =
     (let n = hn_network h; caught = filter (\<lambda>m. ma_parsed m \<in> addresses n) monitored in
      if takes_monitored monitored n then Some (HIJACK, hn_name h, caught)
      else if meets_routed res n then Some (OVERLAP, hn_name h, [])
      else if \<not> within_containers res n then Some (UNCONFINED, hn_name h, []) else None)"

lemma judge_network_by_addresses:
  assumes "wf_reservations res" "wf_network (hn_network h)"
  shows "map_option (\<lambda>f. (nf_kind f, nf_name f, captured f)) (judge_network monitored res h) = verdict_by_addresses monitored res h"
proof (cases "judge_network monitored res h")
  case (Some f)
  have "\<not> takes_monitored monitored (hn_network h) \<Longrightarrow> captured f = []"
    using judge_network_names [OF Some] by (auto simp: takes_monitored_def filter_empty_conv)
  with Some judge_network_kind [OF assms, of monitored] judge_network_names [OF Some] show ?thesis
    by (auto simp: verdict_by_addresses_def Let_def split: if_splits)
qed (use judge_network_kind [OF assms, of monitored] in \<open>auto simp: verdict_by_addresses_def Let_def split: if_splits\<close>)

text \<open>C26: the verdict on a host is about addresses. A network is reported as a hijack exactly when a monitored address
  lies in it, with every such address; else as an overlap exactly when it shares an address with a
  routed range; else as unconfined exactly when no container range holds all of its addresses. There
  is one finding per network at most, and the findings come worst first.\<close>

theorem findings_are_about_addresses:
  assumes "wf_reservations res" "list_all (\<lambda>h. wf_network (hn_network h)) hs"
  shows "mset (map (\<lambda>f. (nf_kind f, nf_name f, captured f)) (evaluate_host hs monitored res)) =
      mset (List.map_filter (verdict_by_addresses monitored res) hs) \<and>
    sorted (map finding_key (evaluate_host hs monitored res))"
proof
  have "map (\<lambda>f. (nf_kind f, nf_name f, captured f)) (List.map_filter (judge_network monitored res) hs) =
      List.map_filter (verdict_by_addresses monitored res) hs"
    unfolding map_filter_map_option [symmetric]
    using assms(2) judge_network_by_addresses [OF assms(1)] by (intro map_filter_cong) (simp_all add: list_all_iff)
  from arg_cong [OF this, of mset] show "mset (map (\<lambda>f. (nf_kind f, nf_name f, captured f)) (evaluate_host hs monitored res)) =
      mset (List.map_filter (verdict_by_addresses monitored res) hs)"
    by (simp add: evaluate_host_def)
  show "sorted (map finding_key (evaluate_host hs monitored res))"
    unfolding evaluate_host_def by (rule sorted_sort_key)
qed

text \<open>The estate's worker: a bridge that took 172.18.0.0/16, where the database 172.18.0.5 is monitored.\<close>

definition worker_bridge :: host_network where
  "worker_bridge = \<lparr>hn_name = ''docker0'', hn_subnet = ''172.18.0.0/16'', hn_network = IPv4Network (0xAC120000, 16)\<rparr>"

definition worker_db :: monitored_address where
  "worker_db = \<lparr>ma_address = ''172.18.0.5'', ma_label = ''erp'', ma_parsed = IPv4Address 0xAC120005\<rparr>"

theorem findings_are_about_addresses_witness:
  "mset (map (\<lambda>f. (nf_kind f, nf_name f, captured f)) (evaluate_host [worker_bridge] [worker_db] \<lparr>routed_ranges = [], container_ranges = []\<rparr>)) =
     mset (List.map_filter (verdict_by_addresses [worker_db] \<lparr>routed_ranges = [], container_ranges = []\<rparr>) [worker_bridge]) \<and>
   map nf_kind (evaluate_host [worker_bridge] [worker_db] \<lparr>routed_ranges = [], container_ranges = []\<rparr>) = [HIJACK]"
proof
  have "list_all (\<lambda>h. wf_network (hn_network h)) [worker_bridge]" by code_simp
  moreover have "wf_reservations \<lparr>routed_ranges = [], container_ranges = []\<rparr>" by (simp add: wf_reservations_def)
  ultimately show "mset (map (\<lambda>f. (nf_kind f, nf_name f, captured f)) (evaluate_host [worker_bridge] [worker_db] \<lparr>routed_ranges = [], container_ranges = []\<rparr>)) =
      mset (List.map_filter (verdict_by_addresses [worker_db] \<lparr>routed_ranges = [], container_ranges = []\<rparr>) [worker_bridge])"
    using findings_are_about_addresses by blast
qed code_simp

end
