(* ===== verification/PyFloat.thy ===== *)
theory PyFloat
  imports PyPrelude
begin

section \<open>Floats\<close>

text \<open>
  The floats of the language: a finite one is the rational number it denotes, and every operation is
  the exact one rounded to the nearest double, a tie to the even one, with the subnormal range and
  the overflow to an infinity. The sign of a zero is not kept: no comparison sees it.

  What the clients use of the rounding is that it keeps the order, leaves a number of 53 bits alone,
  and is off by half a unit of the last place at most.
\<close>

datatype flt = Num rat | PosInf | NegInf | NaN

subsection \<open>Powers of two\<close>

definition pow2 :: "int \<Rightarrow> rat" where
  "pow2 k = (if 0 \<le> k then 2 ^ nat k else 1 / 2 ^ nat (- k))"

function nbits :: "int \<Rightarrow> int" where
  "nbits n = (if n \<le> 0 then 0 else nbits (n div 2) + 1)"
  by auto
termination by (relation "measure nat") auto

declare nbits.simps [simp del]

text \<open>The exponent of the greatest power of two that is not above a positive number.\<close>

definition ilog2 :: "rat \<Rightarrow> int" where
  "ilog2 q =
     (case quotient_of q of (a, b) \<Rightarrow>
        let k = nbits a - nbits b in if pow2 k \<le> q then k else k - 1)"

lemma pow2_powi: "pow2 k = 2 powi k"
  by (simp add: pow2_def power_int_def inverse_eq_divide power_divide)

lemma pow2_pos [simp]: "0 < pow2 k"
  by (simp add: pow2_def)

lemma pow2_nonzero [simp]: "pow2 k \<noteq> 0"
  using pow2_pos [of k] by linarith

lemma pow2_add: "pow2 (a + b) = pow2 a * pow2 b"
  by (simp add: pow2_powi power_int_add)

lemma pow2_nat: "pow2 (int n) = 2 ^ n"
  by (simp add: pow2_def)

lemma pow2_mono: "a \<le> b \<Longrightarrow> pow2 a \<le> pow2 b"
  by (simp add: pow2_powi power_int_increasing)

lemma pow2_strict_mono: "a < b \<Longrightarrow> pow2 a < pow2 b"
  by (simp add: pow2_powi power_int_strict_increasing)

lemma pow2_less_iff [simp]: "pow2 a < pow2 b \<longleftrightarrow> a < b"
  by (meson not_less pow2_mono pow2_strict_mono)

lemma pow2_split: "a \<le> b \<Longrightarrow> pow2 b = of_int (2 ^ nat (b - a)) * pow2 a"
  using pow2_add [of "b - a" a] by (simp add: pow2_def)

lemma nbits_bounds: "0 < n \<Longrightarrow> pow2 (nbits n - 1) \<le> of_int n \<and> of_int n < pow2 (nbits n) \<and> 0 < nbits n"
proof (induction n rule: nbits.induct)
  case (1 n)
  show ?case
  proof (cases "n div 2 = 0")
    case True
    with 1(2) have "n = 1" by simp
    then show ?thesis by (simp add: nbits.simps pow2_def)
  next
    case False
    let ?k = "nbits (n div 2)"
    from False 1 have *: "pow2 (?k - 1) \<le> of_int (n div 2)" "of_int (n div 2) < pow2 ?k" "0 < ?k" by auto
    have k: "pow2 (?k + 1) = 2 * pow2 ?k" "pow2 ?k = 2 * pow2 (?k - 1)" "pow2 ?k = of_int (2 ^ nat ?k)"
      using pow2_add [of ?k 1] pow2_add [of 1 "?k - 1"] *(3) by (simp_all add: pow2_def)
    then have "n div 2 + 1 \<le> 2 ^ nat ?k" using *(2) by (simp only: of_int_less_iff)
    then have "n + 1 \<le> 2 * 2 ^ nat ?k" "2 * (n div 2) \<le> n" by linarith+
    then have "(of_int (n + 1) :: rat) \<le> of_int (2 * 2 ^ nat ?k)" "(of_int (2 * (n div 2)) :: rat) \<le> of_int n"
      by (simp_all only: of_int_le_iff)
    with *(1,3) k 1(2) show ?thesis by (simp add: nbits.simps [of n])
  qed
qed

lemma ilog2_bounds:
  assumes "0 < q"
  shows "pow2 (ilog2 q) \<le> q" "q < pow2 (ilog2 q + 1)"
proof -
  obtain a b where ab: "quotient_of q = (a, b)" by fastforce
  have pos: "0 < b" "0 < a" and q: "q = of_int a / of_int b"
    using ab assms quotient_of_denom_pos [OF ab] quotient_of_div [OF ab] by (auto simp: zero_less_divide_iff)
  let ?n = "nbits a" and ?m = "nbits b"
  let ?k = "?n - ?m"
  note bound = nbits_bounds
  have "pow2 (?k - 1) * pow2 ?m = pow2 (?n - 1)"
    using pow2_add [of "?k - 1" ?m] by (simp add: algebra_simps)
  moreover have "pow2 (?k - 1) * of_int b \<le> pow2 (?k - 1) * pow2 ?m"
    using bound [OF pos(1)] by (intro mult_left_mono) (auto simp: less_imp_le)
  ultimately have "pow2 (?k - 1) * of_int b \<le> of_int a" using bound [OF pos(2)] by linarith
  then have low: "pow2 (?k - 1) \<le> q" using pos by (simp add: q le_divide_eq)
  have "pow2 (?k + 1) * pow2 (?m - 1) = pow2 (?n)"
    using pow2_add [of "?k + 1" "?m - 1"] by (simp add: algebra_simps)
  moreover have "pow2 (?k + 1) * pow2 (?m - 1) \<le> pow2 (?k + 1) * of_int b"
    using bound [OF pos(1)] by (intro mult_left_mono) (auto simp: less_imp_le)
  ultimately have "of_int a < pow2 (?k + 1) * of_int b" using bound [OF pos(2)] by linarith
  then have high: "q < pow2 (?k + 1)" using pos by (simp add: q divide_less_eq)
  from low high show "pow2 (ilog2 q) \<le> q" "q < pow2 (ilog2 q + 1)"
    by (auto simp: ilog2_def ab Let_def)
qed

lemma ilog2_eq:
  assumes "pow2 k \<le> q" "q < pow2 (k + 1)"
  shows "ilog2 q = k"
proof -
  have "0 < q" using assms(1) pow2_pos [of k] by linarith
  from ilog2_bounds [OF this] assms have "pow2 k < pow2 (ilog2 q + 1)" "pow2 (ilog2 q) < pow2 (k + 1)" by linarith+
  then show ?thesis by simp
qed

lemma ilog2_mono: "0 < x \<Longrightarrow> x \<le> y \<Longrightarrow> ilog2 x \<le> ilog2 y"
proof -
  assume "0 < x" "x \<le> y"
  with ilog2_bounds(1) [of x] ilog2_bounds(2) [of y] have "pow2 (ilog2 x) < pow2 (ilog2 y + 1)" by linarith
  then show ?thesis by simp
qed

subsection \<open>Rounding to a whole number\<close>

lemma round_half_even_close: "\<bar>of_int (round_half_even x) - x\<bar> \<le> 1 / 2"
proof -
  have "of_int \<lfloor>x\<rfloor> \<le> x" "x < of_int \<lfloor>x\<rfloor> + 1" by linarith+
  then show ?thesis by (auto simp: round_half_even_def Let_def)
qed

lemma round_half_even_of_int [simp]: "round_half_even (of_int i) = i"
  by (simp add: round_half_even_def)

lemma round_half_even_simps [simp]: "round_half_even 0 = 0" "round_half_even 1 = 1" "round_half_even (numeral n) = numeral n"
  using round_half_even_of_int [of 0] round_half_even_of_int [of 1] round_half_even_of_int [of "numeral n"] by simp_all

lemma round_half_even_mono: "x \<le> y \<Longrightarrow> round_half_even x \<le> round_half_even y"
proof (rule ccontr)
  assume le: "x \<le> y" and "\<not> round_half_even x \<le> round_half_even y"
  then have "(of_int (round_half_even y) :: rat) + 1 \<le> of_int (round_half_even x)"
    by (metis less_le_not_le linorder_le_less_linear of_int_1 of_int_add of_int_le_iff zless_imp_add1_zle)
  with round_half_even_close [of x] round_half_even_close [of y] le have "x = y" by linarith
  with \<open>\<not> round_half_even x \<le> round_half_even y\<close> show False by simp
qed

lemma round_half_even_near:
  assumes "\<bar>x - of_int i\<bar> < 1 / 2"
  shows "round_half_even x = i"
proof -
  have "(of_int (round_half_even x) :: rat) < of_int i + 1" "(of_int i :: rat) - 1 < of_int (round_half_even x)"
    using assms round_half_even_close [of x] by linarith+
  then have "(of_int (round_half_even x) :: rat) < of_int (i + 1)" "(of_int (i - 1) :: rat) < of_int (round_half_even x)"
    by simp_all
  then show ?thesis by (simp only: of_int_less_iff)
qed

lemma round_half_even_minus: "round_half_even (- x) = - round_half_even x"
proof (cases "x = of_int \<lfloor>x\<rfloor>")
  case True
  then have "round_half_even x = \<lfloor>x\<rfloor>" "- x = of_int (- \<lfloor>x\<rfloor>)"
    by (metis round_half_even_of_int, simp)
  then show ?thesis by (metis round_half_even_of_int)
next
  case False
  have *: "of_int \<lfloor>x\<rfloor> \<le> x" "x < of_int \<lfloor>x\<rfloor> + 1" by linarith+
  then have "\<lfloor>- x\<rfloor> = - \<lfloor>x\<rfloor> - 1" using False by (intro floor_unique) (simp_all add: order_less_le)
  then show ?thesis by (auto simp: round_half_even_def Let_def split: if_splits) presburger+
qed

subsection \<open>Rounding to a double\<close>

definition ulp_exp :: "rat \<Rightarrow> int" where
  "ulp_exp q = (if q = 0 then 0 else max (- 1074) (ilog2 \<bar>q\<bar> - 52))"

definition nearest :: "rat \<Rightarrow> rat" where
  "nearest q = of_int (round_half_even (q / pow2 (ulp_exp q))) * pow2 (ulp_exp q)"

definition to_flt :: "rat \<Rightarrow> flt" where
  "to_flt q = (let r = nearest q in if pow2 1024 \<le> r then PosInf else if r \<le> - pow2 1024 then NegInf else Num r)"

lemma ulp_exp_minus [simp]: "ulp_exp (- q) = ulp_exp q"
  by (simp add: ulp_exp_def)

lemma nearest_minus: "nearest (- q) = - nearest q"
  by (simp add: nearest_def round_half_even_minus)

lemma nearest_zero [simp]: "nearest 0 = 0"
  using round_half_even_of_int [of 0] by (simp add: nearest_def)

lemma nearest_le_grid:
  assumes "x \<le> of_int m * pow2 (ulp_exp x)"
  shows "nearest x \<le> of_int m * pow2 (ulp_exp x)"
proof -
  have "round_half_even (x / pow2 (ulp_exp x)) \<le> round_half_even (of_int m)"
    using assms by (intro round_half_even_mono) (simp add: divide_le_eq)
  then show ?thesis by (simp add: nearest_def)
qed

lemma grid_le_nearest:
  assumes "of_int m * pow2 (ulp_exp x) \<le> x"
  shows "of_int m * pow2 (ulp_exp x) \<le> nearest x"
proof -
  have "round_half_even (of_int m) \<le> round_half_even (x / pow2 (ulp_exp x))"
    using assms by (intro round_half_even_mono) (simp add: le_divide_eq)
  then show ?thesis by (simp add: nearest_def)
qed

lemma nearest_nonneg: "0 \<le> x \<Longrightarrow> 0 \<le> nearest x"
  using grid_le_nearest [of 0 x] by simp

lemma nearest_mono_pos:
  assumes "0 < x" "x \<le> y"
  shows "nearest x \<le> nearest y"
proof (cases "ulp_exp x = ulp_exp y")
  case True
  have "round_half_even (x / pow2 (ulp_exp y)) \<le> round_half_even (y / pow2 (ulp_exp y))"
    using assms by (intro round_half_even_mono divide_right_mono) (simp_all add: less_imp_le)
  then show ?thesis by (simp add: nearest_def True)
next
  case False
  with ilog2_mono [OF assms] assms have less: "ulp_exp x < ulp_exp y" "ilog2 x < ilog2 y" and ey: "ulp_exp y = ilog2 y - 52"
    by (auto simp: ulp_exp_def)
  have grid: "pow2 (ilog2 y) = of_int (2 ^ nat (ilog2 y - e)) * pow2 e" if "e \<le> ilog2 y" for e
    using pow2_split [OF that] .
  have "x \<le> pow2 (ilog2 y)"
    using ilog2_bounds(2) [OF assms(1)] pow2_mono [of "ilog2 x + 1" "ilog2 y"] less(2) by simp
  then have "nearest x \<le> pow2 (ilog2 y)"
    using nearest_le_grid [of x "2 ^ nat (ilog2 y - ulp_exp x)"] grid [of "ulp_exp x"] less ey by simp
  also have "pow2 (ilog2 y) \<le> nearest y"
    using grid_le_nearest [of "2 ^ nat (ilog2 y - ulp_exp y)" y] grid [of "ulp_exp y"] ilog2_bounds(1) [of y] assms ey by simp
  finally show ?thesis .
qed

lemma nearest_mono: "x \<le> y \<Longrightarrow> nearest x \<le> nearest y"
proof -
  assume le: "x \<le> y"
  consider "0 < x" | "x \<le> 0" "0 \<le> y" | "y < 0" by linarith
  then show ?thesis
  proof cases
    case 2
    then show ?thesis using nearest_nonneg [of y] nearest_nonneg [of "- x"] by (simp add: nearest_minus)
  next
    case 3
    then show ?thesis using nearest_mono_pos [of "- y" "- x"] le by (simp add: nearest_minus)
  qed (use nearest_mono_pos le in auto)
qed

lemma nearest_error: "\<bar>nearest q - q\<bar> \<le> pow2 (ulp_exp q) / 2"
proof -
  let ?u = "pow2 (ulp_exp q)"
  have "nearest q - q = (of_int (round_half_even (q / ?u)) - q / ?u) * ?u" by (simp add: nearest_def algebra_simps)
  then have "\<bar>nearest q - q\<bar> = \<bar>of_int (round_half_even (q / ?u)) - q / ?u\<bar> * ?u"
    by (simp add: abs_mult less_imp_le)
  also have "\<dots> \<le> 1 / 2 * ?u"
    using round_half_even_close [of "q / ?u"] by (intro mult_right_mono) (simp_all add: less_imp_le)
  finally show ?thesis by simp
qed

lemma nearest_on_grid: "q = of_int k * pow2 (ulp_exp q) \<Longrightarrow> nearest q = q"
  using nearest_le_grid [of q k] grid_le_nearest [of k q] by simp

text \<open>A number of at most 53 bits stands.\<close>

lemma nearest_exact:
  assumes "\<bar>m\<bar> \<le> 2 ^ 53" "- 1074 \<le> e"
  shows "nearest (of_int m * pow2 e) = of_int m * pow2 e"
proof (cases "m = 0")
  case False
  let ?q = "of_int m * pow2 e"
  have q: "\<bar>?q\<bar> = of_int \<bar>m\<bar> * pow2 e" by (simp add: abs_mult less_imp_le)
  have pos: "0 < \<bar>?q\<bar>" using False by simp
  have "(of_int \<bar>m\<bar> :: rat) \<le> of_int (2 ^ 53)" using assms(1) by (simp only: of_int_le_iff)
  then have "\<bar>?q\<bar> \<le> pow2 (53 + e)"
    unfolding q pow2_add by (intro mult_right_mono) (simp_all add: pow2_def less_imp_le)
  show ?thesis
  proof (cases "\<bar>?q\<bar> = pow2 (53 + e)")
    case True
    then have "ilog2 \<bar>?q\<bar> = 53 + e" by (intro ilog2_eq) simp_all
    then have "ulp_exp ?q = e + 1" using False assms(2) by (simp add: ulp_exp_def)
    moreover have "pow2 (53 + e) = of_int (2 ^ 52) * pow2 (e + 1)" using pow2_split [of "e + 1" "53 + e"] by simp
    ultimately have "?q = of_int (if 0 \<le> ?q then 2 ^ 52 else - (2 ^ 52)) * pow2 (ulp_exp ?q)"
      using True by (cases "0 \<le> ?q") (simp_all add: abs_if)
    then show ?thesis by (rule nearest_on_grid)
  next
    case False
    with \<open>\<bar>?q\<bar> \<le> pow2 (53 + e)\<close> have "\<bar>?q\<bar> < pow2 (53 + e)" by simp
    with ilog2_bounds(1) [OF pos] have "pow2 (ilog2 \<bar>?q\<bar>) < pow2 (53 + e)" by linarith
    then have le: "ulp_exp ?q \<le> e" using assms(2) pos by (auto simp: ulp_exp_def)
    from pow2_split [OF le] have "?q = of_int (m * 2 ^ nat (e - ulp_exp ?q)) * pow2 (ulp_exp ?q)" by simp
    then show ?thesis by (rule nearest_on_grid)
  qed
qed simp

lemma nearest_int: "\<bar>i\<bar> \<le> 2 ^ 53 \<Longrightarrow> nearest (of_int i) = of_int i"
  using nearest_exact [of i 0] by (simp add: pow2_def)

subsection \<open>Operations\<close>

text \<open>\<^verbatim>\<open>float(i)\<close> of an integer: nothing where it raises \<^verbatim>\<open>OverflowError\<close>.\<close>

definition float_int :: "int \<Rightarrow> flt option" where
  "float_int i = (case to_flt (of_int i) of Num r \<Rightarrow> Some (Num r) | _ \<Rightarrow> None)"

text \<open>
  \<^verbatim>\<open>float(v)\<close>. The decimal reader of the language is the argument \<open>fl\<close>: the float a text denotes, nothing
  where it denotes none.
\<close>

datatype float_error = Type_error | Value_error | Overflow_error

definition float_of :: "(string \<Rightarrow> flt option) \<Rightarrow> pyval \<Rightarrow> float_error + flt" where
  "float_of fl v =
     (case v of
        PStr s \<Rightarrow> (case fl s of None \<Rightarrow> Inl Value_error | Some x \<Rightarrow> Inr x)
      | PFloat r _ \<Rightarrow> Inr (Num r)
      | PInt i \<Rightarrow> (case float_int i of None \<Rightarrow> Inl Overflow_error | Some x \<Rightarrow> Inr x)
      | PBool b \<Rightarrow> Inr (Num (if b then 1 else 0))
      | _ \<Rightarrow> Inl Type_error)"

fun fneg :: "flt \<Rightarrow> flt" where
  "fneg (Num a) = Num (- a)"
| "fneg PosInf = NegInf"
| "fneg NegInf = PosInf"
| "fneg NaN = NaN"

fun fadd :: "flt \<Rightarrow> flt \<Rightarrow> flt" where
  "fadd (Num a) (Num b) = to_flt (a + b)"
| "fadd NaN _ = NaN"
| "fadd _ NaN = NaN"
| "fadd PosInf NegInf = NaN"
| "fadd NegInf PosInf = NaN"
| "fadd PosInf _ = PosInf"
| "fadd NegInf _ = NegInf"
| "fadd (Num _) b = b"

definition fsub :: "flt \<Rightarrow> flt \<Rightarrow> flt" where
  "fsub a b = fadd a (fneg b)"

definition signed_inf :: "bool \<Rightarrow> flt" where
  "signed_inf positive = (if positive then PosInf else NegInf)"

fun fmult :: "flt \<Rightarrow> flt \<Rightarrow> flt" where
  "fmult (Num a) (Num b) = to_flt (a * b)"
| "fmult NaN _ = NaN"
| "fmult _ NaN = NaN"
| "fmult (Num a) i = (if a = 0 then NaN else signed_inf (0 < a \<longleftrightarrow> i = PosInf))"
| "fmult i (Num a) = (if a = 0 then NaN else signed_inf (0 < a \<longleftrightarrow> i = PosInf))"
| "fmult i j = signed_inf (i = j)"

text \<open>A division. Its divisor is not zero: each place of the code that divides has tested it.\<close>

fun fdiv :: "flt \<Rightarrow> flt \<Rightarrow> flt" where
  "fdiv (Num a) (Num b) = to_flt (a / b)"
| "fdiv NaN _ = NaN"
| "fdiv _ NaN = NaN"
| "fdiv (Num _) _ = Num 0"
| "fdiv i (Num b) = signed_inf (0 < b \<longleftrightarrow> i = PosInf)"
| "fdiv _ _ = NaN"

fun fless :: "flt \<Rightarrow> flt \<Rightarrow> bool" where
  "fless (Num a) (Num b) = (a < b)"
| "fless (Num _) b = (b = PosInf)"
| "fless NegInf b = (b \<noteq> NegInf \<and> b \<noteq> NaN)"
| "fless _ _ = False"

definition feq :: "flt \<Rightarrow> flt \<Rightarrow> bool" where
  "feq a b = (a \<noteq> NaN \<and> a = b)"

definition fle :: "flt \<Rightarrow> flt \<Rightarrow> bool" where
  "fle a b = (fless a b \<or> feq a b)"

text \<open>\<^verbatim>\<open>max(a, b)\<close> and \<^verbatim>\<open>min(a, b)\<close> answer the first unless the second is greater, or less.\<close>

definition fmax :: "flt \<Rightarrow> flt \<Rightarrow> flt" where
  "fmax a b = (if fless a b then b else a)"

definition fmin :: "flt \<Rightarrow> flt \<Rightarrow> flt" where
  "fmin a b = (if fless b a then b else a)"

text \<open>\<^verbatim>\<open>round(x, n)\<close>: the nearest decimal of \<open>n\<close> places, and of it the nearest double.\<close>

definition decimal :: "nat \<Rightarrow> int \<Rightarrow> rat" where
  "decimal n k = nearest (of_int k / 10 ^ n)"

fun fround :: "nat \<Rightarrow> flt \<Rightarrow> flt" where
  "fround n (Num q) = Num (decimal n (round_half_even (q * 10 ^ n)))"
| "fround n x = x"

text \<open>\<^verbatim>\<open>int(x)\<close>\<close>

definition int_of_flt :: "flt \<Rightarrow> float_error + int" where
  "int_of_flt x =
     (case x of
        Num q \<Rightarrow> Inr (if 0 \<le> q then \<lfloor>q\<rfloor> else \<lceil>q\<rceil>)
      | NaN \<Rightarrow> Inl Value_error
      | _ \<Rightarrow> Inl Overflow_error)"

text \<open>\<^verbatim>\<open>sum\<close> of floats: the compensated sum of the language since 3.12, begun at the first number.\<close>

definition fabs :: "flt \<Rightarrow> flt" where
  "fabs x = (if fless x (Num 0) then fneg x else x)"

fun sum_loop :: "flt \<Rightarrow> flt \<Rightarrow> flt list \<Rightarrow> flt" where
  "sum_loop s c [] = (case c of Num q \<Rightarrow> if q = 0 then s else fadd s c | _ \<Rightarrow> s)"
| "sum_loop s c (x # xs) =
     (let t = fadd s x in
      sum_loop t (fadd c (if fle (fabs x) (fabs s) then fadd (fsub s t) x else fadd (fsub x t) s)) xs)"

fun fsum :: "flt list \<Rightarrow> flt" where
  "fsum [] = Num 0"
| "fsum (x # xs) = sum_loop x (Num 0) xs"

lemma fless_Num_iff: "fle (Num a) (Num b) \<longleftrightarrow> a \<le> b"
  by (auto simp: fle_def feq_def)

lemma to_flt_small: "\<bar>nearest q\<bar> < pow2 1024 \<Longrightarrow> to_flt q = Num (nearest q)"
  by (auto simp: to_flt_def Let_def abs_if split: if_splits)

lemma nearest_abs_le:
  assumes "\<bar>q\<bar> \<le> of_int i" "i \<le> 2 ^ 53"
  shows "\<bar>nearest q\<bar> \<le> of_int i"
proof -
  have "0 \<le> i" using assms(1) by (metis abs_ge_zero dual_order.trans of_int_0_le_iff)
  then have "nearest (of_int i) = of_int i" "nearest (- of_int i) = - of_int i"
    using assms(2) nearest_int [of i] by (simp_all add: nearest_minus)
  with nearest_mono [of q "of_int i"] nearest_mono [of "- of_int i" q] assms(1) show ?thesis by (simp add: abs_le_iff)
qed

lemma to_flt_int_bound:
  assumes "\<bar>q\<bar> \<le> of_int i" "i \<le> 2 ^ 53"
  shows "to_flt q = Num (nearest q)"
proof (rule to_flt_small)
  have "(of_int i :: rat) \<le> of_int (2 ^ 53)" using assms(2) by (simp only: of_int_le_iff)
  also have "of_int (2 ^ 53) < pow2 1024" by (simp add: pow2_def)
  finally show "\<bar>nearest q\<bar> < pow2 1024" using nearest_abs_le [OF assms] by linarith
qed

lemma float_int_exact: "\<bar>i\<bar> \<le> 2 ^ 53 \<Longrightarrow> float_int i = Some (Num (of_int i))"
  using to_flt_int_bound [of "of_int i" "\<bar>i\<bar>"] by (simp add: float_int_def nearest_int)

lemma nearest_numeral [simp]: "numeral n \<le> (2 ^ 53 :: int) \<Longrightarrow> nearest (numeral n) = numeral n"
  using nearest_int [of "numeral n"] by simp

lemma nearest_one [simp]: "nearest 1 = 1"
  using nearest_int [of 1] by simp

lemma to_flt_numeral [simp]: "numeral n \<le> (2 ^ 53 :: int) \<Longrightarrow> to_flt (numeral n) = Num (numeral n)"
  using to_flt_int_bound [of "numeral n" "numeral n"] by simp

lemma to_flt_zero_one [simp]: "to_flt 0 = Num 0" "to_flt 1 = Num 1"
  using to_flt_int_bound [of 0 0] to_flt_int_bound [of 1 1] by simp_all

lemma decimal_mono: "j \<le> k \<Longrightarrow> decimal n j \<le> decimal n k"
  unfolding decimal_def by (intro nearest_mono divide_right_mono) simp_all

lemma decimal_zero [simp]: "decimal n 0 = 0"
  by (simp add: decimal_def)

lemma decimal_whole: "\<bar>i\<bar> \<le> 2 ^ 53 \<Longrightarrow> decimal n (i * 10 ^ n) = of_int i"
  by (simp add: decimal_def nearest_int)

text \<open>The error of the rounding, for a number whose size is known.\<close>

lemma nearest_error_below:
  assumes "\<bar>q\<bar> < pow2 k" "- 1021 \<le> k"
  shows "\<bar>nearest q - q\<bar> \<le> pow2 (k - 54)"
proof (cases "q = 0")
  case False
  with ilog2_bounds(1) [of "\<bar>q\<bar>"] assms(1) have "pow2 (ilog2 \<bar>q\<bar>) < pow2 k" by linarith
  with False assms(2) have "ulp_exp q \<le> k - 53" by (simp add: ulp_exp_def)
  then have "pow2 (ulp_exp q) \<le> pow2 (k - 53)" by (rule pow2_mono)
  moreover have "pow2 (k - 53) = 2 * pow2 (k - 54)" using pow2_add [of 1 "k - 54"] by (simp add: pow2_def)
  ultimately show ?thesis using nearest_error [of q] by simp
qed (simp add: less_imp_le)

text \<open>
  A percentage written with two decimals and its complement add up: the rounding of the difference
  is absorbed by the second rounding to two decimals.
\<close>

lemma complement_of_decimal:
  assumes "0 \<le> k" "k \<le> 10000"
  shows "fround 2 (fsub (Num 100) (Num (decimal 2 k))) = Num (decimal 2 (10000 - k))"
proof -
  let ?d = "decimal 2 k"
  have k: "\<bar>of_int k / 100\<bar> < pow2 7" "\<bar>of_int k / 100\<bar> \<le> (of_int 100 :: rat)"
    using assms by (simp_all add: pow2_def)
  from nearest_error_below [OF k(1)] have d: "\<bar>?d - of_int k / 100\<bar> \<le> pow2 (- 47)" by (simp add: decimal_def)
  have "?d \<le> 100" "0 \<le> ?d"
    using decimal_mono [OF assms(2), of 2] decimal_mono [OF assms(1), of 2] decimal_whole [of 100 2] decimal_whole [of 0 2] by simp_all
  then have rest: "\<bar>100 - ?d\<bar> < pow2 7" "\<bar>100 - ?d\<bar> \<le> of_int 100" by (simp_all add: pow2_def)
  have "nearest (100 - ?d) * 100 - of_int (10000 - k) =
      (nearest (100 - ?d) - (100 - ?d)) * 100 - (?d - of_int k / 100) * 100" by simp
  moreover have "\<bar>nearest (100 - ?d) - (100 - ?d)\<bar> < 1 / 1000" "\<bar>?d - of_int k / 100\<bar> < 1 / 1000"
    using nearest_error_below [OF rest(1)] d by (simp_all add: pow2_def)
  ultimately have "\<bar>nearest (100 - ?d) * 100 - of_int (10000 - k)\<bar> < 1 / 2" by linarith
  then have "round_half_even (nearest (100 - ?d) * 100) = 10000 - k" by (rule round_half_even_near)
  with to_flt_int_bound [OF rest(2)] show ?thesis by (simp add: fsub_def)
qed

text \<open>A share of a whole that misses something is below a hundred percent, also after both roundings.\<close>

lemma partial_share_below_hundred:
  assumes "0 \<le> g" "g < t" "t \<le> 2 ^ 53"
  shows "nearest (nearest (of_int g / of_int t) * 100) < 100"
proof -
  let ?b = "of_int (2 ^ 53 - 1) * pow2 (- 53)"
  have "(of_int g :: rat) \<le> of_int t - 1" using assms(2)
    by (metis of_int_1 of_int_diff of_int_le_iff zle_diff1_eq)
  moreover have "(of_int t :: rat) \<le> of_int (2 ^ 53)" "0 < (of_int t :: rat)"
    using assms by (simp only: of_int_le_iff, simp)
  ultimately have "of_int g / of_int t \<le> ?b"
    by (simp add: pow2_def divide_le_eq)
  then have "nearest (of_int g / of_int t) \<le> ?b"
    using nearest_mono nearest_exact [of "2 ^ 53 - 1" "- 53"] by fastforce
  then have "nearest (nearest (of_int g / of_int t) * 100) \<le> nearest (?b * 100)" by (intro nearest_mono) simp
  also have "nearest (?b * 100) \<le> 100 - pow2 (- 46)"
  proof -
    have ge: "pow2 6 \<le> \<bar>?b * 100\<bar>" and lt: "\<bar>?b * 100\<bar> < pow2 (6 + 1)" by (simp_all add: pow2_def)
    have "ulp_exp (?b * 100) = - 46"
      using ilog2_eq [OF ge lt] by (simp add: ulp_exp_def pow2_def)
    moreover have "?b * 100 / pow2 (- 46) = of_int (100 * 2 ^ 46 - 1) + 28 / 128" by (simp add: pow2_def)
    then have "round_half_even (?b * 100 / pow2 (- 46)) = 100 * 2 ^ 46 - 1"
      by (intro round_half_even_near) simp
    ultimately show ?thesis by (simp add: nearest_def pow2_def)
  qed
  also have "100 - pow2 (- 46) < 100" by simp
  finally show ?thesis .
qed

end
