(* ===== verification/RestoreSpace.thy ===== *)
theory RestoreSpace
  imports SqlText PyFloat
begin

section \<open>Room for a restore\<close>

text \<open>
  Models \<^verbatim>\<open>dbabrain/lib/restore_space.py\<close> and the two checks of \<^verbatim>\<open>dbabrain/backup_restore/space.py\<close>: how much
  room a copy and a restore must find before they start, and what is refused.

  The factor is a float of \<open>PyFloat\<close>: a number, an infinity or not-a-number; \<open>fl\<close> reads one from
  text. The readings of the disks and of the instance are arguments of the checks.
\<close>

subsection \<open>The rule of an entry\<close>

datatype space_error =
    Not_an_object | Unknown_fields "string list" | Bad_enabled | Bad_measure_restore | Factor_not_a_number | Factor_below_one
  | Bad_on_unknown | Negative_size | ValueError | OverflowError
  | Unmeasured | Will_not_fit int int | Node_will_not_fit int int

record space_check =
  sc_enabled :: bool
  sc_factor :: flt
  on_unknown :: string
  measure_restore :: bool

definition DEFAULT_SAFETY_FACTOR :: flt where
  "DEFAULT_SAFETY_FACTOR = Num 2"

definition UNKNOWN_CHOICES :: "string list" where
  "UNKNOWN_CHOICES = [''refuse'', ''proceed'']"

definition default_space_check :: space_check where
  "default_space_check = \<lparr>sc_enabled = True, sc_factor = DEFAULT_SAFETY_FACTOR, on_unknown = ''refuse'', measure_restore = False\<rparr>"

definition SPACE_CHECK_FIELDS :: "string list" where
  "SPACE_CHECK_FIELDS = [''enabled'', ''factor'', ''on_unknown'', ''measure_restore'']"

definition is_bool :: "pyval \<Rightarrow> bool" where
  "is_bool v = (case v of PBool b \<Rightarrow> True | _ \<Rightarrow> False)"

definition read_space_check :: "(string \<Rightarrow> flt option) \<Rightarrow> pydict \<Rightarrow> space_error + space_check" where
  "read_space_check fl raw =
     (let unknown = filter (\<lambda>k. k \<notin> set SPACE_CHECK_FIELDS) (sorted_keys raw);
          on = get_or raw ''enabled'' (PBool True);
          measure = get_or raw ''measure_restore'' (PBool False);
          choice = lower (strip (if truthy (get raw ''on_unknown'') then py_str (get raw ''on_unknown'') else ''refuse'')) in
      rbind (check (unknown = []) (Unknown_fields unknown)) (\<lambda>_.
      rbind (check (is_bool on) Bad_enabled) (\<lambda>_.
      rbind (check (is_bool measure) Bad_measure_restore) (\<lambda>_.
      rbind (case map_of raw ''factor'' of
               None \<Rightarrow> Inr DEFAULT_SAFETY_FACTOR
             | Some v \<Rightarrow> (case float_of fl v of
                 Inl Overflow_error \<Rightarrow> Inl OverflowError
               | Inl e \<Rightarrow> Inl Factor_not_a_number
               | Inr f \<Rightarrow> Inr f)) (\<lambda>f.
      rbind (check (\<not> fless f (Num 1)) Factor_below_one) (\<lambda>_.
      rbind (check (choice \<in> set UNKNOWN_CHOICES) Bad_on_unknown) (\<lambda>_.
        Inr \<lparr>sc_enabled = (on = PBool True), sc_factor = f, on_unknown = choice, measure_restore = (measure = PBool True)\<rparr>)))))))"

definition parse_space_check :: "(string \<Rightarrow> flt option) \<Rightarrow> pydict \<Rightarrow> space_error + space_check" where
  "parse_space_check fl entry =
     (case get entry ''space_check'' of
        PNone \<Rightarrow> Inr default_space_check
      | PDict raw \<Rightarrow> read_space_check fl raw
      | _ \<Rightarrow> Inl Not_an_object)"

subsection \<open>The arithmetic\<close>

definition trunc_int :: "rat \<Rightarrow> int" where
  "trunc_int r = (if 0 \<le> r then \<lfloor>r\<rfloor> else \<lceil>r\<rceil>)"

definition required_bytes :: "int \<Rightarrow> flt \<Rightarrow> space_error + int" where
  "required_bytes incoming f =
     (if incoming < 0 then Inl Negative_size
      else case float_int incoming of
        None \<Rightarrow> Inl OverflowError
      | Some i \<Rightarrow>
          (case fmult i f of
             Num required \<Rightarrow> (let whole = trunc_int required in Inr (if of_int whole = required then whole else whole + 1))
           | NaN \<Rightarrow> Inl ValueError
           | _ \<Rightarrow> Inl OverflowError))"

record space_verdict =
  sv_ok :: bool
  sv_incoming :: int
  sv_free :: int
  sv_required :: int

definition shortfall_bytes :: "space_verdict \<Rightarrow> int" where
  "shortfall_bytes v = max 0 (sv_required v - sv_free v)"

definition judge :: "int \<Rightarrow> int \<Rightarrow> flt \<Rightarrow> space_error + space_verdict" where
  "judge incoming free f =
     rbind (required_bytes incoming f) (\<lambda>needed.
       Inr \<lparr>sv_ok = (needed \<le> free), sv_incoming = incoming, sv_free = free, sv_required = needed\<rparr>)"

fun remaining_loop :: "(string \<times> int) list \<Rightarrow> int \<times> int \<times> int \<Rightarrow> (string \<times> int) list \<Rightarrow> int \<times> int \<times> int" where
  "remaining_loop staged (to_write, staged_bytes, largest) [] = (to_write, staged_bytes, largest)"
| "remaining_loop staged (to_write, staged_bytes, largest) ((path, nbytes) # incoming) =
     remaining_loop staged
       (if map_of staged path = Some nbytes then (to_write, staged_bytes + nbytes, max largest nbytes)
        else (to_write + nbytes, staged_bytes, largest)) incoming"

definition remaining_bytes :: "(string \<times> int) list \<Rightarrow> (string \<times> int) list \<Rightarrow> bool \<Rightarrow> int \<times> int" where
  "remaining_bytes incoming staged recopy =
     (case remaining_loop staged (0, 0, 0) incoming of
        (to_write, staged_bytes, largest) \<Rightarrow> (to_write + (if recopy then largest else 0), staged_bytes))"

record room_verdict =
  rv_ok :: bool
  rv_new :: int
  rv_replaced :: int
  rv_free :: int
  rv_required :: int

definition judge_restore :: "int \<Rightarrow> int \<Rightarrow> int \<Rightarrow> flt \<Rightarrow> space_error + room_verdict" where
  "judge_restore new_bytes replaced free f =
     (if new_bytes < 0 \<or> replaced < 0 then Inl Negative_size
      else rbind (required_bytes (max 0 (new_bytes - replaced)) f) (\<lambda>needed.
        Inr \<lparr>rv_ok = (needed \<le> free), rv_new = new_bytes, rv_replaced = replaced, rv_free = free, rv_required = needed\<rparr>))"

subsection \<open>Asking a Linux target\<close>

definition quoted :: "string \<Rightarrow> string" where
  "quoted target = [QUOTE] @ concat (map (\<lambda>c. if c = QUOTE then [QUOTE, BACKSLASH, QUOTE, QUOTE] else [c]) target) @ [QUOTE]"

definition free_space_command :: "string \<Rightarrow> string" where
  "free_space_command target =
     ''p='' @ quoted target @ ''; while [ ! -e '' @ [DQUOTE] @ ''$p'' @ [DQUOTE] @ '' ] && [ '' @ [DQUOTE] @ ''$p'' @ [DQUOTE] @
     '' != / ]; do p=$(dirname '' @ [DQUOTE] @ ''$p'' @ [DQUOTE] @ ''); done; df -Pk '' @ [DQUOTE] @ ''$p'' @ [DQUOTE]"

fun words_from :: "string \<Rightarrow> string \<Rightarrow> string list" where
  "words_from w [] = (if w = [] then [] else [w])"
| "words_from w (c # cs) = (if is_ws c then (if w = [] then [] else [w]) @ words_from [] cs else words_from (w @ [c]) cs)"

definition parse_df_free_bytes :: "string \<Rightarrow> int option" where
  "parse_df_free_bytes stdout =
     (let lines = filter (\<lambda>l. strip l \<noteq> []) (splitlines [] stdout) in
      if length lines < 2 then None
      else let columns = words_from [] (last lines) in
        if length columns < 4 then None else map_option (\<lambda>n. n * 1024) (parse_int (columns ! 3)))"

subsection \<open>The check before a copy\<close>

record copy_measure =
  cm_to_write :: int
  cm_staged :: int
  cm_through_node :: int

text \<open>\<open>selected\<close> is what the source lists, \<open>None\<close> when it cannot be read; \<open>on_target\<close> what the target holds.\<close>

definition measure_copy ::
  "(string \<times> int) list option \<Rightarrow> (string \<times> int) list \<Rightarrow> bool \<Rightarrow> bool \<Rightarrow> bool \<Rightarrow> copy_measure option" where
  "measure_copy selected on_target is_linux through_smb recopy =
     map_option (\<lambda>incoming.
       let (to_write, staged) = remaining_bytes incoming on_target (recopy \<and> is_linux) in
       \<lparr>cm_to_write = to_write, cm_staged = staged,
        cm_through_node = (if through_smb
          then sum_list (map snd (filter (\<lambda>(key, nbytes). recopy \<or> map_of on_target key \<noteq> Some nbytes) incoming)) else 0)\<rparr>) selected"

datatype check_answer = Disabled | Not_asked | Not_measured "int option" "int option" | Fits space_verdict | Restore_fits room_verdict

definition check_node_staging :: "int option \<Rightarrow> int \<Rightarrow> space_error + unit" where
  "check_node_staging node_free staged_here =
     (case node_free of
        None \<Rightarrow> Inr ()
      | Some free \<Rightarrow> if free < staged_here then Inl (Node_will_not_fit staged_here free) else Inr ())"

definition check_free_space ::
  "space_check \<Rightarrow> copy_measure option \<Rightarrow> int option \<Rightarrow> int option \<Rightarrow> space_error + check_answer" where
  "check_free_space rule measured node_free target_free =
     (if \<not> sc_enabled rule then Inr Disabled
      else rbind (case measured of
                    Some m \<Rightarrow> if cm_through_node m \<noteq> 0 then check_node_staging node_free (cm_through_node m) else Inr ()
                  | None \<Rightarrow> Inr ()) (\<lambda>_.
        case (map_option cm_to_write measured, target_free) of
          (Some incoming, Some free) \<Rightarrow>
            rbind (judge incoming free (sc_factor rule)) (\<lambda>v.
              if sv_ok v then Inr (Fits v) else Inl (Will_not_fit (sv_required v) free))
        | (incoming, free) \<Rightarrow>
            if on_unknown rule = ''proceed'' then Inr (Not_measured incoming free) else Inl Unmeasured))"

subsection \<open>The check before a restore\<close>

definition ROOM_MARKER :: string where
  "ROOM_MARKER = ''DBABRAIN_ROOM|''"

definition room_number :: "string \<Rightarrow> int option" where
  "room_number s = (let t = strip s in if t \<noteq> [] \<and> list_all is_digit t then Some (digits_value t) else None)"

record room_reading =
  rr_created :: "int option"
  rr_overwritten :: "int option"
  rr_free :: "int option"

definition room_parts :: "string \<Rightarrow> string list" where
  "room_parts line = split_on (CHR ''|'') (strip (drop (through ROOM_MARKER line) line))"

definition part_or_empty :: "string list \<Rightarrow> nat \<Rightarrow> string" where
  "part_or_empty ps i = (if i < length ps then ps ! i else [])"

definition parse_restore_room :: "string \<Rightarrow> room_reading" where
  "parse_restore_room stdout =
     (let parts = (case List.find (\<lambda>l. contains l ROOM_MARKER) (splitlines [] stdout) of
                     None \<Rightarrow> [] | Some line \<Rightarrow> room_parts line) in
      \<lparr>rr_created = room_number (part_or_empty parts 0), rr_overwritten = room_number (part_or_empty parts 1),
       rr_free = room_number (part_or_empty parts 2)\<rparr>)"

text \<open>\<open>answer\<close> is what the instance prints, \<open>None\<close> when asking it raised.\<close>

definition check_restore_room ::
  "space_check \<Rightarrow> string option \<Rightarrow> space_error + check_answer" where
  "check_restore_room rule answer =
     (if \<not> sc_enabled rule then Inr Disabled
      else if \<not> measure_restore rule then Inr Not_asked
      else let m = (case answer of None \<Rightarrow> \<lparr>rr_created = None, rr_overwritten = None, rr_free = None\<rparr>
                    | Some s \<Rightarrow> parse_restore_room s) in
        case (rr_created m, rr_free m) of
          (Some created, Some free) \<Rightarrow>
            rbind (judge_restore created (case rr_overwritten m of None \<Rightarrow> 0 | Some n \<Rightarrow> n) free (sc_factor rule)) (\<lambda>v.
              if rv_ok v then Inr (Restore_fits v) else Inl (Will_not_fit (rv_required v) free))
        | (created, free) \<Rightarrow>
            if on_unknown rule = ''proceed'' then Inr (Not_measured created free) else Inl Unmeasured)"

subsection \<open>What the target's shell reads\<close>

text \<open>One word of a POSIX shell, built of single-quoted parts and escaped characters; the text after it.\<close>

fun sh_word :: "bool \<Rightarrow> string \<Rightarrow> string \<times> string" where
  "sh_word inside [] = ([], [])"
| "sh_word True (c # s) = (if c = QUOTE then sh_word False s else (case sh_word True s of (w, r) \<Rightarrow> (c # w, r)))"
| "sh_word False [c] = (if c = QUOTE then sh_word True [] else ([], [c]))"
| "sh_word False (c # d # s) =
     (if c = QUOTE then sh_word True (d # s)
      else if c = BACKSLASH then (case sh_word False s of (w, r) \<Rightarrow> (d # w, r))
      else ([], c # d # s))"

lemma sh_word_quoted_part:
  assumes "rest \<noteq> []" "hd rest \<noteq> QUOTE" "hd rest \<noteq> BACKSLASH"
  shows "sh_word True (concat (map (\<lambda>c. if c = QUOTE then [QUOTE, BACKSLASH, QUOTE, QUOTE] else [c]) s) @ QUOTE # rest) = (s, rest)"
proof (induction s)
  case Nil
  obtain c cs where "rest = c # cs" using assms(1) by (cases rest) auto
  with assms show ?case by (cases cs) simp_all
next
  case (Cons a s)
  have escaped: "sh_word True (QUOTE # BACKSLASH # QUOTE # QUOTE # t) = (case sh_word True t of (w, r) \<Rightarrow> (QUOTE # w, r))" for t
    by (cases t) (simp_all add: QUOTE_def BACKSLASH_def)
  have kept: "sh_word True (a # t) = (case sh_word True t of (w, r) \<Rightarrow> (a # w, r))" if "a \<noteq> QUOTE" for t
    using that by simp
  show ?case using Cons.IH by (cases "a = QUOTE") (simp_all add: escaped kept del: sh_word.simps)
qed

text \<open>Whatever a staging folder is called, the target's shell reads its name as one word: after p= it reads the
  folder's name, quotes, blanks and all, and goes on at the semicolon that follows.\<close>

theorem target_is_one_shell_word:
  "\<exists>more. sh_word False (drop 2 (free_space_command target)) = (target, '';'' @ more)"
proof -
  obtain more where "drop 2 (free_space_command target) = quoted target @ '';'' @ more" by (simp add: free_space_command_def)
  moreover have "sh_word False (quoted target @ '';'' @ more) = (target, '';'' @ more)"
  proof -
    let ?q = "concat (map (\<lambda>c. if c = QUOTE then [QUOTE, BACKSLASH, QUOTE, QUOTE] else [c]) target) @ QUOTE # '';'' @ more"
    have "sh_word False (QUOTE # ?q) = sh_word True ?q" by (cases ?q) auto
    also have "sh_word True ?q = (target, '';'' @ more)"
      by (rule sh_word_quoted_part) (simp_all add: QUOTE_def BACKSLASH_def)
    finally show ?thesis by (simp add: quoted_def)
  qed
  ultimately show ?thesis by auto
qed

subsection \<open>A copy that starts fits\<close>

definition unstaged :: "(string \<times> int) list \<Rightarrow> (string \<times> int) list \<Rightarrow> (string \<times> int) list" where
  "unstaged on_target incoming = filter (\<lambda>(p, s). map_of on_target p \<noteq> Some s) incoming"

lemma remaining_loop_sums:
  assumes "remaining_loop staged (w, b, l) incoming = (w', b', l')"
  shows "w' = w + sum_list (map snd (unstaged staged incoming)) \<and>
    b' = b + sum_list (map snd (filter (\<lambda>(p, s). map_of staged p = Some s) incoming)) \<and> l \<le> l' \<and>
    (\<forall>(p, s) \<in> set incoming. map_of staged p = Some s \<longrightarrow> s \<le> l')"
  using assms
proof (induction staged "(w, b, l)" incoming arbitrary: w b l rule: remaining_loop.induct)
  case (2 staged w b l path nbytes incoming)
  show ?case
  proof (cases "map_of staged path = Some nbytes")
    case True
    with "2.prems" have "remaining_loop staged (w, b + nbytes, max l nbytes) incoming = (w', b', l')" by simp
    from "2.hyps" [OF _ this] True show ?thesis by (auto simp: unstaged_def)
  next
    case False
    with "2.prems" have "remaining_loop staged (w + nbytes, b, l) incoming = (w', b', l')" by simp
    from "2.hyps" [OF _ this] False show ?thesis by (auto simp: unstaged_def)
  qed
qed (simp add: unstaged_def)

lemma required_covers:
  assumes "required_bytes i f = Inr n" "i \<le> 2 ^ 53" "\<not> fless f (Num 1)"
  shows "i \<le> n"
proof -
  have i: "0 \<le> i" "float_int i = Some (Num (of_int i))"
    using assms(1,2) float_int_exact [of i] by (auto simp: required_bytes_def split: if_splits)
  obtain q where q: "fmult (Num (of_int i)) f = Num q" "n = (if of_int (trunc_int q) = q then trunc_int q else trunc_int q + 1)"
    using assms(1) i by (auto simp: required_bytes_def Let_def split: flt.splits if_splits)
  from q(1) obtain r where r: "f = Num r" by (cases f) (auto simp: signed_inf_def split: if_splits)
  with q(1) have "q = nearest (of_int i * r)" by (auto simp: to_flt_def Let_def split: if_splits)
  moreover have "(of_int i :: rat) \<le> of_int i * r" using i assms(3) r by (simp add: mult_le_cancel_left1)
  ultimately have "of_int i \<le> q" using nearest_mono nearest_int [of i] i assms(2) by fastforce
  with i(1) have "i \<le> trunc_int q" by (simp add: trunc_int_def le_floor_iff order_trans [of 0 "of_int i" q])
  with q(2) show ?thesis by simp
qed

lemma parsed_factor:
  assumes "parse_space_check fl entry = Inr rule"
  shows "\<not> fless (sc_factor rule) (Num 1)"
  using assms
  by (auto simp: parse_space_check_def read_space_check_def default_space_check_def DEFAULT_SAFETY_FACTOR_def Let_def
      rbind_eq_Inr split: pyval.splits option.splits)

text \<open>C28: a copy starts only when it fits, or when the entry gave the check up. After a check that answers, either the
  check is switched off in the entry; or a number could not be read and the entry says to proceed;
  or the files the copy has to write fit in the free space of the target - and a forced copy also has
  room for any one staged file beside itself. The sizes are up to two to the fifty-third,
  where they are exact floats and a product with a factor of at least one is not rounded below them.\<close>

theorem a_copy_that_starts_fits:
  assumes "parse_space_check fl entry = Inr rule"
    and "measured = measure_copy selected on_target is_linux smb recopy"
    and "check_free_space rule measured node_free target_free = Inr answer"
    and "\<forall>m. measured = Some m \<longrightarrow> cm_to_write m \<le> 2 ^ 53"
  shows "case answer of
      Disabled \<Rightarrow> \<not> sc_enabled rule
    | Not_measured incoming free \<Rightarrow> on_unknown rule = ''proceed'' \<and> (selected = None \<or> target_free = None)
    | Fits v \<Rightarrow> \<exists>incoming free. selected = Some incoming \<and> target_free = Some free \<and>
        sum_list (map snd (unstaged on_target incoming)) \<le> free \<and>
        (recopy \<and> is_linux \<longrightarrow> (\<forall>(p, s) \<in> set incoming. map_of on_target p = Some s \<longrightarrow>
          sum_list (map snd (unstaged on_target incoming)) + s \<le> free))
    | _ \<Rightarrow> False"
proof (cases "sc_enabled rule \<and> selected \<noteq> None \<and> target_free \<noteq> None")
  case False
  then have "measured = None \<or> \<not> sc_enabled rule \<or> target_free = None" using assms(2) by (auto simp: measure_copy_def)
  with assms(2,3) False show ?thesis
    by (auto simp: check_free_space_def measure_copy_def rbind_eq_Inr split: option.splits if_splits)
next
  case True
  then obtain incoming free where in_out: "selected = Some incoming" "target_free = Some free" by auto
  obtain w b l where sums: "remaining_loop on_target (0, 0, 0) incoming = (w, b, l)" by (cases "remaining_loop on_target (0, 0, 0) incoming")
  let ?need = "w + (if recopy \<and> is_linux then l else 0)"
  obtain m where m: "measured = Some m" "cm_to_write m = ?need"
    using assms(2) in_out sums by (simp add: measure_copy_def remaining_bytes_def)
  with assms(3) True in_out obtain v where v: "judge ?need free (sc_factor rule) = Inr v" "sv_ok v" "answer = Fits v"
    by (auto simp: check_free_space_def rbind_eq_Inr split: if_splits)
  then obtain n where n: "required_bytes ?need (sc_factor rule) = Inr n" "n \<le> free"
    by (auto simp: judge_def rbind_eq_Inr)
  moreover have "?need \<le> 2 ^ 53" using assms(4) m by simp
  ultimately have "?need \<le> free"
    using required_covers [OF n(1) _ parsed_factor [OF assms(1)]] by simp
  with remaining_loop_sums [OF sums] v(3) in_out show ?thesis by (fastforce split: if_splits)
qed

theorem a_copy_that_starts_fits_witness:
  "parse_space_check (\<lambda>_. None) [] = Inr default_space_check \<and>
   (\<exists>v. check_free_space default_space_check
      (measure_copy (Some [(''a.bak'', 40), (''b.bak'', 10)]) [(''b.bak'', 10)] True False False) None (Some 80) = Inr (Fits v)) \<and>
   sum_list (map snd (unstaged [(''b.bak'', 10)] [(''a.bak'', 40), (''b.bak'', 10)])) \<le> 80"
proof -
  let ?m = "measure_copy (Some [(''a.bak'', 40), (''b.bak'', 10)]) [(''b.bak'', 10)] True False False"
  have entry: "parse_space_check (\<lambda>_. None) [] = Inr default_space_check" by code_simp
  have m: "?m = Some \<lparr>cm_to_write = 40, cm_staged = 10, cm_through_node = 0\<rparr>" by code_simp
  obtain v where fits: "check_free_space default_space_check ?m None (Some 80) = Inr (Fits v)"
    unfolding m by (simp add: check_free_space_def default_space_check_def judge_def required_bytes_def DEFAULT_SAFETY_FACTOR_def
        float_int_exact to_flt_int_bound [of 80 80] nearest_int [of 80, simplified] trunc_int_def)
  have "sum_list (map snd (unstaged [(''b.bak'', 10)] [(''a.bak'', 40), (''b.bak'', 10)])) \<le> 80"
    using a_copy_that_starts_fits [OF entry refl fits] by (simp add: m)
  with entry fits show ?thesis by blast
qed

subsection \<open>A factor that is no number\<close>

text \<open>
  The factor is refused below one by a comparison, and not-a-number is below nothing: an entry with the
  factor \<^verbatim>\<open>nan\<close> is accepted as written, and its check raises instead of answering.
\<close>

theorem nan_factor_is_accepted:
  "\<exists>rule. parse_space_check (\<lambda>s. if s = ''nan'' then Some NaN else None) [(''space_check'', PDict [(''factor'', PStr ''nan'')])] = Inr rule \<and>
    judge 1 (2 ^ 40) (sc_factor rule) = Inl ValueError"
proof (intro exI conjI)
  show "parse_space_check (\<lambda>s. if s = ''nan'' then Some NaN else None) [(''space_check'', PDict [(''factor'', PStr ''nan'')])] =
      Inr (default_space_check\<lparr>sc_factor := NaN\<rparr>)"
    by code_simp
qed (simp add: judge_def required_bytes_def float_int_exact)

end
