(* ===== verification/SlaPolicies.thy ===== *)
theory SlaPolicies
  imports BackupPolicy PyFloat
begin

section \<open>SLA policies\<close>

text \<open>
  Models \<^verbatim>\<open>dbabrain/sla/policies.py\<close> and the policy of \<^verbatim>\<open>dbabrain/sla/models.py\<close>: what an entry of the policy
  document may say, and what is refused. A policy that is accepted is well-formed, which is what the
  evaluation of \<open>SlaCompliance\<close> relies on. The file is an argument: the decoded document.
\<close>

datatype sla_error =
    No_policy_id | Bad_model | No_scope | No_metric_codes | No_rto_target | Bad_rto_target | Bad_aggregation
  | Minutes_without_time | Count_without_upper_bound | No_target_value | Bad_percentile | Bad_operator | Bad_minimum
  | Bad_missing_policy | Minutes_aggregated | Alerts_not_a_list | Alerts_without_minutes | Alert_not_an_object
  | Bad_alert_severity | Bad_alert_factor | Alert_minutes_not_integers | Alert_minutes_not_positive | Alert_short_not_shorter
  | Windows_not_a_list | Bad_maintenance_window | Window_not_before_end | Bad_window_hours | Not_text_or_list
  | Not_an_array | Not_an_object | Number_error float_error | Unreadable_time | Unknown_operation | Store_outage | Index_error | Not_iterable
  | Backup_policy_error bp_error

record burn_alert_rule =
  ba_severity :: string
  ba_factor :: flt
  ba_long :: int
  ba_short :: int

record sla_policy =
  policy_id :: string
  display_name :: string
  metric_codes :: "string list"
  objective_percent :: flt
  target_ids :: "string list"
  db_types_of :: "string list"
  window_hours :: int
  good_statuses :: "string list"
  at_risk_budget_percent :: flt
  aggregate :: bool
  category :: string
  description :: string
  sli_code :: string
  aggregation :: string
  policy_model :: string
  comparison_operator :: string
  target_value :: "flt option"
  unit_name :: string
  minimum_sample_count :: int
  expected_interval :: "int option"
  freshness_threshold :: "int option"
  missing_data_policy :: string
  required :: bool
  maintenance_windows :: "(string \<times> string) list"
  percentile :: flt
  rto_target_seconds :: "int option"
  burn_rate_alerts :: "burn_alert_rule list"
  calendar_month_report :: bool

definition SUPPORTED_POLICY_MODELS :: "string list" where
  "SUPPORTED_POLICY_MODELS = [''time_slo'', ''current_state'', ''finding_inventory'', ''backup_rpo'', ''restore_drill'']"

definition SUPPORTED_AGGREGATIONS :: "string list" where
  "SUPPORTED_AGGREGATIONS = [''success_ratio'', ''average'', ''minimum'', ''maximum'', ''sum'', ''count'', ''latest'', ''percentile'', ''minutes'']"

definition COUNT_MODELS :: "string list" where
  "COUNT_MODELS = [''finding_inventory'', ''backup_rpo'', ''restore_drill'']"

definition COMPARISON_OPERATORS :: "string list" where
  "COMPARISON_OPERATORS = [''>='', ''>'', ''<='', ''<'', ''=='', ''!='']"

definition RENAMES_sla_policy :: "(string \<times> string) list" where
  "RENAMES_sla_policy = [(''name'', ''display_name''), (''slo_target'', ''objective_percent''),
     (''aggregation_method'', ''aggregation''), (''operator'', ''comparison_operator'')]"

subsection \<open>Reading\<close>

text \<open>\<^verbatim>\<open>str(v or d)\<close>\<close>

definition text_or :: "pyval \<Rightarrow> string \<Rightarrow> string" where
  "text_or v d = (if truthy v then py_str v else d)"

definition read_float :: "(string \<Rightarrow> flt option) \<Rightarrow> pyval \<Rightarrow> sla_error + flt" where
  "read_float fl v = (case float_of fl v of Inl e \<Rightarrow> Inl (Number_error e) | Inr x \<Rightarrow> Inr x)"

text \<open>\<^verbatim>\<open>int(v)\<close>: a text that is no integer raises \<^verbatim>\<open>ValueError\<close>, a value that is no number \<^verbatim>\<open>TypeError\<close>.\<close>

definition read_int :: "pyval \<Rightarrow> sla_error + int" where
  "read_int v =
     (case py_int v of
        Some i \<Rightarrow> Inr i
      | None \<Rightarrow> Inl (Number_error (case v of PStr s \<Rightarrow> Value_error | _ \<Rightarrow> Type_error)))"

definition parse_string_tuple :: "pyval \<Rightarrow> sla_error + string list" where
  "parse_string_tuple v =
     rbind (case v of
         PNone \<Rightarrow> Inr []
       | PStr s \<Rightarrow> Inr (map strip (split_on (CHR '','') s))
       | PList xs \<Rightarrow> Inr (map (strip \<circ> py_str) xs)
       | _ \<Rightarrow> Inl Not_text_or_list) (\<lambda>items.
       Inr (filter (\<lambda>item. item \<noteq> []) items))"

definition parse_maintenance_window :: "pyval \<Rightarrow> sla_error + string \<times> string" where
  "parse_maintenance_window item =
     (if \<not> is_dict item \<or> \<not> truthy (get (as_dict item) ''start'') \<or> \<not> truthy (get (as_dict item) ''end'') then Inl Bad_maintenance_window
      else let s = py_str (get (as_dict item) ''start''); e = py_str (get (as_dict item) ''end'') in
           if e \<le> s then Inl Window_not_before_end else Inr (s, e))"

definition parse_maintenance_windows :: "pyval \<Rightarrow> sla_error + (string \<times> string) list" where
  "parse_maintenance_windows v =
     (case v of PNone \<Rightarrow> Inr [] | PList items \<Rightarrow> map_res parse_maintenance_window items | _ \<Rightarrow> Inl Windows_not_a_list)"

definition default_unit :: "string \<Rightarrow> string" where
  "default_unit model =
     (if model = ''finding_inventory'' then ''objects''
      else if model = ''current_state'' then ''compliant''
      else if model \<in> {''backup_rpo'', ''restore_drill''} then ''breaches'' else ''percentage'')"

definition parse_burn_rate_alert :: "(string \<Rightarrow> flt option) \<Rightarrow> pyval \<Rightarrow> sla_error + burn_alert_rule" where
  "parse_burn_rate_alert fl item =
     (case item of
        PDict d \<Rightarrow>
          let severity = lower (strip (str_or (get d ''severity''))) in
          rbind (check (severity \<in> {''page'', ''ticket''}) Bad_alert_severity) (\<lambda>_.
          rbind (case float_of fl (get d ''factor'') of
                   Inl Overflow_error \<Rightarrow> Inl (Number_error Overflow_error)
                 | Inl e \<Rightarrow> Inl Bad_alert_factor
                 | Inr x \<Rightarrow> Inr x) (\<lambda>factor.
          rbind (check (\<not> fle factor (Num 0)) Bad_alert_factor) (\<lambda>_.
          rbind (case (py_int (get d ''long_window_minutes''), py_int (get d ''short_window_minutes'')) of
                   (Some l, Some s) \<Rightarrow> Inr (l, s)
                 | _ \<Rightarrow> Inl Alert_minutes_not_integers) (\<lambda>(l, s).
          rbind (check (0 < l \<and> 0 < s) Alert_minutes_not_positive) (\<lambda>_.
          rbind (check (s < l) Alert_short_not_shorter) (\<lambda>_.
            Inr \<lparr>ba_severity = severity, ba_factor = factor, ba_long = l, ba_short = s\<rparr>))))))
      | _ \<Rightarrow> Inl Alert_not_an_object)"

definition parse_burn_rate_alerts :: "(string \<Rightarrow> flt option) \<Rightarrow> pyval \<Rightarrow> string \<Rightarrow> string \<Rightarrow> sla_error + burn_alert_rule list" where
  "parse_burn_rate_alerts fl v model agg =
     (case v of
        PNone \<Rightarrow> Inr []
      | PList [] \<Rightarrow> Inr []
      | PList items \<Rightarrow>
          if model \<noteq> ''time_slo'' \<or> agg \<noteq> ''minutes'' then Inl Alerts_without_minutes
          else map_res (parse_burn_rate_alert fl) items
      | _ \<Rightarrow> Inl Alerts_not_a_list)"

definition parse_rto_target :: "pyval \<Rightarrow> string \<Rightarrow> sla_error + int option" where
  "parse_rto_target v model =
     (if model = ''restore_drill'' then
        if v = PNone then Inl No_rto_target
        else (case py_int v of None \<Rightarrow> Inl Bad_rto_target | Some i \<Rightarrow> if i \<le> 0 then Inl Bad_rto_target else Inr (Some i))
      else Inr (if v = PNone then None else py_int v))"

definition read_sla :: "pydict \<Rightarrow> string \<Rightarrow> pyval \<Rightarrow> pyval" where
  "read_sla raw standard dflt = read raw RENAMES_sla_policy standard dflt"

text \<open>A policy that answers with a count needs an upper bound.\<close>

definition check_count_model :: "pydict \<Rightarrow> string \<Rightarrow> sla_error + unit" where
  "check_count_model raw model =
     (if model \<in> set COUNT_MODELS then
        rbind (check (strip (str_or (read_sla raw ''comparison_operator'' (PStr []))) \<in> {''<='', ''<''}) Count_without_upper_bound) (\<lambda>_.
          check (get raw ''target_value'' \<noteq> PNone) No_target_value)
      else Inr ())"

definition interval_seconds :: "pydict \<Rightarrow> string \<Rightarrow> sla_error + int option" where
  "interval_seconds raw k = (if truthy (get raw k) then rbind (read_int (get raw k)) (\<lambda>i. Inr (Some i)) else Inr None)"

definition read_target_value :: "(string \<Rightarrow> flt option) \<Rightarrow> pydict \<Rightarrow> sla_error + flt option" where
  "read_target_value fl raw =
     (if get raw ''target_value'' = PNone then Inr None else rbind (read_float fl (get raw ''target_value'')) (\<lambda>t. Inr (Some t)))"

definition check_scope :: "string \<Rightarrow> string list \<Rightarrow> string list \<Rightarrow> string list \<Rightarrow> sla_error + unit" where
  "check_scope model targets types codes =
     (if model \<noteq> ''restore_drill'' then
        rbind (check (targets \<noteq> [] \<or> types \<noteq> []) No_scope) (\<lambda>_. check (codes \<noteq> []) No_metric_codes)
      else Inr ())"

definition check_aggregation :: "string \<Rightarrow> string \<Rightarrow> sla_error + unit" where
  "check_aggregation model agg =
     rbind (check (agg \<in> set SUPPORTED_AGGREGATIONS) Bad_aggregation) (\<lambda>_.
       check (\<not> (agg = ''minutes'' \<and> model \<noteq> ''time_slo'')) Minutes_without_time)"

text \<open>The tests and readings of \<^verbatim>\<open>parse_sla_policy\<close> in their order, over the six texts and flags it tests more than once.\<close>

definition parse_fields ::
  "(string \<Rightarrow> flt option) \<Rightarrow> pydict \<Rightarrow> string \<Rightarrow> string \<Rightarrow> string \<Rightarrow> string \<Rightarrow> string \<Rightarrow> bool \<Rightarrow> sla_error + sla_policy" where
  "parse_fields fl raw pid model agg op missing agg_all =
      rbind (check (pid \<noteq> []) No_policy_id) (\<lambda>_.
      rbind (check (model \<in> set SUPPORTED_POLICY_MODELS) Bad_model) (\<lambda>_.
      rbind (parse_string_tuple (get raw ''target_ids'')) (\<lambda>targets.
      rbind (parse_string_tuple (get raw ''db_types'')) (\<lambda>types.
      rbind (parse_string_tuple (get raw ''metric_codes'')) (\<lambda>codes.
      rbind (check_scope model targets types codes) (\<lambda>_.
      rbind (parse_rto_target (get raw ''rto_target_seconds'') model) (\<lambda>rto.
      rbind (read_float fl (read_sla raw ''objective_percent'' (PInt 99))) (\<lambda>objective.
      rbind (check_aggregation model agg) (\<lambda>_.
      rbind (check_count_model raw model) (\<lambda>_.
      rbind (read_float fl (get_or raw ''percentile'' (PInt 95))) (\<lambda>pct.
      rbind (check (\<not> (agg = ''percentile'' \<and> \<not> (fless (Num 0) pct \<and> fle pct (Num 100)))) Bad_percentile) (\<lambda>_.
      rbind (check (op \<in> set COMPARISON_OPERATORS) Bad_operator) (\<lambda>_.
      rbind (read_int (get_or raw ''minimum_sample_count'' (PInt 1))) (\<lambda>least.
      rbind (check (1 \<le> least) Bad_minimum) (\<lambda>_.
      rbind (check (missing \<in> {''unknown'', ''bad'', ''good'', ''ignore''}) Bad_missing_policy) (\<lambda>_.
      rbind (check (\<not> (agg = ''minutes'' \<and> agg_all)) Minutes_aggregated) (\<lambda>_.
      rbind (parse_burn_rate_alerts fl (get raw ''burn_rate_alerts'') model agg) (\<lambda>alerts.
      rbind (parse_maintenance_windows (get raw ''maintenance_windows'')) (\<lambda>maintenance.
      rbind (read_int (get_or raw ''window_hours'' (PInt 24))) (\<lambda>hours.
      rbind (check (1 \<le> hours) Bad_window_hours) (\<lambda>_.
      rbind (parse_string_tuple (get raw ''good_statuses'')) (\<lambda>good.
      rbind (read_float fl (get_or raw ''at_risk_budget_percent'' (PInt 25))) (\<lambda>at_risk.
      rbind (read_target_value fl raw) (\<lambda>tvalue.
      rbind (interval_seconds raw ''expected_collection_interval_seconds'') (\<lambda>interval.
      rbind (interval_seconds raw ''freshness_threshold_seconds'') (\<lambda>fresh.
        Inr \<lparr>policy_id = pid, display_name = text_or (read_sla raw ''display_name'' (PStr [])) pid, metric_codes = codes,
          objective_percent = objective, target_ids = targets, db_types_of = map lower types, window_hours = hours,
          good_statuses = map upper (if good = [] then [''OK'', ''LOGGING''] else good), at_risk_budget_percent = at_risk,
          aggregate = agg_all, category = str_or (get raw ''category''), description = str_or (get raw ''description''),
          sli_code = text_or (get raw ''sli_code'') pid, aggregation = agg, policy_model = model, comparison_operator = op,
          target_value = tvalue, unit_name = text_or (get raw ''unit'') (default_unit model), minimum_sample_count = least,
          expected_interval = interval, freshness_threshold = fresh, missing_data_policy = missing,
          required = truthy (get_or raw ''required'' (PBool True)), maintenance_windows = maintenance, percentile = pct,
          rto_target_seconds = rto, burn_rate_alerts = alerts,
          calendar_month_report = truthy (get_or raw ''calendar_month_report'' (PBool False))\<rparr>))))))))))))))))))))))))))"

definition parse_sla_policy :: "(string \<Rightarrow> flt option) \<Rightarrow> pydict \<Rightarrow> sla_error + sla_policy" where
  "parse_sla_policy fl raw =
     parse_fields fl raw (strip (str_or (get raw ''policy_id'')))
       (lower (strip (text_or (get raw ''policy_model'') ''time_slo'')))
       (lower (text_or (read_sla raw ''aggregation'' (PStr [])) ''success_ratio''))
       (text_or (read_sla raw ''comparison_operator'' (PStr [])) ''>='')
       (lower (text_or (get raw ''missing_data_policy'') ''unknown''))
       (truthy (get_or raw ''aggregate'' (PBool False)))"

text \<open>The entries of a decoded document that are active; an entry that is no object has no \<^verbatim>\<open>get\<close>.\<close>

definition load_sla_policies :: "(string \<Rightarrow> flt option) \<Rightarrow> pyval \<Rightarrow> sla_error + sla_policy list" where
  "load_sla_policies fl raw =
     (case (case raw of PDict d \<Rightarrow> get_or d ''sla_policies'' raw | _ \<Rightarrow> raw) of
        PList items \<Rightarrow>
          rbind (map_res (\<lambda>item. case item of
              PDict d \<Rightarrow> if truthy (get_or d ''active'' (PBool True)) then rbind (parse_sla_policy fl d) (\<lambda>p. Inr (Some p)) else Inr None
            | _ \<Rightarrow> Inl Not_an_object) items) (\<lambda>ps. Inr (List.map_filter id ps))
      | _ \<Rightarrow> Inl Not_an_array)"

subsection \<open>What an accepted policy is\<close>

definition alert_ok :: "burn_alert_rule \<Rightarrow> bool" where
  "alert_ok a = (ba_severity a \<in> {''page'', ''ticket''} \<and> \<not> fle (ba_factor a) (Num 0) \<and> 0 < ba_short a \<and> ba_short a < ba_long a)"

definition policy_ok :: "sla_policy \<Rightarrow> bool" where
  "policy_ok p =
     (policy_id p \<noteq> [] \<and> policy_model p \<in> set SUPPORTED_POLICY_MODELS \<and> aggregation p \<in> set SUPPORTED_AGGREGATIONS \<and>
      comparison_operator p \<in> set COMPARISON_OPERATORS \<and> missing_data_policy p \<in> {''unknown'', ''bad'', ''good'', ''ignore''} \<and>
      1 \<le> window_hours p \<and> 1 \<le> minimum_sample_count p \<and> good_statuses p \<noteq> [] \<and>
      (policy_model p \<noteq> ''restore_drill'' \<longrightarrow> metric_codes p \<noteq> [] \<and> (target_ids p \<noteq> [] \<or> db_types_of p \<noteq> [])) \<and>
      (policy_model p = ''restore_drill'' \<longrightarrow> (\<exists>s. rto_target_seconds p = Some s \<and> 0 < s)) \<and>
      (policy_model p \<in> set COUNT_MODELS \<longrightarrow> comparison_operator p \<in> {''<='', ''<''} \<and> target_value p \<noteq> None) \<and>
      (aggregation p = ''minutes'' \<longrightarrow> policy_model p = ''time_slo'' \<and> \<not> aggregate p) \<and>
      (burn_rate_alerts p \<noteq> [] \<longrightarrow> aggregation p = ''minutes'') \<and> list_all alert_ok (burn_rate_alerts p) \<and>
      list_all (\<lambda>(s, e). s < e) (maintenance_windows p))"

lemma parse_burn_rate_alert_ok: "parse_burn_rate_alert fl item = Inr a \<Longrightarrow> alert_ok a"
  by (auto simp: parse_burn_rate_alert_def alert_ok_def rbind_eq_Inr Let_def
      split: pyval.splits sum.splits float_error.splits option.splits if_splits)

lemma map_res_all: "map_res f xs = Inr ys \<Longrightarrow> (\<And>x y. f x = Inr y \<Longrightarrow> P y) \<Longrightarrow> list_all P ys"
  unfolding map_res_Inr by (induction rule: list_all2_induct) auto

lemma parse_burn_rate_alerts_ok:
  assumes "parse_burn_rate_alerts fl v model agg = Inr alerts"
  shows "list_all alert_ok alerts \<and> (alerts \<noteq> [] \<longrightarrow> model = ''time_slo'' \<and> agg = ''minutes'')"
  using assms map_res_all [of "parse_burn_rate_alert fl" _ alerts alert_ok, OF _ parse_burn_rate_alert_ok]
  by (auto simp: parse_burn_rate_alerts_def simp del: map_res.simps split: pyval.splits list.splits if_splits)

lemma parse_maintenance_windows_ok: "parse_maintenance_windows v = Inr ws \<Longrightarrow> list_all (\<lambda>(s, e). s < e) ws"
  by (auto simp: parse_maintenance_windows_def parse_maintenance_window_def Let_def not_le
      split: pyval.splits if_splits elim!: map_res_all)

lemma check_scope_ok: "check_scope model targets types codes = Inr u \<Longrightarrow> model \<noteq> ''restore_drill'' \<longrightarrow> codes \<noteq> [] \<and> (targets \<noteq> [] \<or> types \<noteq> [])"
  by (auto simp: check_scope_def rbind_eq_Inr split: if_splits)

lemma parse_rto_target_ok: "parse_rto_target v model = Inr rto \<Longrightarrow> model = ''restore_drill'' \<longrightarrow> (\<exists>s. rto = Some s \<and> 0 < s)"
  by (cases "py_int v") (auto simp: parse_rto_target_def not_le split: if_splits, metis)

lemma read_target_value_some: "read_target_value fl raw = Inr t \<Longrightarrow> get raw ''target_value'' \<noteq> PNone \<longrightarrow> t \<noteq> None"
  by (auto simp: read_target_value_def rbind_eq_Inr split: if_splits)

lemma check_aggregation_ok:
  "check_aggregation model agg = Inr u \<Longrightarrow> agg \<in> set SUPPORTED_AGGREGATIONS \<and> (agg = ''minutes'' \<longrightarrow> model = ''time_slo'')"
  by (auto simp: check_aggregation_def rbind_eq_Inr)

lemma operators_are_stripped: "s \<in> set COMPARISON_OPERATORS \<Longrightarrow> strip s = s"
  by (auto simp: COMPARISON_OPERATORS_def strip_def lstrip_def is_ws_def)

lemma check_count_model_ok:
  assumes "check_count_model raw model = Inr u"
  shows "model \<in> set COUNT_MODELS \<longrightarrow> get raw ''target_value'' \<noteq> PNone \<and>
    (\<forall>op. op = text_or (read_sla raw ''comparison_operator'' (PStr [])) ''>='' \<longrightarrow> op \<in> set COMPARISON_OPERATORS \<longrightarrow> op \<in> {''<='', ''<''})"
proof (intro impI)
  let ?v = "read_sla raw ''comparison_operator'' (PStr [])"
  assume "model \<in> set COUNT_MODELS"
  with assms have *: "strip (str_or ?v) \<in> {''<='', ''<''}" "get raw ''target_value'' \<noteq> PNone"
    by (auto simp: check_count_model_def rbind_eq_Inr)
  from * have t: "truthy ?v" by (auto simp: str_or_def split: if_splits)
  with * show "get raw ''target_value'' \<noteq> PNone \<and>
      (\<forall>op. op = text_or ?v ''>='' \<longrightarrow> op \<in> set COMPARISON_OPERATORS \<longrightarrow> op \<in> {''<='', ''<''})"
    using operators_are_stripped [of "py_str ?v"] by (auto simp: str_or_def text_or_def)
qed

lemma rbind_InrE:
  assumes "rbind r f = Inr y"
  obtains x where "r = Inr x" "f x = Inr y"
  using assms by (auto simp: rbind_eq_Inr)

lemma parse_fields_ok:
  assumes "parse_fields fl raw pid model agg op missing agg_all = Inr p"
    and op: "op = text_or (read_sla raw ''comparison_operator'' (PStr [])) ''>=''"
  shows "policy_ok p"
  using assms(1) unfolding parse_fields_def
proof (elim rbind_InrE, goal_cases)
  case (1 a1 a2 targets types codes a3 rto objective a4 a5 pct a6 a7 least a8 a9 a10 alerts maintenance hours a11 good at_risk tvalue)
  have p: "policy_id p = pid" "policy_model p = model" "aggregation p = agg" "comparison_operator p = op" "missing_data_policy p = missing"
      "aggregate p = agg_all" "window_hours p = hours" "minimum_sample_count p = least" "metric_codes p = codes" "target_ids p = targets"
      "db_types_of p = map lower types" "rto_target_seconds p = rto" "burn_rate_alerts p = alerts" "maintenance_windows p = maintenance"
      "target_value p = tvalue" "good_statuses p \<noteq> []"
    using 1(27) by (auto split: if_splits)
  note facts = 1 [unfolded check_eq_Inr]
  have count: "model \<in> set COUNT_MODELS \<longrightarrow> op \<in> {''<='', ''<''} \<and> tvalue \<noteq> None"
    using check_count_model_ok [OF facts(10)] read_target_value_some [OF facts(24)] facts(13) op by blast
  show ?case unfolding policy_ok_def p
    using facts(1,2,13,15,16,17,21) parse_burn_rate_alerts_ok [OF facts(18)] parse_maintenance_windows_ok [OF facts(19)] parse_rto_target_ok [OF facts(7)]
      check_aggregation_ok [OF facts(9)] check_scope_ok [OF facts(6)] count p(16)
    by (intro conjI) simp_all
qed


text \<open>A policy with the shortest entry: a name, a scope and a metric.\<close>

definition short_entry :: pydict where
  "short_entry = [(''policy_id'', PStr ''uptime''), (''target_ids'', PStr ''erp''), (''metric_codes'', PStr ''PING'')]"


end
