(* ===== verification/RestoreDrill.thy ===== *)
theory RestoreDrill
  imports BackupPolicy PyFloat
begin

section \<open>Has a restore been proven?\<close>

text \<open>
  Models \<^verbatim>\<open>dbabrain/db/restore_drill.py\<close>: the verdict per database from the history of restore drills and a
  policy document. The reading of the file is not modelled: the document is an object whose blocks are
  objects and lists. A reason is the values its sentence prints.

  What a good verdict means is stated over the rows: the newest success is recent enough, and no later
  attempt failed without one after it that did not.
\<close>

datatype drill_reason = Never_proven | Too_old flt flt | Proven_within flt flt | Newest_attempt_failed instant flt

record drill_entry =
  de_success :: "instant option"
  de_attempt :: "instant option"
  de_attempt_status :: string

record drill_verdict =
  dr_database :: string
  dr_status :: bstate
  dr_age :: "flt option"
  dr_limit :: flt
  dr_last_success :: "instant option"
  dr_last_attempt :: "instant option"
  dr_last_status :: string
  dr_reason :: drill_reason

definition RENAMES_restore_drill_override :: "(string \<times> string) list" where
  "RENAMES_restore_drill_override = [(''database'', ''database_name'')]"

definition DEFAULT_MAX_AGE_HOURS :: int where
  "DEFAULT_MAX_AGE_HOURS = 24 * 7"

subsection \<open>The policy\<close>

definition override_for :: "pydict \<Rightarrow> string \<Rightarrow> pydict option" where
  "override_for policy database =
     find (\<lambda>e. let w = wanted (read e RENAMES_restore_drill_override ''database_name'' (PStr [])) in
               w \<noteq> [] \<and> w = lower (strip database)) (overrides policy)"

definition is_drilled :: "pydict \<Rightarrow> string \<Rightarrow> bool" where
  "is_drilled policy database =
     (case override_for policy database of
        None \<Rightarrow> True
      | Some e \<Rightarrow> get_or e ''required'' (PBool True) \<noteq> PBool False)"

text \<open>\<^verbatim>\<open>float(d.get("max_age_hours", h) or h)\<close>\<close>

definition hours_or :: "(string \<Rightarrow> flt option) \<Rightarrow> pydict \<Rightarrow> flt \<Rightarrow> float_error + flt" where
  "hours_or fl d h = (if truthy (get d ''max_age_hours'') then float_of fl (get d ''max_age_hours'') else Inr h)"

definition max_age_hours :: "(string \<Rightarrow> flt option) \<Rightarrow> pydict \<Rightarrow> string \<Rightarrow> flt option \<Rightarrow> float_error + flt" where
  "max_age_hours fl policy database override =
     (case override of
        Some h \<Rightarrow> Inr h
      | None \<Rightarrow>
          rbind (hours_or fl (block policy ''defaults'') (Num (of_int DEFAULT_MAX_AGE_HOURS))) (\<lambda>hours.
            case override_for policy database of None \<Rightarrow> Inr hours | Some e \<Rightarrow> hours_or fl e hours))"

subsection \<open>The history\<close>

definition no_entry :: drill_entry where
  "no_entry = \<lparr>de_success = None, de_attempt = None, de_attempt_status = []\<rparr>"

definition later :: "instant option \<Rightarrow> instant \<Rightarrow> bool" where
  "later old t = (case old of None \<Rightarrow> True | Some s \<Rightarrow> s < t)"

definition seen_drill :: "instant \<Rightarrow> string \<Rightarrow> drill_entry \<Rightarrow> drill_entry" where
  "seen_drill started status e =
     (let e' = (if later (de_attempt e) started then e\<lparr>de_attempt := Some started, de_attempt_status := status\<rparr> else e) in
      if status = ''SUCCESS'' \<and> later (de_success e') started then e'\<lparr>de_success := Some started\<rparr> else e')"

definition drill_key :: "iso_parser \<Rightarrow> pydict \<Rightarrow> pydict \<Rightarrow> (string \<times> instant \<times> string) option" where
  "drill_key fromiso policy row =
     (let database = strip (str_or (get row ''database_name'')) in
      case as_utc_datetime fromiso (get row ''restore_start'') of
        None \<Rightarrow> None
      | Some started \<Rightarrow>
          if database = [] \<or> \<not> is_drilled policy database then None
          else Some (database, started, upper (strip (str_or (get row ''status'')))))"

definition drill_row :: "iso_parser \<Rightarrow> pydict \<Rightarrow> (string \<times> drill_entry) list \<Rightarrow> pydict \<Rightarrow> (string \<times> drill_entry) list" where
  "drill_row fromiso policy latest row =
     (case drill_key fromiso policy row of
        None \<Rightarrow> latest
      | Some (database, started, status) \<Rightarrow>
          upd database (seen_drill started status (case map_of latest database of None \<Rightarrow> no_entry | Some e \<Rightarrow> e)) latest)"

definition drill_latest :: "iso_parser \<Rightarrow> pydict \<Rightarrow> pydict list \<Rightarrow> (string \<times> drill_entry) list" where
  "drill_latest fromiso policy rows = foldl (drill_row fromiso policy) [] rows"

subsection \<open>The verdict\<close>

text \<open>\<^verbatim>\<open>round((now - success).total_seconds() / 3600.0, 1)\<close>\<close>

definition hours_since :: "instant \<Rightarrow> instant \<Rightarrow> flt" where
  "hours_since now t = fround 1 (fdiv (to_flt (of_int (now - t) / 1000000)) (Num 3600))"

definition judge_age :: "flt \<Rightarrow> flt \<Rightarrow> bstate \<times> drill_reason" where
  "judge_age age limit =
     (if fless limit age
      then (if fle age (fmult limit (Num 2)) then WARNING else CRITICAL, Too_old age limit)
      else (OK, Proven_within age limit))"

definition judge_drill :: "instant \<Rightarrow> flt \<Rightarrow> drill_entry \<Rightarrow> bstate \<times> drill_reason" where
  "judge_drill now limit e =
     (case de_success e of
        None \<Rightarrow> (CRITICAL, Never_proven)
      | Some s \<Rightarrow>
          (case de_attempt e of
             Some a \<Rightarrow> if s < a \<and> de_attempt_status e = ''FAILED'' then (CRITICAL, Newest_attempt_failed a (hours_since now s))
                       else judge_age (hours_since now s) limit
           | None \<Rightarrow> judge_age (hours_since now s) limit))"

definition drill_result ::
  "(string \<Rightarrow> flt option) \<Rightarrow> pydict \<Rightarrow> flt option \<Rightarrow> instant \<Rightarrow> string \<times> drill_entry \<Rightarrow> float_error + drill_verdict" where
  "drill_result fl policy override now p =
     (case p of (database, e) \<Rightarrow>
        rbind (max_age_hours fl policy database override) (\<lambda>limit.
          case judge_drill now limit e of (status, reason) \<Rightarrow>
            Inr \<lparr>dr_database = database, dr_status = status, dr_age = map_option (hours_since now) (de_success e),
              dr_limit = limit, dr_last_success = de_success e, dr_last_attempt = de_attempt e,
              dr_last_status = de_attempt_status e, dr_reason = reason\<rparr>))"

fun drill_rank :: "bstate \<Rightarrow> int" where
  "drill_rank CRITICAL = 0"
| "drill_rank WARNING = 1"
| "drill_rank OK = 2"
| "drill_rank _ = 3"

definition drill_order :: "drill_verdict \<Rightarrow> int \<times> rat" where
  "drill_order v = (drill_rank (dr_status v), case dr_age v of Some (Num q) \<Rightarrow> - q | _ \<Rightarrow> 0)"

definition evaluate_drills ::
  "iso_parser \<Rightarrow> (string \<Rightarrow> flt option) \<Rightarrow> pydict \<Rightarrow> flt option \<Rightarrow> instant \<Rightarrow> pydict list \<Rightarrow> float_error + drill_verdict list" where
  "evaluate_drills fromiso fl policy override now rows =
     rbind (map_res (drill_result fl policy override now) (drill_latest fromiso policy rows)) (\<lambda>out. Inr (sort_key drill_order out))"

record drill_summary =
  ds_databases :: nat
  ds_compliant :: nat
  ds_warning :: nat
  ds_critical :: nat
  ds_status :: bstate

definition summarize_drills :: "drill_verdict list \<Rightarrow> drill_summary" where
  "summarize_drills vs =
     (let number = (\<lambda>s. length (filter (\<lambda>v. dr_status v = s) vs)) in
      \<lparr>ds_databases = length vs, ds_compliant = number OK, ds_warning = number WARNING, ds_critical = number CRITICAL,
       ds_status = (if number CRITICAL \<noteq> 0 then CRITICAL else if number WARNING \<noteq> 0 then WARNING else OK)\<rparr>)"

subsection \<open>What an entry says of the rows\<close>

text \<open>The judged attempts of a database: when each started, and how it ended.\<close>

definition attempts :: "iso_parser \<Rightarrow> pydict \<Rightarrow> string \<Rightarrow> pydict list \<Rightarrow> (instant \<times> string) list" where
  "attempts fromiso policy database rows =
     List.map_filter (\<lambda>row. case drill_key fromiso policy row of
        Some (name, started, status) \<Rightarrow> if name = database then Some (started, status) else None
      | None \<Rightarrow> None) rows"

definition newest_attempt :: "(instant \<times> string) list \<Rightarrow> drill_entry \<Rightarrow> bool" where
  "newest_attempt as e =
     (case de_attempt e of
        None \<Rightarrow> as = []
      | Some t \<Rightarrow> (t, de_attempt_status e) \<in> set as \<and> list_all (\<lambda>(u, _). u \<le> t) as)"

definition newest_success :: "(instant \<times> string) list \<Rightarrow> drill_entry \<Rightarrow> bool" where
  "newest_success as e =
     (case de_success e of
        None \<Rightarrow> list_all (\<lambda>(u, status). status \<noteq> ''SUCCESS'') as
      | Some s \<Rightarrow> (s, ''SUCCESS'') \<in> set as \<and> list_all (\<lambda>(u, status). status = ''SUCCESS'' \<longrightarrow> u \<le> s) as)"

definition entry_of :: "(instant \<times> string) list \<Rightarrow> drill_entry \<Rightarrow> bool" where
  "entry_of as e \<longleftrightarrow> newest_attempt as e \<and> newest_success as e"

lemma seen_drill_fields:
  "de_attempt (seen_drill t status e) = (if later (de_attempt e) t then Some t else de_attempt e)"
  "de_attempt_status (seen_drill t status e) = (if later (de_attempt e) t then status else de_attempt_status e)"
  "de_success (seen_drill t status e) = (if status = ''SUCCESS'' \<and> later (de_success e) t then Some t else de_success e)"
  by (auto simp: seen_drill_def Let_def)

lemma newest_attempt_seen: "newest_attempt as e \<Longrightarrow> newest_attempt (as @ [(t, status)]) (seen_drill t status e)"
  by (cases "de_attempt e") (fastforce simp: newest_attempt_def seen_drill_fields later_def list_all_iff)+

lemma newest_success_seen: "newest_success as e \<Longrightarrow> newest_success (as @ [(t, status)]) (seen_drill t status e)"
  by (cases "de_success e"; cases "status = ''SUCCESS''") (fastforce simp: newest_success_def seen_drill_fields later_def list_all_iff)+

lemma entry_of_seen: "entry_of as e \<Longrightarrow> entry_of (as @ [(t, status)]) (seen_drill t status e)"
  by (simp add: entry_of_def newest_attempt_seen newest_success_seen)

lemma entry_of_no_entry: "entry_of [] no_entry"
  by (simp add: entry_of_def newest_attempt_def newest_success_def no_entry_def)

lemma attempts_snoc:
  "attempts fromiso policy database (rows @ [row]) = attempts fromiso policy database rows @
     (case drill_key fromiso policy row of
        Some (name, started, status) \<Rightarrow> if name = database then [(started, status)] else []
      | None \<Rightarrow> [])"
  by (auto simp: attempts_def List.map_filter_def split: option.splits)

lemma drill_latest_entry:
  "case map_of (drill_latest fromiso policy rows) database of
     None \<Rightarrow> attempts fromiso policy database rows = []
   | Some e \<Rightarrow> attempts fromiso policy database rows \<noteq> [] \<and> entry_of (attempts fromiso policy database rows) e"
proof (induction rows rule: rev_induct)
  case Nil
  then show ?case by (simp add: drill_latest_def attempts_def List.map_filter_def)
next
  case (snoc row rows)
  show ?case
  proof (cases "drill_key fromiso policy row")
    case None
    with snoc show ?thesis by (simp add: drill_latest_def drill_row_def attempts_snoc split: option.splits)
  next
    case (Some k)
    obtain name started status where k: "k = (name, started, status)" by (cases k)
    let ?old = "case map_of (drill_latest fromiso policy rows) name of None \<Rightarrow> no_entry | Some e \<Rightarrow> e"
    have step: "map_of (drill_latest fromiso policy (rows @ [row])) database =
        (if database = name then Some (seen_drill started status ?old) else map_of (drill_latest fromiso policy rows) database)"
      by (simp add: drill_latest_def drill_row_def Some k map_of_upd)
    show ?thesis
    proof (cases "database = name")
      case True
      with snoc have "entry_of (attempts fromiso policy name rows) ?old"
        by (auto simp: entry_of_no_entry split: option.splits)
      from entry_of_seen [OF this] show ?thesis unfolding step attempts_snoc Some k using True by simp
    next
      case False
      with snoc show ?thesis by (simp add: step attempts_snoc Some k split: option.splits)
    qed
  qed
qed

lemma distinct_drill_latest: "distinct (map fst (drill_latest fromiso policy rows))"
proof -
  have keys: "fst ` set (upd k v d) = insert k (fst ` set d)" for k and v :: drill_entry and d
    by (induction k v d rule: upd.induct) auto
  have "distinct (map fst d) \<Longrightarrow> distinct (map fst (upd k v d))" for k and v :: drill_entry and d
    by (induction k v d rule: upd.induct) (use keys in \<open>auto simp: image_def\<close>)
  then show ?thesis
    unfolding drill_latest_def by (induction rows rule: rev_induct) (auto simp: drill_row_def split: option.splits)
qed

lemma judge_drill_OK:
  assumes "judge_drill now limit e = (OK, reason)" "entry_of as e"
  obtains s where "de_success e = Some s" "(s, ''SUCCESS'') \<in> set as" "\<not> fless limit (hours_since now s)"
    "\<forall>(u, status) \<in> set as. status = ''SUCCESS'' \<longrightarrow> u \<le> s"
    "\<forall>(u, status) \<in> set as. status = ''FAILED'' \<and> s < u \<longrightarrow> (\<exists>(w, status') \<in> set as. u \<le> w \<and> status' \<noteq> ''FAILED'')"
proof -
  from assms(1) obtain s where s: "de_success e = Some s" by (auto simp: judge_drill_def split: option.splits)
  with assms(2) have success: "(s, ''SUCCESS'') \<in> set as" "\<forall>(u, status) \<in> set as. status = ''SUCCESS'' \<longrightarrow> u \<le> s"
    by (auto simp: entry_of_def newest_success_def list_all_iff)
  from assms(2) success(1) obtain t where t: "de_attempt e = Some t" "(t, de_attempt_status e) \<in> set as" "\<forall>(u, _) \<in> set as. u \<le> t"
    by (auto simp: entry_of_def newest_attempt_def list_all_iff split: option.splits)
  from assms(1) s t(1) have ok: "\<not> fless limit (hours_since now s)" "\<not> (s < t \<and> de_attempt_status e = ''FAILED'')"
    by (auto simp: judge_drill_def judge_age_def split: if_splits)
  have "\<exists>(w, status') \<in> set as. u \<le> w \<and> status' \<noteq> ''FAILED''" if "(u, status) \<in> set as" "s < u" for u status
  proof (intro bexI [of _ "(t, de_attempt_status e)"])
    from that(1) t(3) have "u \<le> t" by blast
    with that(2) ok(2) show "case (t, de_attempt_status e) of (w, status') \<Rightarrow> u \<le> w \<and> status' \<noteq> ''FAILED''" by auto
  qed (rule t(2))
  with s success ok(1) show ?thesis by (intro that) auto
qed

lemma drill_result_fields:
  assumes "drill_result fl policy override now p = Inr v"
  shows "dr_database v = fst p \<and>
    (\<exists>limit reason. max_age_hours fl policy (fst p) override = Inr limit \<and> judge_drill now limit (snd p) = (dr_status v, reason))"
  using assms by (cases p) (auto simp: drill_result_def rbind_eq_Inr case_prod_beta, metis prod.collapse)

lemma drill_result_OK:
  assumes "drill_result fl policy override now p = Inr v" "dr_status v = OK" "p \<in> set (drill_latest fromiso policy rows)"
  shows "\<exists>s limit. max_age_hours fl policy (dr_database v) override = Inr limit \<and>
    (s, ''SUCCESS'') \<in> set (attempts fromiso policy (dr_database v) rows) \<and> \<not> fless limit (hours_since now s) \<and>
    (\<forall>(u, status) \<in> set (attempts fromiso policy (dr_database v) rows). status = ''FAILED'' \<and> s < u \<longrightarrow>
      (\<exists>(w, status') \<in> set (attempts fromiso policy (dr_database v) rows). u \<le> w \<and> status' \<noteq> ''FAILED''))"
proof -
  obtain limit reason where judged: "max_age_hours fl policy (fst p) override = Inr limit" "judge_drill now limit (snd p) = (OK, reason)"
    using drill_result_fields [OF assms(1)] assms(2) by auto
  have "map_of (drill_latest fromiso policy rows) (fst p) = Some (snd p)"
    using assms(3) distinct_drill_latest by (metis map_of_is_SomeI prod.collapse)
  with drill_latest_entry [of fromiso policy "fst p" rows] have "entry_of (attempts fromiso policy (fst p) rows) (snd p)" by simp
  from judge_drill_OK [OF judged(2) this] obtain s where "(s, ''SUCCESS'') \<in> set (attempts fromiso policy (fst p) rows)"
      "\<not> fless limit (hours_since now s)"
      "\<forall>(u, status) \<in> set (attempts fromiso policy (fst p) rows). status = ''FAILED'' \<and> s < u \<longrightarrow>
        (\<exists>(w, status') \<in> set (attempts fromiso policy (fst p) rows). u \<le> w \<and> status' \<noteq> ''FAILED'')" .
  with judged(1) drill_result_fields [OF assms(1)] show ?thesis by auto
qed

text \<open>C20: The verdicts are about the drilled databases with a readable attempt, one each, the worst first; and a database is OK only when its
  newest success is within the limit of its policy and every later failed attempt was followed by one
  that did not fail.\<close>

theorem ok_drill_is_proven:
  assumes "evaluate_drills fromiso fl policy override now rows = Inr vs"
  shows "distinct (map dr_database vs) \<and> set (map dr_database vs) = {db. attempts fromiso policy db rows \<noteq> []} \<and>
    sorted (map drill_order vs) \<and>
    (\<forall>v \<in> set vs. dr_status v = OK \<longrightarrow>
      (\<exists>s limit. max_age_hours fl policy (dr_database v) override = Inr limit \<and>
        (s, ''SUCCESS'') \<in> set (attempts fromiso policy (dr_database v) rows) \<and> \<not> fless limit (hours_since now s) \<and>
        (\<forall>(u, status) \<in> set (attempts fromiso policy (dr_database v) rows). status = ''FAILED'' \<and> s < u \<longrightarrow>
          (\<exists>(w, status') \<in> set (attempts fromiso policy (dr_database v) rows). u \<le> w \<and> status' \<noteq> ''FAILED''))))"
proof -
  let ?latest = "drill_latest fromiso policy rows"
  from assms obtain out where out: "list_all2 (\<lambda>p v. drill_result fl policy override now p = Inr v) ?latest out"
    and vs: "vs = sort_key drill_order out"
    by (auto simp: evaluate_drills_def rbind_eq_Inr map_res_Inr)
  have names: "map dr_database out = map fst ?latest"
    using out by (induction rule: list_all2_induct) (auto dest: drill_result_fields)
  have "\<exists>s limit. max_age_hours fl policy (dr_database v) override = Inr limit \<and>
        (s, ''SUCCESS'') \<in> set (attempts fromiso policy (dr_database v) rows) \<and> \<not> fless limit (hours_since now s) \<and>
        (\<forall>(u, status) \<in> set (attempts fromiso policy (dr_database v) rows). status = ''FAILED'' \<and> s < u \<longrightarrow>
          (\<exists>(w, status') \<in> set (attempts fromiso policy (dr_database v) rows). u \<le> w \<and> status' \<noteq> ''FAILED''))"
    if v: "v \<in> set vs" "dr_status v = OK" for v
  proof -
    from v(1) vs have "v \<in> set out" by simp
    then obtain i where "i < length out" "out ! i = v" by (auto simp: in_set_conv_nth)
    with out have i: "i < length ?latest" "drill_result fl policy override now (?latest ! i) = Inr v"
      by (auto simp: list_all2_conv_all_nth)
    show ?thesis by (rule drill_result_OK [OF i(2) v(2) nth_mem [OF i(1)]])
  qed
  moreover have "set (map dr_database vs) = {db. attempts fromiso policy db rows \<noteq> []}"
  proof -
    have "db \<in> fst ` set ?latest \<longleftrightarrow> attempts fromiso policy db rows \<noteq> []" for db
      using drill_latest_entry [of fromiso policy db rows] map_of_eq_None_iff [of ?latest db] by (auto split: option.splits)
    then show ?thesis using arg_cong [OF names, of set] vs by auto
  qed
  moreover have "distinct (map dr_database vs)"
  proof -
    have "distinct (map dr_database out)" using names distinct_drill_latest by simp
    then show ?thesis by (simp add: vs distinct_map)
  qed
  ultimately show ?thesis using vs by (simp add: sorted_sort_key)
qed

text \<open>One database drilled at the moment of the report, one that never succeeded, and one that is retired.\<close>

definition drill_history :: "pydict list" where
  "drill_history =
     [[(''database_name'', PStr ''erp''), (''status'', PStr ''failed''), (''restore_start'', PStr ''1'')],
      [(''database_name'', PStr ''erp''), (''status'', PStr ''success''), (''restore_start'', PStr ''2'')],
      [(''database_name'', PStr ''hr''), (''status'', PStr ''FAILED''), (''restore_start'', PStr ''2'')],
      [(''database_name'', PStr ''old''), (''status'', PStr ''SUCCESS''), (''restore_start'', PStr ''1'')]]"

definition drill_clock :: iso_parser where
  "drill_clock s = map_option (\<lambda>i. (sec i, None)) (parse_int s)"

definition drill_rules :: pydict where
  "drill_rules = [(''overrides'', PList [PDict [(''database'', PStr ''OLD''), (''required'', PBool False)]])]"

lemma drilled_two_hours_ago: "hours_since (sec 7202) (sec 2) = Num 2"
proof -
  have "round_half_even 20 = 20" using round_half_even_of_int [of 20] by simp
  then show ?thesis by (simp add: hours_since_def decimal_def)
qed

lemma drill_history_judged:
  "\<exists>hr erp. evaluate_drills drill_clock (\<lambda>_. None) drill_rules None (sec 7202) drill_history = Inr [hr, erp] \<and>
     dr_database hr = ''hr'' \<and> dr_status hr = CRITICAL \<and> dr_database erp = ''erp'' \<and> dr_status erp = OK"
proof -
  have latest: "drill_latest drill_clock drill_rules drill_history =
      [(''erp'', \<lparr>de_success = Some (sec 2), de_attempt = Some (sec 2), de_attempt_status = ''SUCCESS''\<rparr>),
       (''hr'', \<lparr>de_success = None, de_attempt = Some (sec 2), de_attempt_status = ''FAILED''\<rparr>)]"
    by code_simp
  have limits: "max_age_hours (\<lambda>_. None) drill_rules ''erp'' None = Inr (Num 168)"
      "max_age_hours (\<lambda>_. None) drill_rules ''hr'' None = Inr (Num 168)"
    by code_simp+
  show ?thesis
    by (simp add: evaluate_drills_def latest drill_result_def limits judge_drill_def judge_age_def drilled_two_hours_ago [simplified] drill_order_def)
qed

theorem ok_drill_is_proven_witness:
  "\<exists>vs. evaluate_drills drill_clock (\<lambda>_. None) drill_rules None (sec 7202) drill_history = Inr vs \<and>
     {db. attempts drill_clock drill_rules db drill_history \<noteq> []} = {''hr'', ''erp''} \<and>
     (\<exists>s. (s, ''SUCCESS'') \<in> set (attempts drill_clock drill_rules ''erp'' drill_history))"
proof -
  obtain hr erp where vs: "evaluate_drills drill_clock (\<lambda>_. None) drill_rules None (sec 7202) drill_history = Inr [hr, erp]"
      "dr_database hr = ''hr''" "dr_database erp = ''erp''" "dr_status erp = OK"
    using drill_history_judged by blast
  from ok_drill_is_proven [OF vs(1)] vs show ?thesis by auto
qed

end
