(* ===== verification/SlaCompliance.thy ===== *)
theory SlaCompliance
  imports SlaPolicies RestoreDrill
begin

section \<open>SLA compliance\<close>

text \<open>
  Models \<^verbatim>\<open>dbabrain/sla/compliance.py\<close>: the population a policy is judged over, the indicator of each target
  from the collected rows, the verdict against the objective with its error budget and burn rate, the
  two policies judged from backups and restore drills, and the summary of a run.

  What the run reads is an argument: the rows and the minute counts the store answers, the targets and
  instances of the inventory (nothing where reading raised), the policy documents and the drill
  history (\<open>sources\<close>), and the readers and printers of dates and floats with the offset of the host's zone
  (\<open>readers\<close>). A result holds the policy it judges instead of copies of its fields.
\<close>

subsection \<open>Results\<close>

datatype sla_status = PASSED | AT_RISK | FAILED | NO_DATA | STALE | INSUFFICIENT_DATA | NOT_CONFIGURED | BURNING

datatype data_quality = Quality_ok | Quality_no_data | COLLECTION_FAILED | Quality_stale | Quality_insufficient | MISSING_EXCLUDED

record sla_result =
  r_policy :: sla_policy
  r_target :: string
  r_status :: sla_status
  r_actual_percent :: flt
  r_error_budget :: flt
  r_consumed :: flt
  r_remaining :: flt
  r_total :: int
  r_good :: int
  r_bad :: int
  r_no_data :: bool
  r_window :: "string \<times> string"
  r_scope :: string
  r_failures :: "(string \<times> int) list"
  r_current :: string
  r_affected :: int
  r_actual_value :: "flt option"
  r_objective_value :: flt
  r_compliant :: "bool option"
  r_expected :: int
  r_coverage :: flt
  r_quality :: data_quality
  r_freshness :: "flt option"
  r_reason :: string
  r_budget_consumed :: flt
  r_budget_remaining :: flt
  r_burn_rate :: "flt option"
  r_burn_rates :: "(string \<times> flt option) list"
  r_burn_alert :: string

record sla_summary =
  s_status :: sla_status
  s_policies :: int
  s_result_count :: int
  s_passed :: int
  s_at_risk :: int
  s_failed :: int
  s_no_data :: int
  s_window_end :: string
  s_results :: "sla_result list"
  s_reason :: string
  s_burning :: int

definition AGGREGATE_TARGET :: string where
  "AGGREGATE_TARGET = ''*''"

subsection \<open>What is read\<close>

record readers =
  read_decimal :: "string \<Rightarrow> flt option"
  read_iso :: iso_parser
  host_offset :: "int \<Rightarrow> int"
  format_time :: "instant \<Rightarrow> string"
  format_display :: "instant \<Rightarrow> string"
  show_float :: "flt \<Rightarrow> string"
  show_whole :: "flt \<Rightarrow> string"

record metric_target =
  mt_id :: string
  mt_db_type :: string
  mt_server :: string
  mt_config :: pyval

record minute_detail =
  md_collection_rows :: int
  md_newest :: "string option"
  md_newest_up :: "bool option"
  md_failures :: "(string \<times> int) list"

datatype drill_answer = Drill_rows "pydict list" | Unreadable string | Store_down

record sources =
  metric_targets :: "metric_target list option"
  metric_samples :: "sla_policy \<Rightarrow> string list \<Rightarrow> string \<Rightarrow> string \<Rightarrow> pydict list"
  minute_counts :: "sla_policy \<Rightarrow> string list \<Rightarrow> string \<Rightarrow> (string \<times> string) list \<Rightarrow> (string \<times> (string \<times> int \<times> int) list) list"
  minute_details :: "sla_policy \<Rightarrow> string list \<Rightarrow> string \<Rightarrow> string \<Rightarrow> (string \<times> minute_detail) list"
  backup_policy_doc :: pydict
  drill_policy_doc :: pydict
  drill_history_rows :: drill_answer
  db_instances :: "pyval list option"

text \<open>\<^verbatim>\<open>_parse_time\<close>: a text without an offset is the time of the host's zone.\<close>

definition parse_time :: "readers \<Rightarrow> string \<Rightarrow> sla_error + instant" where
  "parse_time rd v =
     (let t = strip v; text = (if endswith t ''Z'' then butlast t @ ''+00:00'' else t) in
      case read_iso rd text of
        None \<Rightarrow> Inl Unreadable_time
      | Some (wall, Some off) \<Rightarrow> Inr (wall - off)
      | Some (wall, None) \<Rightarrow> Inr (wall - host_offset rd wall))"

text \<open>\<^verbatim>\<open>max(0.0, (end - t).total_seconds())\<close>\<close>

definition age_seconds :: "instant \<Rightarrow> instant \<Rightarrow> flt" where
  "age_seconds e t = fmax (Num 0) (to_flt (of_int (e - t) / 1000000))"

subsection \<open>The population of a policy\<close>

text \<open>The elements of \<^verbatim>\<open>v or []\<close>.\<close>

definition iter_items :: "pyval \<Rightarrow> sla_error + pyval list" where
  "iter_items v =
     (if \<not> truthy v then Inr []
      else case v of
        PList xs \<Rightarrow> Inr xs
      | PStr s \<Rightarrow> Inr (map (\<lambda>c. PStr [c]) s)
      | PDict d \<Rightarrow> Inr (map (PStr \<circ> fst) d)
      | _ \<Rightarrow> Inl Not_iterable)"

definition dict_at :: "pydict \<Rightarrow> string \<Rightarrow> pydict" where
  "dict_at d k = as_dict (get d k)"

definition policy_codes :: "sla_policy \<Rightarrow> string list" where
  "policy_codes p = filter (\<lambda>c. c \<noteq> []) (map (\<lambda>c. upper (strip c)) (metric_codes p))"

definition code_disabled :: "pydict \<Rightarrow> string list \<Rightarrow> string list \<Rightarrow> string \<Rightarrow> bool" where
  "code_disabled metric_overrides disabled_codes disabled_collectors code =
     (code \<in> set disabled_codes \<or>
      (is_dict (get metric_overrides code) \<and> get (as_dict (get metric_overrides code)) ''enabled'' = PBool False) \<or>
      (''cmd'' \<in> set disabled_collectors \<and> startswith code ''OS_''))"

definition policy_is_switched_off_for :: "sla_policy \<Rightarrow> pyval \<Rightarrow> sla_error + bool" where
  "policy_is_switched_off_for p config =
     (if \<not> is_dict config \<or> policy_codes p = [] then Inr False
      else let raw = as_dict config; metrics = dict_at raw ''metrics'' in
        rbind (iter_items (get (dict_at raw ''report_policy'') ''disabled_metric_codes'')) (\<lambda>codes.
        rbind (iter_items (get metrics ''disabled_collector_types'')) (\<lambda>collectors.
          Inr (list_all (code_disabled (dict_at metrics ''metric_overrides'') (map (\<lambda>c. upper (strip (py_str c))) codes)
                 (map (\<lambda>c. lower (strip (py_str c))) collectors)) (policy_codes p)))))"

definition stated :: "string list \<Rightarrow> string list" where
  "stated xs = filter (\<lambda>x. x \<noteq> []) (map strip xs)"

definition in_scope :: "sla_policy \<Rightarrow> metric_target \<Rightarrow> sla_error + bool" where
  "in_scope p t =
     (if mt_id t = [] then Inr False
      else if stated (target_ids p) \<noteq> [] \<and> mt_id t \<notin> set (stated (target_ids p)) then Inr False
      else if stated (db_types_of p) \<noteq> [] \<and> lower (mt_db_type t) \<notin> lower ` set (stated (db_types_of p)) then Inr False
      else rbind (policy_is_switched_off_for p (mt_config t)) (\<lambda>off. Inr (\<not> off)))"

definition unique_sorted :: "string list \<Rightarrow> string list" where
  "unique_sorted xs = sort (remdups xs)"

definition expected_scope :: "sla_policy \<Rightarrow> metric_target list option \<Rightarrow> sla_error + string list \<times> string list" where
  "expected_scope p targets =
     (case targets of
        None \<Rightarrow> Inr ([], [])
      | Some ts \<Rightarrow>
          rbind (map_res (\<lambda>t. rbind (in_scope p t) (\<lambda>b. Inr (t, b))) ts) (\<lambda>marked.
            let chosen = map fst (filter snd marked) in
            Inr (unique_sorted (map mt_id chosen), unique_sorted (filter (\<lambda>s. s \<noteq> []) (map mt_server chosen)))))"

definition add_row :: "string list \<Rightarrow> (string \<times> pydict list) list \<Rightarrow> pydict \<Rightarrow> (string \<times> pydict list) list" where
  "add_row expected grouped row =
     (let tid = str_or (get row ''target_id'') in
      if expected \<noteq> [] \<and> map_of grouped tid = None then grouped else add_to_group tid row grouped)"

definition group_rows :: "string list \<Rightarrow> pydict list \<Rightarrow> (string \<times> pydict list) list" where
  "group_rows expected rows = sort_key fst (foldl (add_row expected) (map (\<lambda>t. (t, [])) expected) rows)"

subsection \<open>The rows of a target\<close>

definition COLLECTION_FAILURE_TYPES :: "string list" where
  "COLLECTION_FAILURE_TYPES = [''AUTH_FAILED'', ''CONNECT_FAILED'', ''QUERY_FAILED'', ''PERMISSION_DENIED'']"

definition is_collection_failure :: "pydict \<Rightarrow> bool" where
  "is_collection_failure row = (upper (strip (str_or (get row ''error_type''))) \<in> set COLLECTION_FAILURE_TYPES)"

definition is_maintenance_sample :: "string \<Rightarrow> (string \<times> string) list \<Rightarrow> bool" where
  "is_maintenance_sample collected windows = list_ex (\<lambda>(s, e). s \<le> collected \<and> collected \<le> e) windows"

definition newest_of :: "(string \<times> string) list \<Rightarrow> pydict \<Rightarrow> (string \<times> string) list" where
  "newest_of newest row =
     (let code = row_text row ''metric_code''; collected = row_text row ''collected_at'' in
      if (case map_of newest code of None \<Rightarrow> [] | Some c \<Rightarrow> c) < collected then upd code collected newest else newest)"

definition latest_cycle :: "pydict list \<Rightarrow> pydict list" where
  "latest_cycle rows =
     (let newest = foldl newest_of [] rows in
      filter (\<lambda>row. map_of newest (row_text row ''metric_code'') = Some (row_text row ''collected_at'')) rows)"

definition status_of :: "pydict \<Rightarrow> string" where
  "status_of row = upper (str_or (get row ''status''))"

definition good_row :: "sla_policy \<Rightarrow> pydict \<Rightarrow> bool" where
  "good_row p row = (status_of row \<in> set (map upper (good_statuses p)))"

fun finite_values :: "readers \<Rightarrow> pydict list \<Rightarrow> sla_error + flt list" where
  "finite_values rd [] = Inr []"
| "finite_values rd (row # rows) =
     (case float_of (read_decimal rd) (get row ''metric_value'') of
        Inl Overflow_error \<Rightarrow> Inl (Number_error Overflow_error)
      | Inl e \<Rightarrow> finite_values rd rows
      | Inr (Num q) \<Rightarrow> rbind (finite_values rd rows) (\<lambda>vs. Inr (Num q # vs))
      | Inr x \<Rightarrow> finite_values rd rows)"

definition flt_key :: "flt \<Rightarrow> rat" where
  "flt_key x = (case x of Num q \<Rightarrow> q | _ \<Rightarrow> 0)"

definition percentile_of :: "flt list \<Rightarrow> flt \<Rightarrow> sla_error + flt" where
  "percentile_of vs pct =
     (let ordered = sort_key flt_key vs;
          position = fdiv (fmult (Num (of_nat (length ordered - 1))) pct) (Num 100) in
      case position of
        Num q \<Rightarrow>
          let l = nat \<lfloor>q\<rfloor>; u = nat \<lceil>q\<rceil> in
          if length ordered \<le> u then Inl Index_error
          else if l = u then Inr (ordered ! l)
          else Inr (fadd (ordered ! l) (fmult (fsub (ordered ! u) (ordered ! l)) (fsub position (Num (of_nat l)))))
      | NaN \<Rightarrow> Inl (Number_error Value_error)
      | _ \<Rightarrow> Inl (Number_error Overflow_error))"

definition combine :: "string \<Rightarrow> flt list \<Rightarrow> flt \<Rightarrow> sla_error + flt" where
  "combine agg vs pct =
     (if agg = ''average'' then Inr (fdiv (fsum vs) (Num (of_nat (length vs))))
      else if agg = ''minimum'' then Inr (foldl fmin (hd vs) (tl vs))
      else if agg = ''maximum'' then Inr (foldl fmax (hd vs) (tl vs))
      else if agg = ''sum'' then Inr (fsum vs)
      else if agg = ''count'' then Inr (Num (of_nat (length vs)))
      else if agg = ''latest'' then Inr (last vs)
      else if agg = ''percentile'' then percentile_of vs pct
      else Inl Unknown_operation)"

definition aggregate_value :: "readers \<Rightarrow> sla_policy \<Rightarrow> pydict list \<Rightarrow> int \<Rightarrow> sla_error + flt option" where
  "aggregate_value rd p rows good =
     (if rows = [] then Inr None
      else if aggregation p = ''success_ratio'' then Inr (Some (fmult (to_flt (of_int good / of_nat (length rows))) (Num 100)))
      else rbind (finite_values rd rows) (\<lambda>vs.
        if vs = [] then Inr None
        else rbind (combine (aggregation p) vs (percentile p)) (\<lambda>x. Inr (Some (fround 6 x)))))"

definition compare :: "flt \<Rightarrow> flt \<Rightarrow> string \<Rightarrow> bool" where
  "compare actual objective op =
     (if op = ''>='' then fle objective actual
      else if op = ''>'' then fless objective actual
      else if op = ''<='' then fle actual objective
      else if op = ''<'' then fless actual objective
      else if op = ''=='' then feq actual objective
      else \<not> feq actual objective)"

definition count_by_status :: "pydict list \<Rightarrow> (string \<times> int) list" where
  "count_by_status rows = sort_key fst (map (\<lambda>(k, rs). (k, int (length rs))) (group_by status_of rows))"

subsection \<open>The verdict\<close>

definition quality_reason :: "data_quality \<Rightarrow> int \<Rightarrow> int \<Rightarrow> string" where
  "quality_reason q samples least =
     (case q of
        Quality_no_data \<Rightarrow> ''No observations were collected in the evaluation window.''
      | Quality_stale \<Rightarrow> ''The newest observation exceeds the configured freshness threshold.''
      | Quality_insufficient \<Rightarrow> ''Only '' @ show_int samples @ '' samples are available; at least '' @ show_int least @ '' are required.''
      | MISSING_EXCLUDED \<Rightarrow> ''Missing observations were excluded by policy.''
      | _ \<Rightarrow> ''Observations are sufficiently fresh and complete for evaluation.'')"

definition scope_text :: "sla_policy \<Rightarrow> string" where
  "scope_text p =
     (if target_ids p \<noteq> [] then ''targets:'' @ join '','' (target_ids p)
      else if db_types_of p \<noteq> [] then ''db_types:'' @ join '','' (db_types_of p)
      else if policy_model p = ''restore_drill'' then ''fleet'' else [])"

definition resolve_status :: "bool \<Rightarrow> bool \<Rightarrow> flt \<Rightarrow> flt \<Rightarrow> sla_status" where
  "resolve_status no_data meets remaining at_risk =
     (if no_data then NO_DATA else if \<not> meets then FAILED else if fle remaining at_risk then AT_RISK else PASSED)"

text \<open>What is measured of one target before it is judged.\<close>

record measures =
  m_total :: int
  m_good :: int
  m_bad :: int
  m_actual :: "flt option"
  m_percent :: flt
  m_expected :: int
  m_coverage :: flt
  m_no_data :: bool
  m_collection :: int
  m_failures :: "(string \<times> int) list"
  m_affected :: int
  m_current :: string
  m_freshness :: "flt option"
  m_samples :: int
  m_burn_rates :: "(string \<times> flt option) list"
  m_burn_alert :: string

definition is_stale :: "sla_policy \<Rightarrow> measures \<Rightarrow> bool" where
  "is_stale p m =
     (case (freshness_threshold p, m_freshness m) of
        (Some t, Some f) \<Rightarrow> fless (Num (of_int t)) f
      | _ \<Rightarrow> False)"

definition is_insufficient :: "sla_policy \<Rightarrow> measures \<Rightarrow> bool" where
  "is_insufficient p m = (\<not> m_no_data m \<and> m_samples m < minimum_sample_count p)"

definition objective_value :: "sla_policy \<Rightarrow> flt" where
  "objective_value p = (case target_value p of Some v \<Rightarrow> v | None \<Rightarrow> objective_percent p)"

definition budgeted :: "sla_policy \<Rightarrow> bool" where
  "budgeted p = (aggregation p \<in> {''success_ratio'', ''minutes''} \<and> policy_model p = ''time_slo'')"

definition error_budget :: "sla_policy \<Rightarrow> flt" where
  "error_budget p = (if budgeted p then fround 4 (fsub (Num 100) (objective_percent p)) else Num 0)"

definition bad_percent :: "sla_policy \<Rightarrow> measures \<Rightarrow> flt" where
  "bad_percent p m = (if budgeted p then fround 4 (fsub (Num 100) (m_percent m)) else Num 0)"

definition raw_consumed :: "sla_policy \<Rightarrow> measures \<Rightarrow> flt" where
  "raw_consumed p m =
     (if fless (Num 0) (error_budget p) then fmult (fdiv (bad_percent p m) (error_budget p)) (Num 100)
      else if fle (bad_percent p m) (Num 0) then Num 0 else Num 100)"

definition budget_consumed :: "sla_policy \<Rightarrow> measures \<Rightarrow> flt" where
  "budget_consumed p m = (if m_no_data m then Num 0 else fround 2 (fmin (Num 100) (fmax (Num 0) (raw_consumed p m))))"

definition budget_remaining :: "sla_policy \<Rightarrow> measures \<Rightarrow> flt" where
  "budget_remaining p m = (if m_no_data m then Num 0 else fround 2 (fsub (Num 100) (budget_consumed p m)))"

definition judged_compliant :: "sla_policy \<Rightarrow> measures \<Rightarrow> bool option" where
  "judged_compliant p m =
     (if m_no_data m \<and> missing_data_policy p \<in> {''good'', ''ignore''} then Some True
      else if m_no_data m \<and> missing_data_policy p = ''bad'' then Some False
      else if m_no_data m \<or> is_stale p m \<or> is_insufficient p m then None
      else map_option (\<lambda>a. compare a (objective_value p) (comparison_operator p)) (m_actual m))"

definition judged_quality :: "sla_policy \<Rightarrow> measures \<Rightarrow> data_quality" where
  "judged_quality p m =
     (if m_no_data m \<and> missing_data_policy p \<in> {''good'', ''ignore''} then MISSING_EXCLUDED
      else if m_no_data m then Quality_no_data
      else if 0 < m_collection m then COLLECTION_FAILED
      else if is_stale p m then Quality_stale
      else if is_insufficient p m then Quality_insufficient else Quality_ok)"

definition judged_status :: "sla_policy \<Rightarrow> measures \<Rightarrow> sla_status" where
  "judged_status p m =
     (let status = (if is_stale p m then STALE
                    else if is_insufficient p m then INSUFFICIENT_DATA
                    else resolve_status (m_no_data m \<and> missing_data_policy p = ''unknown'') (judged_compliant p m = Some True)
                           (budget_remaining p m) (at_risk_budget_percent p)) in
      if m_burn_alert m = ''page'' \<and> status \<in> {PASSED, AT_RISK} then BURNING else status)"

definition judge_verdict :: "sla_policy \<Rightarrow> string \<Rightarrow> string \<times> string \<Rightarrow> measures \<Rightarrow> sla_result" where
  "judge_verdict p target window m =
     \<lparr>r_policy = p, r_target = target, r_status = judged_status p m, r_actual_percent = m_percent m,
      r_error_budget = error_budget p, r_consumed = budget_consumed p m, r_remaining = budget_remaining p m,
      r_total = m_total m, r_good = m_good m, r_bad = m_bad m, r_no_data = m_no_data m, r_window = window, r_scope = scope_text p,
      r_failures = m_failures m, r_current = m_current m, r_affected = m_affected m, r_actual_value = m_actual m,
      r_objective_value = objective_value p, r_compliant = judged_compliant p m, r_expected = m_expected m,
      r_coverage = m_coverage m, r_quality = judged_quality p m, r_freshness = m_freshness m,
      r_reason = quality_reason (judged_quality p m) (m_samples m) (minimum_sample_count p),
      r_budget_consumed = fmin (error_budget p) (bad_percent p m),
      r_budget_remaining = fmax (Num 0) (fsub (error_budget p) (bad_percent p m)),
      r_burn_rate = (if fless (Num 0) (error_budget p) \<and> \<not> m_no_data m
                     then Some (fround 4 (fdiv (bad_percent p m) (error_budget p))) else None),
      r_burn_rates = m_burn_rates m, r_burn_alert = m_burn_alert m\<rparr>"

subsection \<open>A target judged from its rows\<close>

definition expected_cycles :: "sla_policy \<Rightarrow> int" where
  "expected_cycles p =
     (case expected_interval p of
        Some i \<Rightarrow>
          if i = 0 then 0
          else max 1 (let q = nearest (of_int (window_hours p * 3600) / of_int i) in if 0 \<le> q then \<lfloor>q\<rfloor> else \<lceil>q\<rceil>) *
               max 1 (int (length (metric_codes p)))
      | None \<Rightarrow> 0)"

definition observed_cycles :: "pydict list \<Rightarrow> int" where
  "observed_cycles rows = int (card ((\<lambda>row. (row_text row ''metric_code'', row_text row ''collected_at'')) ` set rows))"

definition ratio_percent :: "int \<Rightarrow> int \<Rightarrow> flt" where
  "ratio_percent a b = fmult (to_flt (of_int a / of_int b)) (Num 100)"

definition coverage_of :: "sla_policy \<Rightarrow> pydict list \<Rightarrow> pydict list \<Rightarrow> flt" where
  "coverage_of p window_rows collection_rows =
     (if expected_cycles p \<noteq> 0 then fround 2 (fmin (Num 100) (ratio_percent (observed_cycles window_rows) (expected_cycles p)))
      else if collection_rows \<noteq> [] then
        fround 2 (ratio_percent (int (length window_rows)) (int (length window_rows) + int (length collection_rows)))
      else if window_rows \<noteq> [] then Num 100 else Num 0)"

definition freshness_of :: "readers \<Rightarrow> string \<Rightarrow> pydict list \<Rightarrow> sla_error + flt option" where
  "freshness_of rd window_end rows =
     (if rows = [] then Inr None
      else rbind (parse_time rd window_end) (\<lambda>e.
           rbind (map_res (\<lambda>row. parse_time rd (py_str (get row ''collected_at''))) rows) (\<lambda>ts.
             Inr (Some (age_seconds e (Max (set ts)))))))"

definition row_item :: "pydict \<Rightarrow> string" where
  "row_item row = (if row_text row ''metric_item'' \<noteq> [] then row_text row ''metric_item'' else row_text row ''metric_code'')"

definition affected_items :: "sla_policy \<Rightarrow> pydict list \<Rightarrow> string set" where
  "affected_items p rows = row_item ` set (filter (\<lambda>row. \<not> good_row p row) rows)"

definition outside_maintenance :: "sla_policy \<Rightarrow> pydict list \<Rightarrow> pydict list" where
  "outside_maintenance p rows = filter (\<lambda>row. \<not> is_maintenance_sample (py_str (get row ''collected_at'')) (maintenance_windows p)) rows"

definition measured_of :: "pydict list \<Rightarrow> pydict list" where
  "measured_of rows = filter (\<lambda>row. \<not> is_collection_failure row) rows"

definition judged_rows :: "sla_policy \<Rightarrow> pydict list \<Rightarrow> pydict list" where
  "judged_rows p measured = (if policy_model p \<in> {''current_state'', ''finding_inventory''} then latest_cycle measured else measured)"

definition model_value :: "sla_policy \<Rightarrow> pydict list \<Rightarrow> flt option \<Rightarrow> flt option" where
  "model_value p judged v =
     (if policy_model p = ''current_state'' then Some (if list_ex (\<lambda>row. \<not> good_row p row) judged then Num 0 else Num 100)
      else if policy_model p = ''finding_inventory'' then Some (Num (of_nat (card (affected_items p judged))))
      else v)"

definition measure_rows :: "readers \<Rightarrow> sla_policy \<Rightarrow> pydict list \<Rightarrow> string \<Rightarrow> sla_error + measures" where
  "measure_rows rd p all_rows window_end =
     (let rows = outside_maintenance p all_rows;
          measured = measured_of rows;
          failed = filter is_collection_failure rows;
          latest = latest_cycle measured;
          judged = judged_rows p measured;
          good = int (length (filter (good_row p) judged));
          bad = filter (\<lambda>row. \<not> good_row p row) judged in
      rbind (aggregate_value rd p judged good) (\<lambda>v.
      rbind (freshness_of rd window_end rows) (\<lambda>fresh.
        let actual = model_value p judged v in
        Inr \<lparr>m_total = int (length judged), m_good = good, m_bad = int (length bad), m_actual = actual,
          m_percent = (case actual of None \<Rightarrow> Num 0 | Some a \<Rightarrow> fround 4 a),
          m_expected = expected_cycles p, m_coverage = coverage_of p measured failed, m_no_data = (measured = []),
          m_collection = int (length failed), m_failures = count_by_status bad, m_affected = int (card (affected_items p judged)),
          m_current = (if latest = [] then [] else if list_all (good_row p) latest then ''OK'' else ''BAD''),
          m_freshness = fresh, m_samples = int (length measured), m_burn_rates = [], m_burn_alert = []\<rparr>)))"

definition build_result :: "readers \<Rightarrow> sla_policy \<Rightarrow> string \<Rightarrow> pydict list \<Rightarrow> string \<times> string \<Rightarrow> sla_error + sla_result" where
  "build_result rd p target rows window =
     rbind (measure_rows rd p rows (snd window)) (\<lambda>m. Inr (judge_verdict p target window m))"

subsection \<open>A target judged in minutes\<close>

definition window_label :: "int \<Rightarrow> string" where
  "window_label minutes =
     (if 1440 \<le> minutes \<and> minutes mod 1440 = 0 then show_int (minutes div 1440) @ ''d''
      else if 60 \<le> minutes \<and> minutes mod 60 = 0 then show_int (minutes div 60) @ ''h''
      else show_int minutes @ ''m'')"

definition burn_windows :: "sla_policy \<Rightarrow> (string \<times> int) list" where
  "burn_windows p =
     dict_of (concat (map (\<lambda>a. [(window_label (ba_long a), ba_long a), (window_label (ba_short a), ba_short a)]) (burn_rate_alerts p)))"

definition budget_fraction :: "sla_policy \<Rightarrow> flt" where
  "budget_fraction p = fsub (Num 1) (fdiv (objective_percent p) (Num 100))"

definition burn_rate_of :: "sla_policy \<Rightarrow> (string \<times> int \<times> int) list \<Rightarrow> string \<Rightarrow> flt option" where
  "burn_rate_of p counts label =
     (case (case map_of counts label of None \<Rightarrow> (0, 0) | Some c \<Rightarrow> c) of (obs, good) \<Rightarrow>
        if obs = 0 \<or> fle (budget_fraction p) (Num 0) then None
        else Some (fround 4 (fdiv (to_flt (of_int (obs - good) / of_int obs)) (budget_fraction p))))"

definition fires :: "(string \<times> flt option) list \<Rightarrow> burn_alert_rule \<Rightarrow> bool" where
  "fires rates a =
     (case (map_of rates (window_label (ba_long a)), map_of rates (window_label (ba_short a))) of
        (Some (Some l), Some (Some s)) \<Rightarrow> fle (ba_factor a) l \<and> fle (ba_factor a) s
      | _ \<Rightarrow> False)"

definition burn_alert_of :: "sla_policy \<Rightarrow> (string \<times> flt option) list \<Rightarrow> string" where
  "burn_alert_of p rates =
     (let firing = map ba_severity (filter (fires rates) (burn_rate_alerts p)) in
      if ''page'' \<in> set firing then ''page'' else if ''ticket'' \<in> set firing then ''ticket'' else [])"

definition no_detail :: minute_detail where
  "no_detail = \<lparr>md_collection_rows = 0, md_newest = None, md_newest_up = None, md_failures = []\<rparr>"

definition measure_minutes ::
  "readers \<Rightarrow> sla_policy \<Rightarrow> instant \<Rightarrow> (string \<times> int \<times> int) list \<Rightarrow> minute_detail \<Rightarrow> sla_error + measures" where
  "measure_minutes rd p window_end counts detail =
     (case (case map_of counts ''policy'' of None \<Rightarrow> (0, 0) | Some c \<Rightarrow> c) of (obs, good) \<Rightarrow>
        let expected = window_hours p * 60;
            actual = (if obs = 0 then None else Some (ratio_percent good obs));
            rates = map (\<lambda>(label, _). (label, burn_rate_of p counts label)) (sort_key snd (burn_windows p)) in
        rbind (case md_newest detail of
                 None \<Rightarrow> Inr None
               | Some t \<Rightarrow> rbind (parse_time rd t) (\<lambda>u. Inr (Some (age_seconds window_end u)))) (\<lambda>fresh.
          Inr \<lparr>m_total = obs, m_good = good, m_bad = obs - good, m_actual = actual,
            m_percent = (case actual of None \<Rightarrow> Num 0 | Some a \<Rightarrow> fround 4 a), m_expected = expected,
            m_coverage = (if expected = 0 then Num 0 else fround 2 (fmin (Num 100) (ratio_percent obs expected))),
            m_no_data = (obs = 0), m_collection = md_collection_rows detail, m_failures = md_failures detail,
            m_affected = (if 0 < obs - good then 1 else 0),
            m_current = (case md_newest_up detail of None \<Rightarrow> [] | Some True \<Rightarrow> ''OK'' | Some False \<Rightarrow> ''BAD''),
            m_freshness = fresh, m_samples = obs, m_burn_rates = rates, m_burn_alert = burn_alert_of p rates\<rparr>))"

definition evaluate_minutes_policy ::
  "readers \<Rightarrow> sources \<Rightarrow> sla_policy \<Rightarrow> instant \<Rightarrow> string \<times> string \<Rightarrow> string list \<Rightarrow> string list \<Rightarrow> sla_error + sla_result list" where
  "evaluate_minutes_policy rd src p window_end window expected servers =
     (let starts = dict_of ((''policy'', fst window) #
            map (\<lambda>(label, minutes). (label, format_time rd (window_end - sec (minutes * 60)))) (burn_windows p));
          counts = minute_counts src p servers (snd window) starts;
          details = minute_details src p servers (fst window) (snd window);
          found = unique_sorted (map fst counts @ map fst details);
          targets = (if expected \<noteq> [] then expected else if found \<noteq> [] then found else [AGGREGATE_TARGET]) in
      map_res (\<lambda>target.
        rbind (measure_minutes rd p window_end (case map_of counts target of None \<Rightarrow> [] | Some c \<Rightarrow> c)
                 (case map_of details target of None \<Rightarrow> no_detail | Some x \<Rightarrow> x)) (\<lambda>m.
          Inr (judge_verdict p target window m))) (sort targets))"

subsection \<open>Backups against the backup policy\<close>

text \<open>A result of the two counting models: no budget of its own, and a target value that defaults to none tolerated.\<close>

definition count_target :: "sla_policy \<Rightarrow> flt" where
  "count_target p = (case target_value p of Some v \<Rightarrow> v | None \<Rightarrow> Num 0)"

definition unmeasured_result ::
  "sla_policy \<Rightarrow> string \<Rightarrow> string \<times> string \<Rightarrow> sla_status \<Rightarrow> int \<Rightarrow> bool \<Rightarrow> bool option \<Rightarrow> data_quality \<Rightarrow> string \<Rightarrow> sla_result" where
  "unmeasured_result p target window status number no_data compliant quality reason =
     \<lparr>r_policy = p, r_target = target, r_status = status, r_actual_percent = Num 0, r_error_budget = Num 0,
      r_consumed = Num 0, r_remaining = Num 0, r_total = number, r_good = 0, r_bad = 0, r_no_data = no_data,
      r_window = window, r_scope = scope_text p, r_failures = [], r_current = [], r_affected = 0, r_actual_value = None,
      r_objective_value = count_target p, r_compliant = compliant, r_expected = 0, r_coverage = Num 0, r_quality = quality,
      r_freshness = None, r_reason = reason, r_budget_consumed = Num 0, r_budget_remaining = Num 0, r_burn_rate = None,
      r_burn_rates = [], r_burn_alert = []\<rparr>"

definition counted_result ::
  "sla_policy \<Rightarrow> string \<Rightarrow> string \<times> string \<Rightarrow> sla_status \<Rightarrow> int \<times> int \<times> int \<Rightarrow> (string \<times> int) list \<Rightarrow> int \<Rightarrow> int \<Rightarrow>
   data_quality \<Rightarrow> string \<Rightarrow> sla_result" where
  "counted_result p target window status counts failures affected breaches quality reason =
     (case counts of (number, good, bad) \<Rightarrow>
        let broken = (breaches \<noteq> 0) in
        \<lparr>r_policy = p, r_target = target, r_status = status, r_actual_percent = (if broken then Num 0 else Num 100),
         r_error_budget = Num 0, r_consumed = (if broken then Num 100 else Num 0), r_remaining = (if broken then Num 0 else Num 100),
         r_total = number, r_good = good, r_bad = bad, r_no_data = False, r_window = window, r_scope = scope_text p, r_failures = failures,
         r_current = (if broken then ''BAD'' else ''OK''), r_affected = affected, r_actual_value = Some (Num (of_int breaches)),
         r_objective_value = count_target p,
         r_compliant = Some (compare (Num (of_int breaches)) (count_target p) (comparison_operator p)), r_expected = 0,
         r_coverage = Num 100, r_quality = quality, r_freshness = None, r_reason = reason, r_budget_consumed = Num 0,
         r_budget_remaining = Num 0, r_burn_rate = None, r_burn_rates = [], r_burn_alert = []\<rparr>)"

definition limit_text :: "string \<Rightarrow> pyval \<Rightarrow> string" where
  "limit_text word v = '' ('' @ word @ py_str v @ ''h)''"

text \<open>The breach, or the warning, of one required type and of the data backup of a database.\<close>

definition type_breach :: "string \<Rightarrow> btype \<times> type_verdict \<Rightarrow> string option" where
  "type_breach db tv =
     (case tv of (t, v) \<Rightarrow>
        if tv_required v = Some True \<and> tv_state v = CRITICAL
        then Some (db @ '' '' @ type_name t @ '': '' @
               (case tv_age v of None \<Rightarrow> ''required and never backed up'' | Some a \<Rightarrow> age_text a @ '' old'') @ limit_text ''limit '' (tv_critical v))
        else None)"

definition type_warning :: "string \<Rightarrow> btype \<times> type_verdict \<Rightarrow> string option" where
  "type_warning db tv =
     (case tv of (t, v) \<Rightarrow>
        if tv_required v = Some True \<and> tv_state v = WARNING
        then Some (db @ '' '' @ type_name t @ '': '' @
               (case tv_age v of None \<Rightarrow> [] | Some a \<Rightarrow> age_text a) @ '' old'' @ limit_text ''warn limit '' (tv_warn v))
        else None)"

definition data_label :: "string \<Rightarrow> data_verdict \<Rightarrow> string" where
  "data_label db v =
     db @ '' data backup ('' @ join '' or '' (if dv_of_types v = [] then [''FULL'', ''DIFF''] else dv_of_types v) @ ''): ''"

definition data_breach :: "string \<Rightarrow> data_verdict option \<Rightarrow> string option" where
  "data_breach db dv =
     (case dv of
        Some v \<Rightarrow>
          if dv_required v \<and> dv_state v = CRITICAL
          then Some (data_label db v @ (case dv_age v of None \<Rightarrow> ''none on record'' | Some a \<Rightarrow> age_text a @ '' old'') @
                 limit_text ''limit '' (dv_critical v))
          else None
      | None \<Rightarrow> None)"

definition data_warning :: "string \<Rightarrow> data_verdict option \<Rightarrow> string option" where
  "data_warning db dv =
     (case dv of
        Some v \<Rightarrow>
          if dv_required v \<and> dv_state v = WARNING
          then Some (data_label db v @ (case dv_age v of None \<Rightarrow> [] | Some a \<Rightarrow> age_text a) @ '' old'' @ limit_text ''warn limit '' (dv_warn v))
          else None
      | None \<Rightarrow> None)"

definition db_breaches :: "db_verdict \<Rightarrow> string list" where
  "db_breaches d = List.map_filter (type_breach (dbname d)) (db_types d) @ (case data_breach (dbname d) (db_data d) of None \<Rightarrow> [] | Some b \<Rightarrow> [b])"

definition db_warnings :: "db_verdict \<Rightarrow> string list" where
  "db_warnings d = List.map_filter (type_warning (dbname d)) (db_types d) @ (case data_warning (dbname d) (db_data d) of None \<Rightarrow> [] | Some b \<Rightarrow> [b])"

definition db_judged :: "db_verdict \<Rightarrow> bool" where
  "db_judged d = (list_ex (\<lambda>tv. tv_required (snd tv) = Some True) (db_types d) \<or> (case db_data d of None \<Rightarrow> False | Some v \<Rightarrow> dv_required v))"

definition names_of :: "(db_verdict \<Rightarrow> bool) \<Rightarrow> db_verdict list \<Rightarrow> string set" where
  "names_of P ds = dbname ` set (filter P ds)"

definition backup_rpo_result :: "sla_policy \<Rightarrow> string \<Rightarrow> string \<times> string \<Rightarrow> data_quality \<Rightarrow> db_verdict list \<Rightarrow> sla_result" where
  "backup_rpo_result p target window quality ds =
     (let breaches = concat (map db_breaches ds); warnings = concat (map db_warnings ds);
          judged = names_of db_judged ds; broken = names_of (\<lambda>d. db_breaches d \<noteq> []) ds; warned = names_of (\<lambda>d. db_warnings d \<noteq> []) ds in
      counted_result p target window (if breaches \<noteq> [] then FAILED else if warnings \<noteq> [] then AT_RISK else PASSED)
        (int (card judged), int (card (judged - broken)), int (card broken))
        (if breaches \<noteq> [] \<or> warnings \<noteq> [] then [(''CRITICAL'', int (length breaches)), (''WARNING'', int (length warnings))] else [])
        (int (card (broken \<union> warned))) (int (length breaches)) quality
        (if breaches \<noteq> [] then join ''; '' breaches else if warnings \<noteq> [] then join ''; '' warnings
         else ''Every required backup is within policy thresholds.''))"

definition finite_decimal :: "readers \<Rightarrow> float_parser" where
  "finite_decimal rd s = (case read_decimal rd s of Some (Num q) \<Rightarrow> Some q | _ \<Rightarrow> None)"

definition server_of :: "string \<Rightarrow> pydict list \<Rightarrow> string" where
  "server_of target latest =
     (let s = (case latest of [] \<Rightarrow> [] | row # _ \<Rightarrow> str_or (get row ''server_id'')) in
      if s = [] \<and> target \<noteq> AGGREGATE_TARGET then takeWhile (\<lambda>c. c \<noteq> CHR ''/'') target else s)"

definition missing_compliant :: "sla_policy \<Rightarrow> bool option" where
  "missing_compliant p =
     (if missing_data_policy p \<in> {''good'', ''ignore''} then Some True
      else if missing_data_policy p = ''bad'' then Some False else None)"

definition build_backup_rpo_result ::
  "readers \<Rightarrow> sources \<Rightarrow> sla_policy \<Rightarrow> instant \<Rightarrow> string \<times> string \<Rightarrow> string \<Rightarrow> pydict list \<Rightarrow> sla_error + sla_result" where
  "build_backup_rpo_result rd src p window_end window target all_rows =
     (if \<not> policy_is_configured (backup_policy_doc src) then
        Inr (unmeasured_result p target window NOT_CONFIGURED (int (length all_rows)) (all_rows = []) (Some False)
               (if all_rows = [] then Quality_no_data else Quality_ok)
               ''no backup policy configured: data/backup_policy.json is absent or carries no rule, so backup ages are unjudged, not compliant'')
      else
        let rows = filter (\<lambda>row. \<not> is_maintenance_sample (str_or (get row ''collected_at'')) (maintenance_windows p)) all_rows;
            failed = filter is_collection_failure rows; measured = measured_of rows; latest = latest_cycle measured in
        if latest = [] then
          let quality = (if missing_data_policy p \<in> {''good'', ''ignore''} then MISSING_EXCLUDED
                         else if failed \<noteq> [] then COLLECTION_FAILED else Quality_no_data) in
          Inr (unmeasured_result p target window
                 (case missing_compliant p of None \<Rightarrow> NO_DATA | Some b \<Rightarrow> if b then PASSED else FAILED)
                 (int (length rows)) True (missing_compliant p) quality
                 (quality_reason quality (int (length measured)) (minimum_sample_count p)))
        else
          (case evaluate_backup_policy (read_iso rd) (finite_decimal rd) latest (server_of target latest) (backup_policy_doc src) window_end of
             Inl e \<Rightarrow> Inl (Backup_policy_error e)
           | Inr (ds, _) \<Rightarrow>
               if ds = [] then
                 Inr (unmeasured_result p target window NO_DATA (int (length latest)) True None Quality_no_data
                        ''No database backup evidence found in latest cycle.'')
               else Inr (backup_rpo_result p target window (if failed \<noteq> [] then COLLECTION_FAILED else Quality_ok) ds)))"

subsection \<open>Restore drills\<close>

definition drill_duration :: "readers \<Rightarrow> pydict list \<Rightarrow> string \<Rightarrow> sla_error + flt option" where
  "drill_duration rd rows database =
     (let successes = filter (\<lambda>row. strip (str_or (get row ''database_name'')) = database \<and>
            upper (strip (str_or (get row ''status''))) = ''SUCCESS'') rows in
      case successes of
        [] \<Rightarrow> Inr None
      | r # rs \<Rightarrow>
          (case get (max_by (\<lambda>row. str_or (get row ''restore_start'')) r rs) ''duration_seconds'' of
             PNone \<Rightarrow> Inr None
           | v \<Rightarrow> (case float_of (read_decimal rd) v of
                     Inl Overflow_error \<Rightarrow> Inl (Number_error Overflow_error)
                   | Inl e \<Rightarrow> Inr None
                   | Inr x \<Rightarrow> Inr (Some x))))"

definition rto_exceeded :: "sla_policy \<Rightarrow> flt option \<Rightarrow> bool" where
  "rto_exceeded p duration =
     (case (rto_target_seconds p, duration) of (Some t, Some d) \<Rightarrow> fless (Num (of_int t)) d | _ \<Rightarrow> False)"

definition drill_sentence :: "readers \<Rightarrow> drill_reason \<Rightarrow> string" where
  "drill_sentence rd r =
     (case r of
        Never_proven \<Rightarrow> ''no successful restore drill has ever been recorded''
      | Too_old age limit \<Rightarrow> ''newest successful drill is '' @ show_float rd age @ ''h old, over the '' @ show_whole rd limit @ ''h policy''
      | Proven_within age limit \<Rightarrow> ''proven '' @ show_float rd age @ ''h ago, within the '' @ show_whole rd limit @ ''h policy''
      | Newest_attempt_failed t age \<Rightarrow>
          ''the most recent attempt FAILED ('' @ format_display rd t @ ''); the last success before it was '' @ show_float rd age @ ''h ago'')"

text \<open>\<^verbatim>\<open>int(newest_success_duration)\<close> is taken whether or not it is printed, and a duration that is no number stops the run.\<close>

definition duration_text :: "flt option \<Rightarrow> sla_error + string" where
  "duration_text d =
     (case d of
        None \<Rightarrow> Inr ''none''
      | Some x \<Rightarrow> (case int_of_flt x of Inl e \<Rightarrow> Inl (Number_error e) | Inr n \<Rightarrow> Inr (show_int n @ ''s'')))"

text \<open>The breach of one database: of the drill policy, of the recovery time, or of both.\<close>

definition drill_breach :: "readers \<Rightarrow> sla_policy \<Rightarrow> pydict list \<Rightarrow> drill_verdict \<Rightarrow> sla_error + string option" where
  "drill_breach rd p rows v =
     rbind (drill_duration rd rows (dr_database v)) (\<lambda>d. rbind (duration_text d) (\<lambda>dur.
       let rto = (case rto_target_seconds p of Some t \<Rightarrow> if t = 0 then ''-'' else show_int t @ ''s'' | None \<Rightarrow> ''-'');
           slow = rto_exceeded p d; bad = (dr_status v \<noteq> OK);
           over = ''duration '' @ dur @ '' exceeds target '' @ rto;
           evidence = '' (last success '' @ (case dr_last_success v of None \<Rightarrow> ''never'' | Some t \<Rightarrow> format_time rd t) @
             '', duration '' @ dur @ '', target '' @ rto @ '')'' in
       Inr (if bad \<and> slow then Some (dr_database v @ '': '' @ drill_sentence rd (dr_reason v) @ ''; '' @ over @ evidence)
            else if slow then Some (dr_database v @ '': '' @ over @ evidence)
            else if bad then Some (dr_database v @ '': '' @ drill_sentence rd (dr_reason v) @ evidence)
            else None)))"

definition drill_breaches :: "readers \<Rightarrow> sla_policy \<Rightarrow> pydict list \<Rightarrow> drill_verdict list \<Rightarrow> sla_error + string list" where
  "drill_breaches rd p rows vs = rbind (map_res (drill_breach rd p rows) vs) (\<lambda>bs. Inr (List.map_filter id bs))"

definition evaluate_restore_drill_policy ::
  "readers \<Rightarrow> sources \<Rightarrow> sla_policy \<Rightarrow> instant \<Rightarrow> string \<times> string \<Rightarrow> sla_error + sla_result list" where
  "evaluate_restore_drill_policy rd src p window_end window =
     (case drill_history_rows src of
        Store_down \<Rightarrow> Inl Store_outage
      | Unreadable reason \<Rightarrow> Inr [unmeasured_result p AGGREGATE_TARGET window NO_DATA 0 True None Quality_no_data reason]
      | Drill_rows rows \<Rightarrow>
          if rows = [] then
            Inr [unmeasured_result p AGGREGATE_TARGET window NO_DATA 0 True None Quality_no_data
                   ''No restore drill has ever been recorded in backup_restore_history.'']
          else
            (case evaluate_drills (read_iso rd) (read_decimal rd) (drill_policy_doc src) None window_end rows of
               Inl e \<Rightarrow> Inl (Number_error e)
             | Inr vs \<Rightarrow>
                 rbind (drill_breaches rd p rows vs) (\<lambda>bs.
                   Inr [counted_result p AGGREGATE_TARGET window (if bs \<noteq> [] then FAILED else PASSED)
                          (int (length vs), int (length vs) - int (length bs), int (length bs)) [] (int (length bs)) (int (length bs))
                          Quality_ok (if bs \<noteq> [] then join ''; '' bs
                                      else ''Every database has a proven restore drill within policy and RTO target.'')])))"

subsection \<open>A policy, and a run\<close>

text \<open>Rows of the expected targets, or of whoever has rows when no target is expected; or one aggregate.\<close>

definition per_target ::
  "sla_policy \<Rightarrow> string list \<Rightarrow> pydict list \<Rightarrow> (string \<Rightarrow> pydict list \<Rightarrow> sla_error + sla_result) \<Rightarrow> sla_error + sla_result list" where
  "per_target p expected rows build =
     (let grouped = group_rows expected rows in
      if aggregate p then rbind (build AGGREGATE_TARGET rows) (\<lambda>r. Inr [r])
      else if grouped = [] then rbind (build AGGREGATE_TARGET []) (\<lambda>r. Inr [r])
      else map_res (\<lambda>(target, rs). build target rs) grouped)"

definition evaluate_policy :: "readers \<Rightarrow> sources \<Rightarrow> sla_policy \<Rightarrow> instant \<Rightarrow> sla_error + sla_result list" where
  "evaluate_policy rd src p window_end =
     (let window = (format_time rd (window_end - sec (window_hours p * 3600)), format_time rd window_end) in
      if policy_model p = ''restore_drill'' then evaluate_restore_drill_policy rd src p window_end window
      else rbind (expected_scope p (metric_targets src)) (\<lambda>(expected, servers).
        if policy_model p = ''backup_rpo'' then
          per_target p expected
            (metric_samples src (p\<lparr>metric_codes := if metric_codes p = [] then [''BACKUP_LAST_RESULT'', ''POSTGRES_BACKUP_LAST_RESULT''] else metric_codes p\<rparr>)
               servers (fst window) (snd window)) (build_backup_rpo_result rd src p window_end window)
        else if aggregation p = ''minutes'' then evaluate_minutes_policy rd src p window_end window expected servers
        else per_target p expected (metric_samples src p servers (fst window) (snd window)) (\<lambda>target rows. build_result rd p target rows window)))"

definition no_targets_configured :: "pyval list option \<Rightarrow> bool" where
  "no_targets_configured instances =
     (case instances of
        None \<Rightarrow> False
      | Some rs \<Rightarrow> \<not> list_ex (\<lambda>r. is_dict r \<and> truthy (get_or (as_dict r) ''enabled'' (PBool True))) rs)"

definition number_of :: "sla_status \<Rightarrow> sla_result list \<Rightarrow> int" where
  "number_of s rs = int (length (filter (\<lambda>r. r_status r = s) rs))"

definition required_failure :: "sla_result list \<Rightarrow> bool" where
  "required_failure rs =
     list_ex (\<lambda>r. required (r_policy r) \<and> r_status r \<in> {FAILED, NO_DATA, STALE, INSUFFICIENT_DATA, NOT_CONFIGURED}) rs"

definition summary_status :: "sla_result list \<Rightarrow> pyval list option \<Rightarrow> sla_status" where
  "summary_status rs instances =
     (if no_targets_configured instances \<and> \<not> list_ex (\<lambda>r. r_status r \<in> {PASSED, AT_RISK, FAILED}) rs then NO_DATA
      else if required_failure rs then FAILED else PASSED)"

definition not_configured_reason :: string where
  "not_configured_reason = ''no SLA policy is configured: data/sla_policies.json is absent, empty, or '' @
     ''every policy in it is inactive. Nothing was measured, so nothing is '' @
     ''compliant - this is unjudged, not a pass.''"

definition summary_of :: "sla_status \<Rightarrow> sla_policy list \<Rightarrow> sla_result list \<Rightarrow> string \<Rightarrow> sla_summary" where
  "summary_of status ps rs end_text =
     \<lparr>s_status = status, s_policies = int (length ps), s_result_count = int (length rs), s_passed = number_of PASSED rs,
      s_at_risk = number_of AT_RISK rs, s_failed = number_of FAILED rs, s_no_data = number_of NO_DATA rs, s_window_end = end_text,
      s_results = rs, s_reason = (if status = NOT_CONFIGURED then not_configured_reason else []), s_burning = number_of BURNING rs\<rparr>"

text \<open>\<open>now\<close> is the end the caller named, or the clock.\<close>

definition validate_sla_policies :: "readers \<Rightarrow> sources \<Rightarrow> sla_policy list \<Rightarrow> instant \<Rightarrow> sla_error + sla_summary" where
  "validate_sla_policies rd src ps now =
     (if ps = [] then Inr (summary_of NOT_CONFIGURED [] [] (format_time rd now))
      else rbind (map_res (\<lambda>p. evaluate_policy rd src p now) ps) (\<lambda>rss.
        let rs = concat rss in Inr (summary_of (summary_status rs (db_instances src)) ps rs (format_time rd now))))"

subsection \<open>What a verdict says\<close>

lemmas judged_defs = judged_status_def judged_compliant_def resolve_status_def Let_def

lemma passed_verdict:
  assumes "judged_status p m \<in> {PASSED, AT_RISK, BURNING}" "missing_data_policy p \<notin> {''good'', ''ignore''}"
  shows "\<not> m_no_data m \<and> \<not> is_stale p m \<and> minimum_sample_count p \<le> m_samples m \<and>
    (\<exists>a. m_actual m = Some a \<and> compare a (objective_value p) (comparison_operator p))"
proof -
  from assms(1) have fresh: "\<not> is_stale p m" "\<not> is_insufficient p m" by (auto simp: judged_status_def Let_def split: if_splits)
  with assms(1) have met: "judged_compliant p m = Some True" by (auto simp: judged_status_def resolve_status_def Let_def split: if_splits)
  with assms(2) have "\<not> m_no_data m" by (auto simp: judged_compliant_def split: if_splits)
  with met fresh show ?thesis by (auto simp: judged_compliant_def is_insufficient_def split: if_splits)
qed

lemma measure_rows_facts:
  assumes "measure_rows rd p rows e = Inr m"
  defines "measured \<equiv> measured_of (outside_maintenance p rows)"
  shows "m_no_data m = (measured = [])" "m_samples m = int (length measured)" "m_burn_alert m = []"
    "m_good m = int (length (filter (good_row p) (judged_rows p measured)))" "m_total m = int (length (judged_rows p measured))"
    "\<exists>v. aggregate_value rd p (judged_rows p measured) (m_good m) = Inr v \<and> m_actual m = model_value p (judged_rows p measured) v"
    "freshness_of rd e (outside_maintenance p rows) = Inr (m_freshness m)"
  using assms(1) by (auto simp: measure_rows_def measured_def Let_def rbind_eq_Inr)

lemma build_result_measures:
  assumes "build_result rd p target rows window = Inr r"
  obtains m where "measure_rows rd p rows (snd window) = Inr m" "r = judge_verdict p target window m"
  using assms by (auto simp: build_result_def rbind_eq_Inr)

text \<open>C16: A target passes, or is at risk, only on evidence: unless the policy counts missing data as good, at least the minimum of
  measurements was taken in the window outside maintenance, failures to measure not counted, the
  newest row is within the freshness threshold, and the measured value meets the objective.\<close>

theorem pass_rests_on_measurements:
  assumes "build_result rd p target rows window = Inr r" "r_status r \<in> {PASSED, AT_RISK}"
    and "missing_data_policy p \<in> {''unknown'', ''bad''}" "1 \<le> minimum_sample_count p"
  shows "\<exists>a fresh. measured_of (outside_maintenance p rows) \<noteq> [] \<and>
      minimum_sample_count p \<le> int (length (measured_of (outside_maintenance p rows))) \<and>
      freshness_of rd (snd window) (outside_maintenance p rows) = Inr (Some fresh) \<and>
      (\<forall>t. freshness_threshold p = Some t \<longrightarrow> \<not> fless (Num (of_int t)) fresh) \<and>
      r_actual_value r = Some a \<and> compare a (objective_value p) (comparison_operator p)"
proof -
  obtain m where m: "measure_rows rd p rows (snd window) = Inr m" and r: "r = judge_verdict p target window m"
    using build_result_measures [OF assms(1)] .
  note facts = measure_rows_facts [OF m]
  from assms(2,3) have "judged_status p m \<in> {PASSED, AT_RISK, BURNING}" "missing_data_policy p \<notin> {''good'', ''ignore''}"
    by (auto simp: r judge_verdict_def)
  note passed = passed_verdict [OF this]
  then obtain a where a: "m_actual m = Some a" "compare a (objective_value p) (comparison_operator p)" by blast
  have "outside_maintenance p rows \<noteq> []" using passed facts(1) by (auto simp: measured_of_def)
  then obtain fresh where fresh: "m_freshness m = Some fresh"
    using facts(7) by (cases "m_freshness m") (auto simp: freshness_of_def rbind_eq_Inr)
  with passed have "\<forall>t. freshness_threshold p = Some t \<longrightarrow> \<not> fless (Num (of_int t)) fresh" by (auto simp: is_stale_def)
  with passed a facts fresh show ?thesis by (auto simp: r judge_verdict_def)
qed

text \<open>C18: Full marks are full: a time objective of a hundred percent is met only by a window without a bad measurement. The
  share is a quotient and a product of floats, and neither rounds a missing sample away.\<close>

theorem full_marks_are_full:
  assumes "build_result rd p target rows window = Inr r" "r_status r \<in> {PASSED, AT_RISK}"
    and "missing_data_policy p \<in> {''unknown'', ''bad''}" "policy_model p = ''time_slo''" "aggregation p = ''success_ratio''"
    and "objective_value p = Num 100" "comparison_operator p = ''>=''"
    and small: "int (length (measured_of (outside_maintenance p rows))) \<le> 2 ^ 53"
  shows "list_all (good_row p) (measured_of (outside_maintenance p rows))"
proof -
  let ?measured = "measured_of (outside_maintenance p rows)"
  obtain m where m: "measure_rows rd p rows (snd window) = Inr m" and r: "r = judge_verdict p target window m"
    using build_result_measures [OF assms(1)] .
  note facts = measure_rows_facts [OF m]
  from assms(2,3) have "judged_status p m \<in> {PASSED, AT_RISK, BURNING}" "missing_data_policy p \<notin> {''good'', ''ignore''}"
    by (auto simp: r judge_verdict_def)
  note passed = passed_verdict [OF this]
  then obtain a where a: "m_actual m = Some a" "fle (Num 100) a" using assms(6,7) by (auto simp: compare_def)
  let ?g = "int (length (filter (good_row p) ?measured))" and ?t = "int (length ?measured)"
  have "a = fmult (to_flt (of_int ?g / of_int ?t)) (Num 100)"
    using facts a passed assms(4,5) by (auto simp: judged_rows_def aggregate_value_def model_value_def)
  have "?g = ?t"
  proof (rule ccontr)
    assume "?g \<noteq> ?t"
    then have less: "?g < ?t" using length_filter_le [of "good_row p" ?measured] by linarith
    have share: "nearest (nearest (of_int ?g / of_int ?t) * 100) < 100"
      using partial_share_below_hundred [OF _ less small] by simp
    have unit: "\<bar>(of_int ?g / of_int ?t :: rat)\<bar> \<le> of_int 1" using less by (simp add: divide_le_eq)
    have "\<bar>nearest (of_int ?g / of_int ?t) * 100\<bar> \<le> of_int 100" using nearest_abs_le [OF unit] by simp
    then have "fmult (to_flt (of_int ?g / of_int ?t)) (Num 100) = Num (nearest (nearest (of_int ?g / of_int ?t) * 100))"
      using to_flt_int_bound [OF unit] to_flt_int_bound [of "nearest (of_int ?g / of_int ?t) * 100" 100] by simp
    with \<open>a = _\<close> a(2) share show False by (simp add: fless_Num_iff)
  qed
  then show ?thesis by (simp add: list_all_iff) (metis filter_id_conv length_filter_less nat_int_comparison(1) nat_less_le)
qed

subsection \<open>Who is judged\<close>

lemma map_fst_add_to_group: "map_of gs k \<noteq> None \<Longrightarrow> map fst (add_to_group k x gs) = map fst gs"
  by (induction k x gs rule: add_to_group.induct) (auto split: if_splits)

lemma grouped_keys: "expected \<noteq> [] \<Longrightarrow> map fst (foldl (add_row expected) gs rows) = map fst gs"
  by (induction rows arbitrary: gs) (auto simp: add_row_def Let_def map_fst_add_to_group simp del: map_of_eq_None_iff)

lemma group_rows_keys:
  assumes "expected \<noteq> []" "sorted expected"
  shows "map fst (group_rows expected rows) = expected"
proof -
  let ?g = "foldl (add_row expected) (map (\<lambda>t. (t, [])) expected) rows"
  have keys: "map fst ?g = expected" using grouped_keys [OF assms(1)] by (simp add: comp_def)
  then have "sorted (map fst ?g)" using assms(2) by simp
  then have "sort_key fst ?g = ?g" by (rule sort_key_id_if_sorted)
  with keys show ?thesis by (simp add: group_rows_def)
qed

lemma map_res_targets:
  assumes "map_res f xs = Inr rs" "\<And>x r. f x = Inr r \<Longrightarrow> r_target r = g x"
  shows "map r_target rs = map g xs"
  using assms(1) unfolding map_res_Inr by (induction rule: list_all2_induct) (auto dest: assms(2))

text \<open>What \<open>per_target\<close> relies on of a builder is that a result names the target it was built for.\<close>

locale target_builder =
  fixes build :: "string \<Rightarrow> pydict list \<Rightarrow> sla_error + sla_result"
  assumes build_names_target: "build target rows = Inr r \<Longrightarrow> r_target r = target"
begin

lemma one_verdict_each:
  assumes "per_target p expected rows build = Inr rs" "\<not> aggregate p" "expected \<noteq> []" "sorted expected"
  shows "map r_target rs = expected"
proof -
  have keys: "map fst (group_rows expected rows) = expected" using group_rows_keys [OF assms(3,4)] .
  with assms(3) have "group_rows expected rows \<noteq> []" by auto
  with assms(1,2) have "map_res (\<lambda>(target, rs). build target rs) (group_rows expected rows) = Inr rs"
    by (simp add: per_target_def Let_def)
  from map_res_targets [OF this, of fst] build_names_target keys show ?thesis by auto
qed

end

interpretation rows_builder: target_builder "\<lambda>target rows. build_result rd p target rows window" for rd p window
  by unfold_locales (auto simp: build_result_def judge_verdict_def rbind_eq_Inr)

interpretation backup_builder: target_builder "build_backup_rpo_result rd src p now window" for rd src p now window
  by unfold_locales
    (auto simp: build_backup_rpo_result_def unmeasured_result_def backup_rpo_result_def counted_result_def Let_def split: if_splits sum.splits)

lemma expected_scope_sorted: "expected_scope p ts = Inr (expected, servers) \<Longrightarrow> sorted expected \<and> distinct expected"
  by (auto simp: expected_scope_def rbind_eq_Inr unique_sorted_def Let_def split: option.splits)


subsection \<open>The error budget\<close>

lemma clamped: "\<exists>q. fmin (Num 100) (fmax (Num 0) x) = Num q \<and> 0 \<le> q \<and> q \<le> 100"
  by (cases x) (auto simp: fmin_def fmax_def)

lemma clamped_round:
  assumes "0 \<le> q" "q \<le> 100"
  shows "\<exists>k. 0 \<le> k \<and> k \<le> 10000 \<and> fround 2 (Num q) = Num (decimal 2 k)"
proof (intro exI conjI)
  show "0 \<le> round_half_even (q * 10 ^ 2)"
    using round_half_even_mono [of 0 "q * 10 ^ 2"] round_half_even_of_int [of 0] assms(1) by simp
  show "round_half_even (q * 10 ^ 2) \<le> 10000"
    using round_half_even_mono [of "q * 10 ^ 2" 10000] round_half_even_of_int [of 10000] assms(2) by simp
qed simp

text \<open>C19: The error budget is an account: of a target that was measured, the consumed and the remaining budget are two-decimal
  percentages between 0 and 100 that add up to 100, whatever the objective and the measured value are,
  infinities and not-a-number included; of one that was not, both are 0.\<close>

theorem budget_adds_up:
  "if m_no_data m then r_consumed (judge_verdict p target window m) = Num 0 \<and> r_remaining (judge_verdict p target window m) = Num 0
   else \<exists>k. 0 \<le> k \<and> k \<le> 10000 \<and> r_consumed (judge_verdict p target window m) = Num (decimal 2 k) \<and>
     r_remaining (judge_verdict p target window m) = Num (decimal 2 (10000 - k))"
proof (cases "m_no_data m")
  case False
  obtain q where q: "fmin (Num 100) (fmax (Num 0) (raw_consumed p m)) = Num q" "0 \<le> q" "q \<le> 100" using clamped by blast
  then obtain k where k: "0 \<le> k" "k \<le> 10000" "budget_consumed p m = Num (decimal 2 k)"
    using clamped_round [of q] False by (auto simp: budget_consumed_def)
  with False complement_of_decimal [OF k(1,2)] show ?thesis by (auto simp: judge_verdict_def budget_remaining_def)
qed (simp add: judge_verdict_def budget_consumed_def budget_remaining_def)

subsection \<open>Failures to measure\<close>

lemma measured_of_measured [simp]: "measured_of (measured_of rows) = measured_of rows"
  by (simp add: measured_of_def)

lemma outside_maintenance_measured: "outside_maintenance p (measured_of rows) = measured_of (outside_maintenance p rows)"
  by (simp add: outside_maintenance_def measured_of_def conj_commute)

text \<open>C23: A failure to measure is not a failure of the service: without its rows a target has the same counts, the same value, the same
  current state and the same budget, and the same status unless its freshness changes.\<close>

theorem collection_failures_judge_nobody:
  assumes "build_result rd p target rows window = Inr r" "build_result rd p target (measured_of rows) window = Inr r'"
  shows "r_total r' = r_total r \<and> r_good r' = r_good r \<and> r_bad r' = r_bad r \<and> r_actual_value r' = r_actual_value r \<and>
    r_failures r' = r_failures r \<and> r_current r' = r_current r \<and> r_affected r' = r_affected r \<and>
    r_consumed r' = r_consumed r \<and> r_remaining r' = r_remaining r \<and>
    (r_freshness r' = r_freshness r \<longrightarrow> r_status r' = r_status r \<and> r_compliant r' = r_compliant r)"
proof -
  obtain m where m: "measure_rows rd p rows (snd window) = Inr m" and r: "r = judge_verdict p target window m"
    using build_result_measures [OF assms(1)] .
  obtain m' where m': "measure_rows rd p (measured_of rows) (snd window) = Inr m'" and r': "r' = judge_verdict p target window m'"
    using build_result_measures [OF assms(2)] .
  have same: "m_total m' = m_total m" "m_good m' = m_good m" "m_bad m' = m_bad m" "m_actual m' = m_actual m" "m_percent m' = m_percent m"
      "m_failures m' = m_failures m" "m_current m' = m_current m" "m_affected m' = m_affected m" "m_no_data m' = m_no_data m"
      "m_samples m' = m_samples m" "m_burn_alert m' = m_burn_alert m"
    using m m' by (auto simp: measure_rows_def Let_def rbind_eq_Inr outside_maintenance_measured)
  have budget: "bad_percent p m' = bad_percent p m" "budget_consumed p m' = budget_consumed p m" "budget_remaining p m' = budget_remaining p m"
    using same by (simp_all add: bad_percent_def budget_consumed_def budget_remaining_def raw_consumed_def)
  have "judged_status p m' = judged_status p m \<and> judged_compliant p m' = judged_compliant p m" if "m_freshness m' = m_freshness m"
  proof -
    from that same have "is_stale p m' = is_stale p m" "is_insufficient p m' = is_insufficient p m"
      by (simp_all add: is_stale_def is_insufficient_def)
    with same budget show ?thesis by (simp add: judged_status_def judged_compliant_def)
  qed
  with same budget show ?thesis by (simp add: r r' judge_verdict_def)
qed

subsection \<open>The run\<close>


subsection \<open>Burning\<close>

lemma map_of_map_key: "map_of (map (\<lambda>(k, v). (k, f k)) kvs) k = (if k \<in> fst ` set kvs then Some (f k) else None)"
  by (induction kvs) auto

lemma burning_alert:
  assumes "burn_alert_of p rates = ''page''"
  obtains a where "a \<in> set (burn_rate_alerts p)" "ba_severity a = ''page''" "fires rates a"
  using assms by (auto simp: burn_alert_of_def Let_def split: if_splits)

text \<open>A target burns only when a page pair of its policy fires: over both the long and the short window minutes were observed, and the
  share of bad ones is at least the factor times what the objective allows. And it would otherwise have
  met its objective: a burn never replaces a failure.\<close>

theorem burning_means_both_windows:
  assumes "measure_minutes rd p now counts detail = Inr m" "r_status (judge_verdict p target window m) = BURNING"
    and "missing_data_policy p \<in> {''unknown'', ''bad''}"
  shows "(\<exists>a \<in> set (burn_rate_alerts p). ba_severity a = ''page'' \<and>
      (\<forall>label \<in> {window_label (ba_long a), window_label (ba_short a)}.
        \<exists>obs good. map_of counts label = Some (obs, good) \<and> obs \<noteq> 0 \<and>
          fle (ba_factor a) (fround 4 (fdiv (to_flt (of_int (obs - good) / of_int obs)) (budget_fraction p))))) \<and>
    (\<exists>v. m_actual m = Some v \<and> compare v (objective_value p) (comparison_operator p))"
proof -
  let ?rates = "map (\<lambda>(label, _). (label, burn_rate_of p counts label)) (sort_key snd (burn_windows p))"
  from assms(1) have m: "m_burn_alert m = burn_alert_of p ?rates"
    by (auto simp: measure_minutes_def Let_def rbind_eq_Inr split: prod.splits)
  from assms(2) have status: "judged_status p m = BURNING" by (simp add: judge_verdict_def)
  then have "burn_alert_of p ?rates = ''page''" by (auto simp: judged_status_def resolve_status_def m Let_def split: if_splits)
  then obtain a where a: "a \<in> set (burn_rate_alerts p)" "ba_severity a = ''page''" "fires ?rates a" by (rule burning_alert)
  have rate: "\<exists>obs good. map_of counts label = Some (obs, good) \<and> obs \<noteq> 0 \<and>
      f = fround 4 (fdiv (to_flt (of_int (obs - good) / of_int obs)) (budget_fraction p))"
    if "map_of ?rates label = Some (Some f)" for label f
  proof -
    from that have "burn_rate_of p counts label = Some f" by (simp_all only: map_of_map_key split: if_splits) simp_all
    then show ?thesis by (auto simp: burn_rate_of_def split: if_splits option.splits prod.splits)
  qed
  from a(3) obtain l s where ls: "map_of ?rates (window_label (ba_long a)) = Some (Some l)" "map_of ?rates (window_label (ba_short a)) = Some (Some s)"
      "fle (ba_factor a) l" "fle (ba_factor a) s"
    by (auto simp: fires_def split: option.splits)
  from rate [OF ls(1)] rate [OF ls(2)] ls(3,4) a(1,2)
  have "\<exists>a \<in> set (burn_rate_alerts p). ba_severity a = ''page'' \<and>
      (\<forall>label \<in> {window_label (ba_long a), window_label (ba_short a)}.
        \<exists>obs good. map_of counts label = Some (obs, good) \<and> obs \<noteq> 0 \<and>
          fle (ba_factor a) (fround 4 (fdiv (to_flt (of_int (obs - good) / of_int obs)) (budget_fraction p))))"
    by (intro bexI [of _ a]) auto
  moreover have "\<exists>v. m_actual m = Some v \<and> compare v (objective_value p) (comparison_operator p)"
    using passed_verdict [of p m] status assms(3) by auto
  ultimately show ?thesis by blast
qed

subsection \<open>Backups\<close>

definition breaks :: "bstate \<Rightarrow> db_verdict \<Rightarrow> bool" where
  "breaks s d = (list_ex (\<lambda>tv. tv_required (snd tv) = Some True \<and> tv_state (snd tv) = s) (db_types d) \<or>
     (case db_data d of None \<Rightarrow> False | Some v \<Rightarrow> dv_required v \<and> dv_state v = s))"

lemma map_filter_empty_iff: "List.map_filter f xs = [] \<longleftrightarrow> (\<forall>x \<in> set xs. f x = None)"
  by (induction xs) (auto simp: List.map_filter_simps split: option.splits)

lemma breach_iff:
  "type_breach db tv = None \<longleftrightarrow> \<not> (tv_required (snd tv) = Some True \<and> tv_state (snd tv) = CRITICAL)"
  "type_warning db tv = None \<longleftrightarrow> \<not> (tv_required (snd tv) = Some True \<and> tv_state (snd tv) = WARNING)"
  "data_breach db dv = None \<longleftrightarrow> \<not> (case dv of None \<Rightarrow> False | Some v \<Rightarrow> dv_required v \<and> dv_state v = CRITICAL)"
  "data_warning db dv = None \<longleftrightarrow> \<not> (case dv of None \<Rightarrow> False | Some v \<Rightarrow> dv_required v \<and> dv_state v = WARNING)"
  by (auto simp: type_breach_def type_warning_def data_breach_def data_warning_def case_prod_beta split: option.splits if_splits)

lemma opt_list_empty: "(case x of None \<Rightarrow> [] | Some b \<Rightarrow> [b]) = [] \<longleftrightarrow> x = None"
  by (cases x) auto

lemma db_breaches_iff: "db_breaches d \<noteq> [] \<longleftrightarrow> breaks CRITICAL d"
  by (auto simp: db_breaches_def breaks_def map_filter_empty_iff opt_list_empty breach_iff list_ex_iff)

lemma db_warnings_iff: "db_warnings d \<noteq> [] \<longleftrightarrow> breaks WARNING d"
  by (auto simp: db_warnings_def breaks_def map_filter_empty_iff opt_list_empty breach_iff list_ex_iff)

lemma breaks_judged: "breaks s d \<Longrightarrow> db_judged d"
  by (auto simp: breaks_def db_judged_def list_ex_iff split: option.splits)

text \<open>The backup verdict counts databases: it fails exactly when a required type or the data backup of some database is past its
  critical limit, is at risk exactly when none is and some is past its warning limit, and the databases
  judged are the good ones and the broken ones.\<close>

theorem backup_verdict_counts_databases:
  "(r_status (backup_rpo_result p target window quality ds) =
      (if list_ex (breaks CRITICAL) ds then FAILED else if list_ex (breaks WARNING) ds then AT_RISK else PASSED)) \<and>
   r_bad (backup_rpo_result p target window quality ds) = int (card (dbname ` {d \<in> set ds. breaks CRITICAL d})) \<and>
   r_good (backup_rpo_result p target window quality ds) + r_bad (backup_rpo_result p target window quality ds) =
     r_total (backup_rpo_result p target window quality ds)"
proof -
  let ?judged = "names_of db_judged ds" and ?broken = "names_of (\<lambda>d. db_breaches d \<noteq> []) ds"
  have sub: "?broken \<subseteq> ?judged" by (auto simp: names_of_def db_breaches_iff dest: breaks_judged)
  have "finite ?judged" by (simp add: names_of_def)
  with sub have "card (?judged - ?broken) + card ?broken = card ?judged"
    by (metis card_Diff_subset card_mono finite_subset le_add_diff_inverse2)
  then have sum: "int (card (?judged - ?broken)) + int (card ?broken) = int (card ?judged)" by linarith
  have "concat (map db_breaches ds) \<noteq> [] \<longleftrightarrow> list_ex (breaks CRITICAL) ds" "concat (map db_warnings ds) \<noteq> [] \<longleftrightarrow> list_ex (breaks WARNING) ds"
    by (auto simp: list_ex_iff simp flip: db_breaches_iff db_warnings_iff)
  then show ?thesis
    using sum by (auto simp: backup_rpo_result_def counted_result_def Let_def names_of_def db_breaches_iff)
qed

subsection \<open>An estate of one database\<close>

definition moment :: instant where
  "moment = sec 100010"

definition plain_readers :: readers where
  "plain_readers = \<lparr>read_decimal = (\<lambda>_. None), read_iso = (\<lambda>s. map_option (\<lambda>i. (sec i, Some 0)) (parse_int s)),
     host_offset = (\<lambda>_. 0), format_time = (\<lambda>t. if t = moment then ''100010'' else ''013610''),
     format_display = (\<lambda>_. []), show_float = (\<lambda>_. []), show_whole = (\<lambda>_. [])\<rparr>"

definition uptime :: sla_policy where
  "uptime = \<lparr>policy_id = ''uptime'', display_name = ''uptime'', metric_codes = [''PING''], objective_percent = Num 100,
     target_ids = [''erp''], db_types_of = [], window_hours = 24, good_statuses = [''OK'', ''LOGGING''],
     at_risk_budget_percent = Num 25, aggregate = False, category = [], description = [], sli_code = ''uptime'',
     aggregation = ''success_ratio'', policy_model = ''time_slo'', comparison_operator = ''>='', target_value = None,
     unit_name = ''percentage'', minimum_sample_count = 1, expected_interval = None, freshness_threshold = Some 60,
     missing_data_policy = ''unknown'', required = True, maintenance_windows = [], percentile = Num 95,
     rto_target_seconds = None, burn_rate_alerts = [], calendar_month_report = False\<rparr>"

definition ping :: "string \<Rightarrow> string \<Rightarrow> string \<Rightarrow> pydict" where
  "ping when status err = [(''target_id'', PStr ''erp''), (''metric_code'', PStr ''PING''), (''status'', PStr status),
     (''error_type'', PStr err), (''collected_at'', PStr when)]"

text \<open>One good measurement ten seconds before the end of the window.\<close>

definition one_good :: measures where
  "one_good = \<lparr>m_total = 1, m_good = 1, m_bad = 0, m_actual = Some (Num 100), m_percent = Num 100, m_expected = 0,
     m_coverage = Num 100, m_no_data = False, m_collection = 0, m_failures = [], m_affected = 0, m_current = ''OK'',
     m_freshness = Some (Num 10), m_samples = 1, m_burn_rates = [], m_burn_alert = []\<rparr>"

lemma uptime_measured: "measure_rows plain_readers uptime [ping ''100000'' ''OK'' []] ''100010'' = Inr one_good"
proof -
  let ?row = "ping ''100000'' ''OK'' []"
  have rows: "outside_maintenance uptime [?row] = [?row]" "measured_of [?row] = [?row]" "is_collection_failure ?row = False"
      "judged_rows uptime [?row] = [?row]" "latest_cycle [?row] = [?row]" "good_row uptime ?row" "count_by_status [] = []"
      "parse_time plain_readers ''100010'' = Inr (sec 100010)"
      "parse_time plain_readers (py_str (get ?row ''collected_at'')) = Inr (sec 100000)"
    by code_simp+
  have "freshness_of plain_readers ''100010'' [?row] = Inr (Some (Num 10))"
    by (simp add: freshness_of_def rows age_seconds_def fmax_def)
  then show ?thesis
    by (simp add: measure_rows_def rows aggregate_value_def coverage_of_def expected_cycles_def model_value_def affected_items_def
        one_good_def uptime_def [THEN arg_cong, of aggregation] uptime_def [THEN arg_cong, of policy_model]
        uptime_def [THEN arg_cong, of expected_interval] decimal_def)
qed

lemma uptime_passes: "judged_status uptime one_good = PASSED"
proof -
  have b: "budgeted uptime" by code_simp
  show ?thesis
    by (simp add: judged_status_def judged_compliant_def resolve_status_def is_stale_def is_insufficient_def budget_remaining_def
        budget_consumed_def raw_consumed_def error_budget_def bad_percent_def b uptime_def [THEN arg_cong, of objective_percent]
        one_good_def fsub_def fmin_def fmax_def fle_def feq_def compare_def objective_value_def decimal_def uptime_def)
qed

lemma uptime_built:
  "build_result plain_readers uptime ''erp'' [ping ''100000'' ''OK'' []] (w, ''100010'') = Inr (judge_verdict uptime ''erp'' (w, ''100010'') one_good)"
  by (simp add: build_result_def uptime_measured)

lemma uptime_verdict: "r_status (judge_verdict uptime ''erp'' window one_good) = PASSED"
  by (simp add: judge_verdict_def uptime_passes)

theorem pass_rests_on_measurements_witness:
  "measured_of (outside_maintenance uptime [ping ''100000'' ''OK'' []]) \<noteq> []"
  using pass_rests_on_measurements [OF uptime_built [of "''013610''"]] by (simp add: uptime_verdict) (simp add: uptime_def)

theorem full_marks_are_full_witness:
  "list_all (good_row uptime) (measured_of (outside_maintenance uptime [ping ''100000'' ''OK'' []]))"
proof (rule full_marks_are_full [OF uptime_built [of "''013610''"]])
  have "measured_of (outside_maintenance uptime [ping ''100000'' ''OK'' []]) = [ping ''100000'' ''OK'' []]" by code_simp
  then show "int (length (measured_of (outside_maintenance uptime [ping ''100000'' ''OK'' []]))) \<le> 2 ^ 53" by simp
qed (simp_all add: uptime_verdict, simp_all add: uptime_def objective_value_def)

definition erp_target :: metric_target where
  "erp_target = \<lparr>mt_id = ''erp'', mt_db_type = ''postgresql'', mt_server = ''s1'', mt_config = PDict []\<rparr>"

definition lone_estate :: sources where
  "lone_estate = \<lparr>metric_targets = Some [erp_target, erp_target\<lparr>mt_id := ''hr''\<rparr>],
     metric_samples = (\<lambda>_ _ _ _. [ping ''100000'' ''OK'' []]), minute_counts = (\<lambda>_ _ _ _. []), minute_details = (\<lambda>_ _ _ _. []),
     backup_policy_doc = [], drill_policy_doc = [], drill_history_rows = Drill_rows [], db_instances = Some [PDict []]\<rparr>"

lemma lone_estate_scope: "expected_scope uptime (metric_targets lone_estate) = Inr ([''erp''], [''s1''])"
  by code_simp

lemma lone_estate_evaluated:
  "evaluate_policy plain_readers lone_estate uptime moment = Inr [judge_verdict uptime ''erp'' (''013610'', ''100010'') one_good]"
proof -
  have facts: "group_rows [''erp''] [ping ''100000'' ''OK'' []] = [(''erp'', [ping ''100000'' ''OK'' []])]"
      "format_time plain_readers (moment - sec (window_hours uptime * 3600)) = ''013610''"
      "format_time plain_readers moment = ''100010''" "policy_model uptime = ''time_slo''" "aggregation uptime = ''success_ratio''" "\<not> aggregate uptime"
    by code_simp+
  have samples: "metric_samples lone_estate p servers a b = [ping ''100000'' ''OK'' []]" for p servers a b by (simp add: lone_estate_def)
  show ?thesis unfolding evaluate_policy_def Let_def facts lone_estate_scope
    by (simp add: per_target_def facts samples uptime_built)
qed


lemma lone_estate_run:
  "validate_sla_policies plain_readers lone_estate [uptime] moment =
     Inr (summary_of PASSED [uptime] [judge_verdict uptime ''erp'' (''013610'', ''100010'') one_good] (format_time plain_readers moment))"
proof -
  have "no_targets_configured (db_instances lone_estate) = False" by code_simp
  then show ?thesis
    by (simp add: validate_sla_policies_def lone_estate_evaluated summary_status_def required_failure_def uptime_verdict)
qed


subsection \<open>A measurement that stopped\<close>

text \<open>The last measurement is 110 seconds old; ten seconds before the end the collector could not log in.\<close>

definition stopped :: "pydict list" where
  "stopped = [ping ''100000'' ''OK'' [], ping ''100100'' [] ''AUTH_FAILED'']"

lemma nearest_half [simp]: "nearest (1 / 2) = 1 / 2" "to_flt (1 / 2) = Num (1 / 2)"
proof -
  have "nearest (1 / 2) = 1 / 2" using nearest_exact [of 1 "- 1"] by (simp add: pow2_def)
  then show "nearest (1 / 2) = 1 / 2" "to_flt (1 / 2) = Num (1 / 2)" using to_flt_int_bound [of "1 / 2" 1] by simp_all
qed

lemma stopped_measured:
  "measure_rows plain_readers uptime stopped ''100110'' = Inr (one_good\<lparr>m_coverage := Num 50, m_collection := 1\<rparr>)"
  "measure_rows plain_readers uptime (measured_of stopped) ''100110'' = Inr (one_good\<lparr>m_freshness := Some (Num 110)\<rparr>)"
proof -
  let ?row = "ping ''100000'' ''OK'' []" and ?fail = "ping ''100100'' [] ''AUTH_FAILED''"
  have rows: "outside_maintenance uptime stopped = [?row, ?fail]" "measured_of [?row, ?fail] = [?row]" "measured_of stopped = [?row]"
      "outside_maintenance uptime [?row] = [?row]" "measured_of [?row] = [?row]"
      "is_collection_failure ?row = False" "is_collection_failure ?fail = True" "judged_rows uptime [?row] = [?row]"
      "latest_cycle [?row] = [?row]" "good_row uptime ?row" "count_by_status [] = []" "parse_time plain_readers ''100110'' = Inr (sec 100110)"
      "parse_time plain_readers (py_str (get ?row ''collected_at'')) = Inr (sec 100000)"
      "parse_time plain_readers (py_str (get ?fail ''collected_at'')) = Inr (sec 100100)"
    by code_simp+
  have policy: "aggregation uptime = ''success_ratio''" "policy_model uptime = ''time_slo''" "expected_interval uptime = None"
    by (simp_all add: uptime_def)
  have "freshness_of plain_readers ''100110'' [?row, ?fail] = Inr (Some (Num 10))"
      "freshness_of plain_readers ''100110'' [?row] = Inr (Some (Num 110))"
    by (simp_all add: freshness_of_def rows age_seconds_def fmax_def)
  then show "measure_rows plain_readers uptime stopped ''100110'' = Inr (one_good\<lparr>m_coverage := Num 50, m_collection := 1\<rparr>)"
      "measure_rows plain_readers uptime (measured_of stopped) ''100110'' = Inr (one_good\<lparr>m_freshness := Some (Num 110)\<rparr>)"
    by (simp_all add: measure_rows_def rows aggregate_value_def coverage_of_def expected_cycles_def model_value_def affected_items_def
        one_good_def policy decimal_def ratio_percent_def)
qed

theorem collection_failures_judge_nobody_witness:
  "\<exists>r r'. build_result plain_readers uptime ''erp'' stopped (''013710'', ''100110'') = Inr r \<and>
     build_result plain_readers uptime ''erp'' (measured_of stopped) (''013710'', ''100110'') = Inr r' \<and> r_good r' = r_good r \<and> r_bad r' = r_bad r"
proof -
  let ?r = "judge_verdict uptime ''erp'' (''013710'', ''100110'') (one_good\<lparr>m_coverage := Num 50, m_collection := 1\<rparr>)"
  let ?r' = "judge_verdict uptime ''erp'' (''013710'', ''100110'') (one_good\<lparr>m_freshness := Some (Num 110)\<rparr>)"
  have "build_result plain_readers uptime ''erp'' stopped (''013710'', ''100110'') = Inr ?r"
    "build_result plain_readers uptime ''erp'' (measured_of stopped) (''013710'', ''100110'') = Inr ?r'"
    by (simp_all add: build_result_def stopped_measured)
  with collection_failures_judge_nobody [OF this] show ?thesis by blast
qed

text \<open>
  Freshness is a question about the newest row of any kind, and a failed login is a row: while the
  collector keeps failing, a policy whose last measurement is past its threshold still passes; with the
  failures left out it is stale.
\<close>

theorem failures_hide_a_stale_measurement:
  "judged_status uptime (one_good\<lparr>m_coverage := Num 50, m_collection := 1\<rparr>) = PASSED \<and>
   judged_status uptime (one_good\<lparr>m_freshness := Some (Num 110)\<rparr>) = STALE"
proof
  have b: "budgeted uptime" by code_simp
  show "judged_status uptime (one_good\<lparr>m_coverage := Num 50, m_collection := 1\<rparr>) = PASSED"
    by (simp add: judged_status_def judged_compliant_def resolve_status_def is_stale_def is_insufficient_def budget_remaining_def
        budget_consumed_def raw_consumed_def error_budget_def bad_percent_def b
        one_good_def fsub_def fmin_def fmax_def fle_def feq_def compare_def objective_value_def decimal_def uptime_def)
  show "judged_status uptime (one_good\<lparr>m_freshness := Some (Num 110)\<rparr>) = STALE"
    by (simp add: judged_status_def is_stale_def one_good_def uptime_def)
qed

subsection \<open>A target that is switched off\<close>

definition muted_estate :: sources where
  "muted_estate = lone_estate\<lparr>metric_targets := Some [erp_target\<lparr>mt_config :=
     PDict [(''report_policy'', PDict [(''disabled_metric_codes'', PList [PStr ''ping''])])]\<rparr>]\<rparr>"

text \<open>
  A target that is switched off is to stop producing a verdict at that moment. When it was the only
  target of its policy, the expected population is empty - and an empty population is read as one that
  could not be determined, so the rows in the store are judged as before.
\<close>

theorem switched_off_target_is_still_judged:
  "in_scope uptime (hd (the (metric_targets muted_estate))) = Inr False \<and>
   expected_scope uptime (metric_targets muted_estate) = Inr ([], []) \<and>
   evaluate_policy plain_readers muted_estate uptime moment = Inr [judge_verdict uptime ''erp'' (''013610'', ''100010'') one_good]"
proof -
  have scope: "in_scope uptime (hd (the (metric_targets muted_estate))) = Inr False"
      "expected_scope uptime (metric_targets muted_estate) = Inr ([], [])"
    by code_simp+
  have facts: "group_rows [] [ping ''100000'' ''OK'' []] = [(''erp'', [ping ''100000'' ''OK'' []])]"
      "format_time plain_readers (moment - sec (window_hours uptime * 3600)) = ''013610''"
      "format_time plain_readers moment = ''100010''" "policy_model uptime = ''time_slo''" "aggregation uptime = ''success_ratio''" "\<not> aggregate uptime"
    by code_simp+
  have samples: "metric_samples muted_estate p servers a b = [ping ''100000'' ''OK'' []]" for p servers a b
    by (simp add: muted_estate_def lone_estate_def)
  have "evaluate_policy plain_readers muted_estate uptime moment = Inr [judge_verdict uptime ''erp'' (''013610'', ''100010'') one_good]"
    unfolding evaluate_policy_def Let_def facts scope by (simp add: per_target_def facts samples uptime_built)
  with scope show ?thesis by blast
qed

subsection \<open>Data that is missing on purpose\<close>

text \<open>
  A policy may count missing data as good. The verdict of a target without data is then compliant, but
  its budget is 0, which is within the risk limit: it is at risk, where the backup policy answers
  that it passed.
\<close>

theorem missing_data_counted_good_is_at_risk:
  assumes "m_no_data m" "missing_data_policy p \<in> {''good'', ''ignore''}" "\<not> is_stale p m" "fle (Num 0) (at_risk_budget_percent p)"
    and "m_burn_alert m \<noteq> ''page''"
  shows "judged_status p m = AT_RISK \<and> judged_compliant p m = Some True \<and> missing_compliant p = Some True"
  using assms
  by (auto simp: judged_status_def judged_compliant_def resolve_status_def is_insufficient_def budget_remaining_def missing_compliant_def)

subsection \<open>Breaches that are tolerated\<close>

text \<open>
  The target value of a counting policy is the number it tolerates. A policy within that number is
  compliant, and its status is a failure all the same.
\<close>

theorem tolerated_breaches_fail:
  assumes "breaches = concat (map db_breaches ds)" "breaches \<noteq> []" "target_value p = Some (Num (of_int (int (length breaches))))"
    and "comparison_operator p = ''<=''"
  shows "r_compliant (backup_rpo_result p target window quality ds) = Some True \<and> r_status (backup_rpo_result p target window quality ds) = FAILED"
  using assms by (simp add: backup_rpo_result_def counted_result_def Let_def count_target_def compare_def fle_def feq_def)

subsection \<open>Drills of retired databases\<close>

text \<open>
  A history that holds only databases the policy has retired judges nothing, and passes with the
  sentence that every database has a proven restore.
\<close>

definition retired_estate :: sources where
  "retired_estate = lone_estate\<lparr>drill_policy_doc := drill_rules,
     drill_history_rows := Drill_rows [[(''database_name'', PStr ''old''), (''status'', PStr ''FAILED''), (''restore_start'', PStr ''1'')]]\<rparr>"

theorem retired_drills_pass:
  "\<exists>r. evaluate_restore_drill_policy plain_readers retired_estate (uptime\<lparr>policy_model := ''restore_drill'', rto_target_seconds := Some 60\<rparr>)
      moment window = Inr [r] \<and> r_status r = PASSED \<and> r_total r = 0 \<and> \<not> r_no_data r"
proof -
  let ?rows = "[[(''database_name'', PStr ''old''), (''status'', PStr ''FAILED''), (''restore_start'', PStr ''1'')]]"
  have "drill_latest (read_iso plain_readers) drill_rules ?rows = []" by code_simp
  then show ?thesis
    by (simp add: evaluate_restore_drill_policy_def retired_estate_def evaluate_drills_def drill_breaches_def counted_result_def)
qed

subsection \<open>A budget that burns\<close>

definition burning_uptime :: sla_policy where
  "burning_uptime = uptime\<lparr>aggregation := ''minutes'', objective_percent := Num 50,
     burn_rate_alerts := [\<lparr>ba_severity = ''page'', ba_factor = Num 1, ba_long = 60, ba_short = 5\<rparr>]\<rparr>"

definition burning_counts :: "(string \<times> int \<times> int) list" where
  "burning_counts = [(''policy'', 4, 4), (''1h'', 2, 1), (''5m'', 2, 1)]"

lemma burning_labels: "window_label 60 = ''1h''" "window_label 5 = ''5m''"
  by code_simp+

lemma burning_measured:
  "\<exists>m. measure_minutes plain_readers burning_uptime moment burning_counts no_detail = Inr m \<and> judged_status burning_uptime m = BURNING"
proof -
  have windows: "sort_key snd (burn_windows burning_uptime) = [(''5m'', 5), (''1h'', 60)]" by code_simp
  have fraction: "budget_fraction burning_uptime = Num (1 / 2)"
    by (simp add: budget_fraction_def burning_uptime_def fsub_def)
  have rates: "burn_rate_of burning_uptime burning_counts ''1h'' = Some (Num 1)" "burn_rate_of burning_uptime burning_counts ''5m'' = Some (Num 1)"
    by (simp_all add: burn_rate_of_def fraction burning_counts_def fle_def feq_def decimal_def)
  have alert: "burn_alert_of burning_uptime [(''5m'', Some (Num 1)), (''1h'', Some (Num 1))] = ''page''"
    by (simp add: burn_alert_of_def burning_uptime_def fires_def burning_labels fle_def feq_def)
  have b: "budgeted burning_uptime" and all_up: "map_of burning_counts ''policy'' = Some (4, 4)" by code_simp+
  obtain m where m: "measure_minutes plain_readers burning_uptime moment burning_counts no_detail = Inr m"
      "\<not> m_no_data m" "m_actual m = Some (Num 100)" "m_percent m = Num 100" "m_freshness m = None" "m_samples m = 4" "m_burn_alert m = ''page''"
    by (simp add: measure_minutes_def windows rates alert all_up no_detail_def decimal_def ratio_percent_def [of 4 4] Let_def)
  have policy: "objective_percent burning_uptime = Num 50" "target_value burning_uptime = None" "comparison_operator burning_uptime = ''>=''"
      "freshness_threshold burning_uptime = Some 60" "minimum_sample_count burning_uptime = 1" "missing_data_policy burning_uptime = ''unknown''"
      "at_risk_budget_percent burning_uptime = Num 25"
    by (simp_all add: burning_uptime_def uptime_def)
  have "judged_status burning_uptime m = BURNING"
    by (simp add: judged_status_def judged_compliant_def resolve_status_def is_stale_def is_insufficient_def budget_remaining_def
        budget_consumed_def raw_consumed_def error_budget_def bad_percent_def b m
        fsub_def fmin_def fmax_def fle_def feq_def compare_def objective_value_def decimal_def policy)
  with m(1) show ?thesis by blast
qed

theorem burning_means_both_windows_witness:
  "\<exists>obs good. map_of burning_counts (window_label 60) = Some (obs, good) \<and> obs \<noteq> 0"
proof -
  obtain m where m: "measure_minutes plain_readers burning_uptime moment burning_counts no_detail = Inr m" "judged_status burning_uptime m = BURNING"
    using burning_measured by blast
  then have status: "r_status (judge_verdict burning_uptime ''erp'' ([], []) m) = BURNING" by (simp add: judge_verdict_def)
  have missing: "missing_data_policy burning_uptime \<in> {''unknown'', ''bad''}" by (simp add: burning_uptime_def uptime_def)
  have "burn_rate_alerts burning_uptime = [\<lparr>ba_severity = ''page'', ba_factor = Num 1, ba_long = 60, ba_short = 5\<rparr>]"
    by (simp add: burning_uptime_def)
  with burning_means_both_windows [OF m(1) status missing] show ?thesis by auto
qed

end
