(* ===== verification/IntervalRates.thy ===== *)
theory IntervalRates
  imports SqlLex PyFloat
begin

section \<open>Rates from counters\<close>

text \<open>
  Models \<^verbatim>\<open>dbabrain/lib/interval_rates.py\<close>: the fields of a collector's message, the difference of two
  samples of a counter, and the range of a gauge over a window.

  A time is the float \<^verbatim>\<open>timestamp()\<close> gives, which is always finite and so a rational here; a counter is
  any float. \<^verbatim>\<open>as_float\<close> lets the overflow of a huge integer through, so reading samples can fail.
\<close>

subsection \<open>Reading a message\<close>

definition name_value :: "string \<Rightarrow> (string \<times> string \<times> string) option" where
  "name_value s =
     (let name = takeWhile is_ident s in
      case (s, dropWhile is_ident s) of
        (c # _, d # rest) \<Rightarrow>
          if (is_alpha c \<or> c = CHR ''_'') \<and> d = CHR ''=''
          then Some (name, takeWhile (\<lambda>x. x \<noteq> CHR '','') rest, dropWhile (\<lambda>x. x \<noteq> CHR '','') rest) else None
      | _ \<Rightarrow> None)"

lemma name_value_shorter: "name_value s = Some (n, v, r) \<Longrightarrow> length r < length s"
proof -
  assume "name_value s = Some (n, v, r)"
  then obtain d rest where "dropWhile is_ident s = d # rest" "r = dropWhile (\<lambda>x. x \<noteq> CHR '','') rest"
    by (auto simp: name_value_def Let_def split: list.splits if_splits)
  then show ?thesis
    using length_dropWhile_le [of is_ident s] length_dropWhile_le [of "\<lambda>x. x \<noteq> CHR '','' " rest] by simp
qed

text \<open>The matches of \<open>_FIELD_RE\<close>: a name at the start of the text, or behind a comma or a blank.\<close>

function message_pairs :: "bool \<Rightarrow> string \<Rightarrow> (string \<times> string) list" where
  "message_pairs start s =
     (case if start then name_value s else None of
        Some (n, v, r) \<Rightarrow> (n, v) # message_pairs False r
      | None \<Rightarrow>
          (case s of
             [] \<Rightarrow> []
           | c # cs \<Rightarrow>
               (case if c = CHR '','' \<or> is_ws c then name_value cs else None of
                  Some (n, v, r) \<Rightarrow> (n, v) # message_pairs False r
                | None \<Rightarrow> message_pairs False cs)))"
  by pat_completeness auto

termination
  by (relation "measure (\<lambda>(_, s). length s)") (auto dest: name_value_shorter split: if_splits)

declare message_pairs.simps [simp del]

definition message_fields :: "pyval \<Rightarrow> (string \<times> string) list" where
  "message_fields message = dict_of (map (\<lambda>(n, v). (lower n, strip v)) (message_pairs True (str_or message)))"

subsection \<open>Samples\<close>

record sample =
  sp_stamp :: rat
  sp_since :: string
  sp_values :: "(string \<times> flt) list"

definition MAX_PAIR_HOURS :: flt where
  "MAX_PAIR_HOURS = Num 3"

definition as_epoch :: "iso_parser \<Rightarrow> pyval \<Rightarrow> rat option" where
  "as_epoch fromiso v = map_option (\<lambda>t. nearest (of_int t / 1000000)) (as_utc_datetime fromiso v)"

definition counter :: "(string \<Rightarrow> flt option) \<Rightarrow> pyval \<Rightarrow> float_error + flt option" where
  "counter fl v =
     (case float_of fl v of Inl Overflow_error \<Rightarrow> Inl Overflow_error | Inl _ \<Rightarrow> Inr None | Inr x \<Rightarrow> Inr (Some x))"

definition read_sample :: "iso_parser \<Rightarrow> (string \<Rightarrow> flt option) \<Rightarrow> string list \<Rightarrow> pydict \<Rightarrow> float_error + sample option" where
  "read_sample fromiso fl names d =
     (case as_epoch fromiso (get d ''collected_at'') of
        None \<Rightarrow> Inr None
      | Some stamp \<Rightarrow>
          rbind (map_res (\<lambda>name. counter fl (get d name)) names) (\<lambda>values.
            Inr (if None \<in> set values then None
                 else Some \<lparr>sp_stamp = stamp, sp_since = str_or (get d ''counters_since''),
                        sp_values = dict_of (zip names (map the values))\<rparr>)))"

definition usable :: "iso_parser \<Rightarrow> (string \<Rightarrow> flt option) \<Rightarrow> pydict list \<Rightarrow> string list \<Rightarrow> float_error + sample list" where
  "usable fromiso fl samples names =
     rbind (map_res (read_sample fromiso fl names) samples) (\<lambda>read. Inr (sort_key sp_stamp (List.map_filter id read)))"

subsection \<open>The difference of two samples\<close>

record delta =
  d_seconds :: flt
  d_from :: rat
  d_to :: rat
  d_deltas :: "(string \<times> flt) list"
  d_dropped :: "string list"
  d_since :: string

text \<open>\<^verbatim>\<open>values[name]\<close>: both samples hold every field.\<close>

definition value_at :: "sample \<Rightarrow> string \<Rightarrow> flt" where
  "value_at s name = (case map_of (sp_values s) name of Some x \<Rightarrow> x | None \<Rightarrow> NaN)"

definition elapsed :: "sample \<Rightarrow> sample \<Rightarrow> rat" where
  "elapsed newest older = nearest (sp_stamp newest - sp_stamp older)"

definition restarted_between :: "sample \<Rightarrow> sample \<Rightarrow> bool" where
  "restarted_between newest older = (sp_since newest \<noteq> [] \<and> sp_since older \<noteq> [] \<and> sp_since newest \<noteq> sp_since older)"

definition pair_delta :: "sample \<Rightarrow> sample \<Rightarrow> string list \<Rightarrow> flt \<Rightarrow> bool \<Rightarrow> delta option" where
  "pair_delta newest older names max_seconds allow_partial =
     (let seconds = elapsed newest older;
          deltas = dict_of (map (\<lambda>name. (name, fsub (value_at newest name) (value_at older name))) names);
          dropped = sort (map fst (filter (\<lambda>(_, v). fless v (Num 0)) deltas));
          kept = (if dropped = [] then deltas else filter (\<lambda>(_, v). fle (Num 0) v) deltas) in
      if seconds \<le> 0 \<or> fless max_seconds (Num seconds) then None
      else if restarted_between newest older then None
      else if dropped \<noteq> [] \<and> (\<not> allow_partial \<or> kept = []) then None
      else Some \<lparr>d_seconds = fround 1 (Num seconds), d_from = sp_stamp older, d_to = sp_stamp newest, d_deltas = kept,
             d_dropped = dropped, d_since = sp_since newest\<rparr>)"

fun nearest_pair :: "sample \<Rightarrow> string list \<Rightarrow> flt \<Rightarrow> bool \<Rightarrow> sample list \<Rightarrow> delta option" where
  "nearest_pair newest names max_seconds allow_partial [] = None"
| "nearest_pair newest names max_seconds allow_partial (older # rest) =
     (if fless max_seconds (Num (elapsed newest older)) then None
      else case pair_delta newest older names max_seconds allow_partial of
             Some found \<Rightarrow> Some found
           | None \<Rightarrow> nearest_pair newest names max_seconds allow_partial rest)"

definition interval_delta ::
  "iso_parser \<Rightarrow> (string \<Rightarrow> flt option) \<Rightarrow> pydict list \<Rightarrow> string list \<Rightarrow> flt \<Rightarrow> bool \<Rightarrow> float_error + delta option" where
  "interval_delta fromiso fl samples names max_pair_hours allow_partial =
     rbind (usable fromiso fl samples names) (\<lambda>us.
       Inr (if length us < 2 then None
            else nearest_pair (last us) names (fmult max_pair_hours (Num 3600)) allow_partial (rev (butlast us))))"

fun widest_pair :: "sample \<Rightarrow> string list \<Rightarrow> flt \<Rightarrow> flt \<Rightarrow> bool \<Rightarrow> sample list \<Rightarrow> delta option" where
  "widest_pair newest names max_seconds floor_seconds allow_partial [] = None"
| "widest_pair newest names max_seconds floor_seconds allow_partial (older # rest) =
     (case pair_delta newest older names max_seconds allow_partial of
        Some found \<Rightarrow>
          if fle floor_seconds (d_seconds found) then Some found
          else widest_pair newest names max_seconds floor_seconds allow_partial rest
      | None \<Rightarrow> widest_pair newest names max_seconds floor_seconds allow_partial rest)"

definition window_delta ::
  "iso_parser \<Rightarrow> (string \<Rightarrow> flt option) \<Rightarrow> pydict list \<Rightarrow> string list \<Rightarrow> flt \<Rightarrow> flt \<Rightarrow> bool \<Rightarrow> float_error + delta option" where
  "window_delta fromiso fl samples names window_hours min_fraction allow_partial =
     rbind (usable fromiso fl samples names) (\<lambda>us.
       let max_seconds = fmult window_hours (Num 3600) in
       Inr (if length us < 2 then None
            else widest_pair (last us) names max_seconds (fmult max_seconds min_fraction) allow_partial (butlast us)))"

definition consecutive_deltas ::
  "iso_parser \<Rightarrow> (string \<Rightarrow> flt option) \<Rightarrow> pydict list \<Rightarrow> string list \<Rightarrow> flt \<Rightarrow> float_error + delta list" where
  "consecutive_deltas fromiso fl samples names max_pair_hours =
     rbind (usable fromiso fl samples names) (\<lambda>us.
       Inr (List.map_filter (\<lambda>(older, newest). pair_delta newest older names (fmult max_pair_hours (Num 3600)) False)
              (zip us (tl us))))"

definition per_second :: "delta option \<Rightarrow> (string \<times> flt) list" where
  "per_second d =
     (case d of
        None \<Rightarrow> []
      | Some d \<Rightarrow> if feq (d_seconds d) (Num 0) then [] else map (\<lambda>(name, v). (name, fdiv v (d_seconds d))) (d_deltas d))"

subsection \<open>Latency, and gauges\<close>

record io_latency =
  io_seconds :: flt
  io_reads :: int
  io_writes :: int
  read_latency_ms :: "flt option"
  write_latency_ms :: "flt option"
  read_iops :: "flt option"
  write_iops :: "flt option"
  io_since :: string

definition IO_LATENCY_FIELDS :: "string list" where
  "IO_LATENCY_FIELDS = [''reads'', ''writes'', ''io_stall_read_ms'', ''io_stall_write_ms'']"

definition delta_at :: "delta \<Rightarrow> string \<Rightarrow> flt" where
  "delta_at d name = (case map_of (d_deltas d) name of Some x \<Rightarrow> x | None \<Rightarrow> NaN)"

definition latency_ms :: "flt \<Rightarrow> flt \<Rightarrow> flt option" where
  "latency_ms stall number = (if fless (Num 0) number then Some (fround 2 (fdiv stall number)) else None)"

definition iops :: "flt \<Rightarrow> flt \<Rightarrow> flt option" where
  "iops number seconds = (if feq seconds (Num 0) then None else Some (fround 1 (fdiv number seconds)))"

definition io_latency_interval :: "iso_parser \<Rightarrow> (string \<Rightarrow> flt option) \<Rightarrow> pydict list \<Rightarrow> float_error + io_latency option" where
  "io_latency_interval fromiso fl samples =
     rbind (interval_delta fromiso fl samples IO_LATENCY_FIELDS MAX_PAIR_HOURS False) (\<lambda>result.
       case result of
         None \<Rightarrow> Inr None
       | Some d \<Rightarrow>
           let reads = delta_at d ''reads''; writes = delta_at d ''writes'' in
           rbind (int_of_flt reads) (\<lambda>r. rbind (int_of_flt writes) (\<lambda>w.
             Inr (Some \<lparr>io_seconds = d_seconds d, io_reads = r, io_writes = w,
               read_latency_ms = latency_ms (delta_at d ''io_stall_read_ms'') reads,
               write_latency_ms = latency_ms (delta_at d ''io_stall_write_ms'') writes,
               read_iops = iops reads (d_seconds d), write_iops = iops writes (d_seconds d), io_since = d_since d\<rparr>))))"

record gauge_range =
  g_latest :: flt
  g_min :: flt
  g_max :: flt
  g_avg :: flt
  g_count :: int

record gauge_window =
  gw_seconds :: flt
  gw_from :: rat
  gw_to :: rat
  gw_samples :: int
  gw_readings :: "(string \<times> gauge_range) list"
  gw_restarted :: bool
  gw_since :: string

definition stamped :: "iso_parser \<Rightarrow> pydict list \<Rightarrow> (rat \<times> string \<times> pydict) list" where
  "stamped fromiso samples =
     sort_key fst (List.map_filter (\<lambda>d. map_option (\<lambda>t. (t, str_or (get d ''counters_since''), d)) (as_epoch fromiso (get d ''collected_at''))) samples)"

definition gauge_reading :: "(string \<Rightarrow> flt option) \<Rightarrow> (rat \<times> string \<times> pydict) list \<Rightarrow> string \<Rightarrow> float_error + gauge_range option" where
  "gauge_reading fl inside name =
     rbind (map_res (\<lambda>(_, _, d). counter fl (get d name)) inside) (\<lambda>read.
       Inr (case List.map_filter id read of
              [] \<Rightarrow> None
            | v # vs \<Rightarrow> Some \<lparr>g_latest = last (v # vs), g_min = foldl fmin v vs, g_max = foldl fmax v vs,
                          g_avg = fdiv (fsum (v # vs)) (Num (of_nat (length (v # vs)))), g_count = int (length (v # vs))\<rparr>))"

definition window_gauge ::
  "iso_parser \<Rightarrow> (string \<Rightarrow> flt option) \<Rightarrow> pydict list \<Rightarrow> string list \<Rightarrow> flt \<Rightarrow> bool \<Rightarrow> float_error + gauge_window option" where
  "window_gauge fromiso fl samples names window_hours newest_only =
     (let all = stamped fromiso samples in
      if all = [] then Inr None
      else
        let newest = fst (last all);
            oldest_allowed = fsub (Num newest) (fmult window_hours (Num 3600));
            inside = (if newest_only then [last all] else filter (\<lambda>(t, _). fle oldest_allowed (Num t)) all) in
        if inside = [] then Inr None
        else rbind (map_res (\<lambda>name. rbind (gauge_reading fl inside name) (\<lambda>r. Inr (map_option (Pair name) r))) names) (\<lambda>read.
          let readings = dict_of (List.map_filter id read) in
          Inr (if readings = [] then None
               else Some \<lparr>gw_seconds = fround 1 (Num (nearest (newest - fst (hd inside)))), gw_from = fst (hd inside), gw_to = newest,
                      gw_samples = int (length inside), gw_readings = readings,
                      gw_restarted = (1 < card (set (filter (\<lambda>m. m \<noteq> []) (map (fst \<circ> snd) inside)))), gw_since = fst (snd (last all))\<rparr>)))"

subsection \<open>Which pair is taken\<close>

lemma map_of_names: "map_of (dict_of (map (\<lambda>n. (n, f n)) ns)) k = (if k \<in> set ns then Some (f k) else None)"
proof -
  have "map_of (rev (map (\<lambda>n. (n, f n)) ns)) k = (if k \<in> set ns then Some (f k) else None)"
    by (simp add: rev_map map_of_map_restrict [unfolded restrict_map_def comp_def])
  then show ?thesis by (simp add: map_of_dict_of)
qed

lemma dict_of_names:
  "(k, v) \<in> set (dict_of (map (\<lambda>n. (n, f n)) ns)) \<longleftrightarrow> k \<in> set ns \<and> v = f k"
proof -
  have "(k, v) \<in> set (dict_of (map (\<lambda>n. (n, f n)) ns)) \<longleftrightarrow> map_of (dict_of (map (\<lambda>n. (n, f n)) ns)) k = Some v"
    using distinct_dict_of by (metis map_of_eq_Some_iff)
  then show ?thesis by (auto simp: map_of_names)
qed

lemma sort_empty: "sort xs = [] \<longleftrightarrow> xs = []"
  by (metis set_empty set_sort)

lemma fle_not_less: "fle (Num 0) v \<Longrightarrow> \<not> fless v (Num 0)"
  by (cases v) (auto simp: fle_def feq_def)

text \<open>What may be told of a pair of samples: time has passed and not too much, no restart lies between, and a counter that is told of has not
  gone backwards.\<close>

definition honest :: "sample \<Rightarrow> sample \<Rightarrow> string list \<Rightarrow> flt \<Rightarrow> bool \<Rightarrow> delta \<Rightarrow> bool" where
  "honest newest older names max_seconds allow_partial d \<longleftrightarrow>
     0 < elapsed newest older \<and> \<not> fless max_seconds (Num (elapsed newest older)) \<and>
     (sp_since newest = [] \<or> sp_since older = [] \<or> sp_since newest = sp_since older) \<and>
     d_from d = sp_stamp older \<and> d_to d = sp_stamp newest \<and> d_seconds d = fround 1 (Num (elapsed newest older)) \<and>
     (\<forall>(name, v) \<in> set (d_deltas d). name \<in> set names \<and> v = fsub (value_at newest name) (value_at older name) \<and> \<not> fless v (Num 0)) \<and>
     (\<not> allow_partial \<longrightarrow> d_dropped d = [] \<and> fst ` set (d_deltas d) = set names)"

lemma pair_delta_honest:
  assumes "pair_delta newest older names max_seconds allow_partial = Some d"
  shows "honest newest older names max_seconds allow_partial d"
proof -
  let ?deltas = "dict_of (map (\<lambda>name. (name, fsub (value_at newest name) (value_at older name))) names)"
  let ?dropped = "sort (map fst (filter (\<lambda>(_, v). fless v (Num 0)) ?deltas))"
  let ?kept = "if ?dropped = [] then ?deltas else filter (\<lambda>(_, v). fle (Num 0) v) ?deltas"
  from assms have d: "d_deltas d = ?kept" "d_dropped d = ?dropped" "d_from d = sp_stamp older" "d_to d = sp_stamp newest"
      "d_seconds d = fround 1 (Num (elapsed newest older))"
    and pair: "0 < elapsed newest older" "\<not> fless max_seconds (Num (elapsed newest older))" "\<not> restarted_between newest older"
    and whole: "\<not> allow_partial \<longrightarrow> ?dropped = []"
    by (auto simp: pair_delta_def Let_def split: if_splits)
  have "?dropped = [] \<longleftrightarrow> (\<forall>(_, v) \<in> set ?deltas. \<not> fless v (Num 0))"
    by (simp add: sort_empty filter_empty_conv case_prod_beta)
  then have "\<forall>(name, v) \<in> set (d_deltas d). (name, v) \<in> set ?deltas \<and> \<not> fless v (Num 0)"
    unfolding d by (auto dest: fle_not_less)
  moreover have "fst ` set (d_deltas d) = set names" if "\<not> allow_partial"
  proof -
    from that whole have "d_deltas d = ?deltas" by (simp add: d)
    then show ?thesis using dict_of_names [of _ _ "\<lambda>name. fsub (value_at newest name) (value_at older name)" names] by force
  qed
  ultimately show ?thesis using pair whole by (auto simp: honest_def d(2-5) dict_of_names restarted_between_def)
qed

lemma usable_sorted: "usable fromiso fl samples names = Inr us \<Longrightarrow> sorted (map sp_stamp us)"
  by (auto simp: usable_def rbind_eq_Inr)

lemma elapsed_antimono: "sp_stamp s \<le> sp_stamp t \<Longrightarrow> elapsed newest t \<le> elapsed newest s"
  by (simp add: elapsed_def nearest_mono)

lemma fless_mono: "fless m (Num a) \<Longrightarrow> a \<le> b \<Longrightarrow> fless m (Num b)"
  by (cases m) auto

lemma fle_mono: "fle m (Num a) \<Longrightarrow> a \<le> b \<Longrightarrow> fle m (Num b)"
  by (cases m) (auto simp: fle_def feq_def)

text \<open>The walk back from the newest sample stops at the first one out of reach, and loses no pair by it.\<close>

lemma nearest_pair_find:
  assumes "sorted (map sp_stamp (rev olds))"
  shows "nearest_pair newest names m partial olds =
    (case List.map_filter (\<lambda>s. pair_delta newest s names m partial) olds of [] \<Rightarrow> None | d # _ \<Rightarrow> Some d)"
  using assms
proof (induction olds)
  case (Cons s olds)
  show ?case
  proof (cases "fless m (Num (elapsed newest s))")
    case True
    have "pair_delta newest t names m partial = None" if "t \<in> set (s # olds)" for t
    proof -
      have "sp_stamp t \<le> sp_stamp s" using that Cons.prems by (auto simp: sorted_append)
      with True have "fless m (Num (elapsed newest t))" using fless_mono elapsed_antimono by blast
      then show ?thesis by (simp add: pair_delta_def Let_def)
    qed
    then have "List.map_filter (\<lambda>s. pair_delta newest s names m partial) (s # olds) = []"
      by (auto simp: List.map_filter_def filter_empty_conv)
    with True show ?thesis by simp
  next
    case False
    with Cons show ?thesis by (auto simp: sorted_append List.map_filter_simps split: option.splits)
  qed
qed (simp add: List.map_filter_simps)

lemma map_filter_None: "List.map_filter f xs = [] \<Longrightarrow> x \<in> set xs \<Longrightarrow> f x = None"
  by (auto simp: List.map_filter_def filter_empty_conv)

lemma map_filter_first:
  assumes "List.map_filter f xs = d # ds"
  obtains before x after where "xs = before @ x # after" "f x = Some d" "\<forall>y \<in> set before. f y = None"
  using assms
proof (induction xs arbitrary: thesis)
  case (Cons y xs)
  show ?case
  proof (cases "f y")
    case None
    with Cons.prems(2) obtain before x after where "xs = before @ x # after" "f x = Some d" "\<forall>y \<in> set before. f y = None"
      using Cons.IH by (auto simp: List.map_filter_simps)
    with None show ?thesis by (intro Cons.prems(1) [of "y # before" x after]) auto
  next
    case (Some e)
    with Cons.prems(2) show ?thesis by (intro Cons.prems(1) [of "[]" y xs]) (auto simp: List.map_filter_simps)
  qed
qed (simp add: List.map_filter_simps)

text \<open>C30: The interval is the nearest honest pair: the newest sample against the last one before it that can honestly be subtracted, every sample
  between the two being refused, and no answer exactly when each is refused.\<close>

theorem interval_is_the_nearest_honest_pair:
  assumes "interval_delta fromiso fl samples names hours partial = Inr answer" "usable fromiso fl samples names = Inr us"
  shows "case answer of
      None \<Rightarrow> \<forall>s \<in> set (butlast us). pair_delta (last us) s names (fmult hours (Num 3600)) partial = None
    | Some d \<Rightarrow> \<exists>before older between. us = before @ older # between @ [last us] \<and>
        honest (last us) older names (fmult hours (Num 3600)) partial d \<and>
        (\<forall>s \<in> set between. pair_delta (last us) s names (fmult hours (Num 3600)) partial = None)"
proof (cases "length us < 2")
  case True
  then have "butlast us = []" by (cases us rule: rev_cases) auto
  with True assms show ?thesis by (auto simp: interval_delta_def)
next
  case False
  let ?pair = "\<lambda>s. pair_delta (last us) s names (fmult hours (Num 3600)) partial"
  from False have us: "us = butlast us @ [last us]" by (cases us rule: rev_cases) auto
  have "sorted (map sp_stamp (butlast us @ [last us]))" using usable_sorted [OF assms(2)] us by simp
  then have "sorted (map sp_stamp (rev (rev (butlast us))))" by (simp add: sorted_append)
  from nearest_pair_find [OF this] assms False
  have answer: "answer = (case List.map_filter ?pair (rev (butlast us)) of [] \<Rightarrow> None | d # _ \<Rightarrow> Some d)"
    by (auto simp: interval_delta_def)
  show ?thesis
  proof (cases "List.map_filter ?pair (rev (butlast us))")
    case Nil
    with answer show ?thesis using map_filter_None [OF Nil] by simp
  next
    case (Cons d ds)
    then obtain between older before where split: "rev (butlast us) = between @ older # before" "?pair older = Some d" "\<forall>y \<in> set between. ?pair y = None"
      by (rule map_filter_first)
    have "butlast us = rev (between @ older # before)" using split(1) by (metis rev_rev_ident)
    with us have "us = rev before @ older # rev between @ [last us]" by simp
    with split(2,3) Cons answer pair_delta_honest [OF split(2)] show ?thesis by fastforce
  qed
qed

lemma widest_pair_cases:
  assumes "sorted (map sp_stamp olds)"
  shows "case widest_pair newest names m least partial olds of
      None \<Rightarrow> \<forall>s \<in> set olds. \<forall>d. pair_delta newest s names m partial = Some d \<longrightarrow> \<not> fle least (d_seconds d)
    | Some d \<Rightarrow> \<exists>before older after. olds = before @ older # after \<and> pair_delta newest older names m partial = Some d \<and>
        fle least (d_seconds d) \<and> (\<forall>s \<in> set before. pair_delta newest s names m partial = None)"
  using assms
proof (induction olds)
  case (Cons s olds)
  let ?pair = "\<lambda>s. pair_delta newest s names m partial"
  show ?case
  proof (cases "\<exists>d. ?pair s = Some d \<and> fle least (d_seconds d)")
    case True
    then obtain d where "?pair s = Some d" "fle least (d_seconds d)" by blast
    then show ?thesis by (auto intro!: exI [of _ "[]"])
  next
    case False
    then have step: "widest_pair newest names m least partial (s # olds) = widest_pair newest names m least partial olds"
      by (auto split: option.splits)
    from Cons have IH: "case widest_pair newest names m least partial olds of
        None \<Rightarrow> \<forall>s \<in> set olds. \<forall>d. ?pair s = Some d \<longrightarrow> \<not> fle least (d_seconds d)
      | Some d \<Rightarrow> \<exists>before older after. olds = before @ older # after \<and> ?pair older = Some d \<and>
          fle least (d_seconds d) \<and> (\<forall>s \<in> set before. ?pair s = None)" by simp
    show ?thesis
    proof (cases "widest_pair newest names m least partial olds")
      case None
      with IH False show ?thesis unfolding step by auto
    next
      case (Some d)
      with IH obtain before older after where o: "olds = before @ older # after" "?pair older = Some d" "fle least (d_seconds d)"
        "\<forall>s \<in> set before. ?pair s = None" by auto
      have "?pair s = None"
      proof (rule ccontr)
        assume "?pair s \<noteq> None"
        then obtain d' where d': "?pair s = Some d'" by blast
        have "sp_stamp s \<le> sp_stamp older" using Cons.prems o(1) by simp
        then have "decimal 1 (round_half_even (elapsed newest older * 10 ^ 1)) \<le> decimal 1 (round_half_even (elapsed newest s * 10 ^ 1))"
          by (intro decimal_mono round_half_even_mono mult_right_mono elapsed_antimono) simp_all
        with o(3) pair_delta_honest [OF o(2)] pair_delta_honest [OF d'] have "fle least (d_seconds d')"
          by (auto simp: honest_def intro: fle_mono)
        with False d' show False by blast
      qed
      with o have "s # olds = (s # before) @ older # after \<and> (\<forall>t \<in> set (s # before). ?pair t = None)" by simp
      with o(2,3) show ?thesis unfolding step Some option.case
        by (intro exI [of _ "s # before"] exI [of _ older] exI [of _ after]) simp
    qed
  qed
qed simp

text \<open>C31: The window is the widest honest pair: the newest sample against the first one that can honestly be subtracted, every earlier sample
  being refused, over at least the fraction of the window that is asked for; and no answer exactly when no
  honest pair spans that much.\<close>

theorem window_is_the_widest_honest_pair:
  assumes "window_delta fromiso fl samples names hours fraction partial = Inr answer" "usable fromiso fl samples names = Inr us"
  shows "let m = fmult hours (Num 3600) in case answer of
      None \<Rightarrow> \<forall>s \<in> set (butlast us). \<forall>d. pair_delta (last us) s names m partial = Some d \<longrightarrow> \<not> fle (fmult m fraction) (d_seconds d)
    | Some d \<Rightarrow> \<exists>before older between. us = before @ older # between @ [last us] \<and> honest (last us) older names m partial d \<and>
        fle (fmult m fraction) (d_seconds d) \<and> (\<forall>s \<in> set before. pair_delta (last us) s names m partial = None)"
proof (cases "length us < 2")
  case True
  then have "butlast us = []" by (cases us rule: rev_cases) auto
  with True assms show ?thesis by (auto simp: window_delta_def Let_def)
next
  case False
  let ?m = "fmult hours (Num 3600)"
  from False have us: "us = butlast us @ [last us]" by (cases us rule: rev_cases) auto
  have "sorted (map sp_stamp (butlast us @ [last us]))" using usable_sorted [OF assms(2)] us by simp
  then have "sorted (map sp_stamp (butlast us))" by (simp add: sorted_append)
  note taken = widest_pair_cases [OF this, where newest = "last us" and names = names and m = ?m and least = "fmult ?m fraction" and partial = partial]
  have answer: "answer = widest_pair (last us) names ?m (fmult ?m fraction) partial (butlast us)"
    using assms False by (auto simp: window_delta_def Let_def)
  show ?thesis
  proof (cases answer)
    case None
    with taken [folded answer] show ?thesis by simp
  next
    case (Some d)
    from taken [folded answer, unfolded Some] obtain before older after where o: "butlast us = before @ older # after" "pair_delta (last us) older names ?m partial = Some d"
      "fle (fmult ?m fraction) (d_seconds d)" "\<forall>s \<in> set before. pair_delta (last us) s names ?m partial = None" by auto
    from us o(1) have "us = before @ older # after @ [last us]" by simp
    with o(3,4) Some pair_delta_honest [OF o(2)] show ?thesis by (auto simp: Let_def)
  qed
qed

subsection \<open>The range of a gauge\<close>

lemma fless_trans: "fless x y \<Longrightarrow> fless y z \<Longrightarrow> fless x z"
  by (cases x; cases y; cases z) auto

lemma foldl_fmin: "\<not> fless x m \<or> x \<in> set vs \<Longrightarrow> \<not> fless x (foldl fmin m vs)"
proof (induction vs arbitrary: m)
  case (Cons v vs)
  have "\<not> fless x x" by (cases x) auto
  with Cons.prems have "\<not> fless x (fmin m v) \<or> x \<in> set vs" by (auto simp: fmin_def dest: fless_trans)
  with Cons.IH show ?case by simp
qed simp

lemma foldl_fmax: "\<not> fless m x \<or> x \<in> set vs \<Longrightarrow> \<not> fless (foldl fmax m vs) x"
proof (induction vs arbitrary: m)
  case (Cons v vs)
  have "\<not> fless x x" by (cases x) auto
  with Cons.prems have "\<not> fless (fmax m v) x \<or> x \<in> set vs" by (auto simp: fmax_def dest: fless_trans)
  with Cons.IH show ?case by simp
qed simp

text \<open>No reading of the window lies outside the range that is told of it, and a reading that is missing or unreadable costs the range nothing.\<close>

theorem gauge_range_holds_every_reading:
  assumes "gauge_reading fl inside name = Inr (Some g)"
  shows "\<forall>(t, since, d) \<in> set inside. \<forall>x. counter fl (get d name) = Inr (Some x) \<longrightarrow> \<not> fless x (g_min g) \<and> \<not> fless (g_max g) x"
proof -
  from assms obtain read where read: "list_all2 (\<lambda>i r. counter fl (get (snd (snd i)) name) = Inr r) inside read"
      and some: "(case List.map_filter id read of
              [] \<Rightarrow> None
            | v # vs \<Rightarrow> Some \<lparr>g_latest = last (v # vs), g_min = foldl fmin v vs, g_max = foldl fmax v vs,
                          g_avg = fdiv (fsum (v # vs)) (Num (of_nat (length (v # vs)))), g_count = int (length (v # vs))\<rparr>) = Some g"
    unfolding gauge_reading_def rbind_eq_Inr map_res_Inr by (auto simp: case_prod_beta)
  then obtain v vs where vs: "List.map_filter id read = v # vs" and g: "g_min g = foldl fmin v vs" "g_max g = foldl fmax v vs"
    by (cases "List.map_filter id read") auto
  have "x = v \<or> x \<in> set vs" if "(t, since, d) \<in> set inside" "counter fl (get d name) = Inr (Some x)" for t since d x
  proof -
    from read that have "Some x \<in> set read"
      by (induction rule: list_all2_induct) auto
    then have "x \<in> set (List.map_filter id read)" by (force simp: List.map_filter_def)
    then show ?thesis by (simp add: vs)
  qed
  moreover have "\<not> fless x (foldl fmin v vs) \<and> \<not> fless (foldl fmax v vs) x" if "x = v \<or> x \<in> set vs" for x
  proof -
    have "\<not> fless x x" by (cases x) auto
    with that show ?thesis using foldl_fmin [of x v vs] foldl_fmax [of v x vs] by auto
  qed
  ultimately show ?thesis by (auto simp: g)
qed

subsection \<open>A message read back\<close>

definition field_name :: "string \<Rightarrow> bool" where
  "field_name k \<longleftrightarrow> list_all is_ident k \<and> (case k of [] \<Rightarrow> False | c # _ \<Rightarrow> is_alpha c \<or> c = CHR ''_'')"

definition write_field :: "string \<times> string \<Rightarrow> string" where
  "write_field kv = fst kv @ ''='' @ snd kv"

lemma equals_is_no_ident [simp]: "\<not> is_ident (CHR ''='')" "\<not> is_ident (CHR '' '')" "\<not> is_alpha (CHR '' '')"
  by code_simp+

lemma name_value_field:
  assumes "field_name k" "CHR '','' \<notin> set v" "rest = [] \<or> hd rest = CHR '',''"
  shows "name_value (write_field (k, v) @ rest) = Some (k, v, rest)"
proof -
  from assms(1) obtain c cs where k: "k = c # cs" "is_alpha c \<or> c = CHR ''_''" "\<forall>x \<in> set k. is_ident x"
    by (auto simp: field_name_def list_all_iff split: list.splits)
  have name: "takeWhile is_ident (k @ CHR ''='' # v @ rest) = k" "dropWhile is_ident (k @ CHR ''='' # v @ rest) = CHR ''='' # v @ rest"
    using k(3) by (simp_all add: takeWhile_append2 dropWhile_append2)
  have "takeWhile (\<lambda>x. x \<noteq> CHR '','') (v @ rest) = v" "dropWhile (\<lambda>x. x \<noteq> CHR '','') (v @ rest) = rest"
  proof -
    have free: "\<forall>x \<in> set v. x \<noteq> CHR '',''" using assms(2) by blast
    with assms(3) show "takeWhile (\<lambda>x. x \<noteq> CHR '','') (v @ rest) = v" "dropWhile (\<lambda>x. x \<noteq> CHR '','') (v @ rest) = rest"
      by (cases rest; simp add: takeWhile_append2 dropWhile_append2)+
  qed
  with name k(1,2) show ?thesis by (simp add: name_value_def write_field_def)
qed

lemma message_pairs_fields:
  assumes "list_all (\<lambda>(k, v). field_name k \<and> CHR '','' \<notin> set v) kvs" "sep = '','' \<or> sep = '', ''"
  shows "message_pairs True (join sep (map write_field kvs)) = kvs \<and>
    (kvs \<noteq> [] \<longrightarrow> message_pairs False (sep @ join sep (map write_field kvs)) = kvs)"
  using assms(1)
proof (induction kvs)
  case (Cons kv kvs)
  obtain k v where kv: "kv = (k, v)" by (cases kv)
  define rest where "rest = (if kvs = [] then [] else sep @ join sep (map write_field kvs))"
  have line: "join sep (map write_field (kv # kvs)) = write_field (k, v) @ rest"
    by (cases kvs) (simp_all add: kv rest_def)
  have rest: "rest = [] \<or> hd rest = CHR '',''" using assms(2) by (auto simp: rest_def)
  from Cons.prems kv have wf: "field_name k" "CHR '','' \<notin> set v" by simp_all
  note found = name_value_field [OF wf rest]
  have tail: "message_pairs False rest = kvs"
    using Cons.IH Cons.prems by (simp add: rest_def message_pairs.simps [of False "[]"])
  have start: "message_pairs True (join sep (map write_field (kv # kvs))) = kv # kvs"
    unfolding line by (subst message_pairs.simps) (simp add: found tail kv)
  have blank: "name_value (CHR '' '' # s) = None" for s by (simp add: name_value_def split: list.splits)
  have behind: "message_pairs False (c # write_field (k, v) @ rest) = kv # kvs" if "c = CHR '','' \<or> is_ws c" for c
    by (subst message_pairs.simps) (simp add: that found tail kv)
  have "is_ws (CHR '' '')" by code_simp
  then have "message_pairs False ('', '' @ write_field (k, v) @ rest) = kv # kvs"
    by (subst append_Cons, subst message_pairs.simps) (simp add: blank behind)
  with behind [of "CHR '',''"] assms(2) have "message_pairs False (sep @ join sep (map write_field (kv # kvs))) = kv # kvs"
    unfolding line by auto
  with start show ?case by blast
qed (simp add: message_pairs.simps name_value_def)

text \<open>A message of fields, each a name and a text without a comma, is read back field by field: names in lower case, texts without the blanks
  around them, and of a name that occurs twice the last.\<close>

theorem written_fields_are_read_back:
  assumes "list_all (\<lambda>(k, v). field_name k \<and> CHR '','' \<notin> set v) kvs" "sep = '','' \<or> sep = '', ''"
  shows "message_fields (PStr (join sep (map write_field kvs))) = dict_of (map (\<lambda>(k, v). (lower k, strip v)) kvs)"
proof -
  have "str_or (PStr t) = t" for t by (cases t) (simp_all add: str_or_def)
  then show ?thesis by (simp add: message_fields_def message_pairs_fields [OF assms])
qed

theorem written_fields_are_read_back_witness:
  "message_fields (PStr ''Reads=5, path=C: x'') = [(''reads'', ''5''), (''path'', ''C: x'')]"
proof -
  let ?kvs = "[(''Reads'', ''5''), (''path'', ''C: x'')]"
  have "list_all (\<lambda>(k, v). field_name k \<and> CHR '','' \<notin> set v) ?kvs" "join '', '' (map write_field ?kvs) = ''Reads=5, path=C: x''"
      "dict_of (map (\<lambda>(k, v). (lower k, strip v)) ?kvs) = [(''reads'', ''5''), (''path'', ''C: x'')]"
    by code_simp+
  then show ?thesis using written_fields_are_read_back [of ?kvs "'', ''"] by simp
qed

subsection \<open>Three readings across a restart\<close>

definition tick :: "string \<Rightarrow> int \<Rightarrow> string \<Rightarrow> pydict" where
  "tick time reads since = [(''collected_at'', PStr time), (''reads'', PInt reads), (''counters_since'', PStr since)]"

definition seconds_clock :: iso_parser where
  "seconds_clock s = map_option (\<lambda>i. (sec i, Some 0)) (parse_int s)"

definition ticks :: "pydict list" where
  "ticks = [tick ''100'' 5 ''mon'', tick ''300'' 12 ''tue'', tick ''200'' 9 ''tue'']"

definition reading_at :: "rat \<Rightarrow> rat \<Rightarrow> string \<Rightarrow> sample" where
  "reading_at t reads since = \<lparr>sp_stamp = t, sp_since = since, sp_values = [(''reads'', Num reads)]\<rparr>"

lemma ticks_usable:
  "usable seconds_clock (\<lambda>_. None) ticks [''reads''] =
     Inr [reading_at 100 5 ''mon'', reading_at 200 9 ''tue'', reading_at 300 12 ''tue'']"
proof -
  have clock: "as_utc_datetime seconds_clock (PStr ''100'') = Some (sec 100)" "as_utc_datetime seconds_clock (PStr ''200'') = Some (sec 200)"
      "as_utc_datetime seconds_clock (PStr ''300'') = Some (sec 300)"
    by code_simp+
  have fields: "get (tick time reads since) ''collected_at'' = PStr time" "get (tick time reads since) ''reads'' = PInt reads"
      "get (tick time reads since) ''counters_since'' = PStr since" for time reads since
    by (simp_all add: tick_def get_def)
  have since: "str_or (PStr ''mon'') = ''mon''" "str_or (PStr ''tue'') = ''tue''" by code_simp+
  have numbers: "float_int 5 = Some (Num 5)" "float_int 9 = Some (Num 9)" "float_int 12 = Some (Num 12)"
    using float_int_exact [of 5] float_int_exact [of 9] float_int_exact [of 12] by simp_all
  show ?thesis
    by (simp add: usable_def ticks_def read_sample_def as_epoch_def clock fields since counter_def float_of_def numbers dict_of_def
        reading_at_def List.map_filter_simps)
qed

lemma ticks_pairs:
  "pair_delta (reading_at 300 12 ''tue'') (reading_at 200 9 ''tue'') [''reads''] (Num 3600) False =
     Some \<lparr>d_seconds = Num 100, d_from = 200, d_to = 300, d_deltas = [(''reads'', Num 3)], d_dropped = [], d_since = ''tue''\<rparr>"
  "pair_delta (reading_at 300 12 ''tue'') (reading_at 100 5 ''mon'') [''reads''] (Num 3600) False = None"
proof -
  have "round_half_even 1000 = 1000" using round_half_even_of_int [of 1000] by simp
  then show "pair_delta (reading_at 300 12 ''tue'') (reading_at 200 9 ''tue'') [''reads''] (Num 3600) False =
     Some \<lparr>d_seconds = Num 100, d_from = 200, d_to = 300, d_deltas = [(''reads'', Num 3)], d_dropped = [], d_since = ''tue''\<rparr>"
    by (simp add: pair_delta_def elapsed_def reading_at_def restarted_between_def value_at_def dict_of_def fsub_def decimal_def)
qed (simp add: pair_delta_def restarted_between_def reading_at_def Let_def)

lemma ticks_elapsed: "elapsed (reading_at t r a) (reading_at u q b) = nearest (t - u)"
  by (simp add: elapsed_def reading_at_def)

theorem interval_is_the_nearest_honest_pair_witness:
  "\<exists>d. interval_delta seconds_clock (\<lambda>_. None) ticks [''reads''] (Num 1) False = Inr (Some d) \<and>
     (\<exists>older. honest (reading_at 300 12 ''tue'') older [''reads''] (Num 3600) False d) \<and> d_deltas d = [(''reads'', Num 3)]"
proof -
  obtain d where d: "interval_delta seconds_clock (\<lambda>_. None) ticks [''reads''] (Num 1) False = Inr (Some d)" "d_deltas d = [(''reads'', Num 3)]"
    by (simp add: interval_delta_def ticks_usable ticks_pairs ticks_elapsed)
  from interval_is_the_nearest_honest_pair [OF d(1) ticks_usable] d show ?thesis by auto
qed

theorem window_is_the_widest_honest_pair_witness:
  "\<exists>d. window_delta seconds_clock (\<lambda>_. None) ticks [''reads''] (Num 1) (Num 0) False = Inr (Some d) \<and>
     (\<exists>older. honest (reading_at 300 12 ''tue'') older [''reads''] (Num 3600) False d) \<and> d_deltas d = [(''reads'', Num 3)]"
proof -
  obtain d where d: "window_delta seconds_clock (\<lambda>_. None) ticks [''reads''] (Num 1) (Num 0) False = Inr (Some d)" "d_deltas d = [(''reads'', Num 3)]"
    by (simp add: window_delta_def ticks_usable ticks_pairs fle_def feq_def)
  from window_is_the_widest_honest_pair [OF d(1) ticks_usable] d show ?thesis by (auto simp: Let_def)
qed

end
