(* ===== verification/Notify.thy ===== *)
theory Notify
  imports Coerce
begin

section \<open>Who is told, and where\<close>

text \<open>
  Models \<^verbatim>\<open>dbabrain/lib/notify.py\<close> (the notify block of an entry) and \<^verbatim>\<open>dbabrain/lib/notify_route.py\<close> (how
  that block narrows the route of the node). The levels the settings configure are an argument, nothing
  where they cannot be read.
\<close>

subsection \<open>The block\<close>

datatype notify_error = Not_a_rule | Unknown_level | Entry_not_an_object | Block_not_an_object | Unknown_keys

record notify_rule =
  nr_enabled :: bool
  nr_telegram_chat :: string
  nr_chat_id :: string

record notify_config =
  logging_on_run :: notify_rule
  alert_on_error :: notify_rule

definition NOTIFY_CHAT_LEVELS :: "string list" where
  "NOTIFY_CHAT_LEVELS = [''logging'', ''warning'', ''critical'', ''error'', ''test'', ''private'']"

definition NOTIFY_RULE_NAMES :: "string list" where
  "NOTIFY_RULE_NAMES = [''logging_on_run'', ''alert_on_error'']"

definition default_notify_rule :: notify_rule where
  "default_notify_rule = \<lparr>nr_enabled = True, nr_telegram_chat = [], nr_chat_id = []\<rparr>"

definition default_notify_config :: notify_config where
  "default_notify_config = \<lparr>logging_on_run = default_notify_rule, alert_on_error = default_notify_rule\<rparr>"

definition known_chat_levels :: "string list option \<Rightarrow> string list" where
  "known_chat_levels settings =
     (let configured = (case settings of None \<Rightarrow> [] | Some ls \<Rightarrow> map (\<lambda>l. lower (strip l)) ls) in
      NOTIFY_CHAT_LEVELS @ filter (\<lambda>l. l \<noteq> [] \<and> l \<notin> set NOTIFY_CHAT_LEVELS) configured)"

definition rule_to_dict :: "notify_rule \<Rightarrow> pydict" where
  "rule_to_dict r =
     [(''enabled'', PBool (nr_enabled r)), (''telegram_chat'', PStr (nr_telegram_chat r)), (''chat_id'', PStr (nr_chat_id r))]"

definition notify_to_dict :: "notify_config \<Rightarrow> pydict" where
  "notify_to_dict n =
     [(''logging_on_run'', PDict (rule_to_dict (logging_on_run n))), (''alert_on_error'', PDict (rule_to_dict (alert_on_error n)))]"

definition rule_chat_id :: "notify_rule \<Rightarrow> (string \<times> string) list \<Rightarrow> string \<Rightarrow> string" where
  "rule_chat_id r groups level =
     (if \<not> nr_enabled r then []
      else if nr_chat_id r \<noteq> [] then nr_chat_id r
      else case map_of groups (lower (strip (if nr_telegram_chat r \<noteq> [] then nr_telegram_chat r else level))) of
             None \<Rightarrow> [] | Some c \<Rightarrow> c)"

definition rule_for_level :: "notify_config \<Rightarrow> string \<Rightarrow> notify_rule" where
  "rule_for_level n level =
     (if lower (strip level) \<in> {''warning'', ''error'', ''critical''} then alert_on_error n else logging_on_run n)"

definition config_chat_id :: "notify_config \<Rightarrow> string \<Rightarrow> (string \<times> string) list \<Rightarrow> string" where
  "config_chat_id n level groups = rule_chat_id (rule_for_level n level) groups level"

definition parse_notify_rule :: "string list \<Rightarrow> pyval \<Rightarrow> notify_rule \<Rightarrow> notify_error + notify_rule" where
  "parse_notify_rule known v dflt =
     (case v of
        PNone \<Rightarrow> Inr dflt
      | PBool b \<Rightarrow> Inr (dflt\<lparr>nr_enabled := b\<rparr>)
      | PDict d \<Rightarrow>
          let level = lower (strip (str_or (get_or d ''telegram_chat'' (PStr (nr_telegram_chat dflt))))) in
          rbind (check (level = [] \<or> level \<in> set known) Unknown_level) (\<lambda>_.
            Inr \<lparr>nr_enabled = truthy (get_or d ''enabled'' (PBool (nr_enabled dflt))), nr_telegram_chat = level,
              nr_chat_id = strip (str_or (get d ''chat_id''))\<rparr>)
      | _ \<Rightarrow> Inl Not_a_rule)"

definition parse_notify_config ::
  "string list \<Rightarrow> pyval \<Rightarrow> notify_config option \<Rightarrow> notify_config option \<Rightarrow> notify_error + notify_config" where
  "parse_notify_config known values defaults inherit =
     (let base = (case inherit of Some n \<Rightarrow> n | None \<Rightarrow> (case defaults of Some n \<Rightarrow> n | None \<Rightarrow> default_notify_config));
          entry_value = (if truthy values then values else PDict []) in
      rbind (check (is_dict entry_value) Entry_not_an_object) (\<lambda>_.
        let entry = as_dict entry_value; block_value = (case get entry ''notify'' of PNone \<Rightarrow> PDict [] | v \<Rightarrow> v) in
        rbind (check (is_dict block_value) Block_not_an_object) (\<lambda>_.
          let block = as_dict block_value; raw = (\<lambda>name. get_or block name (get entry name)) in
          rbind (check (list_all (\<lambda>(k, _). k \<in> set NOTIFY_RULE_NAMES) block) Unknown_keys) (\<lambda>_.
          rbind (parse_notify_rule known (raw ''logging_on_run'') (logging_on_run base)) (\<lambda>run.
          rbind (parse_notify_rule known (raw ''alert_on_error'') (alert_on_error base)) (\<lambda>err.
            Inr \<lparr>logging_on_run = run, alert_on_error = err\<rparr>))))))"

definition notify_rule_dict :: "string list \<Rightarrow> bool \<Rightarrow> string \<Rightarrow> string option \<Rightarrow> notify_error + pydict" where
  "notify_rule_dict known enabled telegram_chat chat_id =
     (let level = lower (strip telegram_chat) in
      rbind (check (level \<in> set known) Unknown_level) (\<lambda>_.
        Inr [(''enabled'', PBool enabled), (''telegram_chat'', PStr level),
             (''chat_id'', PStr (strip (case chat_id of None \<Rightarrow> [] | Some c \<Rightarrow> c)))]))"

subsection \<open>The route of the node\<close>

definition NO_ROUTE :: pydict where
  "NO_ROUTE = [(''enabled'', PBool False), (''alert'', PBool False), (''chat_id'', PStr [])]"

definition chat_from_route :: "pydict option \<Rightarrow> string" where
  "chat_from_route route =
     (case route of
        None \<Rightarrow> []
      | Some r \<Rightarrow> if truthy (get r ''alert'') then str_or (get r ''chat_id'') else [])"

definition parse_route :: "pyval \<Rightarrow> pydict" where
  "parse_route payload =
     (case payload of
        PDict p \<Rightarrow> [(''enabled'', PBool (truthy (get p ''enabled''))), (''alert'', PBool (truthy (get p ''alert''))),
                   (''chat_id'', PStr (str_or (get p ''chat_id'')))]
      | _ \<Rightarrow> NO_ROUTE)"

definition parse_groups :: "pyval \<Rightarrow> (string \<times> string) list" where
  "parse_groups payload =
     (case payload of
        PDict p \<Rightarrow> dict_of (map (\<lambda>(k, v). (lower (strip k), py_str v)) (filter (\<lambda>(k, v). k \<noteq> [] \<and> truthy v) p))
      | _ \<Rightarrow> [])"

definition redirected :: "notify_rule \<Rightarrow> string \<Rightarrow> string" where
  "redirected rule key = lower (strip (if nr_telegram_chat rule \<noteq> [] then nr_telegram_chat rule else key))"

definition resolve_chat_id :: "string \<Rightarrow> notify_config option \<Rightarrow> pydict option \<Rightarrow> (string \<times> string) list \<Rightarrow> string" where
  "resolve_chat_id level notify route groups =
     (let key = lower (strip level); node_chat = chat_from_route route in
      case notify of
        None \<Rightarrow> node_chat
      | Some n \<Rightarrow>
          let rule = rule_for_level n key; target = redirected rule key in
          if \<not> nr_enabled rule then []
          else if nr_chat_id rule \<noteq> [] then (if node_chat \<noteq> [] then nr_chat_id rule else [])
          else if target = key then node_chat
          else if \<not> truthy (get (case route of None \<Rightarrow> [] | Some r \<Rightarrow> r) ''enabled'') then []
          else (case map_of groups target of None \<Rightarrow> [] | Some c \<Rightarrow> c))"

subsection \<open>What a block can do\<close>

definition wf_rule :: "string list \<Rightarrow> notify_rule \<Rightarrow> bool" where
  "wf_rule known r \<longleftrightarrow>
     (nr_telegram_chat r = [] \<or> nr_telegram_chat r \<in> set known) \<and> lower (strip (nr_telegram_chat r)) = nr_telegram_chat r \<and>
     strip (nr_chat_id r) = nr_chat_id r"

definition wf_notify :: "string list \<Rightarrow> notify_config \<Rightarrow> bool" where
  "wf_notify known n \<longleftrightarrow> wf_rule known (logging_on_run n) \<and> wf_rule known (alert_on_error n)"

lemma str_or_PStr [simp]: "str_or (PStr s) = s"
  by (cases s) (simp_all add: str_or_def)

lemma is_ws_lower: "is_ws (lower_char c) = is_ws c"
  by (rule is_ws_lower_char)

lemma strip_lower_strip: "strip (lower (strip s)) = lower (strip s)"
proof -
  have drop: "dropWhile is_ws (map lower_char t) = map lower_char (dropWhile is_ws t)" for t
    by (simp add: dropWhile_map comp_def is_ws_lower)
  have "strip (lower t) = lower (strip t)" for t
    by (simp add: strip_def lower_def drop rev_map)
  then show ?thesis by simp
qed

lemma parse_notify_rule_wf:
  assumes "parse_notify_rule known v dflt = Inr r" "wf_rule known dflt"
  shows "wf_rule known r"
proof (cases "\<exists>d. v = PDict d")
  case True
  with assms(1) show ?thesis
    by (auto simp: parse_notify_rule_def wf_rule_def rbind_eq_Inr check_eq_Inr Let_def strip_lower_strip)
next
  case False
  with assms show ?thesis by (auto simp: parse_notify_rule_def wf_rule_def split: pyval.splits)
qed

lemma parse_rule_to_dict:
  assumes "wf_rule known r"
  shows "parse_notify_rule known (PDict (rule_to_dict r)) dflt = Inr r"
  using assms by (simp add: parse_notify_rule_def rule_to_dict_def get_or_def get_def wf_rule_def check_def Let_def)

text \<open>A block that is accepted names only levels that exist, whatever the entry inherits; and a block that is written is read back as it was,
  whatever the defaults are.\<close>

theorem notify_block_is_read_back:
  assumes "wf_notify known base"
  shows "(\<forall>entry n. parse_notify_config known entry defaults (Some base) = Inr n \<longrightarrow> wf_notify known n) \<and>
    parse_notify_config known (PDict [(''notify'', PDict (notify_to_dict base))]) defaults inherit = Inr base"
proof (intro conjI allI impI)
  fix entry n assume "parse_notify_config known entry defaults (Some base) = Inr n"
  with assms show "wf_notify known n"
    by (auto simp: parse_notify_config_def wf_notify_def rbind_eq_Inr Let_def intro: parse_notify_rule_wf)
next
  have "list_all (\<lambda>(k, _). k \<in> set NOTIFY_RULE_NAMES) (notify_to_dict base)"
    by (simp add: notify_to_dict_def NOTIFY_RULE_NAMES_def)
  with assms show "parse_notify_config known (PDict [(''notify'', PDict (notify_to_dict base))]) defaults inherit = Inr base"
    by (simp add: parse_notify_config_def wf_notify_def Let_def get_def is_dict_def as_dict_def check_def)
      (simp add: notify_to_dict_def get_or_def parse_rule_to_dict)
qed


definition on_call :: notify_config where
  "on_call = \<lparr>logging_on_run = \<lparr>nr_enabled = True, nr_telegram_chat = ''private'', nr_chat_id = []\<rparr>,
     alert_on_error = \<lparr>nr_enabled = True, nr_telegram_chat = [], nr_chat_id = ''42''\<rparr>\<rparr>"

definition quiet_node :: pydict where
  "quiet_node = [(''enabled'', PBool True), (''alert'', PBool False), (''chat_id'', PStr [])]"

definition loud_node :: pydict where
  "loud_node = [(''enabled'', PBool True), (''alert'', PBool True), (''chat_id'', PStr ''7'')]"

theorem notify_block_is_read_back_witness:
  "parse_notify_config (known_chat_levels None) (PDict [(''notify'', PDict (notify_to_dict on_call))]) None None = Inr on_call"
proof -
  have "wf_notify (known_chat_levels None) on_call" by code_simp
  from notify_block_is_read_back [OF this, of None None] show ?thesis by simp
qed


text \<open>
  A block is said never to switch on a level the node has switched off. A level the node does not let
  alert, redirected to another level, is sent all the same.
\<close>

theorem redirect_leaves_a_muted_level:
  "chat_from_route (Some quiet_node) = [] \<and>
   resolve_chat_id ''logging'' None (Some quiet_node) [(''private'', ''9'')] = [] \<and>
   resolve_chat_id ''logging'' (Some on_call) (Some quiet_node) [(''private'', ''9'')] = ''9''"
  by code_simp

end
