(* ===== verification/BackupSchedule.thy ===== *)
theory BackupSchedule
  imports DaemonLife
begin

section \<open>Scheduling backups and restores\<close>

text \<open>
  Models \<^verbatim>\<open>dbabrain/backup_restore/schedule.py\<close>: when a backup job, a restore or an offload is due, the
  claim it takes in the run rows, its end, and the pass that closes the runs that died.

  Several processes do this at once. The world is the table of run rows together with what the other
  processes do to it: before each call of the store the next of their moves takes place, or the store
  raises. A list of moves is thus an interleaving, and what is proved holds for every one. The event a
  closed run sends is not modelled; one is sent for each run the pass reports.
\<close>

subsection \<open>The table, shared\<close>

record job_table =
  jt_rows :: "run_row list"
  jt_next :: int

datatype move = Move "job_table \<Rightarrow> job_table" | Outage exn

record shared =
  table :: job_table
  moves :: "move list"

definition store_call :: "(job_table \<Rightarrow> 'a \<times> job_table) \<Rightarrow> (shared, exn, 'a) act" where
  "store_call f w =
     (case moves w of
        [] \<Rightarrow> (Inr (fst (f (table w))), w\<lparr>table := snd (f (table w))\<rparr>)
      | Move m # ms \<Rightarrow> (Inr (fst (f (m (table w)))), \<lparr>table = snd (f (m (table w))), moves = ms\<rparr>)
      | Outage e # ms \<Rightarrow> (Inl e, w\<lparr>moves := ms\<rparr>))"

definition insert_run :: "outside \<Rightarrow> run_row \<Rightarrow> job_table \<Rightarrow> (insert_error + int) \<times> job_table" where
  "insert_run env item t =
     (let rs = jt_rows t @ [stored_row env (jt_next t) item] in
      if \<not> claims_ok rs then (Inl (if claims_its_key item then RunAlreadyClaimed else Raised unique_violation), t)
      else (Inr (jt_next t), \<lparr>jt_rows = rs, jt_next = jt_next t + 1\<rparr>))"

text \<open>\<^verbatim>\<open>update_job_run\<close>: with \<^verbatim>\<open>only_if_running\<close> a row is written only while it says RUNNING.\<close>

definition write_run ::
  "bool \<Rightarrow> int \<Rightarrow> string \<Rightarrow> string \<Rightarrow> string \<Rightarrow> instant \<Rightarrow> int option \<Rightarrow> pydict \<Rightarrow> job_table \<Rightarrow> bool \<times> job_table" where
  "write_run only_if_running lid level st msg finished_time duration md t =
     (let hit = (\<lambda>r. rw_log_id r = lid \<and> (only_if_running \<longrightarrow> is_open r)) in
      (list_ex hit (jt_rows t),
       t\<lparr>jt_rows := map (\<lambda>r. if hit r then close_row level st msg finished_time duration md r else r) (jt_rows t)\<rparr>))"

text \<open>\<^verbatim>\<open>job_code LIKE 'prefix%'\<close>: an underscore of the prefix stands for any character, and SQLite folds the case.\<close>

fun like :: "bool \<Rightarrow> string \<Rightarrow> string \<Rightarrow> bool" where
  "like folds [] code = True"
| "like folds (p # ps) [] = False"
| "like folds (p # ps) (c # cs) = ((p = CHR ''_'' \<or> p = c \<or> (folds \<and> lower_char p = lower_char c)) \<and> like folds ps cs)"

definition running_runs :: "bool \<Rightarrow> string \<Rightarrow> job_table \<Rightarrow> run_row list" where
  "running_runs folds prefix t = filter (\<lambda>r. is_open r \<and> like folds prefix (rw_job_code r)) (jt_rows t)"

subsection \<open>Names\<close>

definition BACKUP_JOB_PREFIX :: string where
  "BACKUP_JOB_PREFIX = ''backup_restore.backup_job''"

definition RESTORE_JOB_PREFIX :: string where
  "RESTORE_JOB_PREFIX = ''backup_restore.restore_job''"

definition OFFLOAD_JOB_PREFIX :: string where
  "OFFLOAD_JOB_PREFIX = ''backup_restore.offload_job''"

definition DEFAULT_REPEAT_SECONDS :: int where
  "DEFAULT_REPEAT_SECONDS = 300"

definition backup_job_code :: "string \<Rightarrow> string \<Rightarrow> string" where
  "backup_job_code backup_id job = BACKUP_JOB_PREFIX @ ''.'' @ backup_id @ ''.'' @ job"

definition restore_job_code :: "string \<Rightarrow> string" where
  "restore_job_code restore_id = RESTORE_JOB_PREFIX @ ''.'' @ restore_id"

definition offload_job_code :: "string \<Rightarrow> string" where
  "offload_job_code backup_id = OFFLOAD_JOB_PREFIX @ ''.'' @ backup_id"

text \<open>\<^verbatim>\<open>s.rsplit(".", 1)[0]\<close>\<close>

definition before_last_dot :: "string \<Rightarrow> string" where
  "before_last_dot s = (if CHR ''.'' \<in> set s then rev (tl (dropWhile (\<lambda>c. c \<noteq> CHR ''.'') (rev s))) else s)"

definition run_ids :: "string \<Rightarrow> pydict \<Rightarrow> string \<times> string" where
  "run_ids code md =
     (let named = (\<lambda>key fallback. if truthy (get md key) then py_str (get md key) else fallback) in
      if startswith code OFFLOAD_JOB_PREFIX then (''backup_id'', named ''backup_id'' (drop (length OFFLOAD_JOB_PREFIX + 1) code))
      else if startswith code BACKUP_JOB_PREFIX
      then (''backup_id'', named ''backup_id'' (before_last_dot (drop (length BACKUP_JOB_PREFIX + 1) code)))
      else (''restore_id'', named ''restore_id'' (drop (length RESTORE_JOB_PREFIX + 1) code)))"

definition run_label :: "string \<Rightarrow> string" where
  "run_label code = fst (run_ids code []) @ ''='' @ snd (run_ids code [])"

subsection \<open>Is it due, is it running\<close>

definition is_due :: "iso_parser \<Rightarrow> string \<Rightarrow> time_window \<Rightarrow> (string \<times> pydict) list \<Rightarrow> instant \<Rightarrow> civil \<Rightarrow> bool" where
  "is_due fromiso code tw latest_runs now local_now =
     (is_time_window_open (Some tw) local_now \<and>
      due (due_from_row fromiso (Some tw) (map_of latest_runs code) now None (repeat_interval tw) None (Some DEFAULT_REPEAT_SECONDS) True))"

definition taken_since :: "string \<Rightarrow> instant \<Rightarrow> (shared, exn, bool) act" where
  "taken_since code since =
     store_call (\<lambda>t. (list_ex (\<lambda>r. rw_job_code r = code \<and> (case rw_started r of Some s \<Rightarrow> since \<le> s | None \<Rightarrow> False)) (jt_rows t), t))"

definition is_running :: "string \<Rightarrow> (string \<times> pydict) list \<Rightarrow> bool" where
  "is_running code latest_runs = (row_status (map_of latest_runs code) = ''running'')"

subsection \<open>Start and end of a run\<close>

definition claimed_row :: "outside \<Rightarrow> string \<Rightarrow> string \<Rightarrow> pydict \<Rightarrow> run_row" where
  "claimed_row env code msg md =
     \<lparr>rw_log_id = 0, rw_job_code = code, rw_level = ''logging'', rw_status = ''RUNNING'', rw_message = msg,
      rw_created = o_clock env code, rw_started = Some (o_clock env code), rw_finished = None, rw_duration = None,
      rw_host = o_host env, rw_claim_key = Some code, rw_metadata = md\<rparr>"

definition start_run :: "outside \<Rightarrow> string \<Rightarrow> string \<Rightarrow> pydict \<Rightarrow> (shared, insert_error, int \<times> instant) act" where
  "start_run env code msg md w =
     (case store_call (insert_run env (claimed_row env code msg md)) w of
        (Inl e, w') \<Rightarrow> (Inl (Raised e), w')
      | (Inr (Inl e), w') \<Rightarrow> (Inl e, w')
      | (Inr (Inr lid), w') \<Rightarrow> (Inr (lid, o_clock env code), w'))"

definition finish_run ::
  "outside \<Rightarrow> string \<Rightarrow> int \<Rightarrow> string \<Rightarrow> string \<Rightarrow> int \<Rightarrow> pydict \<Rightarrow> (shared, exn, instant) act" where
  "finish_run env code lid st msg duration md =
     bnd (store_call (write_run False lid (if st = ''done'' then ''logging'' else ''error'') (upper st) msg (o_clock env code) (Some duration) md))
       (\<lambda>_. ret (o_clock env code))"

subsection \<open>Closing the runs that died\<close>

record reaped_run =
  rr_job_code :: string
  rr_elapsed :: int
  rr_timeout :: int
  rr_id :: "string \<times> string"

definition run_verdict :: "outside \<Rightarrow> (int \<Rightarrow> bool) \<Rightarrow> int \<Rightarrow> int \<Rightarrow> run_row \<Rightarrow> reap_verdict" where
  "run_verdict env alive limit elapsed r =
     (let owner = claim_owner (rw_metadata r) (strip (rw_host r)) in
      reap_verdict (rw_metadata r) (o_host env) (of_int elapsed) (of_int limit)
        (case fst owner of Some pid \<Rightarrow> (if snd owner = o_host env then Some (alive pid) else None) | None \<Rightarrow> None)
        FOREIGN_HOST_GRACE_SECONDS (o_node env) False (strip (rw_host r)))"

definition timeout_message :: "string \<Rightarrow> string \<Rightarrow> int \<Rightarrow> int \<Rightarrow> string" where
  "timeout_message code why elapsed limit =
     run_label code @ '' timed out: '' @ why @ '', after '' @ show_int elapsed @ ''s (timeout='' @ show_int limit @
     ''s). The run died without reporting '' @ [CHR 0xE2, CHR 0x80, CHR 0x94] @
     '' process killed, container restarted, or host rebooted.''"

definition write_timeout :: "outside \<Rightarrow> string \<Rightarrow> int \<Rightarrow> int \<Rightarrow> run_row \<Rightarrow> job_table \<Rightarrow> bool \<times> job_table" where
  "write_timeout env why elapsed limit r =
     write_run True (rw_log_id r) ''error'' ''TIMEOUT'' (timeout_message (rw_job_code r) why elapsed limit) (o_clock env (rw_job_code r))
       (Some (elapsed * 1000))
       (update_with (rw_metadata r) [(''timeout_seconds'', PInt limit), (''elapsed_seconds'', PInt elapsed), (''reaped_by'', PStr (o_host env))])"

text \<open>A timeout that is not configured, absent or 0 means the run is never timed out.\<close>

definition limit_of :: "(string \<times> int option) list \<Rightarrow> run_row \<Rightarrow> int" where
  "limit_of timeouts r = (case map_of timeouts (rw_job_code r) of Some (Some t) \<Rightarrow> t | _ \<Rightarrow> 0)"

definition reap_one ::
  "outside \<Rightarrow> (int \<Rightarrow> bool) \<Rightarrow> (string \<times> int option) list \<Rightarrow> instant \<Rightarrow> reaped_run list \<Rightarrow> run_row \<Rightarrow> (shared, exn, reaped_run list) act" where
  "reap_one env alive timeouts now acc r =
     (let limit = limit_of timeouts r in
      if limit = 0 then ret acc
      else case run_anchor (o_fromiso env) (Some (row_dict env r)) of
        None \<Rightarrow> ret acc
      | Some started \<Rightarrow>
          let elapsed = seconds_since now started; v = run_verdict env alive limit elapsed r in
          if \<not> reap v then ret acc
          else bnd (store_call (write_timeout env (reap_reason v) elapsed limit r)) (\<lambda>closed.
            ret (if closed
                 then acc @ [\<lparr>rr_job_code = rw_job_code r, rr_elapsed = elapsed, rr_timeout = limit, rr_id = run_ids (rw_job_code r) (rw_metadata r)\<rparr>]
                 else acc)))"

definition reap_prefix ::
  "outside \<Rightarrow> (int \<Rightarrow> bool) \<Rightarrow> bool \<Rightarrow> (string \<times> int option) list \<Rightarrow> instant \<Rightarrow> reaped_run list \<Rightarrow> string \<Rightarrow> (shared, exn, reaped_run list) act" where
  "reap_prefix env alive folds timeouts now acc prefix =
     bnd (store_call (\<lambda>t. (running_runs folds prefix t, t))) (\<lambda>rows. loop (reap_one env alive timeouts now) acc rows)"

definition reap_stale_runs ::
  "outside \<Rightarrow> (int \<Rightarrow> bool) \<Rightarrow> bool \<Rightarrow> (string \<times> int option) list \<Rightarrow> instant \<Rightarrow> (shared, exn, reaped_run list) act" where
  "reap_stale_runs env alive folds timeouts now =
     loop (reap_prefix env alive folds timeouts now) [] [BACKUP_JOB_PREFIX, RESTORE_JOB_PREFIX, OFFLOAD_JOB_PREFIX]"

subsection \<open>What holds under every interleaving\<close>

definition upheld :: "(job_table \<Rightarrow> bool) \<Rightarrow> shared \<Rightarrow> bool" where
  "upheld Q w \<longleftrightarrow> Q (table w) \<and> (\<forall>m. Move m \<in> set (moves w) \<longrightarrow> (\<forall>t. Q t \<longrightarrow> Q (m t)))"

lemma call_upholds:
  assumes "upheld Q w" "\<And>t. Q t \<Longrightarrow> Q (snd (f t))"
  shows "upheld Q (snd (store_call f w))"
  using assms by (auto simp: upheld_def store_call_def split: list.splits move.splits)

lemma bnd_upholds:
  assumes "upheld Q (snd (m w))" "\<And>a w'. upheld Q w' \<Longrightarrow> upheld Q (snd (f a w'))"
  shows "upheld Q (snd (bnd m f w))"
  using assms by (auto simp: bnd_def split: prod.splits sum.splits)

text \<open>
  A fact of the table that the other processes keep and that closing a run keeps, is kept by the pass
  over the dead runs.
\<close>

locale table_fact =
  fixes Q :: "job_table \<Rightarrow> bool"
  assumes closing_keeps: "Q t \<Longrightarrow> Q (snd (write_timeout env why elapsed limit r t))"
begin

lemma reap_one_holds: "upheld Q w \<Longrightarrow> upheld Q (snd (reap_one env alive timeouts now acc r w))"
  unfolding reap_one_def Let_def
  by (auto simp: ret_def split: option.splits intro!: bnd_upholds call_upholds closing_keeps)

lemma reap_loop_holds: "upheld Q w \<Longrightarrow> upheld Q (snd (loop (reap_one env alive timeouts now) acc snapshot w))"
  by (rule loop_keeps) (auto intro: reap_one_holds)

lemma reap_prefix_holds: "upheld Q w \<Longrightarrow> upheld Q (snd (reap_prefix env alive folds timeouts now acc prefix w))"
  unfolding reap_prefix_def by (intro bnd_upholds call_upholds reap_loop_holds) auto

lemma reap_stale_runs_holds: "upheld Q w \<Longrightarrow> upheld Q (snd (reap_stale_runs env alive folds timeouts now w))"
  unfolding reap_stale_runs_def by (rule loop_keeps) (auto intro: reap_prefix_holds)

end

lemma timeout_is_closed: "\<not> is_open (close_row level ''TIMEOUT'' msg f dur md r)"
proof -
  have "lower ''TIMEOUT'' \<noteq> ''running''" by code_simp
  then show ?thesis by (simp add: is_open_def close_row_def)
qed

text \<open>A row that is closed stays as it was closed.\<close>

interpretation closed_row: table_fact "\<lambda>t. r \<in> set (jt_rows t) \<and> \<not> is_open r" for r
  by unfold_locales (auto simp: write_timeout_def write_run_def Let_def image_iff intro!: bexI [of _ r])

lemma claims_ok_closed:
  assumes "claims_ok rs" "\<And>r. r \<in> set rs \<Longrightarrow> hit r \<Longrightarrow> \<not> holds_claim (close r)"
  shows "claims_ok (map (\<lambda>r. if hit r then close r else r) rs)"
proof -
  from assms(2) have "filter holds_claim (map (\<lambda>r. if hit r then close r else r) rs) = filter (\<lambda>r. \<not> hit r) (filter holds_claim rs)"
    by (induction rs) auto
  with assms(1) show ?thesis by (simp add: claims_ok_def distinct_map_filter del: filter_filter)
qed

lemma write_run_claims:
  assumes "claims_ok (jt_rows t)" "lower st \<noteq> ''running''"
  shows "claims_ok (jt_rows (snd (write_run guarded lid level st msg f dur md t)))"
  using assms by (auto simp: write_run_def Let_def holds_claim_def close_row_def intro!: claims_ok_closed)

interpretation one_claim: table_fact "\<lambda>t. claims_ok (jt_rows t)"
proof
  fix t env why elapsed limit r
  have "lower ''TIMEOUT'' \<noteq> ''running''" by code_simp
  then show "claims_ok (jt_rows t) \<Longrightarrow> claims_ok (jt_rows (snd (write_timeout env why elapsed limit r t)))"
    unfolding write_timeout_def by (intro write_run_claims)
qed

text \<open>C13: 
  The pass decides on what it read, and its run may have ended since: whatever the rows it read said, a
  run that has written its own end keeps it, as long as nobody else takes it away.
\<close>

theorem ended_run_keeps_its_verdict:
  assumes "loop (reap_one env alive timeouts now) acc read w = (res, w')"
    and "r \<in> set (jt_rows (table w))" "\<not> is_open r"
    and "\<And>m t. Move m \<in> set (moves w) \<Longrightarrow> r \<in> set (jt_rows t) \<Longrightarrow> r \<in> set (jt_rows (m t))"
  shows "r \<in> set (jt_rows (table w'))"
proof -
  have "upheld (\<lambda>t. r \<in> set (jt_rows t) \<and> \<not> is_open r) w" unfolding upheld_def using assms(2-4) by blast
  from closed_row.reap_loop_holds [OF this, of env alive timeouts now acc read] assms(1) show ?thesis
    unfolding upheld_def by simp
qed

subsection \<open>One open run of a job\<close>

text \<open>C14: 
  However the processes interleave, a host has at most one open run of a job: a start, an end and a pass
  over the dead runs keep it when the others do, and a start that is granted holds the only open claim.
\<close>

theorem a_job_runs_once_per_host:
  assumes "upheld (\<lambda>t. claims_ok (jt_rows t)) w"
  shows "claims_ok (jt_rows (table (snd (reap_stale_runs env alive folds timeouts now w)))) \<and>
    claims_ok (jt_rows (table (snd (start_run env code msg md w)))) \<and>
    (lower (upper st) \<noteq> ''running'' \<longrightarrow> claims_ok (jt_rows (table (snd (finish_run env code lid st msg dur md w))))) \<and>
    (\<forall>n t w'. start_run env code msg md w = (Inr (n, t), w') \<and> strip code \<noteq> [] \<longrightarrow>
      (\<exists>r. filter (\<lambda>r. holds_claim r \<and> rw_claim_key r = Some (strip code) \<and> rw_host r = o_host env) (jt_rows (table w')) = [r] \<and> rw_log_id r = n))"
proof (intro conjI allI impI)
  let ?ok = "\<lambda>t. claims_ok (jt_rows t)"
  show "claims_ok (jt_rows (table (snd (reap_stale_runs env alive folds timeouts now w))))"
    using one_claim.reap_stale_runs_holds [OF assms] by (simp add: upheld_def)
  have inserted: "?ok (snd (insert_run env item t))" if "?ok t" for item t
    using that by (auto simp: insert_run_def Let_def)
  then have "upheld ?ok (snd (store_call (insert_run env (claimed_row env code msg md)) w))"
    by (intro call_upholds [OF assms])
  then show "claims_ok (jt_rows (table (snd (start_run env code msg md w))))"
    by (auto simp: start_run_def upheld_def split: prod.splits sum.splits)
  show "claims_ok (jt_rows (table (snd (finish_run env code lid st msg dur md w))))" if "lower (upper st) \<noteq> ''running''"
  proof -
    have "upheld ?ok (snd (finish_run env code lid st msg dur md w))"
      unfolding finish_run_def using that by (intro bnd_upholds call_upholds [OF assms] write_run_claims) (simp_all add: ret_def)
    then show ?thesis by (simp add: upheld_def)
  qed
next
  fix n t w' assume started: "start_run env code msg md w = (Inr (n, t), w') \<and> strip code \<noteq> []"
  let ?item = "claimed_row env code msg md"
  let ?claim = "\<lambda>r. holds_claim r \<and> rw_claim_key r = Some (strip code) \<and> rw_host r = o_host env"
  from started obtain old where "fst (insert_run env ?item old) = Inr n" and w': "table w' = snd (insert_run env ?item old)"
    by (auto simp: start_run_def store_call_def split: prod.splits sum.splits list.splits move.splits)
  then have rows: "jt_rows (table w') = jt_rows old @ [stored_row env n ?item]" "claims_ok (jt_rows old @ [stored_row env n ?item])"
    by (auto simp: w' insert_run_def Let_def split: if_splits)
  have "lower ''RUNNING'' = ''running''" "lower (strip ''RUNNING'') = ''running''" by code_simp+
  with started have new: "?claim (stored_row env n ?item)" "rw_log_id (stored_row env n ?item) = n"
    by (auto simp: stored_row_def claimed_row_def holds_claim_def stored_key_def Let_def)
  have "filter ?claim (jt_rows old) = []"
    using rows(2) new(1) by (auto simp: claims_ok_snoc filter_empty_conv)
  with new rows(1) show "\<exists>r. filter ?claim (jt_rows (table w')) = [r] \<and> rw_log_id r = n" by simp
qed

subsection \<open>Which runs are closed\<close>

text \<open>A run is dead when it has a timeout and a start, and its claim may be taken.\<close>

definition dead :: "outside \<Rightarrow> (int \<Rightarrow> bool) \<Rightarrow> (string \<times> int option) list \<Rightarrow> instant \<Rightarrow> run_row \<Rightarrow> bool" where
  "dead env alive timeouts now r =
     (limit_of timeouts r \<noteq> 0 \<and>
      (case run_anchor (o_fromiso env) (Some (row_dict env r)) of
         None \<Rightarrow> False
       | Some started \<Rightarrow> reap (run_verdict env alive (limit_of timeouts r) (seconds_since now started) r)))"

definition buried :: "outside \<Rightarrow> (int \<Rightarrow> bool) \<Rightarrow> (string \<times> int option) list \<Rightarrow> instant \<Rightarrow> run_row \<Rightarrow> run_row" where
  "buried env alive timeouts now r =
     (case run_anchor (o_fromiso env) (Some (row_dict env r)) of
        None \<Rightarrow> r
      | Some started \<Rightarrow>
          let elapsed = seconds_since now started; limit = limit_of timeouts r in
          close_row ''error'' ''TIMEOUT'' (timeout_message (rw_job_code r) (reap_reason (run_verdict env alive limit elapsed r)) elapsed limit)
            (o_clock env (rw_job_code r)) (Some (elapsed * 1000))
            (update_with (rw_metadata r) [(''timeout_seconds'', PInt limit), (''elapsed_seconds'', PInt elapsed), (''reaped_by'', PStr (o_host env))]) r)"

lemma buried_facts:
  "dead env alive timeouts now r \<Longrightarrow> \<not> is_open (buried env alive timeouts now r)" "rw_log_id (buried env alive timeouts now r) = rw_log_id r"
  by (auto simp: dead_def buried_def timeout_is_closed Let_def split: option.splits) (simp add: close_row_def)

lemma reap_one_alone:
  assumes "moves w = []" "distinct (map rw_log_id (jt_rows (table w)))" "r \<in> set (jt_rows (table w))" "is_open r"
  shows "\<exists>acc'. reap_one env alive timeouts now acc r w =
    (Inr acc', if dead env alive timeouts now r
       then w\<lparr>table := (table w)\<lparr>jt_rows := map (\<lambda>s. if s = r then buried env alive timeouts now r else s) (jt_rows (table w))\<rparr>\<rparr> else w)"
proof (cases "dead env alive timeouts now r")
  case True
  then obtain started where started: "run_anchor (o_fromiso env) (Some (row_dict env r)) = Some started"
    "reap (run_verdict env alive (limit_of timeouts r) (seconds_since now started) r)" "limit_of timeouts r \<noteq> 0"
    by (auto simp: dead_def split: option.splits)
  have same: "rw_log_id s = rw_log_id r \<longleftrightarrow> s = r" if "s \<in> set (jt_rows (table w))" for s
    using that assms(2,3) by (auto simp: distinct_map inj_on_def)
  have "map (\<lambda>s. if rw_log_id s = rw_log_id r \<and> is_open s then f s else s) (jt_rows (table w)) =
      map (\<lambda>s. if s = r then f r else s) (jt_rows (table w))" for f
    using same assms(4) by (intro map_cong) auto
  with True started assms(1,3,4) show ?thesis
    by (auto simp: reap_one_def buried_def Let_def bnd_def store_call_def ret_def write_timeout_def write_run_def)
next
  case False
  then show ?thesis by (auto simp: reap_one_def dead_def Let_def ret_def split: option.splits)
qed

lemma reap_loop_alone:
  assumes "moves w = []" "distinct (map rw_log_id (jt_rows (table w)))" "distinct xs" "set xs \<subseteq> set (jt_rows (table w))" "list_all is_open xs"
  shows "\<exists>acc'. loop (reap_one env alive timeouts now) acc xs w =
    (Inr acc', w\<lparr>table := (table w)\<lparr>jt_rows := map (\<lambda>s. if s \<in> set xs \<and> dead env alive timeouts now s then buried env alive timeouts now s else s)
       (jt_rows (table w))\<rparr>\<rparr>)"
  using assms
proof (induction xs arbitrary: acc w)
  case Nil
  then show ?case by (simp add: ret_def)
next
  case (Cons r xs)
  let ?dead = "dead env alive timeouts now" and ?buried = "buried env alive timeouts now"
  define w1 where "w1 = w\<lparr>table := (table w)\<lparr>jt_rows := map (\<lambda>s. if s = r \<and> ?dead r then ?buried r else s) (jt_rows (table w))\<rparr>\<rparr>"
  obtain acc1 where one: "reap_one env alive timeouts now acc r w = (Inr acc1, w1)"
    using reap_one_alone [of w r env alive timeouts now acc] Cons.prems by (auto simp: w1_def split: if_splits)
  have "map rw_log_id (jt_rows (table w1)) = map rw_log_id (jt_rows (table w))"
    by (simp add: w1_def buried_facts(2))
  with Cons.prems(2) have ids: "distinct (map rw_log_id (jt_rows (table w1)))" by metis
  have quiet: "moves w1 = []" "distinct xs" "list_all is_open xs" using Cons.prems by (simp_all add: w1_def)
  have rest: "set xs \<subseteq> set (jt_rows (table w1))"
    using Cons.prems(3,4) by (force simp: w1_def image_iff)
  obtain acc2 where "loop (reap_one env alive timeouts now) acc1 xs w1 =
      (Inr acc2, w1\<lparr>table := (table w1)\<lparr>jt_rows := map (\<lambda>s. if s \<in> set xs \<and> ?dead s then ?buried s else s) (jt_rows (table w1))\<rparr>\<rparr>)"
    using Cons.IH [OF quiet(1) ids quiet(2) rest quiet(3)] by blast
  moreover have "?buried r \<notin> set xs" if "?dead r" using buried_facts(1) [OF that] Cons.prems(5) by (auto simp: list_all_iff)
  then have "map (\<lambda>s. if s \<in> set xs \<and> ?dead s then ?buried s else s) (jt_rows (table w1)) =
      map (\<lambda>s. if s \<in> set (r # xs) \<and> ?dead s then ?buried s else s) (jt_rows (table w))"
    using Cons.prems(3) by (auto simp: w1_def)
  ultimately show ?case by (simp add: bnd_def one) (simp add: w1_def)
qed

definition cleared :: "outside \<Rightarrow> (int \<Rightarrow> bool) \<Rightarrow> bool \<Rightarrow> (string \<times> int option) list \<Rightarrow> instant \<Rightarrow> string list \<Rightarrow> shared \<Rightarrow> shared" where
  "cleared env alive folds timeouts now prefixes w =
     w\<lparr>table := (table w)\<lparr>jt_rows := map (\<lambda>s.
        if is_open s \<and> list_ex (\<lambda>p. like folds p (rw_job_code s)) prefixes \<and> dead env alive timeouts now s
        then buried env alive timeouts now s else s) (jt_rows (table w))\<rparr>\<rparr>"

lemma reap_prefix_alone:
  assumes "moves w = []" "distinct (map rw_log_id (jt_rows (table w)))"
  shows "\<exists>acc'. reap_prefix env alive folds timeouts now acc p w = (Inr acc', cleared env alive folds timeouts now [p] w)"
proof -
  let ?xs = "running_runs folds p (table w)"
  have xs: "distinct ?xs" "set ?xs \<subseteq> set (jt_rows (table w))" "list_all is_open ?xs"
    using assms(2) by (auto simp: running_runs_def distinct_map list_all_iff)
  have "map (\<lambda>s. if s \<in> set ?xs \<and> dead env alive timeouts now s then buried env alive timeouts now s else s) (jt_rows (table w)) =
      map (\<lambda>s. if is_open s \<and> list_ex (\<lambda>p. like folds p (rw_job_code s)) [p] \<and> dead env alive timeouts now s
        then buried env alive timeouts now s else s) (jt_rows (table w))"
    by (auto simp: running_runs_def)
  with reap_loop_alone [OF assms xs, of env alive timeouts now acc] assms(1) show ?thesis
    by (simp add: reap_prefix_def bnd_def store_call_def cleared_def)
qed

lemma cleared_facts:
  "moves (cleared env alive folds timeouts now ps w) = moves w"
  "map rw_log_id (jt_rows (table (cleared env alive folds timeouts now ps w))) = map rw_log_id (jt_rows (table w))"
  "cleared env alive folds timeouts now ps (cleared env alive folds timeouts now [p] w) = cleared env alive folds timeouts now (p # ps) w"
proof -
  have compose: "(\<lambda>s. if is_open s \<and> list_ex (\<lambda>p. like folds p (rw_job_code s)) ps \<and> dead env alive timeouts now s
      then buried env alive timeouts now s else s) \<circ>
    (\<lambda>s. if is_open s \<and> like folds p (rw_job_code s) \<and> dead env alive timeouts now s then buried env alive timeouts now s else s) =
    (\<lambda>s. if is_open s \<and> (like folds p (rw_job_code s) \<or> list_ex (\<lambda>p. like folds p (rw_job_code s)) ps) \<and> dead env alive timeouts now s
      then buried env alive timeouts now s else s)"
    by (auto simp: fun_eq_iff buried_facts)
  then show "cleared env alive folds timeouts now ps (cleared env alive folds timeouts now [p] w) = cleared env alive folds timeouts now (p # ps) w"
    by (simp add: cleared_def)
qed (auto simp: cleared_def buried_facts)

lemma reap_prefixes_alone:
  assumes "moves w = []" "distinct (map rw_log_id (jt_rows (table w)))"
  shows "\<exists>acc'. loop (reap_prefix env alive folds timeouts now) acc ps w = (Inr acc', cleared env alive folds timeouts now ps w)"
  using assms
proof (induction ps arbitrary: acc w)
  case Nil
  then show ?case by (simp add: ret_def cleared_def)
next
  case (Cons p ps)
  obtain acc1 where "reap_prefix env alive folds timeouts now acc p w = (Inr acc1, cleared env alive folds timeouts now [p] w)"
    using reap_prefix_alone [OF Cons.prems] by blast
  moreover obtain acc2 where "loop (reap_prefix env alive folds timeouts now) acc1 ps (cleared env alive folds timeouts now [p] w) =
      (Inr acc2, cleared env alive folds timeouts now (p # ps) w)"
    using Cons.IH [of "cleared env alive folds timeouts now [p] w" acc1] Cons.prems
    by (metis cleared_facts)
  ultimately show ?case by (simp add: bnd_def)
qed

lemma dead_here:
  assumes "claim_owner (rw_metadata r) (strip (rw_host r)) = (Some pid, o_host env)" "o_host env \<noteq> []"
  shows "dead env alive timeouts now r \<longleftrightarrow>
    limit_of timeouts r \<noteq> 0 \<and> run_anchor (o_fromiso env) (Some (row_dict env r)) \<noteq> None \<and> \<not> alive pid"
  using assms owner_verdict_here [OF assms]
  by (auto simp: dead_def run_verdict_def reap_verdict_reap Let_def split: option.splits)

text \<open>C15: 
  With nobody else at work the pass ends, and closes exactly the open backup, restore and offload runs
  that are dead; and a run claimed by a process of this host is dead only when that process is gone,
  however long it has been running.
\<close>

theorem exactly_the_dead_runs_are_closed:
  assumes "moves w = []" "distinct (map rw_log_id (jt_rows (table w)))"
  shows "(\<exists>reaped. reap_stale_runs env alive folds timeouts now w =
      (Inr reaped, cleared env alive folds timeouts now [BACKUP_JOB_PREFIX, RESTORE_JOB_PREFIX, OFFLOAD_JOB_PREFIX] w)) \<and>
    (\<forall>r pid. claim_owner (rw_metadata r) (strip (rw_host r)) = (Some pid, o_host env) \<and> o_host env \<noteq> [] \<longrightarrow>
      (dead env alive timeouts now r \<longleftrightarrow>
        limit_of timeouts r \<noteq> 0 \<and> run_anchor (o_fromiso env) (Some (row_dict env r)) \<noteq> None \<and> \<not> alive pid))"
proof (intro conjI allI impI)
  show "\<exists>reaped. reap_stale_runs env alive folds timeouts now w =
      (Inr reaped, cleared env alive folds timeouts now [BACKUP_JOB_PREFIX, RESTORE_JOB_PREFIX, OFFLOAD_JOB_PREFIX] w)"
    unfolding reap_stale_runs_def by (rule reap_prefixes_alone [OF assms])
qed (use dead_here in simp)

subsection \<open>A backup that died, and one that ended\<close>

definition nightly :: string where
  "nightly = backup_job_code ''7'' ''full''"

definition nightly_row :: "string \<Rightarrow> run_row" where
  "nightly_row st = \<lparr>rw_log_id = 1, rw_job_code = nightly, rw_level = ''logging'', rw_status = st, rw_message = [],
     rw_created = 0, rw_started = Some 0, rw_finished = None, rw_duration = None, rw_host = ''alpha'', rw_claim_key = Some nightly,
     rw_metadata = [(''claim_pid'', PInt 42), (''claim_host'', PStr ''alpha'')]\<rparr>"

definition night :: outside where
  "night = calm\<lparr>o_host := ''alpha'', o_stamp := (\<lambda>_. ''0''), o_fromiso := (\<lambda>_. Some (0, Some 0))\<rparr>"

definition one_run :: "run_row \<Rightarrow> move list \<Rightarrow> shared" where
  "one_run r ms = \<lparr>table = \<lparr>jt_rows = [r], jt_next = 2\<rparr>, moves = ms\<rparr>"

theorem exactly_the_dead_runs_are_closed_witness:
  "\<exists>reaped w'. reap_stale_runs night (\<lambda>_. False) True [(nightly, Some 600)] (sec 30) (one_run (nightly_row ''RUNNING'') []) = (Inr reaped, w') \<and>
     list_all (\<lambda>r. rw_status r = ''TIMEOUT'') (jt_rows (table w'))"
proof -
  let ?w = "one_run (nightly_row ''RUNNING'') []"
  let ?w' = "cleared night (\<lambda>_. False) True [(nightly, Some 600)] (sec 30) [BACKUP_JOB_PREFIX, RESTORE_JOB_PREFIX, OFFLOAD_JOB_PREFIX] ?w"
  have "moves ?w = []" "distinct (map rw_log_id (jt_rows (table ?w)))" by (simp_all add: one_run_def)
  from exactly_the_dead_runs_are_closed [OF this, of night "\<lambda>_. False" True "[(nightly, Some 600)]" "sec 30"]
  obtain reaped where "reap_stale_runs night (\<lambda>_. False) True [(nightly, Some 600)] (sec 30) ?w = (Inr reaped, ?w')" by blast
  moreover have "list_all (\<lambda>r. rw_status r = ''TIMEOUT'') (jt_rows (table ?w'))" by code_simp
  ultimately show ?thesis by blast
qed

text \<open>The run wrote its end after the pass had read its row as running.\<close>

theorem ended_run_keeps_its_verdict_witness:
  "nightly_row ''DONE'' \<in> set (jt_rows (table (snd
     (loop (reap_one night (\<lambda>_. False) [(nightly, Some 600)] (sec 30)) [] [nightly_row ''RUNNING''] (one_run (nightly_row ''DONE'') [])))))"
proof -
  have closed: "\<not> is_open (nightly_row ''DONE'')" by code_simp
  show ?thesis
    by (rule ended_run_keeps_its_verdict [OF prod.collapse [symmetric] _ closed]) (simp_all add: one_run_def)
qed

theorem a_job_runs_once_per_host_witness:
  "claims_ok (jt_rows (table (snd (start_run night nightly [] [] (one_run (nightly_row ''DONE'') [])))))"
proof -
  have "claims_ok [nightly_row ''DONE'']" by code_simp
  then have "upheld (\<lambda>t. claims_ok (jt_rows t)) (one_run (nightly_row ''DONE'') [])" by (simp add: upheld_def one_run_def)
  from a_job_runs_once_per_host [OF this, where env = night and code = nightly and msg = "[]" and md = "[]"] show ?thesis by blast
qed

end
