(* ===== verification/Spec2Isabelle.thy ===== *)
theory Spec2Isabelle
  imports TimeWindow RunClaim CopyGate RunRequests StoreOutage Scheduler Prune StateTransition BackupChain HealthModel
    BackupPolicy Offload Workflow Confirm Access SqlParams DaemonLife NetworkPolicy RestoreSpace SlaCompliance
    IntervalRates Notify BackupSchedule
begin

text \<open>
  A verification development of the decision core of dba-brain, a toolkit that watches, backs up and
  restores a database estate.

  \<^bold>\<open>The program.\<close> One daemon per node (\<^verbatim>\<open>src/dbabrain/jobs/daemon.py\<close>) starts app commands on a
  schedule or when the console asks; every app is a process that reads its configuration, decides
  with the modules of \<^verbatim>\<open>src/dbabrain/lib\<close>, acts on servers, and writes rows into a shared store
  (\<^verbatim>\<open>src/dbabrain/db\<close>). What the program promises - that nothing runs twice, that a restore uses only
  proven files, that a prune leaves what a restore needs, that a dangerous operation was confirmed -
  is decided by code without I/O. That code is what is modelled here, together with the state it is
  run on.

  \<^bold>\<open>Theories, in the order of their imports.\<close>
  \<^item> \<open>PyPrelude\<close>: JSON values, text, integers, dicts, calendar dates and the operations of the language on
    them; the locales \<open>ranked\<close> (a scale of states and the worst of a list, interpreted for the
    severities of \<open>HealthModel\<close> and the policy states of \<open>BackupPolicy\<close>) and \<open>kept\<close> (an invariant of
    a step relation, interpreted for the queue, the flights, the daemon).
  \<^item> \<open>Coerce\<close>: \<^verbatim>\<open>lib/coerce.py\<close>, \<^verbatim>\<open>lib/errors.py\<close>. \<open>Effects\<close>: actions on a world with exceptions, and the
    two rules for their loops.
  \<^item> \<open>TimeWindow\<close>: \<^verbatim>\<open>lib/time_window.py\<close>. Schedules are parsed into well-formed windows and written back
    unchanged; a window is open exactly on its arc of the dial; when a run is due.
  \<^item> \<open>RunClaim\<close>: \<^verbatim>\<open>lib/run_claim.py\<close>, \<^verbatim>\<open>lib/run_mode.py\<close>. When a claim may be taken from its owner, how
    many processes a command may have.
  \<^item> \<open>RunRequests\<close>: \<^verbatim>\<open>db/run_requests.py\<close>. The run-now queue as a table with its index and its foreign
    key; \<open>queue_step\<close> is one transaction of any process, and the invariants hold over any sequence.
  \<^item> \<open>StoreOutage\<close>: \<^verbatim>\<open>lib/store_outage.py\<close>. Which failures are waited out, and for how long exactly.
  \<^item> \<open>Scheduler\<close>: the scan of \<^verbatim>\<open>jobs/daemon.py\<close> with the run rows of \<^verbatim>\<open>db/store_job_runs.py\<close> and
    \<^verbatim>\<open>lib/node_role.py\<close>; it composes the five theories above. Its state is the daemon's table, the run
    rows, the queue and the live children; \<open>daemon_step\<close> adds the console and the other writers.
  \<^item> \<open>DaemonLife\<close>: the recovery at start-up, the loop of \<^verbatim>\<open>main\<close> and the stop of \<^verbatim>\<open>jobs/daemon.py\<close>;
    \<open>life_step\<close> is one step of a daemon's life, and what the scan keeps holds over a whole life.
  \<^item> \<open>BackupSchedule\<close>: \<^verbatim>\<open>backup_restore/schedule.py\<close> over a table of run rows that other processes write
    between any two calls; a fact of the table that closing a run keeps (the locale \<open>table_fact\<close>, interpreted
    for a closed row and for the claims) is kept by the pass over the dead runs.
  \<^item> \<open>SqlLex\<close>, \<open>SqlText\<close>: \<^verbatim>\<open>lib/sql_text.py\<close>. A script is cut into code, comments and quoted text; the
    statement splitter is compared with a tokenizer, and a bound value never becomes SQL text.
    \<open>SqlParams\<close>: \<^verbatim>\<open>sql_tasks/runner_parameters.py\<close>, from typed words to what a run binds.
  \<^item> \<open>Integrity\<close>: \<^verbatim>\<open>lib/integrity.py\<close>. \<open>CopyGate\<close>: \<^verbatim>\<open>backup_restore/copy_gate.py\<close> over an arbitrary
    transport and catalog: a file reported proven has on the target the bytes it had on the source.
  \<^item> \<open>Retention\<close>: \<^verbatim>\<open>lib/cleanup_retention.py\<close>. \<open>Prune\<close>: \<^verbatim>\<open>lib/backupfiles_retention.py\<close>, both rules of
    which are interpretations of the locale \<open>prune_rule\<close>: what a plan deletes never takes the newest
    chain, and with the window rule every moment of the window stays restorable.
  \<^item> \<open>BackupChain\<close>: \<^verbatim>\<open>lib/sqlserver_backup_chain.py\<close>, \<^verbatim>\<open>lib/backup_level.py\<close>, \<^verbatim>\<open>lib/drill_tiers.py\<close>. The chain
    of a restore refines its specification.
  \<^item> \<open>BackupPolicy\<close>: \<^verbatim>\<open>lib/backup_policy.py\<close>. \<open>Offload\<close>: \<^verbatim>\<open>lib/offload.py\<close>. \<open>HealthModel\<close>:
    \<^verbatim>\<open>lib/health_model.py\<close>. \<open>StateTransition\<close>: \<^verbatim>\<open>lib/state_transition.py\<close> and the notifying run of
    \<^verbatim>\<open>sla/cli.py\<close>. \<open>Workflow\<close>: \<^verbatim>\<open>lib/workflow_steps.py\<close>. \<open>Confirm\<close>: \<^verbatim>\<open>lib/confirmation_ladder.py\<close> and the gate
    of \<^verbatim>\<open>common/confirm.py\<close>. \<open>Access\<close>: \<^verbatim>\<open>lib/cmd_access.py\<close>, \<^verbatim>\<open>lib/sql_access.py\<close>.
    \<open>NetworkPolicy\<close>: \<^verbatim>\<open>lib/network_policy.py\<close> over address words. \<open>RestoreSpace\<close>: \<^verbatim>\<open>lib/restore_space.py\<close>
    and the checks of \<^verbatim>\<open>backup_restore/space.py\<close>.
  \<^item> \<open>PyFloat\<close>: the floats of the language as rationals with infinities and not-a-number, every operation
    rounded to 53 bits; what rounding keeps (order, exact values, decimals of a fixed length).
  \<^item> \<open>SlaPolicies\<close>: \<^verbatim>\<open>sla/policies.py\<close>. \<open>RestoreDrill\<close>: \<^verbatim>\<open>db/restore_drill.py\<close>. \<open>SlaCompliance\<close>:
    \<^verbatim>\<open>sla/compliance.py\<close>, which composes the two with \<open>BackupPolicy\<close>: the population of a policy is the
    inventory's, a pass rests on fresh and sufficient measurements, a failed collection judges nobody,
    the budget adds up. The two builders of a verdict per target are interpretations of the locale
    \<open>target_builder\<close>.
  \<^item> \<open>IntervalRates\<close>: \<^verbatim>\<open>lib/interval_rates.py\<close>. A rate is the difference of two samples of one run of the
    engine: the interval takes the nearest pair that may be subtracted, the window the widest.
  \<^item> \<open>Notify\<close>: \<^verbatim>\<open>lib/notify.py\<close>, \<^verbatim>\<open>lib/notify_route.py\<close>. What the block of an entry can do to the route of
    its node.

  \<^bold>\<open>Correspondence.\<close> A Python function is a function of the same name, a dataclass a record, a raise a
  constructor of the theory's error type; a function that mutates returns its state. A dict is an
  association list in insertion order. Instants are integer microseconds, elapsed seconds exact
  rationals, floats the values of \<open>PyFloat\<close>, text a list of bytes. A log line, a printed banner and the wording of most sentences
  are left out; where a sentence is an answer it is either written out or a datatype of the values
  it prints.

  \<^bold>\<open>Parameters.\<close> Code outside the repository is an argument: \<open>fromiso\<close> and \<open>fl\<close> (the ISO and decimal
  parsers of the standard library), \<open>loads\<close> (JSON), \<open>stamp\<close> and \<open>strptime\<close> (calendar text), the three
  callables and the catalog of the copy gate, the ladder file and the typed lines of the gate, the
  answers of clock, store and processes to a scan (\<open>outside\<close>), \<open>shlex\<close> and \<open>dumps\<close> (words of a command line,
  JSON text), \<open>parse_net\<close>, \<open>parse_ip\<close> and \<open>net_text\<close> (addresses), and for an SLA run
  the answers of store, inventory and files (\<open>sources\<close>) and the readers and printers of dates and floats
  (\<open>readers\<close>). What is proved holds for all of them
  unless a hypothesis of the theorem says otherwise.

  \<^bold>\<open>Loops.\<close> Nearly every loop of the modelled code runs over a list the code has built, so it is
  structural recursion and no fuel is used. The scanners of \<open>SqlLex\<close> and \<open>SqlText\<close> recurse on the rest of
  the text, and end because each step takes a character of it; the two loops with a bound of their
  own, the attempts of the copy gate and the waits of an outage, are shown to end with an answer.
  The main loop of the daemon is a step relation.

  \<^bold>\<open>Not modelled.\<close> Collectors, reports, dashboards, the web console, Telegram, remote execution, the
  database tools driven by \<^verbatim>\<open>backup_restore\<close> and the SQL of the stores are I/O and text. Of the daemon,
  the sweep of old result files is left out. Not yet modelled of the decision code:
  \<^verbatim>\<open>lib/event_policy.py\<close>, \<^verbatim>\<open>lib/capacity_forecast.py\<close> and the monthly reports of
  \<^verbatim>\<open>sla\<close>.
\<close>

end
